(* ===== verification/Prelude.thy ===== *)
theory Prelude imports Main begin

text \<open>
  Shared vocabulary of the development: keyed tables (lists of rows with SQL-style
  selection and update), JSON values as the code decodes them, the string helpers of the
  Go and TypeScript sources, and the lemmas about them that every component uses.
  A database table is the list of its rows in insertion order; a statement that the
  code sends is a function on that list.
\<close>

section \<open>Collections of hints\<close>

named_theorems table_simps \<open>facts about selecting from and updating keyed tables\<close>
named_theorems text_simps \<open>facts about the string helpers\<close>

section \<open>Keyed tables\<close>

definition update_where :: "('r \<Rightarrow> bool) \<Rightarrow> ('r \<Rightarrow> 'r) \<Rightarrow> 'r list \<Rightarrow> 'r list" where
  "update_where P f rows = map (\<lambda>r. if P r then f r else r) rows"

definition affected :: "('r \<Rightarrow> bool) \<Rightarrow> 'r list \<Rightarrow> nat" where
  "affected P rows = length (filter P rows)"

definition find_by :: "('r \<Rightarrow> 'k) \<Rightarrow> 'k \<Rightarrow> 'r list \<Rightarrow> 'r option" where
  "find_by key k rows = List.find (\<lambda>r. key r = k) rows"

lemma find_by_Nil [simp]: "find_by key k [] = None"
  by (simp add: find_by_def)

lemma find_by_Cons [simp]:
  "find_by key k (r # rows) = (if key r = k then Some r else find_by key k rows)"
  by (simp add: find_by_def)

lemma find_by_append [table_simps]:
  "find_by key k (xs @ ys) = (case find_by key k xs of None \<Rightarrow> find_by key k ys | Some r \<Rightarrow> Some r)"
  by (induction xs) auto

lemma find_by_SomeD: "find_by key k rows = Some r \<Longrightarrow> r \<in> set rows \<and> key r = k"
  by (induction rows) (auto split: if_splits)

lemma find_by_None [table_simps]: "find_by key k rows = None \<longleftrightarrow> k \<notin> key ` set rows"
  by (induction rows) auto

lemma find_by_unique:
  "distinct (map key rows) \<Longrightarrow> r \<in> set rows \<Longrightarrow> find_by key (key r) rows = Some r"
  by (induction rows) auto

lemma find_by_iff:
  "distinct (map key rows) \<Longrightarrow> find_by key k rows = Some r \<longleftrightarrow> r \<in> set rows \<and> key r = k"
  using find_by_SomeD find_by_unique by fastforce

lemma update_where_Nil [simp]: "update_where P f [] = []"
  by (simp add: update_where_def)

lemma update_where_Cons [simp]:
  "update_where P f (r # rows) = (if P r then f r else r) # update_where P f rows"
  by (simp add: update_where_def)

lemma update_where_append [table_simps]:
  "update_where P f (xs @ ys) = update_where P f xs @ update_where P f ys"
  by (simp add: update_where_def)

lemma length_update_where [simp]: "length (update_where P f rows) = length rows"
  by (simp add: update_where_def)

lemma set_update_where [table_simps]:
  "set (update_where P f rows) = (\<lambda>r. if P r then f r else r) ` set rows"
  by (simp add: update_where_def)

lemma map_update_where [table_simps]:
  assumes "\<And>r. P r \<Longrightarrow> g (f r) = g r"
  shows "map g (update_where P f rows) = map g rows"
  using assms by (simp add: update_where_def)

lemma update_where_none:
  "(\<And>r. r \<in> set rows \<Longrightarrow> \<not> P r) \<Longrightarrow> update_where P f rows = rows"
  by (induction rows) auto

lemma find_by_update_where:
  assumes "\<And>r. P r \<Longrightarrow> key (f r) = key r"
  shows "find_by key k (update_where P f rows)
       = map_option (\<lambda>r. if P r then f r else r) (find_by key k rows)"
  using assms by (induction rows) auto

lemma affected_unique:
  assumes "distinct (map key rows)" "find_by key k rows = Some r"
  shows "affected (\<lambda>x. key x = k \<and> Q x) rows = (if Q r then 1 else 0)"
  using assms
proof (induction rows)
  case Nil
  then show ?case by simp
next
  case (Cons x rows)
  show ?case
  proof (cases "key x = k")
    case True
    then have "\<forall>y \<in> set rows. key y \<noteq> k" using Cons.prems(1) by (auto simp: image_iff)
    then have "filter (\<lambda>y. key y = k \<and> Q y) rows = []" by (auto simp: filter_empty_conv)
    then show ?thesis using True Cons.prems(2) by (simp add: affected_def)
  next
    case False
    then show ?thesis using Cons by (simp add: affected_def)
  qed
qed

lemma affected_none:
  "find_by key k rows = None \<Longrightarrow> affected (\<lambda>x. key x = k \<and> Q x) rows = 0"
  by (auto simp: affected_def filter_empty_conv table_simps)

text \<open>Assignment to a key of a map kept as a list of pairs, and removal of a key.\<close>

definition put_key :: "'k \<Rightarrow> 'v \<Rightarrow> ('k \<times> 'v) list \<Rightarrow> ('k \<times> 'v) list" where
  "put_key k v al = filter (\<lambda>p. fst p \<noteq> k) al @ [(k, v)]"

definition delete_key :: "'k \<Rightarrow> ('k \<times> 'v) list \<Rightarrow> ('k \<times> 'v) list" where
  "delete_key k al = filter (\<lambda>p. fst p \<noteq> k) al"

lemma map_of_filter_key:
  "map_of (filter (\<lambda>p. fst p \<noteq> k) al) j = (if j = k then None else map_of al j)"
  by (induction al) auto

lemma map_of_put_key [table_simps]: "map_of (put_key k v al) = (map_of al)(k \<mapsto> v)"
  by (rule ext) (simp add: put_key_def map_add_def map_of_filter_key split: option.splits)

lemma map_of_delete_key [table_simps]: "map_of (delete_key k al) = (map_of al)(k := None)"
  by (rule ext) (simp add: delete_key_def map_of_filter_key)

lemma set_put_key [table_simps]: "set (put_key k v al) = {p \<in> set al. fst p \<noteq> k} \<union> {(k, v)}"
  by (auto simp: put_key_def)

lemma set_delete_key [table_simps]: "set (delete_key k al) = {p \<in> set al. fst p \<noteq> k}"
  by (auto simp: delete_key_def)

lemma distinct_map_filter_append:
  "distinct (map f al) \<Longrightarrow> f x \<notin> f ` set (filter P al) \<Longrightarrow> distinct (map f (filter P al @ [x]))"
  by (induction al) auto

section \<open>JSON values\<close>

text \<open>
  A decoded JSON value. Numbers are the integers the code exchanges. Object members are
  kept in order; a duplicate member is resolved by the last one, as both
  \<^verbatim>\<open>encoding/json\<close> and \<^verbatim>\<open>JSON.parse\<close> do.
\<close>

datatype json = JNull | JBool bool | JNum int | JStr string | JArr "json list"
  | JObj "(string \<times> json) list"

fun json_member :: "string \<Rightarrow> json \<Rightarrow> json option" where
  "json_member name (JObj ms) = map_of (rev ms) name"
| "json_member name _ = None"

text \<open>
  Decoding one string field of a Go struct: a missing member or \<^verbatim>\<open>null\<close> leaves the zero
  value \<^verbatim>\<open>""\<close>, a member of another type is an error, and so is a document that is not an
  object (\<^verbatim>\<open>null\<close> excepted). \<open>None\<close> as the document is text that is not JSON.
\<close>

fun decode_string_field :: "string \<Rightarrow> json option \<Rightarrow> string option" where
  "decode_string_field name None = None"
| "decode_string_field name (Some JNull) = Some ''''"
| "decode_string_field name (Some (JObj ms)) =
     (case json_member name (JObj ms) of
        None \<Rightarrow> Some ''''
      | Some JNull \<Rightarrow> Some ''''
      | Some (JStr s) \<Rightarrow> Some s
      | Some _ \<Rightarrow> None)"
| "decode_string_field name (Some _) = None"

section \<open>Strings\<close>

definition starts_with :: "string \<Rightarrow> string \<Rightarrow> bool" where
  "starts_with s p \<longleftrightarrow> take (length p) s = p"

lemma starts_with_append [simp]: "starts_with (p @ s) p"
  by (simp add: starts_with_def)

lemma starts_with_iff: "starts_with s p \<longleftrightarrow> (\<exists>r. s = p @ r)"
  by (metis append_eq_conv_conj append_take_drop_id starts_with_def)

text \<open>Removing leading and trailing characters of a class, as \<^verbatim>\<open>trim\<close> does.\<close>

definition trim_by :: "(char \<Rightarrow> bool) \<Rightarrow> string \<Rightarrow> string" where
  "trim_by P s = rev (dropWhile P (rev (dropWhile P s)))"

definition trimmed_by :: "(char \<Rightarrow> bool) \<Rightarrow> string \<Rightarrow> bool" where
  "trimmed_by P s \<longleftrightarrow> s = [] \<or> \<not> P (hd s) \<and> \<not> P (last s)"

lemma set_trim_by: "set (trim_by P s) \<subseteq> set s"
  by (auto simp: trim_by_def dest!: set_dropWhileD)

lemma trim_by_trimmed [text_simps]: "trimmed_by P s \<Longrightarrow> trim_by P s = s"
proof (cases "s = []")
  case False
  assume "trimmed_by P s"
  then have "dropWhile P s = s" "dropWhile P (rev s) = rev s"
    using False by (simp_all add: trimmed_by_def dropWhile_eq_self_iff hd_rev)
  then show ?thesis by (simp add: trim_by_def)
qed (simp add: trim_by_def)

lemma dropWhile_rev_keeps_hd:
  assumes "dropWhile P (rev xs) \<noteq> []"
  shows "hd (rev (dropWhile P (rev xs))) = hd xs"
proof -
  have "xs = rev (dropWhile P (rev xs)) @ rev (takeWhile P (rev xs))"
    by (metis rev_append rev_rev_ident takeWhile_dropWhile_id)
  then show ?thesis by (metis assms hd_append2 rev_is_Nil_conv)
qed

lemma trim_by_is_trimmed [text_simps]: "trimmed_by P (trim_by P s)"
proof (cases "trim_by P s = []")
  case False
  then have ne: "dropWhile P (rev (dropWhile P s)) \<noteq> []" by (simp add: trim_by_def)
  then have hd1: "hd (trim_by P s) = hd (dropWhile P s)"
    by (simp add: trim_by_def dropWhile_rev_keeps_hd)
  have "dropWhile P s \<noteq> []" using ne by (metis dropWhile.simps(1) rev.simps(1))
  then have "\<not> P (hd (dropWhile P s))" by (rule hd_dropWhile)
  moreover have "\<not> P (last (trim_by P s))"
    using ne hd_dropWhile [OF ne] by (simp add: trim_by_def last_rev)
  ultimately show ?thesis using hd1 by (simp add: trimmed_by_def)
qed (simp add: trimmed_by_def)

lemma trim_by_idem [simp]: "trim_by P (trim_by P s) = trim_by P s"
  by (rule trim_by_trimmed) (rule trim_by_is_trimmed)

text \<open>
  White space. Go strings are byte strings: \<^verbatim>\<open>strings.TrimSpace\<close> on the ASCII bytes the code
  handles. JavaScript strings are taken over the code units below 256 (one \<^typ>\<open>char\<close>
  each), where \<^verbatim>\<open>trim\<close> also removes the no-break space.
\<close>

definition go_space :: "char \<Rightarrow> bool" where
  "go_space c \<longleftrightarrow> of_char c \<in> {9, 10, 11, 12, 13, 32 :: nat}"

definition js_space :: "char \<Rightarrow> bool" where
  "js_space c \<longleftrightarrow> of_char c \<in> {9, 10, 11, 12, 13, 32, 160 :: nat}"

abbreviation go_trim :: "string \<Rightarrow> string" where
  "go_trim \<equiv> trim_by go_space"

abbreviation js_trim :: "string \<Rightarrow> string" where
  "js_trim \<equiv> trim_by js_space"

text \<open>\<^verbatim>\<open>s.split(',')\<close>: the pieces between separators, never the empty list.\<close>

fun split_on :: "char \<Rightarrow> string \<Rightarrow> string list" where
  "split_on sep [] = [[]]"
| "split_on sep (c # s) =
     (if c = sep then [] # split_on sep s
      else (case split_on sep s of [] \<Rightarrow> [[c]] | p # ps \<Rightarrow> (c # p) # ps))"

lemma split_on_nonempty: "split_on sep s \<noteq> []"
  by (cases s) (auto split: list.splits)

lemma split_on_no_sep: "p \<in> set (split_on sep s) \<Longrightarrow> sep \<notin> set p"
proof (induction s arbitrary: p)
  case (Cons c s)
  then show ?case
    by (cases "split_on sep s") (auto split: if_splits)
qed simp

lemma split_on_none: "sep \<notin> set p \<Longrightarrow> split_on sep p = [p]"
  by (induction p) auto

lemma split_on_cons: "sep \<notin> set p \<Longrightarrow> split_on sep (p @ sep # s) = p # split_on sep s"
  by (induction p) auto

fun join_with :: "char \<Rightarrow> string list \<Rightarrow> string" where
  "join_with sep [] = []"
| "join_with sep [p] = p"
| "join_with sep (p # q # ps) = p @ sep # join_with sep (q # ps)"

lemma split_join:
  "ps \<noteq> [] \<Longrightarrow> \<forall>p \<in> set ps. sep \<notin> set p \<Longrightarrow> split_on sep (join_with sep ps) = ps"
proof (induction ps rule: join_with.induct)
  case (2 sep p)
  then show ?case by (simp add: split_on_none)
next
  case (3 sep p q ps)
  then show ?case by (simp add: split_on_cons)
qed simp

lemma join_split: "join_with sep (split_on sep s) = s"
proof (induction s)
  case (Cons c s)
  obtain p ps where s: "split_on sep s = p # ps"
    by (metis list.exhaust split_on_nonempty)
  then show ?case using Cons by (cases ps) auto
qed simp

text \<open>\<^verbatim>\<open>strings.ToLower\<close> on the ASCII letters.\<close>

definition go_lower :: "string \<Rightarrow> string" where
  "go_lower s = map (\<lambda>c. let n = of_char c :: nat in if 65 \<le> n \<and> n \<le> 90 then char_of (n + 32) else c) s"

end
