(* ===== verification/GoTime.thy ===== *)
theory GoTime imports Prelude begin

text \<open>
  Times as the repositories store and compare them. A Go \<^verbatim>\<open>time.Time\<close> in UTC is a count of
  nanoseconds since 1970-01-01T00:00:00Z. On SQLite every repository writes
  \<^verbatim>\<open>value.UTC().Format(time.RFC3339Nano)\<close> into a \<^verbatim>\<open>TEXT\<close> column, so comparing two columns
  compares two texts byte by byte; on MySQL it writes a \<^verbatim>\<open>DATETIME(6)\<close>. This theory models
  the format and the comparison, and says how far the order of the texts is the order of
  the times: it is whenever the times differ in their whole seconds, and only then in
  general, because \<^verbatim>\<open>RFC3339Nano\<close> drops the trailing zeros of the fraction.
\<close>

section \<open>Civil time\<close>

type_synonym time = nat

definition second :: time where
  "second = 1000000000"

definition leap_year :: "nat \<Rightarrow> bool" where
  "leap_year y \<longleftrightarrow> 4 dvd y \<and> (\<not> 100 dvd y \<or> 400 dvd y)"

definition year_length :: "nat \<Rightarrow> nat" where
  "year_length y = (if leap_year y then 366 else 365)"

lemma year_length_pos [simp]: "0 < year_length y"
  by (simp add: year_length_def)

text \<open>Year and day of the year of a day count that starts with year \<open>y\<close>.\<close>

function civil_year :: "nat \<Rightarrow> nat \<Rightarrow> nat \<times> nat" where
  "civil_year y d = (if d < year_length y then (y, d) else civil_year (Suc y) (d - year_length y))"
  by pat_completeness auto
termination
proof (relation "measure snd")
  fix y d :: nat
  assume "\<not> d < year_length y"
  then show "((Suc y, d - year_length y), y, d) \<in> measure snd"
    using year_length_pos [of y] by (simp del: year_length_pos)
qed simp

declare civil_year.simps [simp del]

definition month_lengths :: "nat \<Rightarrow> nat list" where
  "month_lengths y = [31, if leap_year y then 29 else 28, 31, 30, 31, 30, 31, 31, 30, 31, 30, 31]"

text \<open>Month and day of the month (both from 1) of a day of the year.\<close>

fun civil_month :: "nat \<Rightarrow> nat list \<Rightarrow> nat \<Rightarrow> nat \<times> nat" where
  "civil_month m [] d = (m, d + 1)"
| "civil_month m (l # ls) d = (if d < l then (m, d + 1) else civil_month (Suc m) ls (d - l))"

section \<open>time.RFC3339Nano\<close>

text \<open>A number in decimal with a fixed width, as \<^verbatim>\<open>appendInt\<close> writes the fields.\<close>

definition digit :: "nat \<Rightarrow> char" where
  "digit n = char_of (48 + n)"

fun decimal :: "nat \<Rightarrow> nat \<Rightarrow> string" where
  "decimal 0 n = []"
| "decimal (Suc w) n = decimal w (n div 10) @ [digit (n mod 10)]"

text \<open>A number in decimal without leading zeros.\<close>

fun digits_of :: "nat \<Rightarrow> string" where
  "digits_of n = (if n < 10 then [digit n] else digits_of (n div 10) @ [digit (n mod 10)])"

declare digits_of.simps [simp del]

definition strip_zeros :: "string \<Rightarrow> string" where
  "strip_zeros s = rev (dropWhile (\<lambda>c. c = digit 0) (rev s))"

definition fraction :: "nat \<Rightarrow> string" where
  "fraction ns = (if ns = 0 then '''' else ''.'' @ strip_zeros (decimal 9 ns))"

definition civil_prefix :: "nat \<Rightarrow> string" where
  "civil_prefix secs =
     (let (y, doy) = civil_year 1970 (secs div 86400);
          (m, d) = civil_month 1 (month_lengths y) doy;
          r = secs mod 86400
      in decimal 4 y @ ''-'' @ decimal 2 m @ ''-'' @ decimal 2 d @ ''T'' @
         decimal 2 (r div 3600) @ '':'' @ decimal 2 (r div 60 mod 60) @ '':'' @ decimal 2 (r mod 60))"

definition rfc3339nano :: "time \<Rightarrow> string" where
  "rfc3339nano t = civil_prefix (t div second) @ fraction (t mod second) @ ''Z''"

section \<open>Comparing columns\<close>

text \<open>SQLite compares \<^verbatim>\<open>TEXT\<close> values byte by byte (its default collation).\<close>

fun text_less :: "string \<Rightarrow> string \<Rightarrow> bool" where
  "text_less _ [] = False"
| "text_less [] (c # cs) = True"
| "text_less (a # as) (b # bs) =
     ((of_char a :: nat) < of_char b \<or> a = b \<and> text_less as bs)"

definition text_le :: "string \<Rightarrow> string \<Rightarrow> bool" where
  "text_le a b \<longleftrightarrow> a = b \<or> text_less a b"

text \<open>
  \<open>timeValue\<close> of the repositories: the value bound to a column, and the order the
  engine compares such columns by. MySQL's \<^verbatim>\<open>DATETIME(6)\<close> keeps microseconds, rounded to the nearest.
\<close>

datatype dialect = SQLite | MySQL

datatype column = TextColumn string | DateTimeColumn nat

fun time_value :: "dialect \<Rightarrow> time \<Rightarrow> column" where
  "time_value SQLite t = TextColumn (rfc3339nano t)"
| "time_value MySQL t = DateTimeColumn ((t + 500) div 1000)"

fun column_le :: "column \<Rightarrow> column \<Rightarrow> bool" where
  "column_le (TextColumn a) (TextColumn b) = text_le a b"
| "column_le (DateTimeColumn a) (DateTimeColumn b) = (a \<le> b)"
| "column_le _ _ = False"

definition time_le :: "dialect \<Rightarrow> time \<Rightarrow> time \<Rightarrow> bool" where
  "time_le d a b = column_le (time_value d a) (time_value d b)"

section \<open>Order of the texts\<close>

lemma text_less_append:
  "length a = length b \<Longrightarrow> text_less a b \<Longrightarrow> text_less (a @ x) (b @ y)"
  by (induction a b rule: list_induct2) auto

lemma text_less_same_prefix [text_simps]: "text_less (p @ a) (p @ b) = text_less a b"
  by (induction p) auto

lemma text_less_total: "a = b \<or> text_less a b \<or> text_less b a"
proof (induction a b rule: text_less.induct)
  case (3 a as b bs)
  then show ?case by (cases "(of_char a :: nat) < of_char b") (auto simp: not_less le_less)
qed (auto simp: neq_Nil_conv, metis list.exhaust text_less.simps(2))

lemma text_less_trans: "text_less a b \<Longrightarrow> text_less b c \<Longrightarrow> text_less a c"
proof (induction a c arbitrary: b rule: text_less.induct)
  case (1 a)
  then show ?case by (cases b) auto
next
  case (3 a as c cs)
  then show ?case by (cases b) auto
qed simp

lemma text_less_irrefl [simp]: "\<not> text_less a a"
  by (induction a) auto

lemma length_decimal [simp]: "length (decimal w n) = w"
  by (induction w arbitrary: n) auto

lemma digit_code: "n < 10 \<Longrightarrow> of_char (digit n) = 48 + n"
  by (simp add: digit_def)

lemma decimal_mono:
  "m < n \<Longrightarrow> n < 10 ^ w \<Longrightarrow> text_less (decimal w m) (decimal w n)"
proof (induction w arbitrary: m n)
  case (Suc w)
  show ?case
  proof (cases "m div 10 = n div 10")
    case True
    then have "m mod 10 < n mod 10"
      using Suc.prems(1) by (metis add_left_cancel div_mult_mod_eq linorder_neqE_nat
        mod_less_divisor nat_add_left_cancel_less not_less_iff_gr_or_eq)
    then show ?thesis using True by (simp add: text_simps digit_code)
  next
    case False
    then have "m div 10 < n div 10" using Suc.prems(1)
      by (meson div_le_mono le_neq_implies_less less_imp_le_nat)
    moreover have "n div 10 < 10 ^ w" using Suc.prems(2) by (simp add: less_mult_imp_div_less mult.commute)
    ultimately show ?thesis using Suc.IH by (simp add: text_less_append)
  qed
qed simp


text \<open>Two texts made of fields of equal width compare field by field.\<close>

lemma text_less_field:
  assumes "length a = length b" and "text_less a b \<or> a = b \<and> text_less x y"
  shows "text_less (a @ x) (b @ y)"
  using assms by (auto simp: text_less_append text_less_same_prefix)

lemma decimal_field:
  assumes "n < 10 ^ w" and "m < n \<or> m = n \<and> text_less x y"
  shows "text_less (decimal w m @ x) (decimal w n @ y)"
  using assms by (auto intro!: text_less_field simp: decimal_mono)

lemma civil_year_bound: "snd (civil_year y d) < year_length (fst (civil_year y d))"
proof (induction y d rule: civil_year.induct)
  case (1 y d)
  then show ?case by (cases "d < year_length y") (simp_all add: civil_year.simps [of y d])
qed

lemma civil_year_ge: "y \<le> fst (civil_year y d)"
proof (induction y d rule: civil_year.induct)
  case (1 y d)
  then show ?case by (cases "d < year_length y") (simp_all add: civil_year.simps [of y d])
qed

lemma civil_year_mono:
  "d < d' \<Longrightarrow> fst (civil_year y d) < fst (civil_year y d') \<or>
     fst (civil_year y d) = fst (civil_year y d') \<and> snd (civil_year y d) < snd (civil_year y d')"
proof (induction y d arbitrary: d' rule: civil_year.induct)
  case (1 y d)
  show ?case
  proof (cases "d < year_length y")
    case True
    have "Suc y \<le> fst (civil_year (Suc y) (d' - year_length y))" by (rule civil_year_ge)
    then show ?thesis using True 1(2)
      by (cases "d' < year_length y")
         (simp_all add: civil_year.simps [of y d] civil_year.simps [of y d'])
  next
    case False
    then have "d - year_length y < d' - year_length y" using 1(2) by simp
    from 1(1) [OF False this] show ?thesis using False 1(2)
      by (simp add: civil_year.simps [of y d] civil_year.simps [of y d'])
  qed
qed

lemma civil_month_ge: "m \<le> fst (civil_month m ls d)"
proof (induction m ls d rule: civil_month.induct)
  case (2 m l ls d)
  then show ?case by (cases "d < l") simp_all
qed simp

lemma civil_month_le: "fst (civil_month m ls d) \<le> m + length ls"
proof (induction m ls d rule: civil_month.induct)
  case (2 m l ls d)
  then show ?case by (cases "d < l") simp_all
qed simp

lemma civil_month_day:
  "d < sum_list ls \<Longrightarrow> \<forall>l \<in> set ls. l \<le> 31 \<Longrightarrow> snd (civil_month m ls d) \<le> 31"
  by (induction m ls d rule: civil_month.induct) auto

lemma civil_month_mono:
  "d < d' \<Longrightarrow> fst (civil_month m ls d) < fst (civil_month m ls d') \<or>
     fst (civil_month m ls d) = fst (civil_month m ls d') \<and> snd (civil_month m ls d) < snd (civil_month m ls d')"
proof (induction m ls d arbitrary: d' rule: civil_month.induct)
  case (2 m l ls d)
  show ?case
  proof (cases "d < l")
    case True
    have "Suc m \<le> fst (civil_month (Suc m) ls (d' - l))" by (rule civil_month_ge)
    then show ?thesis using True 2(2) by simp
  next
    case False
    then have "d - l < d' - l" using 2(2) by simp
    from 2(1) [OF False this] show ?thesis using False 2(2) by simp
  qed
qed simp

lemma month_lengths_sum: "sum_list (month_lengths y) = year_length y"
  by (simp add: month_lengths_def year_length_def)

lemma length_month_lengths: "length (month_lengths y) = 12"
  by (simp add: month_lengths_def)

lemma month_lengths_le: "\<forall>l \<in> set (month_lengths y). l \<le> 31"
  by (simp add: month_lengths_def)

definition four_digit_year :: "time \<Rightarrow> bool" where
  "four_digit_year t \<longleftrightarrow> fst (civil_year 1970 (t div second div 86400)) < 10000"

lemma mod_less_same_div:
  fixes a b k :: nat
  assumes "a < b" "a div k = b div k"
  shows "a mod k < b mod k"
  using assms by (metis add_less_cancel_left div_mult_mod_eq)

lemma clock_fields_mono:
  fixes r r' :: nat
  assumes "r < r'"
  shows "r div 3600 < r' div 3600 \<or> r div 3600 = r' div 3600 \<and>
    (r div 60 mod 60 < r' div 60 mod 60 \<or> r div 60 mod 60 = r' div 60 mod 60 \<and> r mod 60 < r' mod 60)"
proof -
  have q: "r div 60 div 60 = r div 3600" "r' div 60 div 60 = r' div 3600"
    by (simp_all add: div_mult2_eq [symmetric])
  have lex: "a div 60 < b div 60 \<or> a div 60 = b div 60 \<and> a mod 60 < b mod 60" if "a < b" for a b :: nat
  proof (cases "a div 60 = b div 60")
    case True
    then show ?thesis using that mod_less_same_div by simp
  next
    case False
    then show ?thesis using that div_le_mono [of a b 60] by simp
  qed
  show ?thesis
    using lex [OF assms] lex [of "r div 60" "r' div 60"] q by auto
qed

lemma clock_text_mono:
  assumes "r < r'" "r' < 86400"
  shows "text_less (decimal 2 (r div 3600) @ '':'' @ decimal 2 (r div 60 mod 60) @ '':'' @ decimal 2 (r mod 60) @ x)
    (decimal 2 (r' div 3600) @ '':'' @ decimal 2 (r' div 60 mod 60) @ '':'' @ decimal 2 (r' mod 60) @ y)"
proof -
  have b: "r' div 3600 < 10 ^ 2" "r' div 60 mod 60 < 10 ^ 2" "r' mod 60 < 10 ^ 2"
    using assms(2) by simp_all
  have s: "text_less (decimal 2 (r mod 60) @ x) (decimal 2 (r' mod 60) @ y)" if "r mod 60 < r' mod 60"
    using that b(3) by (blast intro: decimal_field)
  have m: "text_less (decimal 2 (r div 60 mod 60) @ '':'' @ decimal 2 (r mod 60) @ x)
      (decimal 2 (r' div 60 mod 60) @ '':'' @ decimal 2 (r' mod 60) @ y)"
    if "r div 60 mod 60 < r' div 60 mod 60 \<or> r div 60 mod 60 = r' div 60 mod 60 \<and> r mod 60 < r' mod 60"
    by (rule decimal_field [OF b(2)]) (use that s in auto)
  show ?thesis
    by (rule decimal_field [OF b(1)]) (use clock_fields_mono [OF assms(1)] m in auto)
qed


lemma date_text_mono:
  assumes "d < d'" and "fst (civil_year 1970 d') < 10000"
  shows "text_less
     (let (y, doy) = civil_year 1970 d; (m, dm) = civil_month 1 (month_lengths y) doy
      in decimal 4 y @ ''-'' @ decimal 2 m @ ''-'' @ decimal 2 dm @ u)
     (let (y, doy) = civil_year 1970 d'; (m, dm) = civil_month 1 (month_lengths y) doy
      in decimal 4 y @ ''-'' @ decimal 2 m @ ''-'' @ decimal 2 dm @ v)"
proof -
  obtain y doy where y: "civil_year 1970 d = (y, doy)" by (cases "civil_year 1970 d")
  obtain y' doy' where y': "civil_year 1970 d' = (y', doy')" by (cases "civil_year 1970 d'")
  obtain m dm where m: "civil_month 1 (month_lengths y) doy = (m, dm)"
    by (cases "civil_month 1 (month_lengths y) doy")
  obtain m' dm' where m': "civil_month 1 (month_lengths y') doy' = (m', dm')"
    by (cases "civil_month 1 (month_lengths y') doy'")
  have doy': "doy' < sum_list (month_lengths y')"
    using civil_year_bound [of 1970 d'] by (simp add: y' month_lengths_sum)
  have bounds: "y' < 10 ^ 4" "m' < 10 ^ 2" "dm' < 10 ^ 2"
    using assms(2) civil_month_le [of 1 "month_lengths y'" doy'] 
      civil_month_day [OF doy' month_lengths_le, of 1]
    by (simp_all add: y' m' [simplified] length_month_lengths)
  have ym: "y < y' \<or> y = y' \<and> (m < m' \<or> m = m' \<and> dm < dm')"
  proof -
    from civil_year_mono [OF assms(1), of 1970] have "y < y' \<or> y = y' \<and> doy < doy'"
      by (simp add: y y')
    then show ?thesis
      using civil_month_mono [of doy doy' 1 "month_lengths y"] m m' by auto
  qed
  have day: "text_less (decimal 2 dm @ u) (decimal 2 dm' @ v)" if "dm < dm'"
    using that bounds(3) by (blast intro: decimal_field)
  have month: "text_less (decimal 2 m @ ''-'' @ decimal 2 dm @ u) (decimal 2 m' @ ''-'' @ decimal 2 dm' @ v)"
    if "m < m' \<or> m = m' \<and> dm < dm'"
    by (rule decimal_field [OF bounds(2)]) (use that day in auto)
  have "text_less (decimal 4 y @ ''-'' @ decimal 2 m @ ''-'' @ decimal 2 dm @ u)
      (decimal 4 y' @ ''-'' @ decimal 2 m' @ ''-'' @ decimal 2 dm' @ v)"
    by (rule decimal_field [OF bounds(1)]) (use ym month in auto)
  then show ?thesis by (simp add: y y' m [simplified] m' [simplified])
qed

lemma civil_prefix_split:
  "civil_prefix n @ x =
     (let (y, doy) = civil_year 1970 (n div 86400); (m, dm) = civil_month 1 (month_lengths y) doy
      in decimal 4 y @ ''-'' @ decimal 2 m @ ''-'' @ decimal 2 dm @
         (''T'' @ decimal 2 (n mod 86400 div 3600) @ '':'' @ decimal 2 (n mod 86400 div 60 mod 60) @ '':'' @
          decimal 2 (n mod 86400 mod 60) @ x))"
  by (simp add: civil_prefix_def Let_def split: prod.splits)

lemma civil_prefix_mono:
  assumes "a < b" and "fst (civil_year 1970 (b div 86400)) < 10000"
  shows "text_less (civil_prefix a @ x) (civil_prefix b @ y)"
proof (cases "a div 86400 = b div 86400")
  case True
  then have r: "a mod 86400 < b mod 86400" 
    using assms(1) mod_less_same_div by simp
  show ?thesis
    using clock_text_mono [OF r, of x y]
    by (simp add: civil_prefix_def Let_def True text_less_same_prefix split: prod.splits)
next
  case False
  then have "a div 86400 < b div 86400" using div_le_mono [of a b 86400] assms(1) by simp
  then show ?thesis unfolding civil_prefix_split using date_text_mono [OF _ assms(2)] by blast
qed

lemma rfc3339nano_mono:
  "a div second < b div second \<Longrightarrow> four_digit_year b \<Longrightarrow> text_less (rfc3339nano a) (rfc3339nano b)"
  by (simp add: rfc3339nano_def four_digit_year_def civil_prefix_mono)


section \<open>What the repositories may rely on\<close>

text \<open>
  The order an engine compares stored times by, as its clients see it: a total preorder
  that agrees with the order of the times once they are \<open>slack\<close> apart.
\<close>

locale column_order =
  fixes le :: "time \<Rightarrow> time \<Rightarrow> bool" and valid :: "time \<Rightarrow> bool" and slack :: time
  assumes le_refl: "le a a"
    and le_trans: "le a b \<Longrightarrow> le b c \<Longrightarrow> le a c"
    and le_total: "le a b \<or> le b a"
    and le_late: "valid a \<Longrightarrow> valid b \<Longrightarrow> le a b \<Longrightarrow> a < b + slack"
    and le_sure: "valid a \<Longrightarrow> valid b \<Longrightarrow> a + slack \<le> b \<Longrightarrow> le a b"
begin

lemma not_le_sure: "valid a \<Longrightarrow> valid b \<Longrightarrow> b + slack \<le> a \<Longrightarrow> \<not> le a b"
  using le_late by fastforce

end

lemma text_le_trans: "text_le a b \<Longrightarrow> text_le b c \<Longrightarrow> text_le a c"
  by (auto simp: text_le_def intro: text_less_trans)

lemma text_less_not_le: "text_less a b \<Longrightarrow> \<not> text_le b a"
  using text_less_trans by (fastforce simp: text_le_def)

lemma second_gap: "a + second \<le> b \<Longrightarrow> a div second < b div second"
proof -
  assume "a + second \<le> b"
  then have "(a + second) div second \<le> b div second" by (rule div_le_mono)
  then show ?thesis by (simp add: second_def)
qed

interpretation sqlite: column_order "time_le SQLite" four_digit_year second
proof unfold_locales
  fix a b c :: time
  show "time_le SQLite a a" by (simp add: time_le_def text_le_def)
  show "time_le SQLite a b \<Longrightarrow> time_le SQLite b c \<Longrightarrow> time_le SQLite a c"
    by (auto simp: time_le_def intro: text_le_trans)
  show "time_le SQLite a b \<or> time_le SQLite b a"
    using text_less_total by (auto simp: time_le_def text_le_def)
  show "a < b + second" if "four_digit_year a" "four_digit_year b" "time_le SQLite a b"
    using that rfc3339nano_mono [OF second_gap, of b a] text_less_not_le
    by (force simp: time_le_def not_less)
  show "time_le SQLite a b" if "four_digit_year a" "four_digit_year b" "a + second \<le> b"
    using that rfc3339nano_mono [OF second_gap] by (simp add: time_le_def text_le_def)
qed

interpretation mysql: column_order "time_le MySQL" "\<lambda>_. True" 1000
proof unfold_locales
  fix a b c :: time
  show "a < b + 1000" if "True" "True" "time_le MySQL a b"
  proof -
    have "(a + 500) div 1000 \<le> (b + 500) div 1000" using that by (simp add: time_le_def)
    then show ?thesis
      using div_mult_mod_eq [of "a + 500" 1000] div_mult_mod_eq [of "b + 500" 1000] mod_less_divisor [of 1000 "a + 500"] by linarith
  qed
  show "time_le MySQL a b" if "True" "True" "a + 1000 \<le> b"
    using that div_le_mono [of "a + 500" "b + 500" 1000] by (simp add: time_le_def)
qed (auto simp: time_le_def)

section \<open>Properties\<close>

text \<open>
  On SQLite, where times are compared as RFC3339Nano texts, the comparison of two
  stored times is the order of the times whenever they lie in different whole seconds
  (and have four-digit years).
\<close>

lemma sqlite_order_by_second:
  assumes "four_digit_year a" and "four_digit_year b" and "a div second \<noteq> b div second"
  shows "time_le SQLite a b \<longleftrightarrow> a \<le> b"
proof (cases "a div second < b div second")
  case True
  then have "a < b" by (metis div_le_mono leD linorder_le_less_linear)
  then show ?thesis using rfc3339nano_mono [OF True assms(2)] by (simp add: time_le_def text_le_def)
next
  case False
  then have lt: "b div second < a div second" using assms(3) by simp
  then have "b < a" by (metis div_le_mono leD linorder_le_less_linear)
  then show ?thesis
    using text_less_not_le [OF rfc3339nano_mono [OF lt assms(1)]] by (simp add: time_le_def)
qed

theorem sqlite_order_by_second_witness:
  "time_le SQLite 1500000000 2000000000 \<longleftrightarrow> (1500000000 :: nat) \<le> 2000000000"
  by (rule sqlite_order_by_second)
    (simp_all add: four_digit_year_def second_def civil_year.simps year_length_def leap_year_def)

text \<open>
  C40. Within one second the SQLite order is wrong: the text of a whole second sorts after
  the text of every later instant of that second, because RFC3339Nano drops an empty
  fraction and its dot sorts before the zone letter.
\<close>

theorem sqlite_whole_second_sorts_last:
  assumes "0 < f" and "f < second"
  shows "time_le SQLite (s * second + f) (s * second) \<and> \<not> time_le SQLite (s * second) (s * second + f)"
proof -
  have d: "(s * second + f) div second = s" "(s * second + f) mod second = f"
    "s * second div second = s" "s * second mod second = 0"
    using assms by (simp_all add: second_def)
  have "text_less (fraction f @ ''Z'') (fraction 0 @ ''Z'')"
    using assms(1) by (simp add: fraction_def)
  then have "text_less (rfc3339nano (s * second + f)) (rfc3339nano (s * second))"
    unfolding rfc3339nano_def d by (simp add: text_less_same_prefix)
  then show ?thesis using text_less_not_le by (simp add: time_le_def text_le_def)
qed

theorem sqlite_whole_second_sorts_last_witness:
  "time_le SQLite (7 * second + 500000000) (7 * second) \<and>
   \<not> time_le SQLite (7 * second) (7 * second + 500000000)"
  by (rule sqlite_whole_second_sorts_last) (simp_all add: second_def)

end
