(* ===== verification/EventBroker.thy ===== *)
theory EventBroker imports Prelude "HOL-Library.Word" begin

text \<open>
  The in-process event broker, \<^verbatim>\<open>internal/events/broker.go\<close>. Every method runs under the broker's mutex, so a run of
  the broker is a sequence of atomic steps: publish, subscribe, the goroutine that closes
  a subscription when its context ends, and a reader taking one event from its channel.
  Channels live in a heap (a list, addressed by index) because a reader keeps its channel
  after the broker has dropped it. A Go panic (a send on, or a second close of, a closed
  channel) is \<open>None\<close>.
\<close>

section \<open>State\<close>

record event =
  ev_id :: "64 word"
  ev_type :: string
  ev_data :: "json option"

record channel =
  buffered :: "event list"
  closed :: bool

record broker =
  buffer_size :: nat
  next_event_id :: "64 word"
  next_client :: "64 word"
  clients :: "(64 word \<times> nat) list"
  channels :: "channel list"

definition new_broker :: "int \<Rightarrow> broker" where
  "new_broker cap = \<lparr>buffer_size = (if cap < 1 then 16 else nat cap),
     next_event_id = 0, next_client = 0, clients = [], channels = []\<rparr>"

section \<open>Operations\<close>

definition close_channel :: "nat \<Rightarrow> channel list \<Rightarrow> channel list option" where
  "close_channel r chans =
     (if r < length chans \<and> \<not> closed (chans ! r)
      then Some (chans[r := (chans ! r)\<lparr>closed := True\<rparr>]) else None)"

text \<open>The loop of \<open>Publish\<close>: a non-blocking send, or close and forget the client.\<close>

fun deliver :: "nat \<Rightarrow> event \<Rightarrow> (64 word \<times> nat) list \<Rightarrow> channel list
    \<Rightarrow> ((64 word \<times> nat) list \<times> channel list) option" where
  "deliver cap ev [] chans = Some ([], chans)"
| "deliver cap ev ((c, r) # cs) chans =
     (if r \<ge> length chans \<or> closed (chans ! r) then None
      else if length (buffered (chans ! r)) < cap then
        (case deliver cap ev cs (chans[r := (chans ! r)\<lparr>buffered := buffered (chans ! r) @ [ev]\<rparr>]) of
           None \<Rightarrow> None
         | Some (cs', chans') \<Rightarrow> Some ((c, r) # cs', chans'))
      else
        (case close_channel r chans of
           None \<Rightarrow> None
         | Some chans' \<Rightarrow> deliver cap ev cs chans'))"

definition publish :: "event \<Rightarrow> broker \<Rightarrow> broker option" where
  "publish ev b =
     (let n = next_event_id b + 1
      in map_option (\<lambda>(cs, chans). b\<lparr>next_event_id := n, clients := cs, channels := chans\<rparr>)
           (deliver (buffer_size b) (ev\<lparr>ev_id := n\<rparr>) (clients b) (channels b)))"

text \<open>\<open>Subscribe\<close> returns the new channel; a map assignment replaces an older entry.\<close>

definition subscribe :: "broker \<Rightarrow> broker \<times> nat" where
  "subscribe b =
     (let c = next_client b + 1; r = length (channels b)
      in (b\<lparr>next_client := c, clients := put_key c r (clients b),
            channels := channels b @ [\<lparr>buffered = [], closed = False\<rparr>]\<rparr>, r))"

text \<open>What the goroutine of \<open>Subscribe\<close> does once the context of client \<open>c\<close> is done.\<close>

definition cancel :: "64 word \<Rightarrow> broker \<Rightarrow> broker option" where
  "cancel c b =
     (case map_of (clients b) c of
        None \<Rightarrow> Some b
      | Some r \<Rightarrow> map_option (\<lambda>chans. b\<lparr>clients := delete_key c (clients b), channels := chans\<rparr>)
                    (close_channel r (channels b)))"

text \<open>A receive on channel \<open>r\<close>.\<close>

datatype received = Got event | ChannelClosed | WouldBlock

definition receive :: "nat \<Rightarrow> broker \<Rightarrow> broker \<times> received" where
  "receive r b =
     (if r < length (channels b) then
        (case buffered (channels b ! r) of
           ev # evs \<Rightarrow> (b\<lparr>channels := (channels b)[r := (channels b ! r)\<lparr>buffered := evs\<rparr>]\<rparr>, Got ev)
         | [] \<Rightarrow> (b, if closed (channels b ! r) then ChannelClosed else WouldBlock))
      else (b, WouldBlock))"

section \<open>Runs\<close>

datatype broker_act = Publish event | Subscribe | Cancel "64 word" | Receive nat

fun broker_step :: "broker_act \<Rightarrow> broker \<Rightarrow> (broker \<times> (nat \<times> event) list) option" where
  "broker_step (Publish ev) b = map_option (\<lambda>b'. (b', [])) (publish ev b)"
| "broker_step Subscribe b = Some (fst (subscribe b), [])"
| "broker_step (Cancel c) b = map_option (\<lambda>b'. (b', [])) (cancel c b)"
| "broker_step (Receive r) b =
     (case receive r b of
        (b', Got ev) \<Rightarrow> Some (b', [(r, ev)])
      | (b', _) \<Rightarrow> Some (b', []))"

fun broker_run :: "broker_act list \<Rightarrow> broker \<Rightarrow> (broker \<times> (nat \<times> event) list) option" where
  "broker_run [] b = Some (b, [])"
| "broker_run (s # ss) b =
     (case broker_step s b of
        None \<Rightarrow> None
      | Some (b', out) \<Rightarrow>
          (case broker_run ss b' of
             None \<Rightarrow> None
           | Some (b'', out') \<Rightarrow> Some (b'', out @ out')))"

text \<open>The events a run publishes, as the broker numbers them.\<close>

fun stamped :: "64 word \<Rightarrow> broker_act list \<Rightarrow> event list" where
  "stamped n [] = []"
| "stamped n (Publish ev # ss) = ev\<lparr>ev_id := n + 1\<rparr> # stamped (n + 1) ss"
| "stamped n (_ # ss) = stamped n ss"

definition taken :: "nat \<Rightarrow> (nat \<times> event) list \<Rightarrow> event list" where
  "taken r out = map snd (filter (\<lambda>p. fst p = r) out)"

definition registered :: "broker \<Rightarrow> nat \<Rightarrow> bool" where
  "registered b r \<longleftrightarrow> r \<in> snd ` set (clients b)"

section \<open>Invariant\<close>

definition broker_inv :: "broker \<Rightarrow> bool" where
  "broker_inv b \<longleftrightarrow>
     1 \<le> buffer_size b \<and> distinct (map fst (clients b)) \<and> distinct (map snd (clients b)) \<and>
     (\<forall>r. registered b r \<longrightarrow> r < length (channels b) \<and> \<not> closed (channels b ! r)) \<and>
     (\<forall>ch \<in> set (channels b). length (buffered ch) \<le> buffer_size b)"

text \<open>
  The loop of \<open>Publish\<close> offers the event to every registered channel at once: the map
  iteration order does not matter.
\<close>

definition offer :: "nat \<Rightarrow> event \<Rightarrow> channel \<Rightarrow> channel" where
  "offer cap ev ch =
     (if length (buffered ch) < cap then ch\<lparr>buffered := buffered ch @ [ev]\<rparr> else ch\<lparr>closed := True\<rparr>)"

lemma deliver_eq:
  assumes "distinct (map snd cs)"
    and "\<And>r. r \<in> snd ` set cs \<Longrightarrow> r < length chans \<and> \<not> closed (chans ! r)"
  shows "deliver cap ev cs chans =
     Some (filter (\<lambda>p. length (buffered (chans ! snd p)) < cap) cs,
           map (\<lambda>i. if i \<in> snd ` set cs then offer cap ev (chans ! i) else chans ! i) [0..<length chans])"
  using assms
proof (induction cs arbitrary: chans)
  case Nil
  then show ?case by (simp add: map_nth)
next
  case (Cons p cs)
  obtain c r where p: "p = (c, r)" by (cases p)
  let ?chans = "chans[r := offer cap ev (chans ! r)]"
  from Cons.prems(2) [of r] have r: "r < length chans" "\<not> closed (chans ! r)" by (simp_all add: p)
  have new: "r \<notin> snd ` set cs" using Cons.prems(1) by (auto simp: p image_iff)
  have other: "?chans ! i = chans ! i" if "i \<in> snd ` set cs" for i
    using that new by (metis nth_list_update_neq)
  have IH: "deliver cap ev cs ?chans =
     Some (filter (\<lambda>p. length (buffered (?chans ! snd p)) < cap) cs,
           map (\<lambda>i. if i \<in> snd ` set cs then offer cap ev (?chans ! i) else ?chans ! i) [0..<length ?chans])"
  proof (rule Cons.IH)
    show "distinct (map snd cs)" using Cons.prems(1) by simp
    fix i assume i: "i \<in> snd ` set cs"
    then show "i < length ?chans \<and> \<not> closed (?chans ! i)"
      using Cons.prems(2) [of i] other [OF i] by simp
  qed
  have fil: "filter (\<lambda>p. length (buffered (?chans ! snd p)) < cap) cs
      = filter (\<lambda>p. length (buffered (chans ! snd p)) < cap) cs"
    by (rule filter_cong) (auto simp: other)
  have upd: "map (\<lambda>i. if i \<in> snd ` set cs then offer cap ev (?chans ! i) else ?chans ! i) [0..<length ?chans]
      = map (\<lambda>i. if i \<in> snd ` set (p # cs) then offer cap ev (chans ! i) else chans ! i) [0..<length chans]"
    using new r by (auto simp: p nth_list_update)
  have step: "deliver cap ev (p # cs) chans = map_option
      (\<lambda>(cs', chans'). (if length (buffered (chans ! r)) < cap then (c, r) # cs' else cs', chans'))
      (deliver cap ev cs ?chans)"
    using r by (auto simp: p offer_def close_channel_def option.map_id split: option.splits)
  show ?case
    unfolding step IH fil upd by (simp add: p)
qed


lemma broker_inv_new: "broker_inv (new_broker n)"
  by (auto simp: broker_inv_def new_broker_def registered_def)

lemma publish_eq:
  assumes "broker_inv b"
  shows "publish ev b = Some (b\<lparr>next_event_id := next_event_id b + 1,
      clients := filter (\<lambda>p. length (buffered (channels b ! snd p)) < buffer_size b) (clients b),
      channels := map (\<lambda>i. if registered b i
          then offer (buffer_size b) (ev\<lparr>ev_id := next_event_id b + 1\<rparr>) (channels b ! i)
          else channels b ! i) [0..<length (channels b)]\<rparr>)"
  using assms deliver_eq [of "clients b" "channels b" "buffer_size b" "ev\<lparr>ev_id := next_event_id b + 1\<rparr>"]
  by (simp add: publish_def broker_inv_def registered_def Let_def)

lemma snd_filter_distinct:
  "distinct (map snd cs) \<Longrightarrow> distinct (map snd (filter P cs))"
  by (induction cs) auto

lemma publish_inv:
  assumes inv: "broker_inv b" and pub: "publish ev b = Some b'"
  shows "broker_inv b'"
proof -
  let ?room = "\<lambda>p :: 64 word \<times> nat. length (buffered (channels b ! snd p)) < buffer_size b"
  have b': "b' = b\<lparr>next_event_id := next_event_id b + 1, clients := filter ?room (clients b),
      channels := map (\<lambda>i. if registered b i
          then offer (buffer_size b) (ev\<lparr>ev_id := next_event_id b + 1\<rparr>) (channels b ! i)
          else channels b ! i) [0..<length (channels b)]\<rparr>"
    using publish_eq [OF inv, of ev] pub by simp
  have reg: "registered b' r \<longleftrightarrow> registered b r \<and> length (buffered (channels b ! r)) < buffer_size b" for r
    by (auto simp: b' registered_def)
  have len: "length (buffered (channels b ! i)) \<le> buffer_size b" if "i < length (channels b)" for i
    using inv that by (simp add: broker_inv_def)
  have room: "length (buffered (offer (buffer_size b) e (channels b ! i))) \<le> buffer_size b"
    if "i < length (channels b)" for i e
    using len [OF that] by (simp add: offer_def)
  show ?thesis
    unfolding broker_inv_def reg
  proof (intro conjI allI impI ballI)
    show "1 \<le> buffer_size b'" using inv by (simp add: b' broker_inv_def)
    show "distinct (map fst (clients b'))" "distinct (map snd (clients b'))"
      using inv by (simp_all add: b' broker_inv_def distinct_map_filter)
  next
    fix r assume r: "registered b r \<and> length (buffered (channels b ! r)) < buffer_size b"
    then have "r < length (channels b)" "\<not> closed (channels b ! r)" using inv by (auto simp: broker_inv_def)
    with r show "r < length (channels b')" "\<not> closed (channels b' ! r)" by (simp_all add: b' offer_def)
  next
    fix ch assume "ch \<in> set (channels b')"
    then show "length (buffered ch) \<le> buffer_size b'" using len room by (auto simp: b')
  qed
qed

lemma publish_total:
  assumes "broker_inv b"
  obtains b' where "publish ev b = Some b'" and "broker_inv b'"
  using publish_eq [OF assms] publish_inv [OF assms] by blast

lemma subscribe_inv:
  assumes "broker_inv b"
  shows "broker_inv (fst (subscribe b))"
proof -
  let ?r = "length (channels b)"
  have fresh: "?r \<notin> snd ` set (clients b)"
    using assms by (fastforce simp: broker_inv_def registered_def)
  have "distinct (map snd (put_key (next_client b + 1) ?r (clients b)))"
    using assms fresh unfolding put_key_def
    by (intro distinct_map_filter_append) (auto simp: broker_inv_def)
  moreover have "distinct (map fst (put_key (next_client b + 1) ?r (clients b)))"
    using assms unfolding put_key_def
    by (intro distinct_map_filter_append) (auto simp: broker_inv_def)
  ultimately show ?thesis
    using assms by (auto simp: broker_inv_def registered_def subscribe_def Let_def set_put_key nth_append)
qed

lemma cancel_eq:
  assumes "broker_inv b"
  shows "cancel c b = Some (case map_of (clients b) c of None \<Rightarrow> b
     | Some r \<Rightarrow> b\<lparr>clients := delete_key c (clients b),
                   channels := (channels b)[r := (channels b ! r)\<lparr>closed := True\<rparr>]\<rparr>)"
proof (cases "map_of (clients b) c")
  case (Some r)
  then have "registered b r" by (force simp: registered_def dest: map_of_SomeD)
  then have "r < length (channels b)" "\<not> closed (channels b ! r)" using assms by (auto simp: broker_inv_def)
  with Some show ?thesis by (simp add: cancel_def close_channel_def)
qed (simp add: cancel_def)

lemma registered_after_cancel:
  assumes "broker_inv b" and "map_of (clients b) c = Some r"
  shows "x \<in> snd ` set (delete_key c (clients b)) \<longleftrightarrow> registered b x \<and> x \<noteq> r"
proof -
  have d1: "distinct (map fst (clients b))" and d2: "distinct (map snd (clients b))"
    using assms(1) by (simp_all add: broker_inv_def)
  have cr: "(c, r) \<in> set (clients b)" using assms(2) by (rule map_of_SomeD)
  have uniq: "k = c \<longleftrightarrow> y = r" if "(k, y) \<in> set (clients b)" for k y
    using that cr d1 d2 by (metis eq_key_imp_eq_value distinct_map inj_on_eq_iff prod.inject snd_conv)
  then show ?thesis by (force simp: registered_def set_delete_key)
qed

lemma cancel_inv:
  assumes inv: "broker_inv b" and "cancel c b = Some b'"
  shows "broker_inv b'"
proof (cases "map_of (clients b) c")
  case None
  then show ?thesis using assms by (simp add: cancel_eq)
next
  case (Some r)
  have b': "b' = b\<lparr>clients := delete_key c (clients b),
      channels := (channels b)[r := (channels b ! r)\<lparr>closed := True\<rparr>]\<rparr>"
    using assms Some by (simp add: cancel_eq)
  have "registered b r" using Some by (force simp: registered_def dest: map_of_SomeD)
  then have r: "r < length (channels b)" using inv by (simp add: broker_inv_def)
  have bound: "\<forall>ch \<in> set (channels b'). length (buffered ch) \<le> buffer_size b"
    using inv r by (auto simp: b' broker_inv_def dest!: set_update_subset_insert [THEN subsetD])
  show ?thesis
    using inv bound registered_after_cancel [OF inv Some]
    by (auto simp: broker_inv_def registered_def b' delete_key_def distinct_map_filter)
qed

lemma receive_cases:
  obtains (got) ev evs where "r < length (channels b)" "buffered (channels b ! r) = ev # evs"
      "receive r b = (b\<lparr>channels := (channels b)[r := (channels b ! r)\<lparr>buffered := evs\<rparr>]\<rparr>, Got ev)"
  | (nothing) out where "receive r b = (b, out)" "\<And>ev. out \<noteq> Got ev"
  by (cases "r < length (channels b)"; cases "buffered (channels b ! r)") (auto simp: receive_def)

lemma receive_inv:
  assumes inv: "broker_inv b"
  shows "broker_inv (fst (receive r b))"
proof (cases rule: receive_cases [of r b])
  case (got ev evs)
  then have "length (ev # evs) \<le> buffer_size b" using inv unfolding broker_inv_def by (metis nth_mem)
  then have "\<forall>ch \<in> set ((channels b)[r := (channels b ! r)\<lparr>buffered := evs\<rparr>]). length (buffered ch) \<le> buffer_size b"
    using inv got(2) by (auto simp: broker_inv_def dest!: set_update_subset_insert [THEN subsetD])
  then show ?thesis using inv got by (auto simp: broker_inv_def registered_def nth_list_update)
qed (simp add: inv)

lemma broker_step_total:
  assumes "broker_inv b"
  obtains b' out where "broker_step s b = Some (b', out)" and "broker_inv b'"
proof (cases s)
  case (Publish ev)
  obtain b' where "publish ev b = Some b'" "broker_inv b'" using publish_total [OF assms] by blast
  then show ?thesis using that Publish by simp
next
  case Subscribe
  then show ?thesis using that subscribe_inv [OF assms] by simp
next
  case (Cancel c)
  then show ?thesis using that cancel_eq [OF assms] cancel_inv [OF assms] by simp
next
  case (Receive r)
  show ?thesis
  proof (cases rule: receive_cases [of r b])
    case (got ev evs)
    then show ?thesis using that Receive receive_inv [OF assms, of r] by simp
  next
    case (nothing out)
    then show ?thesis using that [of b "[]"] Receive assms by (cases out) auto
  qed
qed

lemma broker_run_total:
  "broker_inv b \<Longrightarrow> \<exists>b' out. broker_run ss b = Some (b', out) \<and> broker_inv b'"
proof (induction ss arbitrary: b)
  case (Cons s ss)
  obtain b1 out where "broker_step s b = Some (b1, out)" "broker_inv b1"
    using broker_step_total [OF Cons.prems] by blast
  then show ?case using Cons.IH [of b1] by fastforce
qed simp


section \<open>Delivery\<close>

abbreviation buffer_of :: "broker \<Rightarrow> nat \<Rightarrow> event list" where
  "buffer_of b r \<equiv> buffered (channels b ! r)"

lemma taken_append [simp]: "taken r (xs @ ys) = taken r xs @ taken r ys"
  by (simp add: taken_def)

lemma taken_Nil [simp]: "taken r [] = []"
  by (simp add: taken_def)

text \<open>
  One step, seen from channel \<open>r\<close>: what leaves it and what stays in it are what was in it,
  followed by the event the step publishes if the channel is still registered after it.
\<close>

definition step_effect :: "broker \<Rightarrow> broker_act \<Rightarrow> broker \<Rightarrow> (nat \<times> event) list \<Rightarrow> nat \<Rightarrow> bool" where
  "step_effect b s b' out r \<longleftrightarrow>
     r < length (channels b') \<and> (registered b' r \<longrightarrow> registered b r) \<and>
     stamped (next_event_id b') = stamped (next_event_id b + of_nat (length (stamped (next_event_id b) [s]))) \<and>
     taken r out @ buffer_of b' r =
       buffer_of b r @ (if registered b' r then stamped (next_event_id b) [s] else [])"

lemma publish_effect:
  assumes inv: "broker_inv b" and r: "r < length (channels b)" and pub: "publish ev b = Some b'"
  shows "step_effect b (Publish ev) b' [] r"
proof -
  have b': "b' = b\<lparr>next_event_id := next_event_id b + 1,
      clients := filter (\<lambda>p. length (buffer_of b (snd p)) < buffer_size b) (clients b),
      channels := map (\<lambda>i. if registered b i
          then offer (buffer_size b) (ev\<lparr>ev_id := next_event_id b + 1\<rparr>) (channels b ! i)
          else channels b ! i) [0..<length (channels b)]\<rparr>"
    using publish_eq [OF inv, of ev] pub by simp
  have "registered b' r \<longleftrightarrow> registered b r \<and> length (buffer_of b r) < buffer_size b"
    by (auto simp: b' registered_def)
  then show ?thesis using r by (simp add: step_effect_def b' offer_def)
qed

lemma subscribe_effect:
  assumes "r < length (channels b)"
  shows "step_effect b Subscribe (fst (subscribe b)) [] r"
  using assms
  by (auto simp: step_effect_def subscribe_def Let_def nth_append registered_def set_put_key)

lemma cancel_effect:
  assumes inv: "broker_inv b" and r: "r < length (channels b)" and c: "cancel c b = Some b'"
  shows "step_effect b (Cancel c) b' [] r"
proof (cases "map_of (clients b) c")
  case None
  then show ?thesis using assms by (simp add: step_effect_def cancel_eq)
next
  case (Some x)
  have keep: "buffered ((channels b)[x := (channels b ! x)\<lparr>closed := True\<rparr>] ! r) = buffer_of b r"
    using r by (cases "x = r") auto
  show ?thesis
    using Some keep r c cancel_eq [OF inv, of c]
    by (auto simp: step_effect_def registered_def set_delete_key nth_list_update)
qed

lemma receive_effect:
  assumes "r < length (channels b)" and "broker_step (Receive x) b = Some (b', out)"
  shows "step_effect b (Receive x) b' out r"
proof (cases rule: receive_cases [of x b])
  case (got ev evs)
  then show ?thesis
    using assms by (auto simp: step_effect_def registered_def taken_def nth_list_update)
next
  case (nothing o')
  then show ?thesis
    using assms by (cases o') (auto simp: step_effect_def)
qed

lemma step_has_effect:
  assumes "broker_inv b" "r < length (channels b)" "broker_step s b = Some (b', out)"
  shows "step_effect b s b' out r"
proof (cases s)
  case (Receive x)
  then show ?thesis using receive_effect assms by blast
qed (use assms publish_effect subscribe_effect cancel_effect in auto)

lemma stamped_Cons: "stamped n (s # ss) = stamped n [s] @ stamped (n + of_nat (length (stamped n [s]))) ss"
  by (cases s) simp_all

lemma run_unregistered:
  assumes "broker_inv b" "r < length (channels b)" "\<not> registered b r" "broker_run ss b = Some (b', out)"
  shows "taken r out @ buffer_of b' r = buffer_of b r"
  using assms
proof (induction ss arbitrary: b out)
  case (Cons s ss)
  obtain b1 o1 where s: "broker_step s b = Some (b1, o1)" "broker_inv b1"
    using broker_step_total [OF Cons.prems(1)] by blast
  obtain o2 where run: "broker_run ss b1 = Some (b', o2)" and out: "out = o1 @ o2"
    using Cons.prems(4) s(1) by (auto split: option.splits)
  note eff = step_has_effect [OF Cons.prems(1,2) s(1), unfolded step_effect_def]
  have "taken r o2 @ buffer_of b' r = buffer_of b1 r"
    by (rule Cons.IH [OF s(2) _ _ run]) (use eff Cons.prems(3) in auto)
  then show ?case using eff Cons.prems(3) by (auto simp: out)
qed simp

lemma run_delivers:
  assumes "broker_inv b" "r < length (channels b)" "broker_run ss b = Some (b', out)"
  shows "\<exists>k. taken r out @ buffer_of b' r = buffer_of b r @ take k (stamped (next_event_id b) ss) \<and>
           (registered b' r \<longrightarrow> registered b r \<and> length (stamped (next_event_id b) ss) \<le> k)"
  using assms
proof (induction ss arbitrary: b out)
  case Nil
  then show ?case by (intro exI [of _ 0]) simp
next
  case (Cons s ss)
  obtain b1 o1 where s: "broker_step s b = Some (b1, o1)" "broker_inv b1"
    using broker_step_total [OF Cons.prems(1)] by blast
  obtain o2 where run: "broker_run ss b1 = Some (b', o2)" and out: "out = o1 @ o2"
    using Cons.prems(3) s(1) by (auto split: option.splits)
  note eff = step_has_effect [OF Cons.prems(1,2) s(1), unfolded step_effect_def]
  then have "r < length (channels b1)" by blast
  from Cons.IH [OF s(2) this run] obtain k where
    k: "taken r o2 @ buffer_of b' r = buffer_of b1 r @ take k (stamped (next_event_id b1) ss)"
    and kr: "registered b' r \<longrightarrow> registered b1 r \<and> length (stamped (next_event_id b1) ss) \<le> k" by blast
  let ?k = "if registered b1 r then length (stamped (next_event_id b) [s]) + k else 0"
  have all: "stamped (next_event_id b) (s # ss) = stamped (next_event_id b) [s] @ stamped (next_event_id b1) ss"
    using eff by (metis stamped_Cons)
  show ?case
  proof (intro exI [of _ ?k] conjI)
    have dead: "taken r o2 @ buffer_of b' r = buffer_of b1 r" if "\<not> registered b1 r"
      using run_unregistered [OF s(2) \<open>r < length (channels b1)\<close> that run] .
    show "taken r out @ buffer_of b' r = buffer_of b r @ take ?k (stamped (next_event_id b) (s # ss))"
      using eff k dead by (auto simp: out all)
    show "registered b' r \<longrightarrow> registered b r \<and> length (stamped (next_event_id b) (s # ss)) \<le> ?k"
      using eff kr by (auto simp: all)
  qed
qed


section \<open>The interface the services publish through\<close>

text \<open>
  \<^verbatim>\<open>events.Publisher\<close>: a publisher that never blocks and never fails. The services and the
  executor publish a sequence of events through it.
\<close>

fun publish_all :: "(event \<Rightarrow> 's \<Rightarrow> 's option) \<Rightarrow> event list \<Rightarrow> 's \<Rightarrow> 's option" where
  "publish_all pub [] s = Some s"
| "publish_all pub (ev # evs) s = (case pub ev s of None \<Rightarrow> None | Some s' \<Rightarrow> publish_all pub evs s')"

locale event_sink =
  fixes pub :: "event \<Rightarrow> 's \<Rightarrow> 's option" and sound :: "'s \<Rightarrow> bool"
  assumes pub_total: "sound s \<Longrightarrow> \<exists>s'. pub ev s = Some s' \<and> sound s'"
begin

lemma publish_all_total: "sound s \<Longrightarrow> \<exists>s'. publish_all pub evs s = Some s' \<and> sound s'"
proof (induction evs arbitrary: s)
  case (Cons ev evs)
  then show ?case using pub_total [of s ev] by fastforce
qed simp

end

interpretation sink: event_sink publish broker_inv
  by unfold_locales (metis publish_total)

section \<open>Properties\<close>

text \<open>
  Whatever sequence of publish, subscribe, cancel and receive steps runs on a fresh
  broker, no step sends on or closes a closed channel (no panic), and no channel ever
  holds more events than the buffer size.
\<close>

lemma broker_never_panics:
  "\<exists>b out. broker_run ss (new_broker n) = Some (b, out) \<and> (\<forall>ch \<in> set (channels b). length (buffered ch) \<le> buffer_size b)"
  using broker_run_total [OF broker_inv_new, of ss n] by (auto simp: broker_inv_def)

theorem broker_never_panics_witness:
  "\<exists>b out. broker_run [Subscribe, Publish \<lparr>ev_id = 0, ev_type = ''a'', ev_data = None\<rparr>, Publish \<lparr>ev_id = 0, ev_type = ''b'', ev_data = None\<rparr>]
     (new_broker 1) = Some (b, out)"
  using broker_never_panics by blast

text \<open>
  C21. Delivery. For any channel of a reachable broker and any further run, the events
  taken from the channel followed by those still buffered are what was buffered at the
  start followed by a prefix of the events published meanwhile, in publication order and
  with their sequence numbers: nothing is lost in the middle, duplicated or reordered.
  While the channel is registered the prefix is all of them.
\<close>

theorem broker_delivers_in_order:
  assumes "broker_run pre (new_broker n) = Some (b, out0)" and "r < length (channels b)"
    and "broker_run ss b = Some (b', out)"
  shows "\<exists>k. taken r out @ buffer_of b' r = buffer_of b r @ take k (stamped (next_event_id b) ss) \<and>
           (registered b' r \<longrightarrow> length (stamped (next_event_id b) ss) \<le> k)"
proof -
  have "broker_inv b" using broker_run_total [OF broker_inv_new, of pre n] assms(1) by simp
  from run_delivers [OF this assms(2,3)] show ?thesis by blast
qed

definition sample_event :: "string \<Rightarrow> event" where
  "sample_event ty = \<lparr>ev_id = 0, ev_type = ty, ev_data = None\<rparr>"

theorem broker_delivers_in_order_witness:
  "\<exists>b out0 b' out k. broker_run [Subscribe] (new_broker 1) = Some (b, out0) \<and>
     broker_run [Publish (sample_event ''a''), Publish (sample_event ''b'')] b = Some (b', out) \<and>
     taken 0 out @ buffer_of b' 0 = buffer_of b 0 @ take k
       (stamped (next_event_id b) [Publish (sample_event ''a''), Publish (sample_event ''b'')])"
proof -
  obtain b out0 where b: "broker_run [Subscribe] (new_broker 1) = Some (b, out0)"
    using broker_run_total [OF broker_inv_new] by blast
  have len: "0 < length (channels b)" using b by (auto simp: new_broker_def subscribe_def Let_def)
  have "broker_inv b" using broker_run_total [OF broker_inv_new, of "[Subscribe]" 1] b by simp
  then obtain b' out where
    "broker_run [Publish (sample_event ''a''), Publish (sample_event ''b'')] b = Some (b', out)"
    using broker_run_total by blast
  then show ?thesis using b broker_delivers_in_order [OF b len] by blast
qed

end
