(* ===== verification/JobQueue.thy ===== *)
theory JobQueue imports GoTime begin

text \<open>
  The persistent job queue: \<^verbatim>\<open>internal/jobs/model.go\<close>, the SQL repository
  \<^verbatim>\<open>internal/jobs/sql_repository.go\<close> and \<^verbatim>\<open>internal/jobs/queue.go\<close>. The table is the list of its
  rows; each repository method is one database transaction, so it is one function on the
  table. \<open>fault\<close> is whether the driver reports an error at that call, in which case the
  transaction is rolled back. \<open>le\<close> is the order the engine compares stored times by
  (\<open>time_le\<close> of theory GoTime for the two dialects).
\<close>

section \<open>Data\<close>

datatype job_kind = KindSyncConnection | KindPowerOperation | KindOther string

datatype job_status = JobQueued | JobRunning | JobSucceeded | JobFailed

record job =
  job_id :: string
  job_kind :: job_kind
  payload :: "json option"
  job_status :: job_status
  attempts :: nat
  max_attempts :: nat
  available_at :: time
  lease_owner :: "string option"
  lease_expires :: "time option"
  last_error :: string
  job_created :: time
  job_updated :: time

record lease =
  leased_job :: job
  lease_holder :: string
  lease_until :: time

datatype job_error = ErrNoJob | ErrJobNotFound | ErrLeaseLost | ErrJobDatabase

type_synonym job_table = "job list"

section \<open>The SQL repository\<close>

definition enqueue :: "bool \<Rightarrow> job \<Rightarrow> job_table \<Rightarrow> (job_error + unit) \<times> job_table" where
  "enqueue fault j tbl =
     (if fault \<or> find_by job_id (job_id j) tbl \<noteq> None then (Inl ErrJobDatabase, tbl)
      else (Inr (), tbl @ [j\<lparr>lease_owner := None, lease_expires := None\<rparr>]))"

text \<open>The \<^verbatim>\<open>WHERE\<close> clause of \<open>LeaseNext\<close>: a comparison with \<^verbatim>\<open>NULL\<close> does not hold.\<close>

definition due :: "(time \<Rightarrow> time \<Rightarrow> bool) \<Rightarrow> time \<Rightarrow> job \<Rightarrow> bool" where
  "due le now j \<longleftrightarrow>
     job_status j = JobQueued \<and> le (available_at j) now \<or>
     job_status j = JobRunning \<and> (case lease_expires j of None \<Rightarrow> False | Some e \<Rightarrow> le e now)"

text \<open>\<^verbatim>\<open>ORDER BY available_at, created_at LIMIT 1\<close>.\<close>

definition sorts_before :: "(time \<Rightarrow> time \<Rightarrow> bool) \<Rightarrow> job \<Rightarrow> job \<Rightarrow> bool" where
  "sorts_before le a b \<longleftrightarrow>
     le (available_at a) (available_at b) \<and>
     (le (available_at b) (available_at a) \<longrightarrow> le (job_created a) (job_created b))"

fun first_by_order :: "(time \<Rightarrow> time \<Rightarrow> bool) \<Rightarrow> job list \<Rightarrow> job option" where
  "first_by_order le [] = None"
| "first_by_order le (j # js) =
     (case first_by_order le js of
        None \<Rightarrow> Some j
      | Some k \<Rightarrow> Some (if sorts_before le j k then j else k))"

definition claim :: "string \<Rightarrow> time \<Rightarrow> time \<Rightarrow> job \<Rightarrow> job" where
  "claim owner now expires j =
     j\<lparr>job_status := JobRunning, attempts := attempts j + 1, lease_owner := Some owner,
       lease_expires := Some expires, job_updated := now\<rparr>"

definition lease_next ::
  "bool \<Rightarrow> (time \<Rightarrow> time \<Rightarrow> bool) \<Rightarrow> string \<Rightarrow> time \<Rightarrow> time \<Rightarrow> job_table \<Rightarrow> (job_error + lease) \<times> job_table" where
  "lease_next fault le owner now duration tbl =
     (if fault then (Inl ErrJobDatabase, tbl)
      else
        (case first_by_order le (filter (due le now) tbl) of
           None \<Rightarrow> (Inl ErrNoJob, tbl)
         | Some j \<Rightarrow>
             (let expires = now + duration
              in if affected (\<lambda>r. job_id r = job_id j) tbl \<noteq> 1 then (Inl ErrLeaseLost, tbl)
                 else (Inr \<lparr>leased_job = claim owner now expires j, lease_holder = owner, lease_until = expires\<rparr>,
                       update_where (\<lambda>r. job_id r = job_id j) (claim owner now expires) tbl))))"

text \<open>The \<^verbatim>\<open>WHERE id = ? AND status = 'running' AND lease_owner = ?\<close> of the three ways to end a lease.\<close>

definition held :: "string \<Rightarrow> string \<Rightarrow> job \<Rightarrow> bool" where
  "held i owner r \<longleftrightarrow> job_id r = i \<and> job_status r = JobRunning \<and> lease_owner r = Some owner"

definition release :: "job_status \<Rightarrow> string \<Rightarrow> time \<Rightarrow> job \<Rightarrow> job" where
  "release st message at r =
     r\<lparr>job_status := st, lease_owner := None, lease_expires := None,
       last_error := (if message = '''' then last_error r else message), job_updated := at\<rparr>"

definition finish :: "bool \<Rightarrow> string \<Rightarrow> string \<Rightarrow> job_status \<Rightarrow> time \<Rightarrow> string \<Rightarrow> job_table \<Rightarrow> (job_error + unit) \<times> job_table" where
  "finish fault i owner st at message tbl =
     (if fault then (Inl ErrJobDatabase, tbl)
      else if affected (held i owner) tbl \<noteq> 1 then (Inl ErrLeaseLost, update_where (held i owner) (release st message at) tbl)
      else (Inr (), update_where (held i owner) (release st message at) tbl))"

definition complete :: "bool \<Rightarrow> string \<Rightarrow> string \<Rightarrow> time \<Rightarrow> job_table \<Rightarrow> (job_error + unit) \<times> job_table" where
  "complete fault i owner at tbl = finish fault i owner JobSucceeded at '''' tbl"

definition fail :: "bool \<Rightarrow> string \<Rightarrow> string \<Rightarrow> time \<Rightarrow> string \<Rightarrow> job_table \<Rightarrow> (job_error + unit) \<times> job_table" where
  "fail fault i owner at message tbl = finish fault i owner JobFailed at message tbl"

definition requeue :: "job_status \<Rightarrow> time \<Rightarrow> string \<Rightarrow> job \<Rightarrow> job" where
  "requeue st at message r =
     r\<lparr>job_status := st, available_at := at, lease_owner := None, lease_expires := None,
       last_error := message, job_updated := at\<rparr>"

definition retry :: "bool \<Rightarrow> string \<Rightarrow> string \<Rightarrow> time \<Rightarrow> string \<Rightarrow> job_table \<Rightarrow> (job_error + unit) \<times> job_table" where
  "retry fault i owner available message tbl =
     (if fault then (Inl ErrJobDatabase, tbl)
      else
        (case List.find (held i owner) tbl of
           None \<Rightarrow> (Inl ErrLeaseLost, tbl)
         | Some r \<Rightarrow>
             (let st = (if attempts r \<ge> max_attempts r then JobFailed else JobQueued)
              in if affected (held i owner) tbl \<noteq> 1 then (Inl ErrLeaseLost, tbl)
                 else (Inr (), update_where (held i owner) (requeue st available message) tbl))))"

definition find_job :: "bool \<Rightarrow> string \<Rightarrow> job_table \<Rightarrow> job_error + job" where
  "find_job fault i tbl =
     (if fault then Inl ErrJobDatabase
      else (case find_by job_id i tbl of None \<Rightarrow> Inl ErrJobNotFound | Some j \<Rightarrow> Inr j))"

section \<open>The queue\<close>

record queue_options =
  queue_max_attempts :: int

definition queue_attempts :: "queue_options \<Rightarrow> nat" where
  "queue_attempts opt = (if queue_max_attempts opt < 1 then 3 else nat (queue_max_attempts opt))"

definition new_job :: "queue_options \<Rightarrow> string \<Rightarrow> job_kind \<Rightarrow> json \<Rightarrow> time \<Rightarrow> job" where
  "new_job opt i kind body now =
     \<lparr>job_id = i, job_kind = kind, payload = Some body, job_status = JobQueued, attempts = 0,
      max_attempts = queue_attempts opt, available_at = now, lease_owner = None, lease_expires = None,
      last_error = '''', job_created = now, job_updated = now\<rparr>"

datatype queue_error = MissingID | QueueStore job_error

text \<open>\<open>EnqueueConnectionSync\<close> and \<open>EnqueuePowerOperation\<close>: \<open>new_id\<close> and \<open>now\<close> are the values the injected generators return.\<close>

definition enqueue_connection_sync ::
  "bool \<Rightarrow> queue_options \<Rightarrow> string \<Rightarrow> time \<Rightarrow> string \<Rightarrow> job_table \<Rightarrow> (queue_error + unit) \<times> job_table" where
  "enqueue_connection_sync fault opt new_id now connection_id tbl =
     (if connection_id = '''' then (Inl MissingID, tbl)
      else (case enqueue fault (new_job opt new_id KindSyncConnection
                   (JObj [(''connection_id'', JStr connection_id)]) now) tbl of
              (Inl e, tbl') \<Rightarrow> (Inl (QueueStore e), tbl')
            | (Inr u, tbl') \<Rightarrow> (Inr u, tbl')))"

definition enqueue_power_operation ::
  "bool \<Rightarrow> queue_options \<Rightarrow> string \<Rightarrow> time \<Rightarrow> string \<Rightarrow> job_table \<Rightarrow> (queue_error + unit) \<times> job_table" where
  "enqueue_power_operation fault opt new_id now operation_id tbl =
     (if operation_id = '''' then (Inl MissingID, tbl)
      else (case enqueue fault (new_job opt new_id KindPowerOperation
                   (JObj [(''operation_id'', JStr operation_id)]) now) tbl of
              (Inl e, tbl') \<Rightarrow> (Inl (QueueStore e), tbl')
            | (Inr u, tbl') \<Rightarrow> (Inr u, tbl')))"

section \<open>Selection\<close>

lemma first_by_order_None [simp]: "first_by_order le js = None \<longleftrightarrow> js = []"
  by (cases js) (auto split: option.splits)

lemma first_by_order_in: "first_by_order le js = Some j \<Longrightarrow> j \<in> set js"
  by (induction js arbitrary: j) (auto split: option.splits if_splits)

context column_order begin

lemma sorts_before_total: "sorts_before le a b \<or> sorts_before le b a"
  using le_total by (auto simp: sorts_before_def)

lemma sorts_before_trans: "sorts_before le a b \<Longrightarrow> sorts_before le b c \<Longrightarrow> sorts_before le a c"
  unfolding sorts_before_def by (blast intro: le_trans)

lemma first_by_order_least:
  "first_by_order le js = Some j \<Longrightarrow> k \<in> set js \<Longrightarrow> sorts_before le j k"
proof (induction js arbitrary: j)
  case (Cons x js)
  show ?case
  proof (cases "first_by_order le js")
    case None
    then show ?thesis using Cons.prems sorts_before_total [of x x] by auto
  next
    case (Some y)
    have least: "sorts_before le y k" if "k \<in> set js" using Cons.IH [OF Some that] .
    show ?thesis
      using Cons.prems Some least sorts_before_total [of x x] sorts_before_total [of x y]
      by (auto split: if_splits intro: sorts_before_trans)
  qed
qed simp

text \<open>
  A row that is not yet due by more than \<open>slack\<close> is not selected, and one overdue by
  \<open>slack\<close> is selectable.
\<close>

lemma due_not_early:
  assumes "due le now j" and "valid now"
    and "\<And>e. lease_expires j = Some e \<Longrightarrow> valid e" and "valid (available_at j)"
  shows "job_status j = JobQueued \<and> available_at j < now + slack \<or>
    (\<exists>e. job_status j = JobRunning \<and> lease_expires j = Some e \<and> e < now + slack)"
  using assms le_late by (auto simp: due_def split: option.splits)

lemma overdue_is_due:
  "job_status j = JobQueued \<Longrightarrow> valid now \<Longrightarrow> valid (available_at j) \<Longrightarrow> available_at j + slack \<le> now \<Longrightarrow> due le now j"
  by (simp add: due_def le_sure)

end

lemma lease_next_cases:
  assumes "distinct (map job_id tbl)"
  obtains (none) "filter (due le now) tbl = []" "lease_next False le owner now d tbl = (Inl ErrNoJob, tbl)"
  | (some) j where "first_by_order le (filter (due le now) tbl) = Some j" "j \<in> set tbl" "due le now j"
      "lease_next False le owner now d tbl =
        (Inr \<lparr>leased_job = claim owner now (now + d) j, lease_holder = owner, lease_until = now + d\<rparr>,
         update_where (\<lambda>r. job_id r = job_id j) (claim owner now (now + d)) tbl)"
proof (cases "first_by_order le (filter (due le now) tbl)")
  case None
  then show ?thesis using none by (simp add: lease_next_def)
next
  case (Some j)
  then have j: "j \<in> set tbl" "due le now j" using first_by_order_in [OF Some] by auto
  have "affected (\<lambda>r. job_id r = job_id j) tbl = 1"
    using affected_unique [OF assms find_by_unique [OF assms j(1)], of "\<lambda>_. True"] by simp
  then show ?thesis using some [OF Some j] Some by (simp add: lease_next_def Let_def)
qed

section \<open>Ending a lease\<close>

text \<open>
  The contract that \<open>complete\<close>, \<open>fail\<close> and \<open>retry\<close> share with the worker: the holder of the
  lease ends it, nobody else can, and the row it had is the only one that changes.
\<close>

locale lease_end =
  fixes end_lease :: "string \<Rightarrow> string \<Rightarrow> job_table \<Rightarrow> (job_error + unit) \<times> job_table"
    and outcome :: "job \<Rightarrow> job"
  assumes end_lost: "(\<And>r. r \<in> set tbl \<Longrightarrow> \<not> held i owner r) \<Longrightarrow> end_lease i owner tbl = (Inl ErrLeaseLost, tbl)"
    and end_held: "distinct (map job_id tbl) \<Longrightarrow> r \<in> set tbl \<Longrightarrow> held i owner r \<Longrightarrow>
        end_lease i owner tbl = (Inr (), update_where (held i owner) outcome tbl)"
    and outcome_id [simp]: "job_id (outcome r) = job_id r"
    and outcome_free [simp]: "lease_owner (outcome r) = None"
begin

lemma end_cases:
  assumes "distinct (map job_id tbl)"
  obtains (lost) "\<And>r. r \<in> set tbl \<Longrightarrow> \<not> held i owner r" "end_lease i owner tbl = (Inl ErrLeaseLost, tbl)"
  | (held) r where "r \<in> set tbl" "held i owner r" "end_lease i owner tbl = (Inr (), update_where (held i owner) outcome tbl)"
  using end_lost end_held [OF assms] by metis

lemma end_ids: "map job_id (snd (end_lease i owner tbl)) = map job_id tbl" if "distinct (map job_id tbl)"
  using that by (cases rule: end_cases [where i = i and owner = owner]) (auto simp: map_update_where held_def)

lemma end_frame:
  assumes "distinct (map job_id tbl)" and "k \<noteq> i"
  shows "find_by job_id k (snd (end_lease i owner tbl)) = find_by job_id k tbl"
using assms(1)
proof (cases rule: end_cases [where i = i and owner = owner])
  case (held r)
  have "find_by job_id k (update_where (held i owner) outcome tbl)
      = map_option (\<lambda>r. if held i owner r then outcome r else r) (find_by job_id k tbl)"
    by (rule find_by_update_where) simp
  also have "\<dots> = find_by job_id k tbl"
    using assms(2) by (cases "find_by job_id k tbl") (auto simp: held_def dest: find_by_SomeD)
  finally show ?thesis using held by simp
qed simp

lemma nobody_holds_after:
  assumes "distinct (map job_id tbl)" and "end_lease i owner tbl = (Inr (), tbl')" and "r \<in> set tbl'"
  shows "\<not> held i owner' r"
using assms(1)
proof (cases rule: end_cases [where i = i and owner = owner])
  case (held r0)
  have r0: "find_by job_id i tbl = Some r0"
    using held assms(1) find_by_unique [of job_id tbl r0] by (simp add: held_def)
  then have only: "x = r0" if "x \<in> set tbl" "job_id x = i" for x
    using that find_by_unique [OF assms(1) that(1)] by simp
  obtain x where x: "x \<in> set tbl" "r = (if held i owner x then outcome x else x)"
    using assms(2,3) held(3) by (auto simp: set_update_where)
  show ?thesis
    using x only [OF x(1)] held(2) by (cases "held i owner x") (auto simp: held_def)
qed (use assms(2) in simp)

text \<open>A lease ends at most once, whoever tries.\<close>

lemma end_once:
  assumes "distinct (map job_id tbl)" and "end_lease i owner tbl = (Inr (), tbl')"
  shows "end_lease i owner' tbl' = (Inl ErrLeaseLost, tbl')"
  by (rule end_lost) (rule nobody_holds_after [OF assms])

end

lemma affected_held:
  assumes "distinct (map job_id tbl)" "r \<in> set tbl" "held i owner r"
  shows "affected (held i owner) tbl = 1"
proof -
  have r: "find_by job_id i tbl = Some r"
    using assms find_by_unique [of job_id tbl r] by (simp add: held_def)
  have "affected (held i owner) tbl =
      affected (\<lambda>r. job_id r = i \<and> (job_status r = JobRunning \<and> lease_owner r = Some owner)) tbl"
    unfolding affected_def by (rule arg_cong [where f = length], rule filter_cong) (auto simp: held_def)
  also have "\<dots> = 1"
    using affected_unique [OF assms(1) r, of "\<lambda>r. job_status r = JobRunning \<and> lease_owner r = Some owner"] assms(3)
    by (simp add: held_def)
  finally show ?thesis .
qed

lemma finish_lost:
  assumes "\<And>r. r \<in> set tbl \<Longrightarrow> \<not> held i owner r"
  shows "finish False i owner st at m tbl = (Inl ErrLeaseLost, tbl)"
proof -
  have "affected (held i owner) tbl = 0" using assms by (simp add: affected_def filter_empty_conv)
  then show ?thesis using update_where_none [OF assms] by (simp add: finish_def)
qed

lemma finish_held:
  assumes "distinct (map job_id tbl)" "r \<in> set tbl" "held i owner r"
  shows "finish False i owner st at m tbl = (Inr (), update_where (held i owner) (release st m at) tbl)"
  using affected_held [OF assms] by (simp add: finish_def)

interpretation completing: lease_end "\<lambda>i owner. complete False i owner at" "release JobSucceeded '''' at" for at
  by unfold_locales (auto simp: complete_def release_def intro!: finish_lost finish_held)

interpretation failing: lease_end "\<lambda>i owner. fail False i owner at m" "release JobFailed m at" for at m
  by unfold_locales (auto simp: fail_def release_def intro!: finish_lost finish_held)

definition requeue_or_fail :: "time \<Rightarrow> string \<Rightarrow> job \<Rightarrow> job" where
  "requeue_or_fail at m r = requeue (if attempts r \<ge> max_attempts r then JobFailed else JobQueued) at m r"

lemma retry_held:
  assumes d: "distinct (map job_id tbl)" and r: "r \<in> set tbl" "held i owner r"
  shows "retry False i owner at m tbl = (Inr (), update_where (held i owner) (requeue_or_fail at m) tbl)"
proof -
  have only: "x = r" if "x \<in> set tbl" "held i owner x" for x
    using that r d by (auto simp: held_def distinct_map inj_on_def)
  obtain y where "List.find (held i owner) tbl = Some y"
    using r by (metis find_None_iff option.exhaust)
  moreover from this have "y = r"
    using only by (auto simp: find_Some_iff)
  moreover have "update_where (held i owner) (requeue_or_fail at m) tbl =
      update_where (held i owner) (requeue (if attempts r \<ge> max_attempts r then JobFailed else JobQueued) at m) tbl"
    using only by (auto simp: update_where_def requeue_or_fail_def)
  ultimately show ?thesis using affected_held [OF assms] by (simp add: retry_def Let_def)
qed

lemma retry_lost:
  assumes "\<And>r. r \<in> set tbl \<Longrightarrow> \<not> held i owner r"
  shows "retry False i owner at m tbl = (Inl ErrLeaseLost, tbl)"
proof -
  have "List.find (held i owner) tbl = None" using assms by (auto simp: find_None_iff)
  then show ?thesis by (simp add: retry_def)
qed

interpretation retrying: lease_end "\<lambda>i owner. retry False i owner at m" "requeue_or_fail at m" for at m
  by unfold_locales (auto simp: requeue_or_fail_def requeue_def intro!: retry_lost retry_held)

section \<open>Reachable tables\<close>

text \<open>One rule per method; which worker calls, when and with which clock is open.\<close>

inductive job_step :: "(time \<Rightarrow> time \<Rightarrow> bool) \<Rightarrow> job_table \<Rightarrow> job_table \<Rightarrow> bool" for le where
  enqueues: "enqueue fault (new_job opt i kind body now) tbl = (res, tbl') \<Longrightarrow> job_step le tbl tbl'"
| leases: "lease_next fault le owner now d tbl = (res', tbl') \<Longrightarrow> job_step le tbl tbl'"
| completes: "complete fault i owner at tbl = (res, tbl') \<Longrightarrow> job_step le tbl tbl'"
| fails: "fail fault i owner at m tbl = (res, tbl') \<Longrightarrow> job_step le tbl tbl'"
| retries: "retry fault i owner at m tbl = (res, tbl') \<Longrightarrow> job_step le tbl tbl'"

inductive job_reachable :: "(time \<Rightarrow> time \<Rightarrow> bool) \<Rightarrow> job_table \<Rightarrow> bool" for le where
  empty_table: "job_reachable le []"
| next_table: "job_reachable le tbl \<Longrightarrow> job_step le tbl tbl' \<Longrightarrow> job_reachable le tbl'"

definition job_row_ok :: "job \<Rightarrow> bool" where
  "job_row_ok r \<longleftrightarrow>
     (job_status r = JobRunning \<longleftrightarrow> lease_owner r \<noteq> None) \<and>
     (lease_owner r = None \<longleftrightarrow> lease_expires r = None) \<and>
     (job_status r \<noteq> JobQueued \<longrightarrow> 1 \<le> attempts r) \<and> 1 \<le> max_attempts r"

definition job_inv :: "job_table \<Rightarrow> bool" where
  "job_inv tbl \<longleftrightarrow> distinct (map job_id tbl) \<and> (\<forall>r \<in> set tbl. job_row_ok r)"

definition job_terminal :: "job \<Rightarrow> bool" where
  "job_terminal r \<longleftrightarrow> job_status r = JobSucceeded \<or> job_status r = JobFailed"

text \<open>
  What every step does to a table: an append of a fresh queued row, or an update of some
  rows that keeps their keys, leaves terminal rows alone and never lowers an attempt count.
\<close>

definition good_update :: "(job \<Rightarrow> bool) \<Rightarrow> (job \<Rightarrow> job) \<Rightarrow> job_table \<Rightarrow> bool" where
  "good_update P f tbl \<longleftrightarrow>
     (\<forall>r. job_id (f r) = job_id r) \<and>
     (\<forall>r \<in> set tbl. P r \<longrightarrow> \<not> job_terminal r \<and> attempts r \<le> attempts (f r) \<and> max_attempts (f r) = max_attempts r \<and>
        (job_row_ok r \<longrightarrow> job_row_ok (f r)))"

lemma good_claim:
  assumes "distinct (map job_id tbl)" "j \<in> set tbl" "due le now j"
  shows "good_update (\<lambda>r. job_id r = job_id j) (claim owner now e) tbl"
proof -
  have "r = j" if "r \<in> set tbl" "job_id r = job_id j" for r
    using that assms(1,2) by (auto simp: distinct_map inj_on_def)
  moreover have "\<not> job_terminal j" using assms(3) by (auto simp: job_terminal_def due_def)
  ultimately show ?thesis
    unfolding good_update_def by (auto simp: claim_def job_row_ok_def)
qed

lemma good_end:
  assumes "\<And>r. job_id (f r) = job_id r" "\<And>r. attempts (f r) = attempts r" "\<And>r. max_attempts (f r) = max_attempts r"
    and "\<And>r. lease_owner (f r) = None \<and> lease_expires (f r) = None \<and> job_status (f r) \<noteq> JobRunning"
  shows "good_update (held i owner) f tbl"
  using assms by (auto simp: good_update_def held_def job_terminal_def job_row_ok_def)

lemma good_release: "st \<noteq> JobRunning \<Longrightarrow> good_update (held i owner) (release st m at) tbl"
  by (rule good_end) (auto simp: release_def)

lemma good_requeue: "st \<noteq> JobRunning \<Longrightarrow> good_update (held i owner) (requeue st at m) tbl"
  by (rule good_end) (auto simp: requeue_def)

lemma job_step_shape:
  assumes "job_step le tbl tbl'" and "distinct (map job_id tbl)"
  obtains (same) "tbl' = tbl"
  | (appended) j where "tbl' = tbl @ [j]" "find_by job_id (job_id j) tbl = None" "job_row_ok j"
  | (updated) P f where "tbl' = update_where P f tbl" "good_update P f tbl"
  using assms(1)
proof cases
  case (enqueues fault opt i kind body now res)
  have ok: "job_row_ok (new_job opt i kind body now)"
    by (auto simp: job_row_ok_def new_job_def queue_attempts_def)
  have "(new_job opt i kind body now)\<lparr>lease_owner := None, lease_expires := None\<rparr> = new_job opt i kind body now"
    by (simp add: new_job_def)
  then show ?thesis using enqueues same appended ok by (auto simp: enqueue_def split: if_splits)
next
  case (leases fault owner now d res)
  show ?thesis
  proof (cases fault)
    case True
    then show ?thesis using leases same by (simp add: lease_next_def)
  next
    case False
    show ?thesis
      using assms(2)
    proof (cases rule: lease_next_cases [where le = le and owner = owner and now = now and d = d])
      case none
      then show ?thesis using leases False same by simp
    next
      case (some j)
      then show ?thesis using leases False updated [OF _ good_claim [OF assms(2) some(2,3)]] by auto
    qed
  qed
next
  case (completes fault i owner at res)
  then show ?thesis
    using same updated [OF _ good_release [where st = JobSucceeded]] by (auto simp: complete_def finish_def split: if_splits)
next
  case (fails fault i owner at m res)
  then show ?thesis
    using same updated [OF _ good_release [where st = JobFailed]] by (auto simp: fail_def finish_def split: if_splits)
next
  case (retries fault i owner at m res)
  then show ?thesis
    using same updated [OF _ good_requeue [where st = JobFailed]] updated [OF _ good_requeue [where st = JobQueued]]
    by (auto simp: retry_def Let_def split: if_splits option.splits)
qed

lemma job_step_inv:
  assumes "job_step le tbl tbl'" and "job_inv tbl"
  shows "job_inv tbl'"
proof -
  have d: "distinct (map job_id tbl)" using assms(2) by (simp add: job_inv_def)
  show ?thesis
    using assms(1) d
  proof (cases rule: job_step_shape)
    case (appended j)
    then show ?thesis using assms(2) by (auto simp: job_inv_def find_by_None)
  next
    case (updated P f)
    then show ?thesis
      using assms(2) by (auto simp: job_inv_def good_update_def map_update_where set_update_where)
  qed (use assms(2) in simp)
qed

lemma job_reachable_inv: "job_reachable le tbl \<Longrightarrow> job_inv tbl"
  by (induction rule: job_reachable.induct) (auto simp: job_inv_def [of "[]"] intro: job_step_inv)

lemma job_step_row:
  assumes "job_step le tbl tbl'" and "job_inv tbl" and "find_by job_id i tbl = Some r"
  shows "\<exists>r'. find_by job_id i tbl' = Some r' \<and> (job_terminal r \<longrightarrow> r' = r) \<and>
    attempts r \<le> attempts r' \<and> max_attempts r' = max_attempts r"
proof -
  have d: "distinct (map job_id tbl)" using assms(2) by (simp add: job_inv_def)
  show ?thesis
    using assms(1) d
  proof (cases rule: job_step_shape)
    case (updated P f)
    have "r \<in> set tbl" using assms(3) by (auto dest: find_by_SomeD)
    then show ?thesis
      using updated assms(3) by (auto simp: good_update_def find_by_update_where)
  qed (use assms(3) in \<open>auto simp: find_by_append\<close>)
qed

lemma job_steps_row:
  assumes "(job_step le)\<^sup>*\<^sup>* tbl tbl'" and "job_inv tbl" and "find_by job_id i tbl = Some r"
  shows "job_inv tbl' \<and> (\<exists>r'. find_by job_id i tbl' = Some r' \<and> (job_terminal r \<longrightarrow> r' = r) \<and>
    attempts r \<le> attempts r' \<and> max_attempts r' = max_attempts r)"
  using assms
proof (induction rule: rtranclp_induct)
  case (step t u)
  then obtain r' where r': "job_inv t" "find_by job_id i t = Some r'" "job_terminal r \<longrightarrow> r' = r"
    "attempts r \<le> attempts r'" "max_attempts r' = max_attempts r" by blast
  from job_step_row [OF step.hyps(2) r'(1,2)] job_step_inv [OF step.hyps(2) r'(1)] r'(3-)
  show ?case by (metis le_trans)
qed auto

section \<open>Properties\<close>

text \<open>
  C30. Leasing on a reachable table: with no due row the queue reports that there is no job and
  changes nothing; otherwise it leases a due row that no other due row precedes in
  (available_at, created_at) order, marks that row running under the caller until
  now + duration with one more attempt, and changes no other row. Holds for both dialects.
\<close>

theorem lease_next_takes_first_due:
  assumes "job_reachable (time_le dia) tbl"
  shows "(\<forall>r \<in> set tbl. \<not> due (time_le dia) now r) \<and>
      lease_next False (time_le dia) owner now d tbl = (Inl ErrNoJob, tbl) \<or>
    (\<exists>j \<in> set tbl. due (time_le dia) now j \<and>
      (\<forall>k \<in> set tbl. due (time_le dia) now k \<longrightarrow> sorts_before (time_le dia) j k) \<and>
      lease_next False (time_le dia) owner now d tbl =
        (Inr \<lparr>leased_job = claim owner now (now + d) j, lease_holder = owner, lease_until = now + d\<rparr>,
         map (\<lambda>r. if r = j then claim owner now (now + d) j else r) tbl))"
proof -
  have dist: "distinct (map job_id tbl)"
    using job_reachable_inv [OF assms] by (simp add: job_inv_def)
  have least: "sorts_before (time_le dia) j k"
    if "first_by_order (time_le dia) js = Some j" "k \<in> set js" for js j k
    using that sqlite.first_by_order_least mysql.first_by_order_least by (cases dia) auto
  show ?thesis
    using dist
  proof (cases rule: lease_next_cases [where le = "time_le dia" and owner = owner and now = now and d = d])
    case none
    then show ?thesis by (auto simp: filter_empty_conv)
  next
    case (some j)
    have "update_where (\<lambda>r. job_id r = job_id j) (claim owner now (now + d)) tbl
        = map (\<lambda>r. if r = j then claim owner now (now + d) j else r) tbl"
      unfolding update_where_def using dist some(2) by (auto simp: distinct_map inj_on_def)
    then show ?thesis using some least [OF some(1)] by auto
  qed
qed

text \<open>A table with one queued job, for the witnesses.\<close>

definition one_job :: "job_table" where
  "one_job = [new_job \<lparr>queue_max_attempts = 0\<rparr> ''j1'' KindPowerOperation (JObj [(''operation_id'', JStr ''op1'')]) 5]"

lemma one_job_reachable: "job_reachable le one_job"
  by (rule job_reachable.next_table [OF job_reachable.empty_table],
      rule job_step.enqueues [where fault = False and opt = "\<lparr>queue_max_attempts = 0\<rparr>" and i = "''j1''"
        and kind = KindPowerOperation and body = "JObj [(''operation_id'', JStr ''op1'')]" and now = 5 and res = "Inr ()"])
     (simp add: enqueue_def one_job_def new_job_def)

theorem lease_next_takes_first_due_witness:
  "(\<forall>r \<in> set one_job. \<not> due (time_le MySQL) 7 r) \<and>
      lease_next False (time_le MySQL) ''w'' 7 30 one_job = (Inl ErrNoJob, one_job) \<or>
    (\<exists>j \<in> set one_job. due (time_le MySQL) 7 j \<and>
      (\<forall>k \<in> set one_job. due (time_le MySQL) 7 k \<longrightarrow> sorts_before (time_le MySQL) j k) \<and>
      lease_next False (time_le MySQL) ''w'' 7 30 one_job =
        (Inr \<lparr>leased_job = claim ''w'' 7 (7 + 30) j, lease_holder = ''w'', lease_until = 7 + 30\<rparr>,
         map (\<lambda>r. if r = j then claim ''w'' 7 (7 + 30) j else r) one_job))"
  by (rule lease_next_takes_first_due) (rule one_job_reachable)

text \<open>
  A lease is exclusive for its duration. On SQLite, where stored times are compared as
  texts, a running job is not leased to anybody before its lease has expired or is within a
  second of expiring, and a queued job is not leased more than a second early.
\<close>

lemma lease_not_stolen:
  assumes "lease_next fault (time_le SQLite) owner now d tbl = (Inr l, tbl')"
    and "distinct (map job_id tbl)" and "four_digit_year now"
    and "\<And>r. r \<in> set tbl \<Longrightarrow> four_digit_year (available_at r)"
    and "\<And>r e. r \<in> set tbl \<Longrightarrow> lease_expires r = Some e \<Longrightarrow> four_digit_year e"
  shows "\<exists>r \<in> set tbl. job_id r = job_id (leased_job l) \<and>
    (job_status r = JobQueued \<and> available_at r < now + second \<or>
     (\<exists>e. job_status r = JobRunning \<and> lease_expires r = Some e \<and> e < now + second))"
proof -
  have fault: "fault = False" using assms(1) by (auto simp: lease_next_def)
  show ?thesis
    using assms(2)
  proof (cases rule: lease_next_cases [where le = "time_le SQLite" and owner = owner and now = now and d = d])
    case none
    then show ?thesis using assms(1) fault by simp
  next
    case (some j)
    have "job_id j = job_id (leased_job l)" using some(4) assms(1) fault by (auto simp: claim_def)
    then show ?thesis
      using sqlite.due_not_early [OF some(3) assms(3) assms(5) [OF some(2)] assms(4) [OF some(2)]] some(2) by blast
  qed
qed

theorem lease_not_stolen_witness:
  "\<exists>l tbl' r. lease_next False (time_le SQLite) ''w'' 5 30 one_job = (Inr l, tbl') \<and> r \<in> set one_job \<and>
    job_id r = job_id (leased_job l) \<and> available_at r < 5 + second"
proof -
  have y: "four_digit_year 5"
    by (simp add: four_digit_year_def second_def civil_year.simps year_length_def leap_year_def)
  have due: "due (time_le SQLite) 5 (hd one_job)"
    using sqlite.le_refl by (simp add: one_job_def new_job_def due_def)
  obtain l tbl' where l: "lease_next False (time_le SQLite) ''w'' 5 30 one_job = (Inr l, tbl')"
    using due by (simp add: lease_next_def one_job_def Let_def affected_def)
  have "\<exists>r \<in> set one_job. job_id r = job_id (leased_job l) \<and>
    (job_status r = JobQueued \<and> available_at r < 5 + second \<or>
     (\<exists>e. job_status r = JobRunning \<and> lease_expires r = Some e \<and> e < 5 + second))"
    by (rule lease_not_stolen [OF l]) (use y in \<open>auto simp: one_job_def new_job_def\<close>)
  then show ?thesis using l by (auto simp: one_job_def new_job_def)
qed

text \<open>
  A lease ends exactly once: after its holder has completed, failed or retried the job,
  every further attempt of any worker to complete, fail or retry it reports the lost lease
  and changes nothing.
\<close>

lemma lease_ends_once:
  assumes "job_reachable le tbl"
    and "complete False i owner at tbl = (Inr (), tbl') \<or> fail False i owner at m tbl = (Inr (), tbl') \<or>
      retry False i owner at m tbl = (Inr (), tbl')"
  shows "complete False i owner' at' tbl' = (Inl ErrLeaseLost, tbl') \<and>
    fail False i owner' at' m' tbl' = (Inl ErrLeaseLost, tbl') \<and>
    retry False i owner' at' m' tbl' = (Inl ErrLeaseLost, tbl')"
proof -
  have d: "distinct (map job_id tbl)" using job_reachable_inv [OF assms(1)] by (simp add: job_inv_def)
  have nobody: "\<not> held i owner' r" if "r \<in> set tbl'" for r
    using assms(2) completing.nobody_holds_after [OF d _ that] failing.nobody_holds_after [OF d _ that]
      retrying.nobody_holds_after [OF d _ that] by blast
  show ?thesis
    using completing.end_lost [OF nobody] failing.end_lost [OF nobody] retrying.end_lost [OF nobody] by blast
qed

definition leased_one_job :: "job_table" where
  "leased_one_job = [claim ''w'' 5 35 (hd one_job)]"

lemma leased_one_job_reachable: "job_reachable (time_le d) leased_one_job"
proof (rule job_reachable.next_table [OF one_job_reachable], rule job_step.leases)
  have "time_le d 5 5" using sqlite.le_refl mysql.le_refl by (cases d) auto
  then show "lease_next False (time_le d) ''w'' 5 30 one_job =
      (Inr \<lparr>leased_job = claim ''w'' 5 35 (hd one_job), lease_holder = ''w'', lease_until = 35\<rparr>, leased_one_job)"
    by (simp add: lease_next_def one_job_def new_job_def due_def Let_def affected_def leased_one_job_def claim_def)
qed

theorem lease_ends_once_witness:
  "\<exists>tbl'. complete False ''j1'' ''w'' 9 leased_one_job = (Inr (), tbl') \<and>
    retry False ''j1'' ''w'' 10 ''late'' tbl' = (Inl ErrLeaseLost, tbl')"
proof -
  obtain tbl' where c: "complete False ''j1'' ''w'' 9 leased_one_job = (Inr (), tbl')"
    by (simp add: complete_def finish_def leased_one_job_def one_job_def new_job_def claim_def held_def affected_def)
  from lease_ends_once [OF leased_one_job_reachable [of MySQL] disjI1 [OF c], of "''w''" 10 "''late''"] c
  show ?thesis by blast
qed

text \<open>
  C31. Once a job has succeeded or failed its row never changes again, whatever workers and
  producers do afterwards; and no step lowers the attempt count of any job, loses a job or
  changes its attempt limit.
\<close>

theorem finished_job_is_final:
  assumes "job_reachable le tbl" and "find_by job_id i tbl = Some r" and "(job_step le)\<^sup>*\<^sup>* tbl tbl'"
  shows "\<exists>r'. find_by job_id i tbl' = Some r' \<and> (job_terminal r \<longrightarrow> r' = r) \<and>
    attempts r \<le> attempts r' \<and> max_attempts r' = max_attempts r"
  using job_steps_row [OF assms(3) job_reachable_inv [OF assms(1)] assms(2)] by blast

theorem finished_job_is_final_witness:
  "\<exists>r'. find_by job_id ''j1'' leased_one_job = Some r' \<and> attempts (hd one_job) \<le> attempts r'"
proof -
  have step: "job_step (time_le MySQL) one_job leased_one_job"
    by (rule job_step.leases [where fault = False and owner = "''w''" and now = 5 and d = 30
        and res' = "Inr \<lparr>leased_job = claim ''w'' 5 35 (hd one_job), lease_holder = ''w'', lease_until = 35\<rparr>"])
      (use mysql.le_refl in \<open>simp add: lease_next_def one_job_def new_job_def due_def Let_def affected_def
        leased_one_job_def claim_def\<close>)
  have "find_by job_id ''j1'' one_job = Some (hd one_job)" by (simp add: one_job_def new_job_def)
  moreover have "(job_step (time_le MySQL))\<^sup>*\<^sup>* one_job leased_one_job" using step by simp
  ultimately show ?thesis using finished_job_is_final [OF one_job_reachable] by blast
qed

lemma crash_loop:
  assumes refl: "\<And>t. le t t"
  shows "\<exists>r now. job_reachable le [r] \<and> attempts r = Suc n \<and> max_attempts r = 3 \<and>
    job_status r = JobRunning \<and> lease_expires r = Some now"
proof (induction n)
  case 0
  have "lease_next False le ''w'' 5 30 one_job =
      (Inr \<lparr>leased_job = claim ''w'' 5 35 (hd one_job), lease_holder = ''w'', lease_until = 35\<rparr>, leased_one_job)"
    using refl
    by (simp add: lease_next_def one_job_def new_job_def due_def Let_def affected_def leased_one_job_def claim_def)
  from job_reachable.next_table [OF one_job_reachable job_step.leases [OF this]]
  have "job_reachable le [claim ''w'' 5 35 (hd one_job)]" by (simp add: leased_one_job_def)
  then show ?case
    by (intro exI [of _ "claim ''w'' 5 35 (hd one_job)"] exI [of _ 35])
       (simp add: claim_def one_job_def new_job_def queue_attempts_def)
next
  case (Suc n)
  then obtain r now where r: "job_reachable le [r]" "attempts r = Suc n" "max_attempts r = 3"
    "job_status r = JobRunning" "lease_expires r = Some now" by blast
  have "lease_next False le ''w'' now 30 [r] =
      (Inr \<lparr>leased_job = claim ''w'' now (now + 30) r, lease_holder = ''w'', lease_until = now + 30\<rparr>,
       [claim ''w'' now (now + 30) r])"
    using r refl by (simp add: lease_next_def due_def Let_def affected_def)
  from job_reachable.next_table [OF r(1) job_step.leases [OF this]] r
  show ?case by (intro exI [of _ "claim ''w'' now (now + 30) r"] exI [of _ "now + 30"]) (simp add: claim_def)
qed

text \<open>
  C32. The attempt limit does not bound the attempts of a job whose worker dies: leasing an
  expired job again does not look at the limit, so for every n a table is reachable whose
  job has a limit of three attempts and has been started more than n times.
\<close>

theorem attempts_exceed_limit_after_crashes:
  "\<exists>tbl r. job_reachable (time_le d) tbl \<and> r \<in> set tbl \<and> max_attempts r = 3 \<and> n < attempts r"
proof -
  have "time_le d t t" for t using sqlite.le_refl mysql.le_refl by (cases d) auto
  then obtain r where "job_reachable (time_le d) [r]" "attempts r = Suc n" "max_attempts r = 3"
    using crash_loop by meson
  then show ?thesis by (intro exI [of _ "[r]"] exI [of _ r]) simp
qed

end
