(* ===== verification/ProviderModel.thy ===== *)
theory ProviderModel imports Prelude begin

text \<open>
  The data of the provider interface, \<^verbatim>\<open>internal/providers/provider.go\<close>, and Go errors as the
  callers inspect them. The server states of \<^verbatim>\<open>internal/inventory/model.go\<close> are the same
  eight words. Providers themselves (the clients of cloud APIs) are parameters of the model:
  a provider is whatever results its calls give.
\<close>

section \<open>Provider data\<close>

datatype server_state = StatePending | StateRunning | StateStopping | StateStopped
  | StateRebooting | StateSuspended | StateError | StateUnknown

datatype error_code = ErrorAuthentication | ErrorPermission | ErrorRateLimited | ErrorNetwork
  | ErrorInvalidConfig | ErrorNotFound | ErrorUnsupported | ErrorProvider

fun error_code_text :: "error_code \<Rightarrow> string" where
  "error_code_text ErrorAuthentication = ''authentication_failed''"
| "error_code_text ErrorPermission = ''permission_denied''"
| "error_code_text ErrorRateLimited = ''rate_limited''"
| "error_code_text ErrorNetwork = ''network_error''"
| "error_code_text ErrorInvalidConfig = ''invalid_configuration''"
| "error_code_text ErrorNotFound = ''not_found''"
| "error_code_text ErrorUnsupported = ''unsupported''"
| "error_code_text ErrorProvider = ''provider_error''"

record provider_error =
  pe_code :: error_code
  pe_message :: string
  pe_retryable :: bool

record capability =
  cap_available :: bool
  cap_reason :: string

record capabilities =
  can_start :: capability
  can_stop :: capability
  can_reboot :: capability
  can_embed_console :: capability
  can_open_console_window :: capability
  has_provider_portal :: capability

record server_ref =
  ref_external_id :: string
  ref_scope :: string

record remote_server =
  rs_external_id :: string
  rs_scope :: string
  rs_name :: string
  rs_state :: server_state
  rs_remote_state :: string
  rs_spec :: json
  rs_addresses :: json
  rs_capabilities :: capabilities

section \<open>Go errors\<close>

text \<open>
  An error value: a plain error with its text, a provider error, an error wrapped with
  \<^verbatim>\<open>%w\<close>, or the join of several. \<open>provider_of\<close> is \<^verbatim>\<open>errors.As\<close> for the provider error type, the
  only one of the code that is retryable or has a safe message: a depth-first search.
\<close>

datatype go_error = Plain string | Provider provider_error | Wrapped string go_error | Joined "go_error list"

fun provider_of :: "go_error \<Rightarrow> provider_error option" where
  "provider_of (Plain _) = None"
| "provider_of (Provider p) = Some p"
| "provider_of (Wrapped _ e) = provider_of e"
| "provider_of (Joined []) = None"
| "provider_of (Joined (e # es)) =
     (case provider_of e of Some p \<Rightarrow> Some p | None \<Rightarrow> provider_of (Joined es))"

fun join_lines :: "string list \<Rightarrow> string" where
  "join_lines [] = []"
| "join_lines [l] = l"
| "join_lines (l # m # ls) = l @ char_of (10 :: nat) # join_lines (m # ls)"

text \<open>\<open>Error()\<close>: a provider error prints its code and message, a wrapped error its prefix first.\<close>

fun error_text :: "go_error \<Rightarrow> string" where
  "error_text (Plain s) = s"
| "error_text (Provider p) = ''provider '' @ error_code_text (pe_code p) @ '': '' @ pe_message p"
| "error_text (Wrapped pre e) = pre @ '': '' @ error_text e"
| "error_text (Joined es) = join_lines (map error_text es)"

definition retryable :: "go_error \<Rightarrow> bool" where
  "retryable e = (case provider_of e of None \<Rightarrow> False | Some p \<Rightarrow> pe_retryable p)"

end
