(* ===== verification/JobWorker.thy ===== *)
theory JobWorker imports JobQueue ProviderModel begin

text \<open>
  The background worker, \<^verbatim>\<open>internal/jobs/worker.go\<close>: lease a job, run its handler, and complete,
  retry or fail the job by the outcome. The clock readings and driver faults of one round
  are its environment; the handler is a parameter that may change the job table too,
  because other goroutines enqueue jobs while it runs.
\<close>

section \<open>Options\<close>

text \<open>
  The default \<open>RetryDelay\<close>: \<^verbatim>\<open>min(time.Second << min(attempt-1, 8), 5*time.Minute)\<close>, for
  the attempt numbers from 1 that leasing hands out.
\<close>

definition default_retry_delay :: "nat \<Rightarrow> time" where
  "default_retry_delay attempt = min (second * 2 ^ min (attempt - 1) 8) (5 * 60 * second)"

record worker_options =
  wo_owner :: string
  wo_lease_duration :: time
  wo_retry_delay :: "nat \<Rightarrow> time"

record worker_config =
  wc_owner :: string
  wc_lease_duration :: int
  wc_retry_delay :: "(nat \<Rightarrow> time) option"

definition new_worker :: "worker_config \<Rightarrow> worker_options" where
  "new_worker c = \<lparr>
     wo_owner = (if wc_owner c = '''' then ''worker'' else wc_owner c),
     wo_lease_duration = (if wc_lease_duration c \<le> 0 then 30 * second else nat (wc_lease_duration c)),
     wo_retry_delay = (case wc_retry_delay c of None \<Rightarrow> default_retry_delay | Some f \<Rightarrow> f)\<rparr>"

section \<open>One round\<close>

definition safe_error_message :: "go_error \<Rightarrow> string" where
  "safe_error_message e =
     take 1024 (go_trim (case provider_of e of None \<Rightarrow> error_text e | Some p \<Rightarrow> pe_message p))"

record round_env =
  lease_fault :: bool
  end_fault :: bool
  lease_clock :: time
  end_clock :: time

type_synonym 'w handler = "job \<Rightarrow> job_table \<times> 'w \<Rightarrow> go_error option \<times> (job_table \<times> 'w)"

definition run_once :: "worker_options \<Rightarrow> (time \<Rightarrow> time \<Rightarrow> bool) \<Rightarrow> round_env \<Rightarrow> 'w handler
    \<Rightarrow> job_table \<times> 'w \<Rightarrow> (job_error + unit) \<times> (job_table \<times> 'w)" where
  "run_once opt le env handle st =
     (case lease_next (lease_fault env) le (wo_owner opt) (lease_clock env) (wo_lease_duration opt) (fst st) of
        (Inl e, tbl) \<Rightarrow> (Inl e, (tbl, snd st))
      | (Inr l, tbl) \<Rightarrow>
          (let j = leased_job l;
               (err, (tbl', w)) = handle j (tbl, snd st);
               (res, tbl'') =
                 (case err of
                    None \<Rightarrow> complete (end_fault env) (job_id j) (lease_holder l) (end_clock env) tbl'
                  | Some e \<Rightarrow>
                      if retryable e
                      then retry (end_fault env) (job_id j) (lease_holder l)
                             (end_clock env + wo_retry_delay opt (attempts j)) (safe_error_message e) tbl'
                      else fail (end_fault env) (job_id j) (lease_holder l) (end_clock env) (safe_error_message e) tbl')
           in (res, (tbl'', w))))"

text \<open>
  \<open>Run\<close> over the environments of its rounds; \<open>cancelled\<close> tells whether the context ended while
  the worker was waiting after a round without a job. \<open>None\<close>: still running after these rounds.
\<close>

fun worker_run :: "worker_options \<Rightarrow> (time \<Rightarrow> time \<Rightarrow> bool) \<Rightarrow> 'w handler \<Rightarrow> (round_env \<times> bool) list
    \<Rightarrow> job_table \<times> 'w \<Rightarrow> (job_error + unit) option \<times> (job_table \<times> 'w)" where
  "worker_run opt le handle [] st = (None, st)"
| "worker_run opt le handle ((env, cancelled) # rest) st =
     (case run_once opt le env handle st of
        (Inr _, st') \<Rightarrow> worker_run opt le handle rest st'
      | (Inl ErrNoJob, st') \<Rightarrow> if cancelled then (Some (Inr ()), st') else worker_run opt le handle rest st'
      | (Inl e, st') \<Rightarrow> (Some (Inl e), st'))"

section \<open>The contract of a handler\<close>

text \<open>
  What the worker needs of a handler: whatever happens to the table while it runs, the row
  of the leased job is the one the lease left there.
\<close>

locale job_handler =
  fixes handle :: "'w handler"
  assumes keeps_row: "distinct (map job_id tbl) \<Longrightarrow> handle j (tbl, w) = (e, (tbl', w')) \<Longrightarrow>
    distinct (map job_id tbl') \<and> find_by job_id (job_id j) tbl' = find_by job_id (job_id j) tbl"
begin

text \<open>The row of the leased job after a round, by the outcome of the handler.\<close>

lemma round_outcome:
  assumes d: "distinct (map job_id tbl)"
    and lease: "lease_next False le (wo_owner opt) (lease_clock env) (wo_lease_duration opt) tbl = (Inr l, tbl1)"
    and handled: "handle (leased_job l) (tbl1, w) = (err, (tbl2, w2))"
    and ok: "lease_fault env = False" "end_fault env = False"
  shows "\<exists>tbl3. run_once opt le env handle (tbl, w) = (Inr (), (tbl3, w2)) \<and>
    find_by job_id (job_id (leased_job l)) tbl3 = Some
      (case err of
         None \<Rightarrow> release JobSucceeded '''' (end_clock env) (leased_job l)
       | Some e \<Rightarrow>
           if retryable e
           then requeue_or_fail (end_clock env + wo_retry_delay opt (attempts (leased_job l))) (safe_error_message e) (leased_job l)
           else release JobFailed (safe_error_message e) (end_clock env) (leased_job l))"
proof -
  let ?i = "job_id (leased_job l)" and ?o = "wo_owner opt"
  have leased: "find_by job_id ?i tbl1 = Some (leased_job l) \<and> lease_holder l = ?o \<and> held ?i ?o (leased_job l) \<and>
      distinct (map job_id tbl1)"
    using d
  proof (cases rule: lease_next_cases [where le = le and owner = ?o and now = "lease_clock env" and d = "wo_lease_duration opt"])
    case none
    then show ?thesis using lease by simp
  next
    case (some j)
    let ?c = "claim ?o (lease_clock env) (lease_clock env + wo_lease_duration opt)"
    have l: "l = \<lparr>leased_job = ?c j, lease_holder = ?o, lease_until = lease_clock env + wo_lease_duration opt\<rparr>"
      and t: "tbl1 = update_where (\<lambda>r. job_id r = job_id j) ?c tbl"
      using some(4) lease by simp_all
    have "map job_id tbl1 = map job_id tbl" unfolding t by (rule map_update_where) (simp add: claim_def)
    moreover have "find_by job_id (job_id j) tbl1 = Some (?c j)"
      unfolding t using find_by_unique [OF d some(2)]
      by (subst find_by_update_where) (simp_all add: claim_def)
    ultimately show ?thesis using d by (simp add: l claim_def held_def)
  qed
  then have row: "find_by job_id ?i tbl1 = Some (leased_job l)" and holder: "lease_holder l = ?o"
    and heldl: "held ?i ?o (leased_job l)" and d1: "distinct (map job_id tbl1)"
    by blast+
  have d2: "distinct (map job_id tbl2)" and row2: "find_by job_id ?i tbl2 = Some (leased_job l)"
    using keeps_row [OF d1 handled] row by simp_all
  have in2: "leased_job l \<in> set tbl2" using row2 by (auto dest: find_by_SomeD)
  have upd: "find_by job_id ?i (update_where (held ?i ?o) f tbl2) = Some (f (leased_job l))"
    if "\<And>r. job_id (f r) = job_id r" for f
    using row2 heldl that by (subst find_by_update_where) simp_all
  show ?thesis
    using completing.end_held [OF d2 in2 heldl] failing.end_held [OF d2 in2 heldl]
      retrying.end_held [OF d2 in2 heldl] completing.outcome_id failing.outcome_id retrying.outcome_id upd
    by (auto simp: run_once_def ok lease handled holder Let_def split: option.splits)
qed

end

section \<open>Properties\<close>

text \<open>
  The default back-off doubles from one second and stops growing at 256 seconds, on
  the ninth attempt; the five-minute limit of the code is never reached.
\<close>

lemma retry_delay_doubles_to_256s:
  "default_retry_delay n = second * 2 ^ min (n - 1) 8 \<and>
   second \<le> default_retry_delay n \<and> default_retry_delay n \<le> 256 * second \<and>
   default_retry_delay n \<le> default_retry_delay (Suc n)"
proof -
  have p: "(2::nat) ^ min k 8 \<le> 2 ^ 8" for k by (rule power_increasing) simp_all
  have d: "default_retry_delay k = second * 2 ^ min (k - 1) 8" for k
    using p [of "k - 1"] by (simp add: default_retry_delay_def min_def [of "second * 2 ^ min (k - 1) 8"])
  have "(2::nat) ^ min (n - 1) 8 \<le> 2 ^ min (Suc n - 1) 8" by (rule power_increasing) simp_all
  then show ?thesis using p [of "n - 1"] by (simp add: d)
qed

end
