(* ===== verification/InventoryModel.thy ===== *)
theory InventoryModel imports GoTime ProviderModel begin

text \<open>
  The part of the inventory that power operations and the console use:
  the server rows of \<^verbatim>\<open>internal/inventory/model.go\<close>, \<open>FindByID\<close> and \<open>UpdateRemote\<close> of
  \<^verbatim>\<open>internal/inventory/sql_repository.go\<close>, and the JSON form of the capabilities that the two
  exchange through the \<^verbatim>\<open>capabilities_json\<close> column. \<open>live\<close> says which connections exist and
  are not deleted (the join with \<^verbatim>\<open>provider_connections\<close>).
\<close>

section \<open>Capabilities as JSON\<close>

definition member_or_null :: "string \<Rightarrow> (string \<times> json) list \<Rightarrow> json" where
  "member_or_null name ms = (case map_of (rev ms) name of None \<Rightarrow> JNull | Some v \<Rightarrow> v)"

fun as_bool :: "json \<Rightarrow> bool option" where
  "as_bool JNull = Some False"
| "as_bool (JBool b) = Some b"
| "as_bool _ = None"

fun as_string :: "json \<Rightarrow> string option" where
  "as_string JNull = Some ''''"
| "as_string (JStr s) = Some s"
| "as_string _ = None"

definition no_capability :: capability where
  "no_capability = \<lparr>cap_available = False, cap_reason = ''''\<rparr>"

fun as_capability :: "json \<Rightarrow> capability option" where
  "as_capability JNull = Some no_capability"
| "as_capability (JObj ms) =
     (case (as_bool (member_or_null ''available'' ms), as_string (member_or_null ''reason'' ms)) of
        (Some a, Some r) \<Rightarrow> Some \<lparr>cap_available = a, cap_reason = r\<rparr>
      | _ \<Rightarrow> None)"
| "as_capability _ = None"

fun as_capabilities :: "json \<Rightarrow> capabilities option" where
  "as_capabilities JNull = Some \<lparr>can_start = no_capability, can_stop = no_capability, can_reboot = no_capability,
     can_embed_console = no_capability, can_open_console_window = no_capability, has_provider_portal = no_capability\<rparr>"
| "as_capabilities (JObj ms) =
     (case (as_capability (member_or_null ''can_start'' ms), as_capability (member_or_null ''can_stop'' ms),
            as_capability (member_or_null ''can_reboot'' ms), as_capability (member_or_null ''can_embed_console'' ms),
            as_capability (member_or_null ''can_open_console_window'' ms),
            as_capability (member_or_null ''has_provider_portal'' ms)) of
        (Some a, Some b, Some c, Some d, Some e, Some f) \<Rightarrow>
          Some \<lparr>can_start = a, can_stop = b, can_reboot = c, can_embed_console = d,
                can_open_console_window = e, has_provider_portal = f\<rparr>
      | _ \<Rightarrow> None)"
| "as_capabilities _ = None"

text \<open>\<^verbatim>\<open>json.Unmarshal\<close> of the column: text that is not JSON is an error.\<close>

definition decode_capabilities :: "json option \<Rightarrow> capabilities option" where
  "decode_capabilities raw = (case raw of None \<Rightarrow> None | Some v \<Rightarrow> as_capabilities v)"

text \<open>\<^verbatim>\<open>json.Marshal\<close>: an empty reason is omitted.\<close>

definition capability_json :: "capability \<Rightarrow> json" where
  "capability_json c =
     JObj ((''available'', JBool (cap_available c)) #
           (if cap_reason c = '''' then [] else [(''reason'', JStr (cap_reason c))]))"

definition capabilities_json :: "capabilities \<Rightarrow> json" where
  "capabilities_json c = JObj
     [(''can_start'', capability_json (can_start c)), (''can_stop'', capability_json (can_stop c)),
      (''can_reboot'', capability_json (can_reboot c)),
      (''can_embed_console'', capability_json (can_embed_console c)),
      (''can_open_console_window'', capability_json (can_open_console_window c)),
      (''has_provider_portal'', capability_json (has_provider_portal c))]"

lemma as_capability_json [simp]: "as_capability (capability_json c) = Some c"
  by (simp add: capability_json_def member_or_null_def)

section \<open>Server rows\<close>

record server =
  srv_id :: string
  srv_connection :: string
  srv_external_id :: string
  srv_scope :: string
  srv_name :: string
  srv_state :: server_state
  srv_remote_state :: string
  srv_spec :: json
  srv_addresses :: json
  srv_capabilities :: "json option"
  srv_portal_url :: "string option"
  srv_last_seen :: time
  srv_last_checked :: time
  srv_hidden_at :: "time option"
  srv_created :: time
  srv_updated :: time

datatype inventory_error = ErrServerNotFound | ErrInventoryDatabase

type_synonym server_table = "server list"

definition find_server :: "bool \<Rightarrow> (string \<Rightarrow> bool) \<Rightarrow> string \<Rightarrow> server_table \<Rightarrow> inventory_error + server" where
  "find_server fault live i tbl =
     (if fault then Inl ErrInventoryDatabase
      else (case List.find (\<lambda>r. srv_id r = i \<and> srv_hidden_at r = None \<and> live (srv_connection r)) tbl of
              None \<Rightarrow> Inl ErrServerNotFound
            | Some r \<Rightarrow> Inr r))"

definition visible_row :: "string \<Rightarrow> server \<Rightarrow> bool" where
  "visible_row i r \<longleftrightarrow> srv_id r = i \<and> srv_hidden_at r = None"

definition overwrite_remote :: "remote_server \<Rightarrow> time \<Rightarrow> server \<Rightarrow> server" where
  "overwrite_remote remote at r =
     r\<lparr>srv_name := rs_name remote, srv_state := rs_state remote, srv_remote_state := rs_remote_state remote,
       srv_spec := rs_spec remote, srv_addresses := rs_addresses remote,
       srv_capabilities := Some (capabilities_json (rs_capabilities remote)),
       srv_last_seen := at, srv_last_checked := at, srv_updated := at\<rparr>"

definition update_remote :: "bool \<Rightarrow> string \<Rightarrow> remote_server \<Rightarrow> time \<Rightarrow> server_table \<Rightarrow> (inventory_error + unit) \<times> server_table" where
  "update_remote fault i remote at tbl =
     (if fault then (Inl ErrInventoryDatabase, tbl)
      else
        (let tbl' = update_where (visible_row i) (overwrite_remote remote at) tbl
         in (if affected (visible_row i) tbl \<noteq> 1 then Inl ErrServerNotFound else Inr (), tbl')))"

section \<open>Properties\<close>

text \<open>
  Round trip. Decoding the capabilities that \<open>UpdateRemote\<close> writes gives back exactly the
  capabilities of the provider, for every capability and reason.
\<close>

lemma capabilities_round_trip: "decode_capabilities (Some (capabilities_json c)) = Some c"
  by (simp add: decode_capabilities_def capabilities_json_def member_or_null_def)

end
