(* ===== verification/OpStore.thy ===== *)
theory OpStore imports GoTime ProviderModel begin

text \<open>
  Power operations and their SQL repository: \<^verbatim>\<open>internal/operations/model.go\<close> and
  \<^verbatim>\<open>internal/operations/sql_repository.go\<close> with the constraints of the \<^verbatim>\<open>operations\<close> table
  (\<^verbatim>\<open>internal/database/migrations.go\<close>). A row is the operation and its \<^verbatim>\<open>active_marker\<close> column
  (\<open>True\<close> for \<^verbatim>\<open>'active'\<close>, \<open>False\<close> for \<^verbatim>\<open>NULL\<close>). Every method is one transaction.
\<close>

section \<open>Data\<close>

datatype action = ActionStart | ActionStop | ActionReboot | ActionOther string

fun action_text :: "action \<Rightarrow> string" where
  "action_text ActionStart = ''start''"
| "action_text ActionStop = ''stop''"
| "action_text ActionReboot = ''reboot''"
| "action_text (ActionOther s) = s"

definition action_of :: "string \<Rightarrow> action" where
  "action_of s = (if s = ''start'' then ActionStart else if s = ''stop'' then ActionStop
     else if s = ''reboot'' then ActionReboot else ActionOther s)"

datatype op_status = StatusQueued | StatusRunning | StatusVerifying | StatusSucceeded
  | StatusFailed | StatusTimedOut | StatusCancelled

fun op_status_text :: "op_status \<Rightarrow> string" where
  "op_status_text StatusQueued = ''queued''"
| "op_status_text StatusRunning = ''running''"
| "op_status_text StatusVerifying = ''verifying''"
| "op_status_text StatusSucceeded = ''succeeded''"
| "op_status_text StatusFailed = ''failed''"
| "op_status_text StatusTimedOut = ''timed_out''"
| "op_status_text StatusCancelled = ''cancelled''"

fun terminal :: "op_status \<Rightarrow> bool" where
  "terminal StatusSucceeded = True"
| "terminal StatusFailed = True"
| "terminal StatusTimedOut = True"
| "terminal StatusCancelled = True"
| "terminal _ = False"

record operation =
  op_id :: string
  op_server :: string
  op_connection :: string
  op_action :: action
  op_status :: op_status
  op_key :: string
  op_request_id :: string
  op_error_code :: string
  op_error_message :: string
  op_queued_at :: time
  op_started_at :: "time option"
  op_finished_at :: "time option"
  op_updated_at :: time

record transition_change =
  ch_at :: "time option"
  ch_request_id :: string
  ch_error_code :: string
  ch_error_message :: string

record op_row =
  row_op :: operation
  active_marker :: bool

type_synonym op_table = "op_row list"

datatype op_error = ErrOperationNotFound | ErrActiveOperation | ErrInvalidTransition | ErrOpDatabase

abbreviation row_id :: "op_row \<Rightarrow> string" where
  "row_id r \<equiv> op_id (row_op r)"

abbreviation row_key :: "op_row \<Rightarrow> string" where
  "row_key r \<equiv> op_key (row_op r)"

abbreviation row_server :: "op_row \<Rightarrow> string" where
  "row_server r \<equiv> op_server (row_op r)"

section \<open>The SQL repository\<close>

text \<open>
  The constraints an \<^verbatim>\<open>INSERT\<close> of an active row must meet: primary key, unique idempotency
  key, unique (server, marker), known action, and the foreign keys (\<open>fk\<close>).
\<close>

definition insert_allowed :: "(operation \<Rightarrow> bool) \<Rightarrow> op_table \<Rightarrow> operation \<Rightarrow> bool" where
  "insert_allowed fk tbl op \<longleftrightarrow>
     find_by row_id (op_id op) tbl = None \<and> find_by row_key (op_key op) tbl = None \<and>
     (\<forall>r \<in> set tbl. active_marker r \<longrightarrow> row_server r \<noteq> op_server op) \<and>
     op_action op \<in> {ActionStart, ActionStop, ActionReboot} \<and> fk op"

definition create_queued :: "bool \<Rightarrow> (operation \<Rightarrow> bool) \<Rightarrow> operation \<Rightarrow> op_table
    \<Rightarrow> (op_error + operation \<times> bool) \<times> op_table" where
  "create_queued fault fk op tbl =
     (if fault then (Inl ErrOpDatabase, tbl)
      else
        (case find_by row_key (op_key op) tbl of
           Some r \<Rightarrow> (Inr (row_op r, False), tbl)
         | None \<Rightarrow>
             (let op' = op\<lparr>op_status := StatusQueued\<rparr>
              in if insert_allowed fk tbl op' then
                   (Inr (op', True),
                    tbl @ [\<lparr>row_op = op'\<lparr>op_started_at := None, op_finished_at := None\<rparr>, active_marker = True\<rparr>])
                 else
                   (case find_by row_key (op_key op') tbl of
                      Some r \<Rightarrow> (Inr (row_op r, False), tbl)
                    | None \<Rightarrow>
                        (if \<exists>r \<in> set tbl. row_server r = op_server op' \<and> active_marker r
                         then (Inl ErrActiveOperation, tbl) else (Inl ErrOpDatabase, tbl))))))"

definition find_operation :: "bool \<Rightarrow> string \<Rightarrow> op_table \<Rightarrow> op_error + operation" where
  "find_operation fault i tbl =
     (if fault then Inl ErrOpDatabase
      else (case find_by row_id i tbl of None \<Rightarrow> Inl ErrOperationNotFound | Some r \<Rightarrow> Inr (row_op r)))"

definition find_by_idempotency_key :: "bool \<Rightarrow> string \<Rightarrow> op_table \<Rightarrow> op_error + operation" where
  "find_by_idempotency_key fault k tbl =
     (if fault then Inl ErrOpDatabase
      else (case find_by row_key k tbl of None \<Rightarrow> Inl ErrOperationNotFound | Some r \<Rightarrow> Inr (row_op r)))"

fun valid_transition :: "op_status \<Rightarrow> op_status \<Rightarrow> bool" where
  "valid_transition StatusQueued n = (n = StatusRunning \<or> n = StatusFailed \<or> n = StatusCancelled)"
| "valid_transition StatusRunning n =
     (n = StatusVerifying \<or> n = StatusSucceeded \<or> n = StatusFailed \<or> n = StatusTimedOut)"
| "valid_transition StatusVerifying n = (n = StatusSucceeded \<or> n = StatusFailed \<or> n = StatusTimedOut)"
| "valid_transition _ n = False"

text \<open>The operation a transition writes; \<open>now\<close> is the clock used when the change has no time.\<close>

definition apply_change :: "time \<Rightarrow> op_status \<Rightarrow> transition_change \<Rightarrow> operation \<Rightarrow> operation" where
  "apply_change now n ch op =
     (let at = (case ch_at ch of None \<Rightarrow> now | Some t \<Rightarrow> t)
      in op\<lparr>op_status := n, op_updated_at := at,
            op_started_at := (if n = StatusRunning \<and> op_started_at op = None then Some at else op_started_at op),
            op_finished_at := (if terminal n then Some at else op_finished_at op),
            op_request_id := (if ch_request_id ch \<noteq> '''' then ch_request_id ch else op_request_id op),
            op_error_code := ch_error_code ch, op_error_message := ch_error_message ch\<rparr>)"

definition transition_row :: "string \<Rightarrow> op_status \<Rightarrow> op_row \<Rightarrow> bool" where
  "transition_row i previous r \<longleftrightarrow> row_id r = i \<and> op_status (row_op r) = previous"

definition transition :: "bool \<Rightarrow> time \<Rightarrow> string \<Rightarrow> op_status \<Rightarrow> transition_change \<Rightarrow> op_table
    \<Rightarrow> (op_error + operation) \<times> op_table" where
  "transition fault now i n ch tbl =
     (if fault then (Inl ErrOpDatabase, tbl)
      else
        (case find_by row_id i tbl of
           None \<Rightarrow> (Inl ErrOperationNotFound, tbl)
         | Some r \<Rightarrow>
             (if \<not> valid_transition (op_status (row_op r)) n then (Inl ErrInvalidTransition, tbl)
              else
                (let current = apply_change now n ch (row_op r);
                     hit = transition_row i (op_status (row_op r))
                 in if affected hit tbl \<noteq> 1 then (Inl ErrInvalidTransition, tbl)
                    else (Inr current,
                          update_where hit (\<lambda>_. \<lparr>row_op = current, active_marker = \<not> terminal n\<rparr>) tbl)))))"

record op_filter =
  by_server :: string
  by_connection :: string
  by_status :: "op_status option"

definition matches_filter :: "op_filter \<Rightarrow> operation \<Rightarrow> bool" where
  "matches_filter f op \<longleftrightarrow>
     (by_server f = '''' \<or> op_server op = by_server f) \<and>
     (by_connection f = '''' \<or> op_connection op = by_connection f) \<and>
     (case by_status f of None \<Rightarrow> True | Some s \<Rightarrow> op_status op = s)"

text \<open>\<^verbatim>\<open>ORDER BY queued_at DESC, id DESC\<close> with the engine's order on times.\<close>

definition newer_first :: "(time \<Rightarrow> time \<Rightarrow> bool) \<Rightarrow> operation \<Rightarrow> operation \<Rightarrow> bool" where
  "newer_first le a b \<longleftrightarrow>
     le (op_queued_at b) (op_queued_at a) \<and>
     (le (op_queued_at a) (op_queued_at b) \<longrightarrow> text_le (op_id b) (op_id a))"

fun insert_sorted :: "('a \<Rightarrow> 'a \<Rightarrow> bool) \<Rightarrow> 'a \<Rightarrow> 'a list \<Rightarrow> 'a list" where
  "insert_sorted before x [] = [x]"
| "insert_sorted before x (y # ys) = (if before x y then x # y # ys else y # insert_sorted before x ys)"

definition list_operations :: "bool \<Rightarrow> (time \<Rightarrow> time \<Rightarrow> bool) \<Rightarrow> op_filter \<Rightarrow> op_table \<Rightarrow> op_error + operation list" where
  "list_operations fault le f tbl =
     (if fault then Inl ErrOpDatabase
      else Inr (foldr (insert_sorted (newer_first le)) (filter (matches_filter f) (map row_op tbl)) []))"

section \<open>Invariant\<close>

definition op_row_ok :: "op_row \<Rightarrow> bool" where
  "op_row_ok r \<longleftrightarrow>
     (let op = row_op r; s = op_status op
      in (active_marker r \<longleftrightarrow> \<not> terminal s) \<and> (op_finished_at op \<noteq> None \<longleftrightarrow> terminal s) \<and>
         (s = StatusQueued \<longrightarrow> op_started_at op = None) \<and>
         (s = StatusRunning \<or> s = StatusVerifying \<longrightarrow> op_started_at op \<noteq> None) \<and>
         op_action op \<in> {ActionStart, ActionStop, ActionReboot})"

definition op_inv :: "op_table \<Rightarrow> bool" where
  "op_inv tbl \<longleftrightarrow>
     distinct (map row_id tbl) \<and> distinct (map row_key tbl) \<and> (\<forall>r \<in> set tbl. op_row_ok r) \<and>
     distinct (map row_server (filter active_marker tbl))"

text \<open>The fields that identify the request an operation stands for.\<close>

definition same_request :: "operation \<Rightarrow> operation \<Rightarrow> bool" where
  "same_request a b \<longleftrightarrow> op_id a = op_id b \<and> op_server a = op_server b \<and> op_connection a = op_connection b \<and>
     op_action a = op_action b \<and> op_key a = op_key b \<and> op_queued_at a = op_queued_at b"

lemma same_request_refl [simp]: "same_request a a"
  by (simp add: same_request_def)

lemma same_request_trans: "same_request a b \<Longrightarrow> same_request b c \<Longrightarrow> same_request a c"
  by (simp add: same_request_def)

lemma same_request_apply_change [simp]: "same_request op (apply_change now n ch op)"
  by (simp add: same_request_def apply_change_def Let_def)

lemma status_apply_change [simp]: "op_status (apply_change now n ch op) = n"
  by (simp add: apply_change_def Let_def)

lemma op_row_ok_change:
  assumes "op_row_ok r" and "valid_transition (op_status (row_op r)) n"
  shows "op_row_ok \<lparr>row_op = apply_change now n ch (row_op r), active_marker = \<not> terminal n\<rparr>"
  using assms by (cases "op_status (row_op r)")
    (auto simp: op_row_ok_def apply_change_def Let_def)

section \<open>Creating\<close>

lemma create_cases:
  obtains (failed) e where "create_queued fault fk op tbl = (Inl e, tbl)"
  | (existing) r where "find_by row_key (op_key op) tbl = Some r" "create_queued fault fk op tbl = (Inr (row_op r, False), tbl)"
  | (created) "\<not> fault" "insert_allowed fk tbl (op\<lparr>op_status := StatusQueued\<rparr>)"
      "create_queued fault fk op tbl = (Inr (op\<lparr>op_status := StatusQueued\<rparr>, True),
        tbl @ [\<lparr>row_op = op\<lparr>op_status := StatusQueued, op_started_at := None, op_finished_at := None\<rparr>, active_marker = True\<rparr>])"
  by (cases "find_by row_key (op_key op) tbl"; cases "insert_allowed fk tbl (op\<lparr>op_status := StatusQueued\<rparr>)"; cases fault;
      cases "\<exists>r \<in> set tbl. row_server r = op_server op \<and> active_marker r")
     (simp_all add: create_queued_def Let_def)

lemma insert_inv:
  assumes "op_inv tbl" and "insert_allowed fk tbl (op\<lparr>op_status := StatusQueued\<rparr>)"
  shows "op_inv (tbl @ [\<lparr>row_op = op\<lparr>op_status := StatusQueued, op_started_at := None, op_finished_at := None\<rparr>, active_marker = True\<rparr>])"
  using assms by (auto simp: op_inv_def insert_allowed_def find_by_None op_row_ok_def Let_def)

lemma create_inv:
  assumes "op_inv tbl" and "create_queued fault fk op tbl = (res, tbl')"
  shows "op_inv tbl'"
  by (cases rule: create_cases [of fault fk op tbl]) (use assms insert_inv in auto)

section \<open>Transitions\<close>

lemma transition_cases:
  assumes "distinct (map row_id tbl)"
  obtains (failed) e where "transition fault now i n ch tbl = (Inl e, tbl)"
  | (changed) r where "\<not> fault" "find_by row_id i tbl = Some r" "valid_transition (op_status (row_op r)) n"
      "transition fault now i n ch tbl = (Inr (apply_change now n ch (row_op r)),
        update_where (\<lambda>x. row_id x = i) (\<lambda>_. \<lparr>row_op = apply_change now n ch (row_op r), active_marker = \<not> terminal n\<rparr>) tbl)"
proof (cases "find_by row_id i tbl")
  case None
  then show ?thesis using failed by (cases fault) (auto simp: transition_def)
next
  case (Some r)
  have only: "transition_row i (op_status (row_op r)) x \<longleftrightarrow> row_id x = i" if "x \<in> set tbl" for x
    using that Some find_by_unique [OF assms, of x] by (auto simp: transition_row_def)
  have "affected (transition_row i (op_status (row_op r))) tbl = 1"
    using affected_unique [OF assms Some, of "\<lambda>x. op_status (row_op x) = op_status (row_op r)"]
    by (simp add: transition_row_def [abs_def])
  moreover have "update_where (transition_row i (op_status (row_op r))) f tbl = update_where (\<lambda>x. row_id x = i) f tbl" for f
    using only by (auto simp: update_where_def)
  ultimately show ?thesis
    using Some failed changed
    by (cases fault; cases "valid_transition (op_status (row_op r)) n") (simp_all add: transition_def Let_def)
qed

lemma find_after_change_option:
  assumes "op_id new = i"
  shows "find_by row_id k (update_where (\<lambda>x. row_id x = i) (\<lambda>_. \<lparr>row_op = new, active_marker = m\<rparr>) tbl)
    = (if k = i then map_option (\<lambda>_. \<lparr>row_op = new, active_marker = m\<rparr>) (find_by row_id i tbl) else find_by row_id k tbl)"
  using assms by (induction tbl) auto

lemma find_after_change:
  assumes "find_by row_id i tbl = Some r" and "op_id new = i"
  shows "find_by row_id k (update_where (\<lambda>x. row_id x = i) (\<lambda>_. \<lparr>row_op = new, active_marker = m\<rparr>) tbl)
    = (if k = i then Some \<lparr>row_op = new, active_marker = m\<rparr> else find_by row_id k tbl)"
  using assms by (simp add: find_after_change_option)

text \<open>A transition along an edge of the graph succeeds when the driver does.\<close>

lemma transition_ok:
  assumes "distinct (map row_id tbl)" and "find_by row_id i tbl = Some r" and "valid_transition (op_status (row_op r)) n"
  shows "\<exists>tbl'. transition False now i n ch tbl = (Inr (apply_change now n ch (row_op r)), tbl')"
proof -
  have "affected (transition_row i (op_status (row_op r))) tbl = 1"
    using affected_unique [OF assms(1,2), of "\<lambda>x. op_status (row_op x) = op_status (row_op r)"]
    by (simp add: transition_row_def [abs_def])
  then show ?thesis using assms(2,3) by (simp add: transition_def Let_def)
qed

lemma filter_active_update:
  assumes "distinct (map row_server (filter active_marker tbl))" and "distinct (map row_id tbl)"
    and "find_by row_id i tbl = Some r" and "op_server new = row_server r" and "m \<longrightarrow> active_marker r"
  shows "distinct (map row_server (filter active_marker
    (update_where (\<lambda>x. row_id x = i) (\<lambda>_. \<lparr>row_op = new, active_marker = m\<rparr>) tbl)))"
  using assms
proof (induction tbl)
  case (Cons x tbl)
  show ?case
  proof (cases "row_id x = i")
    case True
    then have "row_id y \<noteq> i" if "y \<in> set tbl" for y
      using Cons.prems(2) that by (force simp: image_iff)
    then have rest: "update_where (\<lambda>x. row_id x = i) (\<lambda>_. \<lparr>row_op = new, active_marker = m\<rparr>) tbl = tbl"
      by (intro update_where_none) auto
    show ?thesis using True Cons.prems(1,3,4,5) by (auto simp: rest split: if_splits)
  next
    case False
    let ?u = "update_where (\<lambda>x. row_id x = i) (\<lambda>_. \<lparr>row_op = new, active_marker = m\<rparr>)"
    have IH: "distinct (map row_server (filter active_marker (?u tbl)))"
      using Cons False by (auto split: if_splits)
    have r: "r \<in> set tbl" using Cons.prems(3) False by (auto dest: find_by_SomeD)
    have sub: "row_server ` {y \<in> set (?u tbl). active_marker y} \<subseteq> row_server ` {y \<in> set tbl. active_marker y}"
      using r Cons.prems(4,5) by (auto simp: set_update_where)
    show ?thesis
      using IH sub False Cons.prems(1) by auto
  qed
qed simp

lemma valid_from_active: "valid_transition s n \<Longrightarrow> \<not> terminal s"
  by (cases s) auto

lemma transition_inv:
  assumes inv: "op_inv tbl" and tr: "transition fault now i n ch tbl = (res, tbl')"
  shows "op_inv tbl'"
proof -
  have d: "distinct (map row_id tbl)" using inv by (simp add: op_inv_def)
  show ?thesis
    using d
  proof (cases rule: transition_cases [where fault = fault and now = now and i = i and n = n and ch = ch])
    case (failed e)
    then show ?thesis using inv tr by simp
  next
    case (changed r)
    let ?new = "apply_change now n ch (row_op r)"
    have r: "r \<in> set tbl" "row_id r = i" using changed(2) by (auto dest: find_by_SomeD)
    have same: "same_request (row_op r) ?new" by simp
    have ok: "op_row_ok r" using inv r(1) by (simp add: op_inv_def)
    have only: "x = r" if "x \<in> set tbl" "row_id x = i" for x
      using that find_by_unique [OF d that(1)] changed(2) by simp
    let ?tbl = "update_where (\<lambda>x. row_id x = i) (\<lambda>_. \<lparr>row_op = ?new, active_marker = \<not> terminal n\<rparr>) tbl"
    have keep: "g (row_op (if row_id x = i then \<lparr>row_op = ?new, active_marker = \<not> terminal n\<rparr> else x)) = g (row_op x)"
      if "x \<in> set tbl" "g ?new = g (row_op r)" for x and g :: "operation \<Rightarrow> string"
      using only that by (cases "row_id x = i") auto
    have "op_id ?new = op_id (row_op r)" "op_key ?new = op_key (row_op r)"
      using same by (simp_all add: same_request_def)
    then have "map row_id ?tbl = map row_id tbl" "map row_key ?tbl = map row_key tbl"
      unfolding update_where_def using keep [of _ op_id] keep [of _ op_key] by auto
    moreover have "distinct (map row_server (filter active_marker ?tbl))"
      using inv d changed(2) same ok valid_from_active [OF changed(3)]
      by (intro filter_active_update) (auto simp: op_inv_def same_request_def op_row_ok_def Let_def)
    moreover have "\<forall>x \<in> set ?tbl. op_row_ok x"
      using inv op_row_ok_change [OF ok changed(3)] by (auto simp: op_inv_def set_update_where)
    ultimately show ?thesis using inv changed(4) tr by (simp add: op_inv_def)
  qed
qed

text \<open>The row after a transition that succeeded.\<close>

lemma transition_row_after:
  assumes inv: "op_inv tbl" and tr: "transition fault now i n ch tbl = (Inr op', tbl')"
  shows "op_inv tbl' \<and> (\<exists>r. find_by row_id i tbl = Some r \<and> valid_transition (op_status (row_op r)) n \<and>
    op' = apply_change now n ch (row_op r) \<and> find_by row_id i tbl' = Some \<lparr>row_op = op', active_marker = \<not> terminal n\<rparr>)"
proof -
  have d: "distinct (map row_id tbl)" using inv by (simp add: op_inv_def)
  show ?thesis
    using d
  proof (cases rule: transition_cases [where fault = fault and now = now and i = i and n = n and ch = ch])
    case (failed e)
    then show ?thesis using tr by simp
  next
    case (changed r)
    have "op_id (apply_change now n ch (row_op r)) = i"
      using same_request_apply_change [of "row_op r" now n ch] find_by_SomeD [OF changed(2)] by (simp add: same_request_def)
    from find_after_change [OF changed(2) this, of i] show ?thesis
      using changed tr transition_inv [OF inv tr] by auto
  qed
qed

lemma transition_error_keeps: "transition fault now i n ch tbl = (Inl e, tbl') \<Longrightarrow> tbl' = tbl"
  by (auto simp: transition_def Let_def split: if_splits option.splits)

section \<open>Reachable tables\<close>

inductive op_step :: "op_table \<Rightarrow> op_table \<Rightarrow> bool" where
  creates: "create_queued fault fk op tbl = (res, tbl') \<Longrightarrow> op_step tbl tbl'"
| changes: "transition fault now i n ch tbl = (res', tbl') \<Longrightarrow> op_step tbl tbl'"

inductive op_reachable :: "op_table \<Rightarrow> bool" where
  no_operations: "op_reachable []"
| next_operations: "op_reachable tbl \<Longrightarrow> op_step tbl tbl' \<Longrightarrow> op_reachable tbl'"

lemma op_step_inv: "op_step tbl tbl' \<Longrightarrow> op_inv tbl \<Longrightarrow> op_inv tbl'"
  by (induction rule: op_step.induct) (auto intro: create_inv transition_inv)

lemma op_reachable_inv: "op_reachable tbl \<Longrightarrow> op_inv tbl"
  by (induction rule: op_reachable.induct) (auto simp: op_inv_def [of "[]"] intro: op_step_inv)

text \<open>What any step does to an operation: one edge of the state graph, or nothing.\<close>

lemma op_step_row:
  assumes "op_step tbl tbl'" and inv: "op_inv tbl" and "find_by row_id i tbl = Some r"
  shows "\<exists>r'. find_by row_id i tbl' = Some r' \<and> same_request (row_op r) (row_op r') \<and>
    (r' = r \<or> valid_transition (op_status (row_op r)) (op_status (row_op r')))"
  using assms(1)
proof cases
  case (creates fault fk op res)
  show ?thesis
    by (cases rule: create_cases [of fault fk op tbl]) (use creates assms(3) in \<open>auto simp: find_by_append\<close>)
next
  case (changes fault now k n ch res)
  have d: "distinct (map row_id tbl)" using inv by (simp add: op_inv_def)
  show ?thesis
    using d
  proof (cases rule: transition_cases [where fault = fault and now = now and i = k and n = n and ch = ch])
    case (failed e)
    then show ?thesis using changes assms(3) by simp
  next
    case (changed x)
    have kx: "row_id x = k" using changed(2) by (auto dest: find_by_SomeD)
    have "op_id (apply_change now n ch (row_op x)) = k"
      using same_request_apply_change [of "row_op x" now n ch] kx by (simp add: same_request_def)
    from find_after_change [OF changed(2) this, of i]
    show ?thesis using changes changed assms(3) by auto
  qed
qed

section \<open>The interface of the store\<close>










section \<open>Properties\<close>

text \<open>
  C1. In every reachable table two operations that are still in progress never target the same
  server, no two operations share an id or an idempotency key, and an operation has a finish
  time exactly when its status is terminal and a start time once it runs.
\<close>

theorem one_operation_in_progress_per_server:
  assumes "op_reachable tbl" and "x \<in> set tbl" and "y \<in> set tbl"
  shows "(row_server x = row_server y \<and> \<not> terminal (op_status (row_op x)) \<and> \<not> terminal (op_status (row_op y)) \<longrightarrow> x = y) \<and>
    (row_id x = row_id y \<or> row_key x = row_key y \<longrightarrow> x = y) \<and>
    (op_finished_at (row_op x) \<noteq> None \<longleftrightarrow> terminal (op_status (row_op x))) \<and>
    (op_status (row_op x) \<in> {StatusRunning, StatusVerifying} \<longrightarrow> op_started_at (row_op x) \<noteq> None)"
proof -
  have inv: "op_inv tbl" by (rule op_reachable_inv [OF assms(1)])
  then have ok: "op_row_ok x" "op_row_ok y" using assms by (auto simp: op_inv_def)
  have inj: "inj_on row_id (set tbl)" "inj_on row_key (set tbl)" "inj_on row_server (set (filter active_marker tbl))"
    using inv by (simp_all add: op_inv_def distinct_map)
  show ?thesis
    using assms ok inj_onD [OF inj(1)] inj_onD [OF inj(2)] inj_onD [OF inj(3), of x y]
    by (auto simp: op_row_ok_def Let_def)
qed

definition sample_operation :: "string \<Rightarrow> string \<Rightarrow> string \<Rightarrow> operation" where
  "sample_operation i server k = \<lparr>op_id = i, op_server = server, op_connection = ''c1'', op_action = ActionStart,
     op_status = StatusQueued, op_key = k, op_request_id = ''r1'', op_error_code = [], op_error_message = [],
     op_queued_at = 10, op_started_at = None, op_finished_at = None, op_updated_at = 10\<rparr>"

definition sample_table :: op_table where
  "sample_table = snd (create_queued False (\<lambda>_. True) (sample_operation ''o1'' ''s1'' ''k1'') [])"

lemma sample_table_reachable: "op_reachable sample_table"
  unfolding sample_table_def
  by (rule op_reachable.intros(2) [OF op_reachable.intros(1)], rule op_step.intros(1)) (rule prod.collapse [symmetric])

lemma sample_table_eq: "sample_table = [\<lparr>row_op = sample_operation ''o1'' ''s1'' ''k1'', active_marker = True\<rparr>]"
  by (simp add: sample_table_def create_queued_def insert_allowed_def sample_operation_def Let_def)

theorem one_operation_in_progress_per_server_witness:
  "op_status (row_op (hd sample_table)) = StatusQueued \<and> op_finished_at (row_op (hd sample_table)) = None"
  using one_operation_in_progress_per_server [OF sample_table_reachable, of "hd sample_table" "hd sample_table"]
  by (simp add: sample_table_eq sample_operation_def)



lemma op_steps_row:
  assumes "op_step\<^sup>*\<^sup>* tbl tbl'" and "op_inv tbl" and "find_by row_id i tbl = Some r"
  shows "op_inv tbl' \<and> (\<exists>r'. find_by row_id i tbl' = Some r' \<and> same_request (row_op r) (row_op r') \<and>
    (r' = r \<or> valid_transition\<^sup>+\<^sup>+ (op_status (row_op r)) (op_status (row_op r'))))"
  using assms(1)
proof (induction rule: rtranclp_induct)
  case base
  then show ?case using assms(2,3) by auto
next
  case (step y z)
  then obtain r1 where r1: "find_by row_id i y = Some r1" "same_request (row_op r) (row_op r1)"
    "r1 = r \<or> valid_transition\<^sup>+\<^sup>+ (op_status (row_op r)) (op_status (row_op r1))" by blast
  obtain r2 where r2: "find_by row_id i z = Some r2" "same_request (row_op r1) (row_op r2)"
    "r2 = r1 \<or> valid_transition (op_status (row_op r1)) (op_status (row_op r2))"
    using op_step_row [OF step(2) _ r1(1)] step.IH by blast
  have "r2 = r \<or> valid_transition\<^sup>+\<^sup>+ (op_status (row_op r)) (op_status (row_op r2))"
    using r1(3) r2(3) by (auto intro: tranclp.intros)
  then show ?case using op_step_inv step r2(1) same_request_trans [OF r1(2) r2(2)] by blast
qed

definition status_rank :: "op_status \<Rightarrow> nat" where
  "status_rank s = (case s of StatusQueued \<Rightarrow> 0 | StatusRunning \<Rightarrow> 1 | StatusVerifying \<Rightarrow> 2 | _ \<Rightarrow> 3)"

lemma rank_valid: "valid_transition a b \<Longrightarrow> status_rank a < status_rank b"
  by (cases a) (auto simp: status_rank_def)

lemma status_path: "valid_transition\<^sup>+\<^sup>+ a b \<Longrightarrow> \<not> terminal a \<and> status_rank a < status_rank b"
  by (induction rule: tranclp_induct) (auto dest: rank_valid valid_from_active)

text \<open>
  C29. The status of an operation only moves along the edges queued to running, failed or cancelled,
  running to verifying or a result, verifying to a result: after any number of steps of the store
  the operation is still there for the same request, and a terminal operation is unchanged.
\<close>

theorem operation_status_only_advances:
  assumes "op_reachable tbl" and "op_step\<^sup>*\<^sup>* tbl tbl'" and "find_by row_id i tbl = Some r"
  shows "\<exists>r'. find_by row_id i tbl' = Some r' \<and> same_request (row_op r) (row_op r') \<and>
    (r' = r \<or> valid_transition\<^sup>+\<^sup>+ (op_status (row_op r)) (op_status (row_op r')) \<and>
      \<not> terminal (op_status (row_op r)) \<and> status_rank (op_status (row_op r)) < status_rank (op_status (row_op r')))"
  using op_steps_row [OF assms(2) op_reachable_inv [OF assms(1)] assms(3)] status_path by blast

theorem operation_status_only_advances_witness:
  "\<exists>r'. find_by row_id ''o1'' (snd (transition False 20 ''o1'' StatusRunning
      \<lparr>ch_at = None, ch_request_id = [], ch_error_code = [], ch_error_message = []\<rparr> sample_table)) = Some r' \<and>
     op_key (row_op r') = ''k1''"
proof -
  let ?t = "snd (transition False 20 ''o1'' StatusRunning
      \<lparr>ch_at = None, ch_request_id = [], ch_error_code = [], ch_error_message = []\<rparr> sample_table)"
  have "op_step sample_table ?t" by (rule op_step.intros(2)) (rule prod.collapse [symmetric])
  then show ?thesis
    using operation_status_only_advances [OF sample_table_reachable r_into_rtranclp,
        of ?t "''o1''" "hd sample_table"]
    by (auto simp: sample_table_eq sample_operation_def same_request_def)
qed

text \<open>
  While a server has an operation in progress, a request for it with a new key is refused with
  ErrActiveOperation and the table is unchanged.
\<close>

lemma second_operation_refused:
  assumes "op_reachable tbl" and "r \<in> set tbl" and "\<not> terminal (op_status (row_op r))"
    and "row_server r = op_server op" and "find_by row_key (op_key op) tbl = None"
  shows "create_queued False fk op tbl = (Inl ErrActiveOperation, tbl)"
proof -
  have "active_marker r"
    using op_reachable_inv [OF assms(1)] assms(2,3) by (auto simp: op_inv_def op_row_ok_def Let_def)
  then have "\<exists>r \<in> set tbl. row_server r = op_server op \<and> active_marker r" using assms by blast
  then show ?thesis using assms(5) by (auto simp: create_queued_def insert_allowed_def Let_def)
qed

theorem second_operation_refused_witness:
  "create_queued False (\<lambda>_. True) (sample_operation ''o2'' ''s1'' ''k2'') sample_table = (Inl ErrActiveOperation, sample_table)"
  by (rule second_operation_refused [OF sample_table_reachable, of "hd sample_table"])
     (simp_all add: sample_table_eq sample_operation_def)

end
