(* ===== verification/OpService.thy ===== *)
theory OpService imports OpStore InventoryModel JobQueue EventBroker begin

text \<open>
  Requesting a power operation: \<^verbatim>\<open>internal/operations/service.go\<close>, its HTTP routes
  \<^verbatim>\<open>internal/operations/http.go\<close>, and the audit log (\<^verbatim>\<open>internal/audit/sql_repository.go\<close>). The world is
  what the request may change: the operations and jobs tables, the audit log and the events
  that were published. The environment gives each call its driver failure, the values of
  the clock and of the generators, and the rows the foreign keys can see.
\<close>

section \<open>The audit log\<close>

record audit_entry =
  ae_id :: string
  ae_event_type :: string
  ae_target_type :: string
  ae_target :: string
  ae_request_id :: string
  ae_source_ip :: string
  ae_metadata :: json
  ae_created :: time

type_synonym audit_log = "audit_entry list"

text \<open>An \<^verbatim>\<open>INSERT\<close>: it fails with the driver or when the id is taken.\<close>

definition append_audit_entry :: "bool \<Rightarrow> audit_entry \<Rightarrow> audit_log \<Rightarrow> bool \<times> audit_log" where
  "append_audit_entry fault e log =
     (if fault \<or> find_by ae_id (ae_id e) log \<noteq> None then (False, log) else (True, log @ [e]))"

record audit_filter =
  af_event_type :: string
  af_target_type :: string
  af_target :: string

definition matches_audit :: "audit_filter \<Rightarrow> audit_entry \<Rightarrow> bool" where
  "matches_audit f e \<longleftrightarrow>
     (af_event_type f = [] \<or> ae_event_type e = af_event_type f) \<and>
     (af_target_type f = [] \<or> ae_target_type e = af_target_type f) \<and>
     (af_target f = [] \<or> ae_target e = af_target f)"

definition newer_entry :: "(time \<Rightarrow> time \<Rightarrow> bool) \<Rightarrow> audit_entry \<Rightarrow> audit_entry \<Rightarrow> bool" where
  "newer_entry le a b \<longleftrightarrow>
     le (ae_created b) (ae_created a) \<and> (le (ae_created a) (ae_created b) \<longrightarrow> text_le (ae_id b) (ae_id a))"

definition list_audit :: "bool \<Rightarrow> (time \<Rightarrow> time \<Rightarrow> bool) \<Rightarrow> audit_filter \<Rightarrow> audit_log \<Rightarrow> audit_log option" where
  "list_audit fault le f log =
     (if fault then None else Some (foldr (insert_sorted (newer_entry le)) (filter (matches_audit f) log) []))"

section \<open>The world of operations\<close>

record op_world =
  ow_ops :: op_table
  ow_jobs :: job_table
  ow_audit :: audit_log
  ow_events :: "event list"

text \<open>
  \<^verbatim>\<open>publishOperation\<close>: nothing without a publisher; the broker numbers the event, which is not
  visible here. \<^verbatim>\<open>json.Marshal\<close> of a map writes its keys in order.
\<close>

definition operation_event :: "operation \<Rightarrow> event" where
  "operation_event op =
     \<lparr>ev_id = 0, ev_type = ''operation.updated'',
      ev_data = Some (JObj [(''operation_id'', JStr (op_id op)), (''server_id'', JStr (op_server op)),
        (''status'', JStr (op_status_text (op_status op)))])\<rparr>"

definition publish_operation :: "bool \<Rightarrow> operation \<Rightarrow> op_world \<Rightarrow> op_world" where
  "publish_operation has_publisher op w =
     (if has_publisher then w\<lparr>ow_events := ow_events w @ [operation_event op]\<rparr> else w)"

section \<open>The rules of a request\<close>

definition valid_action :: "action \<Rightarrow> bool" where
  "valid_action a \<longleftrightarrow> a = ActionStart \<or> a = ActionStop \<or> a = ActionReboot"

fun state_allows :: "server_state \<Rightarrow> action \<Rightarrow> bool" where
  "state_allows s ActionStart = (s = StateStopped \<or> s = StateSuspended)"
| "state_allows s ActionStop = (s = StateRunning)"
| "state_allows s ActionReboot = (s = StateRunning)"
| "state_allows s (ActionOther _) = False"

fun capability_for :: "capabilities \<Rightarrow> action \<Rightarrow> capability" where
  "capability_for c ActionStart = can_start c"
| "capability_for c ActionStop = can_stop c"
| "capability_for c ActionReboot = can_reboot c"
| "capability_for c (ActionOther _) = no_capability"

section \<open>Request\<close>

record power_request =
  rq_server :: string
  rq_action :: action
  rq_key :: string
  rq_request_id :: string
  rq_source_ip :: string

record request_env =
  re_key_fault :: bool
  re_server_fault :: bool
  re_create_fault :: bool
  re_enqueue_fault :: bool
  re_mark_fault :: bool
  re_audit_fault :: bool
  re_new_id :: string
  re_new_key :: string
  re_new_job_id :: string
  re_new_audit_id :: string
  re_now :: time
  re_job_now :: time
  re_mark_now :: time
  re_queue :: queue_options
  re_live :: "string \<Rightarrow> bool"
  re_fk :: "operation \<Rightarrow> bool"
  re_publisher :: bool

datatype request_error = InvalidAction | RequestStore op_error | RequestInventory inventory_error
  | DecodeCapabilities | StateConflict | CapabilityUnavailable | QueuePowerFailed queue_error | AuditFailed

definition failed_change :: "time \<Rightarrow> string \<Rightarrow> string \<Rightarrow> transition_change" where
  "failed_change at code message = \<lparr>ch_at = Some at, ch_request_id = [], ch_error_code = code, ch_error_message = message\<rparr>"

definition new_operation :: "request_env \<Rightarrow> power_request \<Rightarrow> string \<Rightarrow> server \<Rightarrow> operation" where
  "new_operation env req k srv =
     \<lparr>op_id = re_new_id env, op_server = srv_id srv, op_connection = srv_connection srv, op_action = rq_action req,
      op_status = StatusQueued, op_key = k, op_request_id = [], op_error_code = [], op_error_message = [],
      op_queued_at = re_now env, op_started_at = None, op_finished_at = None, op_updated_at = re_now env\<rparr>"

definition queued_audit_entry :: "request_env \<Rightarrow> power_request \<Rightarrow> operation \<Rightarrow> audit_entry" where
  "queued_audit_entry env req op =
     \<lparr>ae_id = re_new_audit_id env, ae_event_type = ''power_operation_queued'', ae_target_type = ''operation'',
      ae_target = op_id op, ae_request_id = rq_request_id req, ae_source_ip = rq_source_ip req,
      ae_metadata = JObj [(''action'', JStr (action_text (op_action op))), (''status'', JStr (op_status_text (op_status op)))],
      ae_created = re_now env\<rparr>"

text \<open>The last part: queue the job, write the audit entry, publish; a failure marks the operation failed.\<close>

definition mark_failed :: "request_env \<Rightarrow> operation \<Rightarrow> string \<Rightarrow> string \<Rightarrow> op_world \<Rightarrow> op_world" where
  "mark_failed env op code message w =
     w\<lparr>ow_ops := snd (transition (re_mark_fault env) (re_mark_now env) (op_id op) StatusFailed (failed_change (re_now env) code message) (ow_ops w))\<rparr>"

definition start_operation :: "request_env \<Rightarrow> power_request \<Rightarrow> operation \<Rightarrow> op_world
    \<Rightarrow> (request_error + operation \<times> bool) \<times> op_world" where
  "start_operation env req op w =
     (case enqueue_power_operation (re_enqueue_fault env) (re_queue env) (re_new_job_id env) (re_job_now env) (op_id op) (ow_jobs w) of
        (Inl e, jobs) \<Rightarrow>
          (Inl (QueuePowerFailed e),
           mark_failed env op ''queue_failed'' ''Unable to queue power operation'' (w\<lparr>ow_jobs := jobs\<rparr>))
      | (Inr _, jobs) \<Rightarrow>
          (let w1 = w\<lparr>ow_jobs := jobs\<rparr>
           in (case append_audit_entry (re_audit_fault env) (queued_audit_entry env req op) (ow_audit w1) of
                 (False, log) \<Rightarrow>
                   (Inl AuditFailed, mark_failed env op ''audit_failed'' ''Unable to record operation audit event'' (w1\<lparr>ow_audit := log\<rparr>))
               | (True, log) \<Rightarrow>
                   (Inr (op, True), publish_operation (re_publisher env) op (w1\<lparr>ow_audit := log\<rparr>)))))"

definition request_power :: "request_env \<Rightarrow> power_request \<Rightarrow> server_table \<Rightarrow> op_world
    \<Rightarrow> (request_error + operation \<times> bool) \<times> op_world" where
  "request_power env req servers w =
     (if \<not> valid_action (rq_action req) then (Inl InvalidAction, w)
      else
        (let k = (if go_trim (rq_key req) = [] then re_new_key env else go_trim (rq_key req))
         in (case find_by_idempotency_key (re_key_fault env) k (ow_ops w) of
               Inr existing \<Rightarrow> (Inr (existing, False), w)
             | Inl e \<Rightarrow>
                 (if e \<noteq> ErrOperationNotFound then (Inl (RequestStore e), w)
                  else
                    (case find_server (re_server_fault env) (re_live env) (go_trim (rq_server req)) servers of
                       Inl e \<Rightarrow> (Inl (RequestInventory e), w)
                     | Inr srv \<Rightarrow>
                         (case decode_capabilities (srv_capabilities srv) of
                            None \<Rightarrow> (Inl DecodeCapabilities, w)
                          | Some caps \<Rightarrow>
                              (if \<not> state_allows (srv_state srv) (rq_action req) then (Inl StateConflict, w)
                               else if \<not> cap_available (capability_for caps (rq_action req)) then (Inl CapabilityUnavailable, w)
                               else
                                 (case create_queued (re_create_fault env) (re_fk env) (new_operation env req k srv) (ow_ops w) of
                                    (Inl e, tbl) \<Rightarrow> (Inl (RequestStore e), w\<lparr>ow_ops := tbl\<rparr>)
                                  | (Inr (op, False), tbl) \<Rightarrow> (Inr (op, False), w\<lparr>ow_ops := tbl\<rparr>)
                                  | (Inr (op, True), tbl) \<Rightarrow> start_operation env req op (w\<lparr>ow_ops := tbl\<rparr>)))))))))"

section \<open>The HTTP routes\<close>

text \<open>A response: its status and its JSON body. \<open>request_id\<close> is the id generated for an error.\<close>

record http_response =
  hr_status :: nat
  hr_body :: json

definition write_error :: "string \<Rightarrow> nat \<Rightarrow> string \<Rightarrow> string \<Rightarrow> http_response" where
  "write_error request_id status code message =
     \<lparr>hr_status = status, hr_body = JObj [(''error'',
        JObj [(''code'', JStr code), (''message'', JStr message), (''request_id'', JStr request_id)])]\<rparr>"

definition time_json :: "time \<Rightarrow> json" where
  "time_json t = JStr (rfc3339nano t)"

definition optional_time_json :: "time option \<Rightarrow> json" where
  "optional_time_json t = (case t of None \<Rightarrow> JNull | Some x \<Rightarrow> time_json x)"

definition omit_empty :: "string \<Rightarrow> string \<Rightarrow> (string \<times> json) list" where
  "omit_empty name s = (if s = [] then [] else [(name, JStr s)])"

definition operation_json :: "operation \<Rightarrow> json" where
  "operation_json op = JObj
     ([(''id'', JStr (op_id op)), (''server_id'', JStr (op_server op)), (''connection_id'', JStr (op_connection op)),
       (''action'', JStr (action_text (op_action op))), (''status'', JStr (op_status_text (op_status op)))] @
      omit_empty ''provider_request_id'' (op_request_id op) @ omit_empty ''error_code'' (op_error_code op) @
      omit_empty ''error_message'' (op_error_message op) @
      [(''queued_at'', time_json (op_queued_at op)), (''started_at'', optional_time_json (op_started_at op)),
       (''finished_at'', optional_time_json (op_finished_at op)), (''updated_at'', time_json (op_updated_at op))])"

fun write_operation_error :: "string \<Rightarrow> request_error \<Rightarrow> http_response" where
  "write_operation_error i InvalidAction = write_error i 400 ''invalid_action'' ''Power action is invalid''"
| "write_operation_error i (RequestInventory ErrServerNotFound) = write_error i 404 ''server_not_found'' ''Server was not found''"
| "write_operation_error i (RequestStore ErrOperationNotFound) = write_error i 404 ''operation_not_found'' ''Operation was not found''"
| "write_operation_error i StateConflict = write_error i 409 ''state_conflict'' ''Server state does not allow this action''"
| "write_operation_error i CapabilityUnavailable = write_error i 409 ''capability_unavailable'' ''Provider does not allow this action''"
| "write_operation_error i (RequestStore ErrActiveOperation) = write_error i 409 ''active_operation'' ''Server already has an active operation''"
| "write_operation_error i _ = write_error i 500 ''internal_error'' ''Unable to process power operation''"

record http_request =
  hq_server_id :: string
  hq_action :: string
  hq_idempotency_key :: string
  hq_request_id :: string
  hq_source_ip :: string

text \<open>\<open>error_id\<close> and \<open>fresh_id\<close> are generated ids; \<open>hq_source_ip\<close> is what \<^verbatim>\<open>sourceIP\<close> gives.\<close>

definition request_action :: "string \<Rightarrow> string \<Rightarrow> request_env \<Rightarrow> http_request \<Rightarrow> server_table \<Rightarrow> op_world
    \<Rightarrow> http_response \<times> op_world" where
  "request_action error_id fresh_id env q servers w =
     (let k = go_trim (hq_idempotency_key q)
      in if length k > 255 then (write_error error_id 400 ''invalid_idempotency_key'' ''Idempotency key is too long'', w)
         else
           (let rid = go_trim (hq_request_id q);
                rid' = (if rid = [] \<or> length rid > 255 then fresh_id else rid);
                (res, w') = request_power env \<lparr>rq_server = hq_server_id q, rq_action = action_of (hq_action q), rq_key = k,
                    rq_request_id = rid', rq_source_ip = hq_source_ip q\<rparr> servers w
            in (case res of
                  Inl e \<Rightarrow> (write_operation_error error_id e, w')
                | Inr (op, created) \<Rightarrow>
                    (\<lparr>hr_status = (if created then 202 else 200), hr_body = JObj [(''operation'', operation_json op)]\<rparr>, w'))))"

definition status_of :: "string \<Rightarrow> op_status option" where
  "status_of s = List.find (\<lambda>x. op_status_text x = s)
     [StatusQueued, StatusRunning, StatusVerifying, StatusSucceeded, StatusFailed, StatusTimedOut, StatusCancelled]"

definition list_route :: "string \<Rightarrow> bool \<Rightarrow> (time \<Rightarrow> time \<Rightarrow> bool) \<Rightarrow> string \<Rightarrow> string \<Rightarrow> string \<Rightarrow> op_table \<Rightarrow> http_response" where
  "list_route error_id fault le server connection status tbl =
     (let s = go_trim status
      in if s \<noteq> [] \<and> status_of s = None then write_error error_id 400 ''invalid_filter'' ''Operation status filter is invalid''
         else (case list_operations fault le
                 \<lparr>by_server = go_trim server, by_connection = go_trim connection, by_status = (if s = [] then None else status_of s)\<rparr> tbl of
                 Inl _ \<Rightarrow> write_error error_id 500 ''internal_error'' ''Unable to list operations''
               | Inr ops \<Rightarrow> \<lparr>hr_status = 200, hr_body = JObj [(''operations'', JArr (map operation_json ops)),
                   (''total'', JNum (int (length ops)))]\<rparr>))"

definition get_route :: "string \<Rightarrow> bool \<Rightarrow> string \<Rightarrow> op_table \<Rightarrow> http_response" where
  "get_route error_id fault i tbl =
     (case find_operation fault i tbl of
        Inl e \<Rightarrow> write_operation_error error_id (RequestStore e)
      | Inr op \<Rightarrow> \<lparr>hr_status = 200, hr_body = JObj [(''operation'', operation_json op)]\<rparr>)"

section \<open>Lemmas\<close>

abbreviation active_rows :: "op_table \<Rightarrow> op_row list" where
  "active_rows \<equiv> filter active_marker"

lemma enqueue_cases:
  obtains (failed) e where "enqueue fault j tbl = (Inl e, tbl)"
  | (queued) "enqueue fault j tbl = (Inr (), tbl @ [j\<lparr>lease_owner := None, lease_expires := None\<rparr>])"
  by (cases "enqueue fault j tbl") (auto simp: enqueue_def split: if_splits option.splits)

lemma enqueue_power_cases:
  obtains (failed) e where "enqueue_power_operation fault opt i now op tbl = (Inl e, tbl)"
  | (queued) "enqueue_power_operation fault opt i now op tbl =
       (Inr (), tbl @ [new_job opt i KindPowerOperation (JObj [(''operation_id'', JStr op)]) now])" "op \<noteq> []"
proof (cases "op = []")
  case False
  show ?thesis
    by (cases rule: enqueue_cases [of fault "new_job opt i KindPowerOperation (JObj [(''operation_id'', JStr op)]) now" tbl])
       (use False failed queued in \<open>auto simp: enqueue_power_operation_def new_job_def\<close>)
qed (use failed in \<open>auto simp: enqueue_power_operation_def\<close>)

text \<open>A row that was just created is found again, and marking it failed takes its marker away.\<close>

lemma mark_created_failed:
  assumes "op_inv tbl" and "r = \<lparr>row_op = op\<lparr>op_started_at := None, op_finished_at := None\<rparr>, active_marker = True\<rparr>"
    and "op_status op = StatusQueued" and "op_inv (tbl @ [r])"
  shows "snd (transition False now (op_id op) StatusFailed ch (tbl @ [r]))
    = tbl @ [\<lparr>row_op = apply_change now StatusFailed ch (row_op r), active_marker = False\<rparr>]"
proof -
  have d: "distinct (map row_id (tbl @ [r]))" using assms(4) by (simp add: op_inv_def)
  have row: "row_id r = op_id op" "op_status (row_op r) = StatusQueued" using assms(2,3) by simp_all
  then have fresh: "row_id x \<noteq> op_id op" if "x \<in> set tbl" for x
    using d that by (auto simp: image_iff)
  have "op_id op \<notin> row_id ` set tbl"
  proof
    assume "op_id op \<in> row_id ` set tbl"
    then obtain x where "op_id op = row_id x" "x \<in> set tbl" by (rule imageE)
    then show False using fresh [of x] by simp
  qed
  then have "find_by row_id (op_id op) tbl = None" by (simp only: find_by_None not_False_eq_True)
  then have found: "find_by row_id (op_id op) (tbl @ [r]) = Some r" using row by (simp add: find_by_append)
  let ?hit = "transition_row (op_id op) StatusQueued"
  have miss: "update_where ?hit f tbl = tbl" for f
    using fresh by (intro update_where_none) (simp add: transition_row_def)
  have hit: "?hit r" using row by (simp add: transition_row_def)
  have "affected ?hit (tbl @ [r]) = 1"
    using affected_unique [OF d found, of "\<lambda>x. op_status (row_op x) = StatusQueued"] row
    by (simp add: transition_row_def [abs_def])
  then show ?thesis
    using found row(2) miss hit by (simp add: transition_def Let_def table_simps)
qed

text \<open>The three ways \<open>CreateQueued\<close> ends, with what a created row looks like.\<close>

lemma create_queued_result:
  assumes "create_queued fault fk op tbl = (Inr (op1, True), tbl')" and "op_inv tbl"
  shows "op1 = op\<lparr>op_status := StatusQueued\<rparr> \<and> op_inv tbl' \<and>
    tbl' = tbl @ [\<lparr>row_op = op1\<lparr>op_started_at := None, op_finished_at := None\<rparr>, active_marker = True\<rparr>]"
proof (cases rule: create_cases [of fault fk op tbl])
  case created
  then show ?thesis using assms create_inv [OF assms(2,1)] by auto
qed (use assms in auto)

lemma start_operation_cases:
  obtains (started) jobs log where
      "start_operation env req op w = (Inr (op, True), publish_operation (re_publisher env) op (w\<lparr>ow_jobs := jobs, ow_audit := log\<rparr>))"
      "jobs = ow_jobs w @ [new_job (re_queue env) (re_new_job_id env) KindPowerOperation (JObj [(''operation_id'', JStr (op_id op))]) (re_job_now env)]"
      "log = ow_audit w @ [queued_audit_entry env req op]"
  | (unqueued) e where
      "start_operation env req op w = (Inl (QueuePowerFailed e), mark_failed env op ''queue_failed'' ''Unable to queue power operation'' w)"
  | (unaudited) jobs where
      "start_operation env req op w = (Inl AuditFailed, mark_failed env op ''audit_failed'' ''Unable to record operation audit event'' (w\<lparr>ow_jobs := jobs\<rparr>))"
      "jobs = ow_jobs w @ [new_job (re_queue env) (re_new_job_id env) KindPowerOperation (JObj [(''operation_id'', JStr (op_id op))]) (re_job_now env)]"
proof (cases rule: enqueue_power_cases [of "re_enqueue_fault env" "re_queue env" "re_new_job_id env" "re_job_now env" "op_id op" "ow_jobs w"])
  case (failed e)
  then show ?thesis using that(2) [of e] by (simp add: start_operation_def)
next
  case queued
  let ?jobs = "ow_jobs w @ [new_job (re_queue env) (re_new_job_id env) KindPowerOperation (JObj [(''operation_id'', JStr (op_id op))]) (re_job_now env)]"
  let ?e = "queued_audit_entry env req op"
  show ?thesis
  proof (cases "re_audit_fault env \<or> find_by ae_id (ae_id ?e) (ow_audit w) \<noteq> None")
    case True
    then have "append_audit_entry (re_audit_fault env) ?e (ow_audit w) = (False, ow_audit w)" by (simp add: append_audit_entry_def)
    then have "start_operation env req op w = (Inl AuditFailed, mark_failed env op ''audit_failed''
        ''Unable to record operation audit event'' (w\<lparr>ow_jobs := ?jobs\<rparr>))"
      using queued by (simp add: start_operation_def Let_def)
    then show ?thesis by (rule that(3)) simp
  next
    case False
    then have "append_audit_entry (re_audit_fault env) ?e (ow_audit w) = (True, ow_audit w @ [?e])" by (simp add: append_audit_entry_def)
    then have "start_operation env req op w = (Inr (op, True),
        publish_operation (re_publisher env) op (w\<lparr>ow_jobs := ?jobs, ow_audit := ow_audit w @ [?e]\<rparr>))"
      using queued by (simp add: start_operation_def Let_def)
    then show ?thesis by (rule that(1)) simp_all
  qed
qed

lemma start_operation_keeps:
  assumes "start_operation env req op1 w = (Inr (op, True), w1)" shows "op1 = op \<and> ow_ops w1 = ow_ops w"
proof (cases rule: start_operation_cases [of env req op1 w])
  case (started jobs log)
  then have "op1 = op" "w1 = publish_operation (re_publisher env) op (w\<lparr>ow_jobs := jobs, ow_audit := log\<rparr>)"
    using assms by simp_all
  then show ?thesis by (simp add: publish_operation_def)
qed (use assms in simp_all)

section \<open>Properties\<close>

text \<open>
  C5. A request that is accepted as new has checked the server (visible, of a live connection, in a
  state that allows the action, with the capability), and leaves exactly one queued operation for
  it, one queued job that carries its id, one audit entry and, with a publisher, one event.
\<close>

theorem accepted_request_effects:
  assumes "request_power env req servers w = (Inr (op, True), w')" and "op_inv (ow_ops w)"
  shows "(\<exists>srv caps. find_server (re_server_fault env) (re_live env) (go_trim (rq_server req)) servers = Inr srv \<and>
      decode_capabilities (srv_capabilities srv) = Some caps \<and> state_allows (srv_state srv) (rq_action req) \<and>
      cap_available (capability_for caps (rq_action req)) \<and>
      op_server op = srv_id srv \<and> op_connection op = srv_connection srv \<and> op_action op = rq_action req) \<and>
    op_status op = StatusQueued \<and>
    ow_ops w' = ow_ops w @ [\<lparr>row_op = op, active_marker = True\<rparr>] \<and>
    ow_jobs w' = ow_jobs w @ [new_job (re_queue env) (re_new_job_id env) KindPowerOperation
        (JObj [(''operation_id'', JStr (op_id op))]) (re_job_now env)] \<and>
    ow_audit w' = ow_audit w @ [queued_audit_entry env req op] \<and>
    ow_events w' = ow_events w @ (if re_publisher env then [operation_event op] else [])"
proof -
  define k where "k = (if go_trim (rq_key req) = [] then re_new_key env else go_trim (rq_key req))"
  obtain srv caps tbl where
    srv: "find_server (re_server_fault env) (re_live env) (go_trim (rq_server req)) servers = Inr srv"
      "decode_capabilities (srv_capabilities srv) = Some caps" "state_allows (srv_state srv) (rq_action req)"
      "cap_available (capability_for caps (rq_action req))"
    and create: "create_queued (re_create_fault env) (re_fk env) (new_operation env req k srv) (ow_ops w) = (Inr (op, True), tbl)"
    and start: "start_operation env req op (w\<lparr>ow_ops := tbl\<rparr>) = (Inr (op, True), w')"
  proof -
    obtain op1 tbl srv caps where
      srv: "find_server (re_server_fault env) (re_live env) (go_trim (rq_server req)) servers = Inr srv"
      "decode_capabilities (srv_capabilities srv) = Some caps" "state_allows (srv_state srv) (rq_action req)"
      "cap_available (capability_for caps (rq_action req))"
      and create: "create_queued (re_create_fault env) (re_fk env) (new_operation env req k srv) (ow_ops w) = (Inr (op1, True), tbl)"
      and start: "start_operation env req op1 (w\<lparr>ow_ops := tbl\<rparr>) = (Inr (op, True), w')"
      using assms(1) by (auto simp: request_power_def k_def [symmetric] Let_def split: if_splits sum.splits option.splits prod.splits bool.splits)
    moreover have "op1 = op" using start by (cases rule: start_operation_cases [of env req op1 "w\<lparr>ow_ops := tbl\<rparr>"]) auto
    ultimately show ?thesis using that by blast
  qed
  have res: "op = new_operation env req k srv"
    "tbl = ow_ops w @ [\<lparr>row_op = op\<lparr>op_started_at := None, op_finished_at := None\<rparr>, active_marker = True\<rparr>]"
    using create_queued_result [OF create assms(2)] by (simp_all add: new_operation_def)
  have row: "op\<lparr>op_started_at := None, op_finished_at := None\<rparr> = op" unfolding res(1) by (simp add: new_operation_def)
  have fields: "op_server op = srv_id srv" "op_connection op = srv_connection srv" "op_action op = rq_action req" "op_status op = StatusQueued"
    unfolding res(1) by (simp_all add: new_operation_def)
  show ?thesis
    using start
  proof (cases rule: start_operation_cases [of env req op "w\<lparr>ow_ops := tbl\<rparr>"])
    case (started jobs log)
    then show ?thesis using start srv fields res(2) row by (auto simp: publish_operation_def)
  qed simp_all
qed

definition sample_capabilities :: capabilities where
  "sample_capabilities = \<lparr>can_start = \<lparr>cap_available = True, cap_reason = []\<rparr>, can_stop = no_capability, can_reboot = no_capability,
     can_embed_console = no_capability, can_open_console_window = no_capability, has_provider_portal = no_capability\<rparr>"

definition sample_srv :: server where
  "sample_srv = \<lparr>srv_id = ''s1'', srv_connection = ''c1'', srv_external_id = ''x1'', srv_scope = [], srv_name = ''web'',
     srv_state = StateStopped, srv_remote_state = [], srv_spec = JObj [], srv_addresses = JArr [],
     srv_capabilities = Some (capabilities_json sample_capabilities), srv_portal_url = None, srv_last_seen = 0,
     srv_last_checked = 0, srv_hidden_at = None, srv_created = 0, srv_updated = 0\<rparr>"

definition sample_env :: request_env where
  "sample_env = \<lparr>re_key_fault = False, re_server_fault = False, re_create_fault = False, re_enqueue_fault = False,
     re_mark_fault = False, re_audit_fault = False, re_new_id = ''o1'', re_new_key = ''k9'', re_new_job_id = ''j1'',
     re_new_audit_id = ''a1'', re_now = 5, re_job_now = 5, re_mark_now = 5, re_queue = \<lparr>queue_max_attempts = 3\<rparr>,
     re_live = (\<lambda>_. True), re_fk = (\<lambda>_. True), re_publisher = True\<rparr>"

definition empty_world :: op_world where
  "empty_world = \<lparr>ow_ops = [], ow_jobs = [], ow_audit = [], ow_events = []\<rparr>"

definition start_request :: power_request where
  "start_request = \<lparr>rq_server = '' s1'', rq_action = ActionStart, rq_key = ''k1'', rq_request_id = ''r1'', rq_source_ip = ''::1''\<rparr>"

definition sample_started :: operation where
  "sample_started = new_operation sample_env start_request ''k1'' sample_srv"

definition sample_world :: op_world where
  "sample_world = snd (request_power sample_env start_request [sample_srv] empty_world)"

lemma sample_request_done: "request_power sample_env start_request [sample_srv] empty_world = (Inr (sample_started, True), sample_world)"
proof -
  have "go_trim '' s1'' = ''s1''" "go_trim ''k1'' = ''k1''" by code_simp+
  moreover have "decode_capabilities (srv_capabilities sample_srv) = Some sample_capabilities"
    by (simp add: sample_srv_def decode_capabilities_def capabilities_json_def member_or_null_def)
  ultimately have "fst (request_power sample_env start_request [sample_srv] empty_world) = Inr (sample_started, True)"
    by (simp add: request_power_def start_request_def sample_env_def valid_action_def find_by_idempotency_key_def empty_world_def
        find_server_def sample_srv_def sample_capabilities_def create_queued_def insert_allowed_def new_operation_def sample_started_def
        start_operation_def enqueue_power_operation_def enqueue_def append_audit_entry_def Let_def)
  then show ?thesis by (simp add: sample_world_def prod_eq_iff)
qed

lemma empty_world_inv: "op_inv (ow_ops empty_world)"
  by (simp add: op_inv_def empty_world_def)

theorem accepted_request_effects_witness:
  "ow_ops sample_world = [\<lparr>row_op = sample_started, active_marker = True\<rparr>] \<and> length (ow_jobs sample_world) = 1 \<and>
   length (ow_audit sample_world) = 1 \<and> ow_events sample_world = [operation_event sample_started]"
  using accepted_request_effects [OF sample_request_done empty_world_inv] by (simp add: empty_world_def sample_env_def)

text \<open>The row of an operation that was created and then marked failed.\<close>

lemma mark_failed_created:
  assumes "create_queued fault fk op tbl = (Inr (op1, True), tbl')" and "op_inv tbl" and "\<not> re_mark_fault env"
    and "w' = mark_failed env op1 code message w" and "ow_ops w = tbl'"
  shows "\<exists>r. w' = w\<lparr>ow_ops := tbl @ [r]\<rparr> \<and> op_inv (tbl @ [r]) \<and> row_id r = op_id op1 \<and> \<not> active_marker r \<and>
    op_status (row_op r) = StatusFailed \<and> op_error_code (row_op r) = code"
proof -
  note c = create_queued_result [OF assms(1,2)]
  define r where "r = \<lparr>row_op = op1\<lparr>op_started_at := None, op_finished_at := None\<rparr>, active_marker = True\<rparr>"
  let ?ch = "failed_change (re_now env) code message"
  let ?r = "\<lparr>row_op = apply_change (re_mark_now env) StatusFailed ?ch (row_op r), active_marker = False\<rparr>"
  have q: "op_status op1 = StatusQueued" using c by simp
  have teq: "tbl' = tbl @ [r]" using c by (simp only: r_def)
  have "op_inv tbl'" using c by blast
  then have tbl: "ow_ops w = tbl @ [r]" "op_inv (tbl @ [r])" using teq assms(5) by simp_all
  have marked: "snd (transition False (re_mark_now env) (op_id op1) StatusFailed ?ch (tbl @ [r])) = tbl @ [?r]"
    by (rule mark_created_failed [OF assms(2) r_def q tbl(2)])
  moreover have "op_inv (snd (transition False (re_mark_now env) (op_id op1) StatusFailed ?ch (tbl @ [r])))"
    using transition_inv [OF tbl(2)] by (metis prod.collapse)
  ultimately have "w' = w\<lparr>ow_ops := tbl @ [?r]\<rparr>" "op_inv (tbl @ [?r])" using assms(3,4) tbl(1) by (simp_all add: mark_failed_def)
  then show ?thesis
    by (intro exI [of _ ?r]) (simp add: r_def apply_change_def failed_change_def Let_def)
qed

text \<open>
  C27. A request that fails or is replayed leaves no operation in progress, but it may leave a job. Unless the statement that marks the
  operation failed itself fails, the operations in progress, the audit log and the events are as before. A request that is replayed or refused
  changes nothing; one whose job cannot be queued leaves one failed operation and no job; one whose audit entry
  cannot be written leaves one failed operation and also the job that was queued for it, still queued, as work that has
  no operation in progress.
\<close>

theorem failed_request_leaves_no_active_operation:
  assumes "request_power env req servers w = (res, w')" and "op_inv (ow_ops w)" and "\<not> re_mark_fault env"
    and "\<nexists>op. res = Inr (op, True)"
  shows "active_rows (ow_ops w') = active_rows (ow_ops w) \<and> ow_events w' = ow_events w \<and> ow_audit w' = ow_audit w \<and> op_inv (ow_ops w') \<and>
    (case res of
       Inl (QueuePowerFailed e) \<Rightarrow> (\<exists>r. ow_ops w' = ow_ops w @ [r] \<and> op_status (row_op r) = StatusFailed \<and>
         op_error_code (row_op r) = ''queue_failed'' \<and> ow_jobs w' = ow_jobs w)
     | Inl AuditFailed \<Rightarrow> (\<exists>r j. ow_ops w' = ow_ops w @ [r] \<and> op_status (row_op r) = StatusFailed \<and>
         op_error_code (row_op r) = ''audit_failed'' \<and> ow_jobs w' = ow_jobs w @ [j] \<and> job_status j = JobQueued \<and>
         job_kind j = KindPowerOperation \<and> payload j = Some (JObj [(''operation_id'', JStr (row_id r))]))
     | _ \<Rightarrow> w' = w)"
proof -
  define k where "k = (if go_trim (rq_key req) = [] then re_new_key env else go_trim (rq_key req))"
  have unchanged: "create_queued f fk op tbl = (r, tbl') \<Longrightarrow> \<nexists>op1. r = Inr (op1, True) \<Longrightarrow> tbl' = tbl" for f fk op tbl r tbl'
    by (cases rule: create_cases [of f fk op tbl]) auto
  consider "w' = w" "res \<noteq> Inl AuditFailed" "\<forall>e. res \<noteq> Inl (QueuePowerFailed e)" | op1 tbl srv where
      "create_queued (re_create_fault env) (re_fk env) (new_operation env req k srv) (ow_ops w) = (Inr (op1, True), tbl)"
      "start_operation env req op1 (w\<lparr>ow_ops := tbl\<rparr>) = (res, w')"
    using assms(1) unchanged
    by (force simp: request_power_def k_def [symmetric] Let_def split: if_splits sum.splits option.splits prod.splits bool.splits)
  then show ?thesis
  proof cases
    case 1
    then show ?thesis using assms(2) by (auto split: sum.split request_error.split)
  next
    case 2
    note failed = mark_failed_created [OF 2(1) assms(2,3)]
    show ?thesis
    proof (cases rule: start_operation_cases [of env req op1 "w\<lparr>ow_ops := tbl\<rparr>"])
      case (started jobs log)
      then show ?thesis using 2(2) assms(4) by auto
    next
      case (unqueued e)
      then have "res = Inl (QueuePowerFailed e)"
          "w' = mark_failed env op1 ''queue_failed'' ''Unable to queue power operation'' (w\<lparr>ow_ops := tbl\<rparr>)" using 2(2) by simp_all
      then show ?thesis using failed [of w'] by fastforce
    next
      case (unaudited jobs)
      then have "res = Inl AuditFailed"
          "w' = mark_failed env op1 ''audit_failed'' ''Unable to record operation audit event'' (w\<lparr>ow_ops := tbl, ow_jobs := jobs\<rparr>)" using 2(2) by simp_all
      then show ?thesis using failed [of w'] unaudited(2) by (fastforce simp: new_job_def)
    qed
  qed
qed

text \<open>Both failures: nothing queued, and a job left behind a failed operation.\<close>

theorem failed_request_leaves_no_active_operation_witness:
  "\<exists>w1 w2. request_power (sample_env\<lparr>re_enqueue_fault := True\<rparr>) start_request [sample_srv] empty_world = (Inl (QueuePowerFailed (QueueStore ErrJobDatabase)), w1) \<and>
     active_rows (ow_ops w1) = [] \<and> ow_jobs w1 = [] \<and>
     request_power (sample_env\<lparr>re_audit_fault := True\<rparr>) start_request [sample_srv] empty_world = (Inl AuditFailed, w2) \<and>
     active_rows (ow_ops w2) = [] \<and> (\<exists>j. ow_jobs w2 = [j] \<and> job_status j = JobQueued)"
proof -
  let ?q = "sample_env\<lparr>re_enqueue_fault := True\<rparr>" and ?a = "sample_env\<lparr>re_audit_fault := True\<rparr>"
  have t: "go_trim '' s1'' = ''s1''" "go_trim ''k1'' = ''k1''" by code_simp+
  have "decode_capabilities (srv_capabilities sample_srv) = Some sample_capabilities"
    by (simp add: sample_srv_def decode_capabilities_def capabilities_json_def member_or_null_def)
  then have "fst (request_power ?q start_request [sample_srv] empty_world) = Inl (QueuePowerFailed (QueueStore ErrJobDatabase))"
      "fst (request_power ?a start_request [sample_srv] empty_world) = Inl AuditFailed"
    using t by (simp_all add: request_power_def start_request_def sample_env_def valid_action_def find_by_idempotency_key_def empty_world_def
        find_server_def sample_srv_def sample_capabilities_def create_queued_def insert_allowed_def new_operation_def
        start_operation_def enqueue_power_operation_def enqueue_def append_audit_entry_def Let_def)
  then obtain w1 w2 where r: "request_power ?q start_request [sample_srv] empty_world = (Inl (QueuePowerFailed (QueueStore ErrJobDatabase)), w1)"
      "request_power ?a start_request [sample_srv] empty_world = (Inl AuditFailed, w2)"
    by (metis prod.collapse)
  have "\<not> re_mark_fault ?q" "\<not> re_mark_fault ?a" by (simp_all add: sample_env_def)
  with r show ?thesis
    using failed_request_leaves_no_active_operation [OF r(1) empty_world_inv] failed_request_leaves_no_active_operation [OF r(2) empty_world_inv]
    by (auto simp: empty_world_def)
qed

text \<open>
  Retrying a request is safe: after a request with a key was accepted, and whatever happened to the
  operations since, another request with that key (whatever server, state or capability it now finds)
  returns the same operation, not a new one, and changes nothing.
\<close>

lemma retried_request_returns_first_operation:
  assumes "request_power env req servers w = (Inr (op, True), w1)" and "op_inv (ow_ops w)"
    and "op_step\<^sup>*\<^sup>* (ow_ops w1) (ow_ops w2)"
    and "valid_action (rq_action req2)" and "go_trim (rq_key req2) = op_key op" and "op_key op \<noteq> []" and "\<not> re_key_fault env2"
  shows "\<exists>op2. request_power env2 req2 servers2 w2 = (Inr (op2, False), w2) \<and> same_request op op2"
proof -
  define k where "k = (if go_trim (rq_key req) = [] then re_new_key env else go_trim (rq_key req))"
  obtain srv tbl op1 where
    create: "create_queued (re_create_fault env) (re_fk env) (new_operation env req k srv) (ow_ops w) = (Inr (op1, True), tbl)"
    and start: "start_operation env req op1 (w\<lparr>ow_ops := tbl\<rparr>) = (Inr (op, True), w1)"
    using assms(1) by (auto simp: request_power_def k_def [symmetric] Let_def split: if_splits sum.splits option.splits prod.splits bool.splits)
  have w1: "op1 = op" "ow_ops w1 = tbl"
    using start_operation_keeps [OF start] by simp_all
  define r where "r = \<lparr>row_op = op1\<lparr>op_started_at := None, op_finished_at := None\<rparr>, active_marker = True\<rparr>"
  have c: "op_inv tbl" "tbl = ow_ops w @ [r]"
    using create_queued_result [OF create assms(2)] unfolding r_def by blast+
  then have "r \<in> set tbl" by simp
  moreover have "distinct (map row_id tbl)" using c(1) by (simp add: op_inv_def)
  ultimately have found: "find_by row_id (row_id r) tbl = Some r" by (intro find_by_unique)
  obtain r' where r': "find_by row_id (row_id r) (ow_ops w2) = Some r'" "same_request (row_op r) (row_op r')" "op_inv (ow_ops w2)"
    using op_steps_row [of tbl "ow_ops w2" "row_id r" r] assms(3) w1(2) c(1) found by blast
  have same: "same_request op (row_op r')" using r'(2) w1(1) by (simp add: same_request_def r_def)
  then have "row_key r' = op_key op" by (simp add: same_request_def)
  moreover have "r' \<in> set (ow_ops w2)" using r'(1) by (auto dest: find_by_SomeD)
  ultimately have "find_by row_key (op_key op) (ow_ops w2) = Some r'"
    using find_by_unique [of row_key "ow_ops w2" r'] r'(3) by (simp add: op_inv_def)
  then have "request_power env2 req2 servers2 w2 = (Inr (row_op r', False), w2)"
    using assms(4-7) by (simp add: request_power_def find_by_idempotency_key_def Let_def)
  then show ?thesis using same by blast
qed

theorem retried_request_returns_first_operation_witness:
  "\<exists>op2. request_power sample_env (start_request\<lparr>rq_server := ''other'', rq_action := ActionStop\<rparr>) [] sample_world = (Inr (op2, False), sample_world)
     \<and> same_request sample_started op2"
proof -
  have "go_trim ''k1'' = ''k1''" by code_simp
  then show ?thesis
    by (intro retried_request_returns_first_operation [OF sample_request_done empty_world_inv rtranclp.rtrancl_refl])
       (simp_all add: start_request_def valid_action_def sample_started_def new_operation_def sample_env_def)
qed

end
