(* ===== verification/OpExecutor.thy ===== *)
theory OpExecutor imports OpService JobWorker begin

text \<open>
  Executing a power operation: \<^verbatim>\<open>internal/operations/executor.go\<close> and the dispatch of jobs in
  \<^verbatim>\<open>internal/app/app.go\<close>. The provider is a parameter: what each of its calls returns, \<^verbatim>\<open>GetServer\<close> by
  the number of the call. The environment of one execution gives every database call its
  failure, the clock readings, what other goroutines did to the inventory before the result is
  stored, and the times of the polling loop: how long a poll takes and how much longer than the
  interval a timer fires, so that the clock never runs backwards.
\<close>

section \<open>Providers\<close>

record provider =
  pv_validate :: "go_error option"
  pv_get_server :: "nat \<Rightarrow> server_ref \<Rightarrow> go_error + remote_server"
  pv_start_server :: "server_ref \<Rightarrow> go_error + string"
  pv_stop_server :: "server_ref \<Rightarrow> go_error + string"
  pv_reboot_server :: "server_ref \<Rightarrow> go_error + string"

text \<open>Connection lookup, decryption and the registry, in this order.\<close>

definition open_provider :: "(string \<Rightarrow> go_error + 'c) \<Rightarrow> ('c \<Rightarrow> go_error + 's) \<Rightarrow> ('c \<Rightarrow> 's \<Rightarrow> go_error + provider)
    \<Rightarrow> string \<Rightarrow> go_error + provider" where
  "open_provider find_connection decrypt create connection_id =
     (case find_connection connection_id of
        Inl e \<Rightarrow> Inl e
      | Inr c \<Rightarrow> (case decrypt c of
                   Inl e \<Rightarrow> Inl (Wrapped ''decrypt provider credentials'' e)
                 | Inr secret \<Rightarrow> create c secret))"

fun execute_provider_action :: "provider \<Rightarrow> server_ref \<Rightarrow> action \<Rightarrow> go_error + string" where
  "execute_provider_action p ref ActionStart = pv_start_server p ref"
| "execute_provider_action p ref ActionStop = pv_stop_server p ref"
| "execute_provider_action p ref ActionReboot = pv_reboot_server p ref"
| "execute_provider_action p ref (ActionOther _) = Inl (Plain ''invalid power action'')"

fun action_already_satisfied :: "action \<Rightarrow> server_state \<Rightarrow> bool" where
  "action_already_satisfied ActionStart s = (s = StateRunning)"
| "action_already_satisfied ActionStop s = (s = StateStopped)"
| "action_already_satisfied _ s = False"

definition verification_target_reached :: "action \<Rightarrow> server_state \<Rightarrow> bool" where
  "verification_target_reached a s =
     (if a = ActionReboot then s = StateRunning else action_already_satisfied a s)"

section \<open>Environment and world\<close>

record executor_config =
  xc_poll_interval :: int
  xc_verification_timeout :: int

definition poll_interval_of :: "executor_config \<Rightarrow> time" where
  "poll_interval_of c = (if xc_poll_interval c \<le> 0 then 2 * second else nat (xc_poll_interval c))"

definition verification_timeout_of :: "executor_config \<Rightarrow> time" where
  "verification_timeout_of c = (if xc_verification_timeout c \<le> 0 then 2 * 60 * second else nat (xc_verification_timeout c))"

record exec_env =
  xe_config :: executor_config
  xe_publisher :: bool
  xe_driver_error :: string
  xe_find_fault :: bool
  xe_running_fault :: bool
  xe_server_fault :: bool
  xe_verifying_fault :: bool
  xe_update_fault :: bool
  xe_recheck_fault :: bool
  xe_end_fault :: bool
  xe_audit_fault :: bool
  xe_running_at :: time
  xe_verifying_at :: time
  xe_update_at :: time
  xe_end_at :: time
  xe_audit_at :: time
  xe_audit_id :: string
  xe_live :: "string \<Rightarrow> bool"
  xe_provider :: "string \<Rightarrow> go_error + provider"
  xe_drift :: "server_table \<Rightarrow> server_table"
  xe_loop_start :: time
  xe_latency :: "nat \<Rightarrow> time"
  xe_timer_delay :: "nat \<Rightarrow> time"
  xe_cancelled :: "nat \<Rightarrow> bool"

text \<open>The calls a provider received, in order.\<close>

datatype provider_call = ValidateCall | GetServerCall | PowerCall action

record exec_world =
  xw_base :: op_world
  xw_servers :: server_table
  xw_calls :: "provider_call list"

fun op_error_of :: "string \<Rightarrow> op_error \<Rightarrow> go_error" where
  "op_error_of driver ErrOperationNotFound = Plain ''operation not found''"
| "op_error_of driver ErrActiveOperation = Plain ''server already has an active operation''"
| "op_error_of driver ErrInvalidTransition = Plain ''invalid operation transition''"
| "op_error_of driver ErrOpDatabase = Plain driver"

fun inventory_error_of :: "string \<Rightarrow> inventory_error \<Rightarrow> go_error" where
  "inventory_error_of driver ErrServerNotFound = Plain ''server not found''"
| "inventory_error_of driver ErrInventoryDatabase = Plain driver"

definition with_ops :: "op_table \<Rightarrow> exec_world \<Rightarrow> exec_world" where
  "with_ops tbl w = w\<lparr>xw_base := (xw_base w)\<lparr>ow_ops := tbl\<rparr>\<rparr>"

definition called :: "provider_call \<Rightarrow> exec_world \<Rightarrow> exec_world" where
  "called c w = w\<lparr>xw_calls := xw_calls w @ [c]\<rparr>"

definition publish_op :: "exec_env \<Rightarrow> operation \<Rightarrow> exec_world \<Rightarrow> exec_world" where
  "publish_op env op w = w\<lparr>xw_base := publish_operation (xe_publisher env) op (xw_base w)\<rparr>"

definition publish_server :: "exec_env \<Rightarrow> string \<Rightarrow> exec_world \<Rightarrow> exec_world" where
  "publish_server env server w =
     (if xe_publisher env
      then w\<lparr>xw_base := (xw_base w)\<lparr>ow_events := ow_events (xw_base w) @
             [\<lparr>ev_id = 0, ev_type = ''server.updated'', ev_data = Some (JObj [(''server_id'', JStr server)])\<rparr>]\<rparr>\<rparr>
      else w)"

definition append_audit :: "exec_env \<Rightarrow> operation \<Rightarrow> string \<Rightarrow> op_status \<Rightarrow> exec_world \<Rightarrow> go_error option \<times> exec_world" where
  "append_audit env op event_type s w =
     (let e = \<lparr>ae_id = xe_audit_id env, ae_event_type = event_type, ae_target_type = ''operation'', ae_target = op_id op,
               ae_request_id = [], ae_source_ip = [],
               ae_metadata = JObj [(''action'', JStr (action_text (op_action op))), (''status'', JStr (op_status_text s))],
               ae_created = xe_audit_at env\<rparr>;
          (ok, log) = append_audit_entry (xe_audit_fault env) e (ow_audit (xw_base w))
      in (if ok then None else Some (Wrapped ''append audit entry'' (Plain (xe_driver_error env))),
          w\<lparr>xw_base := (xw_base w)\<lparr>ow_audit := log\<rparr>\<rparr>))"

section \<open>The end of an execution\<close>

definition at_time :: "time \<Rightarrow> transition_change" where
  "at_time t = \<lparr>ch_at = Some t, ch_request_id = [], ch_error_code = [], ch_error_message = []\<rparr>"

definition operation_error :: "go_error \<Rightarrow> string \<times> string \<times> bool" where
  "operation_error e =
     (case provider_of e of
        Some p \<Rightarrow> (error_code_text (pe_code p), pe_message p, pe_retryable p)
      | None \<Rightarrow> (error_code_text ErrorProvider, ''Power operation failed'', False))"

definition finish_error :: "exec_env \<Rightarrow> operation \<Rightarrow> job \<Rightarrow> go_error \<Rightarrow> exec_world \<Rightarrow> go_error option \<times> exec_world" where
  "finish_error env op j err w =
     (let (code, message, again) = operation_error err
      in if again \<and> attempts j < max_attempts j then (Some err, w)
         else (case find_operation (xe_recheck_fault env) (op_id op) (ow_ops (xw_base w)) of
                 Inl e \<Rightarrow> (Some (Joined [err, op_error_of (xe_driver_error env) e]), w)
               | Inr current \<Rightarrow>
                   (if terminal (op_status current) then (Some err, w)
                    else (case transition (xe_end_fault env) (xe_end_at env) (op_id op) StatusFailed
                                 (failed_change (xe_end_at env) code message) (ow_ops (xw_base w)) of
                            (Inl e, tbl) \<Rightarrow> (Some (Joined [err, op_error_of (xe_driver_error env) e]), with_ops tbl w)
                          | (Inr failed, tbl) \<Rightarrow>
                              (case append_audit env op ''power_operation_failed'' StatusFailed (publish_op env failed (with_ops tbl w)) of
                                 (Some e, w') \<Rightarrow> (Some (Joined [err, e]), w')
                               | (None, w') \<Rightarrow> (Some err, w'))))))"

definition succeed :: "exec_env \<Rightarrow> operation \<Rightarrow> remote_server \<Rightarrow> exec_world \<Rightarrow> go_error option \<times> exec_world" where
  "succeed env op remote w =
     (case update_remote (xe_update_fault env) (op_server op) remote (xe_update_at env) (xe_drift env (xw_servers w)) of
        (Inl e, tbl) \<Rightarrow> (Some (inventory_error_of (xe_driver_error env) e), w\<lparr>xw_servers := xe_drift env (xw_servers w)\<rparr>)
      | (Inr _, tbl) \<Rightarrow>
          (let w1 = publish_server env (op_server op) (w\<lparr>xw_servers := tbl\<rparr>)
           in (case transition (xe_end_fault env) (xe_end_at env) (op_id op) StatusSucceeded (at_time (xe_end_at env)) (ow_ops (xw_base w1)) of
                 (Inl e, ops) \<Rightarrow> (Some (op_error_of (xe_driver_error env) e), with_ops ops w1)
               | (Inr succeeded, ops) \<Rightarrow>
                   append_audit env op ''power_operation_succeeded'' StatusSucceeded (publish_op env succeeded (with_ops ops w1)))))"

definition time_out :: "exec_env \<Rightarrow> operation \<Rightarrow> exec_world \<Rightarrow> go_error option \<times> exec_world" where
  "time_out env op w =
     (case transition (xe_end_fault env) (xe_end_at env) (op_id op) StatusTimedOut
             (failed_change (xe_end_at env) ''operation_timeout'' ''Provider state verification timed out'') (ow_ops (xw_base w)) of
        (Inl e, tbl) \<Rightarrow> (Some (op_error_of (xe_driver_error env) e), with_ops tbl w)
      | (Inr timed_out, tbl) \<Rightarrow>
          append_audit env op ''power_operation_timed_out'' StatusTimedOut (publish_op env timed_out (with_ops tbl w)))"

section \<open>The polling loop\<close>

text \<open>
  One round: ask for the server, decide, else wait. \<open>n\<close> is the number of polls done and \<open>t\<close> the clock
  when the round starts; the first \<^verbatim>\<open>GetServer\<close> of the execution had number 0. The number of
  polls is returned for the record of calls. The interval is positive after \<^verbatim>\<open>NewExecutor\<close>.
\<close>

datatype verdict = PollFailed go_error | TargetReached remote_server | DeadlinePassed | ContextDone

function verify_loop :: "exec_env \<Rightarrow> provider \<Rightarrow> server_ref \<Rightarrow> action \<Rightarrow> time \<Rightarrow> nat \<Rightarrow> time \<Rightarrow> verdict \<times> nat" where
  "verify_loop env p ref a deadline n t =
     (case pv_get_server p (Suc n) ref of
        Inl e \<Rightarrow> (PollFailed e, Suc n)
      | Inr remote \<Rightarrow>
          (if verification_target_reached a (rs_state remote) then (TargetReached remote, Suc n)
           else if t + xe_latency env n > deadline then (DeadlinePassed, Suc n)
           else if xe_cancelled env n then (ContextDone, Suc n)
           else verify_loop env p ref a deadline (Suc n)
                  (t + xe_latency env n + max 1 (poll_interval_of (xe_config env)) + xe_timer_delay env n)))"
  by pat_completeness auto
termination
  by (relation "measure (\<lambda>(env, p, ref, a, deadline, n, t). Suc deadline - t)") auto

declare verify_loop.simps [simp del]

definition calls :: "nat \<Rightarrow> exec_world \<Rightarrow> exec_world" where
  "calls n w = w\<lparr>xw_calls := xw_calls w @ replicate n GetServerCall\<rparr>"

definition verify :: "exec_env \<Rightarrow> provider \<Rightarrow> server_ref \<Rightarrow> operation \<Rightarrow> job \<Rightarrow> exec_world \<Rightarrow> go_error option \<times> exec_world" where
  "verify env p ref op j w =
     (let (v, n) = verify_loop env p ref (op_action op) (xe_loop_start env + verification_timeout_of (xe_config env)) 0 (xe_loop_start env);
          w1 = calls n w
      in (case v of
            PollFailed e \<Rightarrow> finish_error env op j e w1
          | TargetReached remote \<Rightarrow> succeed env op remote w1
          | DeadlinePassed \<Rightarrow> time_out env op w1
          | ContextDone \<Rightarrow> (Some (Plain ''context canceled''), w1)))"

section \<open>Execute\<close>

text \<open>The part after the operation is running: the provider, the action, the verification.\<close>

definition act :: "exec_env \<Rightarrow> provider \<Rightarrow> server_ref \<Rightarrow> operation \<Rightarrow> job \<Rightarrow> exec_world \<Rightarrow> go_error option \<times> exec_world" where
  "act env p ref op j w =
     (if op_status op = StatusVerifying then verify env p ref op j w
      else (case execute_provider_action p ref (op_action op) of
              Inl e \<Rightarrow> finish_error env op j e (called (PowerCall (op_action op)) w)
            | Inr request_id \<Rightarrow>
                (let w1 = called (PowerCall (op_action op)) w
                 in (case transition (xe_verifying_fault env) (xe_verifying_at env) (op_id op) StatusVerifying
                            ((at_time (xe_verifying_at env))\<lparr>ch_request_id := request_id\<rparr>) (ow_ops (xw_base w1)) of
                       (Inl e, tbl) \<Rightarrow> (Some (op_error_of (xe_driver_error env) e), with_ops tbl w1)
                     | (Inr op1, tbl) \<Rightarrow> verify env p ref op1 j (publish_op env op1 (with_ops tbl w1))))))"

definition drive :: "exec_env \<Rightarrow> operation \<Rightarrow> job \<Rightarrow> exec_world \<Rightarrow> go_error option \<times> exec_world" where
  "drive env op j w =
     (case find_server (xe_server_fault env) (xe_live env) (op_server op) (xw_servers w) of
        Inl e \<Rightarrow> finish_error env op j (inventory_error_of (xe_driver_error env) e) w
      | Inr srv \<Rightarrow>
          (case xe_provider env (op_connection op) of
             Inl e \<Rightarrow> finish_error env op j e w
           | Inr p \<Rightarrow>
               (case pv_validate p of
                  Some e \<Rightarrow> finish_error env op j e (called ValidateCall w)
                | None \<Rightarrow>
                    (let ref = \<lparr>ref_external_id = srv_external_id srv, ref_scope = srv_scope srv\<rparr>;
                         w1 = called GetServerCall (called ValidateCall w)
                     in (case pv_get_server p 0 ref of
                           Inl e \<Rightarrow> finish_error env op j e w1
                         | Inr remote \<Rightarrow>
                             (if action_already_satisfied (op_action op) (rs_state remote)
                              then succeed env op remote w1
                              else act env p ref op j w1))))))"

definition execute :: "exec_env \<Rightarrow> job \<Rightarrow> exec_world \<Rightarrow> go_error option \<times> exec_world" where
  "execute env j w =
     (if job_kind j \<noteq> KindPowerOperation then (Some (Plain ''unsupported power operation job''), w)
      else (case decode_string_field ''operation_id'' (payload j) of
              None \<Rightarrow> (Some (Plain ''invalid power operation job payload''), w)
            | Some i \<Rightarrow>
                (if i = [] then (Some (Plain ''invalid power operation job payload''), w)
                 else (case find_operation (xe_find_fault env) i (ow_ops (xw_base w)) of
                         Inl e \<Rightarrow> (Some (op_error_of (xe_driver_error env) e), w)
                       | Inr op \<Rightarrow>
                           (if terminal (op_status op) then (None, w)
                            else if op_status op = StatusQueued then
                              (case transition (xe_running_fault env) (xe_running_at env) (op_id op) StatusRunning
                                      (at_time (xe_running_at env)) (ow_ops (xw_base w)) of
                                 (Inl e, tbl) \<Rightarrow> (Some (op_error_of (xe_driver_error env) e), with_ops tbl w)
                               | (Inr op1, tbl) \<Rightarrow> drive env op1 j (publish_op env op1 (with_ops tbl w)))
                            else drive env op j w)))))"

section \<open>Dispatch\<close>

text \<open>The handler of \<^verbatim>\<open>app.go\<close>; \<open>sync\<close> is the synchronizer, which does not touch the leased job's row.\<close>

definition dispatch :: "(string \<Rightarrow> exec_world \<Rightarrow> go_error option \<times> exec_world) \<Rightarrow> exec_env
    \<Rightarrow> job \<Rightarrow> job_table \<times> exec_world \<Rightarrow> go_error option \<times> (job_table \<times> exec_world)" where
  "dispatch sync env j st =
     (case job_kind j of
        KindSyncConnection \<Rightarrow>
          (case decode_string_field ''connection_id'' (payload j) of
             None \<Rightarrow> (Some (Plain ''invalid sync job payload''), st)
           | Some i \<Rightarrow>
               (if i = [] then (Some (Plain ''invalid sync job payload''), st)
                else (let (e, w) = sync i (snd st) in (e, (fst st, w)))))
      | KindPowerOperation \<Rightarrow> (let (e, w) = execute env j (snd st) in (e, (fst st, w)))
      | KindOther _ \<Rightarrow> (Some (Plain ''unsupported job kind''), st))"

interpretation dispatcher: job_handler "dispatch sync env" for sync env
  by unfold_locales (auto simp: dispatch_def Let_def split: job_kind.splits option.splits if_splits prod.splits)

section \<open>Calls of the provider\<close>

lemma calls_unchanged [simp]:
  "xw_calls (with_ops tbl w) = xw_calls w" "xw_calls (publish_op env op w) = xw_calls w"
  "xw_calls (publish_server env s w) = xw_calls w" "xw_calls (snd (append_audit env op t st w)) = xw_calls w"
  by (simp_all add: with_ops_def publish_op_def publish_server_def append_audit_def Let_def split: prod.split)

lemma ops_unchanged [simp]:
  "ow_ops (xw_base (publish_op env op w)) = ow_ops (xw_base w)" "ow_ops (xw_base (publish_server env s w)) = ow_ops (xw_base w)"
  "ow_ops (xw_base (snd (append_audit env op t st w))) = ow_ops (xw_base w)" "ow_ops (xw_base (with_ops tbl w)) = tbl"
  "ow_ops (xw_base (called c w)) = ow_ops (xw_base w)" "ow_ops (xw_base (calls n w)) = ow_ops (xw_base w)"
  by (simp_all add: publish_op_def publish_operation_def publish_server_def append_audit_def with_ops_def called_def calls_def
      Let_def split: prod.split)

lemma servers_unchanged [simp]:
  "xw_servers (publish_op env op w) = xw_servers w" "xw_servers (with_ops tbl w) = xw_servers w"
  "xw_servers (called c w) = xw_servers w" "xw_servers (calls n w) = xw_servers w"
  by (simp_all add: publish_op_def with_ops_def called_def calls_def)

lemma snd_joined [simp]:
  "snd (case p of (x, w') \<Rightarrow> (case x of None \<Rightarrow> (g, w') | Some e \<Rightarrow> (f e, w'))) = snd p"
  by (cases p; cases "fst p") simp_all

lemma finish_error_world:
  "snd (finish_error env op j err w) =
     (let (code, message, again) = operation_error err
      in if again \<and> attempts j < max_attempts j then w
         else (case find_operation (xe_recheck_fault env) (op_id op) (ow_ops (xw_base w)) of
                 Inl e \<Rightarrow> w
               | Inr current \<Rightarrow>
                   (if terminal (op_status current) then w
                    else (case transition (xe_end_fault env) (xe_end_at env) (op_id op) StatusFailed
                                 (failed_change (xe_end_at env) code message) (ow_ops (xw_base w)) of
                            (Inl e, tbl) \<Rightarrow> with_ops tbl w
                          | (Inr failed, tbl) \<Rightarrow>
                              snd (append_audit env op ''power_operation_failed'' StatusFailed (publish_op env failed (with_ops tbl w)))))))"
  by (simp add: finish_error_def Let_def split: prod.split sum.split)

lemma finish_error_calls [simp]: "xw_calls (snd (finish_error env op j e w)) = xw_calls w"
  by (simp add: finish_error_world Let_def split: prod.split sum.split)

lemma succeed_calls [simp]: "xw_calls (snd (succeed env op remote w)) = xw_calls w"
  by (auto simp: succeed_def Let_def split: prod.split sum.split)

lemma time_out_calls [simp]: "xw_calls (snd (time_out env op w)) = xw_calls w"
  by (auto simp: time_out_def split: prod.split sum.split)

lemma verify_calls: "\<exists>n. xw_calls (snd (verify env p ref op j w)) = xw_calls w @ replicate n GetServerCall"
  by (auto simp: verify_def calls_def Let_def split: prod.split verdict.split)

lemma act_calls:
  "\<exists>cs n. xw_calls (snd (act env p ref op j w)) = xw_calls w @ cs @ replicate n GetServerCall \<and>
    (cs = [] \<or> cs = [PowerCall (op_action op)] \<and> op_status op \<noteq> StatusVerifying)"
proof (cases "op_status op = StatusVerifying")
  case True
  then show ?thesis using verify_calls [of env p ref op j w] by (auto simp: act_def)
next
  case False
  show ?thesis
  proof (cases "execute_provider_action p ref (op_action op)")
    case (Inl e)
    then show ?thesis using False by (auto simp: act_def called_def intro!: exI [of _ "[PowerCall (op_action op)]"] exI [of _ 0])
  next
    case (Inr request_id)
    let ?w1 = "called (PowerCall (op_action op)) w"
    obtain r tbl where tr: "transition (xe_verifying_fault env) (xe_verifying_at env) (op_id op) StatusVerifying
        ((at_time (xe_verifying_at env))\<lparr>ch_request_id := request_id\<rparr>) (ow_ops (xw_base ?w1)) = (r, tbl)" by fastforce
    show ?thesis
    proof (cases r)
      case (Inl e)
      then show ?thesis using False Inr tr
        by (auto simp: act_def called_def Let_def intro!: exI [of _ "[PowerCall (op_action op)]"] exI [of _ 0])
    next
      case (Inr op1)
      obtain n where "xw_calls (snd (verify env p ref op1 j (publish_op env op1 (with_ops tbl ?w1)))) =
          xw_calls (publish_op env op1 (with_ops tbl ?w1)) @ replicate n GetServerCall"
        using verify_calls by blast
      then show ?thesis using False Inr \<open>execute_provider_action p ref (op_action op) = Inr request_id\<close> tr
        by (auto simp: act_def called_def Let_def intro!: exI [of _ "[PowerCall (op_action op)]"] exI [of _ n])
    qed
  qed
qed

definition power_calls :: "provider_call list \<Rightarrow> provider_call list" where
  "power_calls cs = filter (\<lambda>c. case c of PowerCall _ \<Rightarrow> True | _ \<Rightarrow> False) cs"

lemma power_calls_simps [simp]:
  "power_calls [] = []" "power_calls (ValidateCall # cs) = power_calls cs" "power_calls (GetServerCall # cs) = power_calls cs"
  "power_calls (PowerCall a # cs) = PowerCall a # power_calls cs" "power_calls (xs @ ys) = power_calls xs @ power_calls ys"
  "power_calls (replicate n GetServerCall) = []"
  by (simp_all add: power_calls_def)

lemma drive_calls:
  "\<exists>cs. xw_calls (snd (drive env op j w)) = xw_calls w @ cs \<and>
    (power_calls cs = [] \<or> power_calls cs = [PowerCall (op_action op)] \<and> op_status op \<noteq> StatusVerifying)"
proof (cases "find_server (xe_server_fault env) (xe_live env) (op_server op) (xw_servers w)")
  case (Inl e)
  then show ?thesis by (auto simp: drive_def)
next
  case srv: (Inr srv)
  show ?thesis
  proof (cases "xe_provider env (op_connection op)")
    case (Inl e)
    then show ?thesis using srv by (auto simp: drive_def)
  next
    case p: (Inr p)
    show ?thesis
    proof (cases "pv_validate p")
      case (Some e)
      then show ?thesis using srv p by (auto simp: drive_def called_def)
    next
      case valid: None
      let ?ref = "\<lparr>ref_external_id = srv_external_id srv, ref_scope = srv_scope srv\<rparr>"
      let ?w1 = "called GetServerCall (called ValidateCall w)"
      show ?thesis
      proof (cases "pv_get_server p 0 ?ref")
        case (Inl e)
        then show ?thesis using srv p valid by (auto simp: drive_def called_def)
      next
        case remote: (Inr remote)
        show ?thesis
        proof (cases "action_already_satisfied (op_action op) (rs_state remote)")
          case True
          then show ?thesis using srv p valid remote by (auto simp: drive_def called_def)
        next
          case False
          then have "drive env op j w = act env p ?ref op j ?w1"
            using srv p valid remote by (simp add: drive_def)
          then show ?thesis using act_calls [of env p ?ref op j ?w1] by (auto simp: called_def)
        qed
      qed
    qed
  qed
qed

section \<open>The operation's row\<close>

text \<open>
  \<open>driving\<close>: the executor holds the stored operation, past the queue and not over. \<open>op_over\<close>: the
  operation has ended. \<open>settled\<close>: the operation has ended, or the worker will run the job again.
\<close>

abbreviation ops_of :: "exec_world \<Rightarrow> op_table" where
  "ops_of w \<equiv> ow_ops (xw_base w)"

definition op_over :: "string \<Rightarrow> exec_world \<Rightarrow> bool" where
  "op_over i w = (case find_by row_id i (ops_of w) of None \<Rightarrow> False | Some r \<Rightarrow> terminal (op_status (row_op r)))"

definition driving :: "operation \<Rightarrow> exec_world \<Rightarrow> bool" where
  "driving op w \<longleftrightarrow> op_inv (ops_of w) \<and> op_status op \<in> {StatusRunning, StatusVerifying} \<and>
     find_by row_id (op_id op) (ops_of w) = Some \<lparr>row_op = op, active_marker = True\<rparr>"

definition settled :: "job \<Rightarrow> string \<Rightarrow> go_error option \<times> exec_world \<Rightarrow> bool" where
  "settled j i p \<longleftrightarrow> op_over i (snd p) \<or>
     (\<exists>e. fst p = Some e \<and> retryable e \<and> attempts j < max_attempts j)"

text \<open>An execution without database faults on its rows, without drift and without cancellation.\<close>

definition quiet :: "exec_env \<Rightarrow> bool" where
  "quiet env \<longleftrightarrow> \<not> xe_find_fault env \<and> \<not> xe_running_fault env \<and> \<not> xe_verifying_fault env \<and> \<not> xe_update_fault env \<and>
     \<not> xe_recheck_fault env \<and> \<not> xe_end_fault env \<and> xe_drift env = (\<lambda>s. s) \<and> xe_cancelled env = (\<lambda>_. False)"

lemma op_over_cong [simp]:
  "op_over i (publish_op env op w) = op_over i w" "op_over i (snd (append_audit env op t st w)) = op_over i w"
  "op_over i (publish_server env s w) = op_over i w" "op_over i (called c w) = op_over i w" "op_over i (calls n w) = op_over i w"
  by (simp_all add: op_over_def)

lemma driving_cong [simp]:
  "driving op (publish_op env o' w) = driving op w" "driving op (publish_server env s w) = driving op w"
  "driving op (called c w) = driving op w" "driving op (calls n w) = driving op w" "driving op (w\<lparr>xw_servers := srvs\<rparr>) = driving op w"
  by (simp_all add: driving_def)

lemma moved:
  assumes inv: "op_inv (ops_of w)" and tr: "transition fault now i n ch (ops_of w) = (Inr op', tbl)"
  shows "op_inv tbl \<and> op_status op' = n \<and> op_id op' = i \<and>
    find_by row_id i tbl = Some \<lparr>row_op = op', active_marker = \<not> terminal n\<rparr>"
proof -
  from transition_row_after [OF inv tr] obtain r where r: "find_by row_id i (ops_of w) = Some r"
      "op' = apply_change now n ch (row_op r)" "op_inv tbl" "find_by row_id i tbl = Some \<lparr>row_op = op', active_marker = \<not> terminal n\<rparr>"
    by blast
  moreover have "op_id op' = i"
    using same_request_apply_change [of "row_op r" now n ch] find_by_SomeD [OF r(1)] r(2) by (simp add: same_request_def)
  ultimately show ?thesis by simp
qed

lemma moved_over:
  assumes "op_inv (ops_of w)" and "transition fault now i n ch (ops_of w) = (Inr op', tbl)" and "terminal n"
  shows "op_over i (with_ops tbl w)"
  using moved [OF assms(1,2)] assms(3) by (simp add: op_over_def)

lemma driving_moves:
  assumes "driving op w" and "valid_transition (op_status op) n"
  shows "\<exists>op' tbl. transition False now (op_id op) n ch (ops_of w) = (Inr op', tbl) \<and> op_server op' = op_server op"
proof -
  have "distinct (map row_id (ops_of w))" using assms(1) by (simp add: driving_def op_inv_def)
  from transition_ok [OF this, of "op_id op" "\<lparr>row_op = op, active_marker = True\<rparr>" n now ch] show ?thesis
    using assms same_request_apply_change [of op now n ch] by (auto simp: driving_def same_request_def)
qed

section \<open>How the ends leave the operation\<close>

lemma operation_error_again: "operation_error e = (c, m, again) \<Longrightarrow> again = retryable e"
  by (auto simp: operation_error_def retryable_def split: option.splits)

lemma retryable_joined [simp]: "retryable (Joined [e, Plain s]) = retryable e" "retryable (Joined [e, Wrapped p (Plain s)]) = retryable e"
  by (simp_all add: retryable_def split: option.split)

lemma plain_op_error [simp]: "\<not> retryable (op_error_of d e)"
  by (cases e) (simp_all add: retryable_def)

lemma append_audit_error: "append_audit env op t st w = (Some e, w') \<Longrightarrow> e = Wrapped ''append audit entry'' (Plain (xe_driver_error env))"
  by (auto simp: append_audit_def Let_def split: prod.splits if_splits)

lemma fst_joined:
  "fst (case p of (x, w') \<Rightarrow> (case x of None \<Rightarrow> (g, w') | Some e \<Rightarrow> (f e, w'))) = (case fst p of None \<Rightarrow> g | Some e \<Rightarrow> f e)"
  by (cases p; cases "fst p") simp_all

text \<open>\<open>finish_error\<close> always reports the error it was given, with the same retry flag.\<close>

lemma finish_error_reports: "\<exists>e'. fst (finish_error env op j e w) = Some e'"
  by (cases "operation_error e")
     (auto simp: finish_error_def Let_def fst_joined split: sum.split prod.split option.split)

lemma finish_error_reported [simp]: "fst (finish_error env op j e w) \<noteq> None"
  using finish_error_reports [of env op j e w] by auto

lemma finish_error_settled:
  assumes "driving op w" and "\<not> xe_recheck_fault env" "\<not> xe_end_fault env"
  shows "settled j (op_id op) (finish_error env op j e w)"
proof -
  obtain c m again where oe: "operation_error e = (c, m, again)" using prod_cases3 by blast
  show ?thesis
  proof (cases "again \<and> attempts j < max_attempts j")
    case True
    then show ?thesis using operation_error_again [OF oe] oe by (simp add: settled_def finish_error_def)
  next
    case False
    have "valid_transition (op_status op) StatusFailed" using assms(1) by (auto simp: driving_def)
    from driving_moves [OF assms(1) this, of "xe_end_at env" "failed_change (xe_end_at env) c m"] obtain op' tbl where
      tr: "transition False (xe_end_at env) (op_id op) StatusFailed (failed_change (xe_end_at env) c m) (ops_of w) = (Inr op', tbl)"
      by blast
    have inv: "op_inv (ops_of w)" using assms(1) by (simp add: driving_def)
    have "find_operation (xe_recheck_fault env) (op_id op) (ops_of w) = Inr op" "\<not> terminal (op_status op)"
      using assms by (auto simp: driving_def find_operation_def)
    then have "op_over (op_id op) (snd (finish_error env op j e w))"
      using False oe tr assms(3) moved_over [OF inv tr] by (simp add: finish_error_world del: not_less) blast
    then show ?thesis by (simp add: settled_def)
  qed
qed

lemma succeed_settled:
  assumes "driving op w" and "\<not> xe_update_fault env" "\<not> xe_end_fault env" "xe_drift env = (\<lambda>s. s)"
    and found: "affected (visible_row (op_server op)) (xw_servers w) = 1"
  shows "op_over (op_id op) (snd (succeed env op remote w))"
proof -
  let ?tbl = "update_where (visible_row (op_server op)) (overwrite_remote remote (xe_update_at env)) (xw_servers w)"
  let ?w1 = "publish_server env (op_server op) (w\<lparr>xw_servers := ?tbl\<rparr>)"
  have d1: "driving op ?w1" using assms(1) by simp
  moreover have "valid_transition (op_status op) StatusSucceeded" using assms(1) by (auto simp: driving_def)
  ultimately obtain op' tbl where
    tr: "transition False (xe_end_at env) (op_id op) StatusSucceeded (at_time (xe_end_at env)) (ops_of ?w1) = (Inr op', tbl)"
    using driving_moves by blast
  have up: "update_remote (xe_update_fault env) (op_server op) remote (xe_update_at env) (xe_drift env (xw_servers w)) = (Inr (), ?tbl)"
    using assms(2,4) found by (simp add: update_remote_def)
  have "op_inv (ops_of ?w1)" using d1 by (simp add: driving_def)
  then have "op_over (op_id op) (with_ops tbl ?w1)" using tr by (rule moved_over) simp
  then show ?thesis using up tr assms(3) by (simp add: succeed_def Let_def)
qed

lemma time_out_settled:
  assumes "driving op w" and "\<not> xe_end_fault env"
  shows "op_over (op_id op) (snd (time_out env op w))"
proof -
  let ?ch = "failed_change (xe_end_at env) ''operation_timeout'' ''Provider state verification timed out''"
  have "valid_transition (op_status op) StatusTimedOut" using assms(1) by (auto simp: driving_def)
  from driving_moves [OF assms(1) this, of "xe_end_at env" ?ch] obtain op' tbl where
    tr: "transition False (xe_end_at env) (op_id op) StatusTimedOut ?ch (ops_of w) = (Inr op', tbl)" by blast
  have "op_inv (ops_of w)" using assms(1) by (simp add: driving_def)
  then have "op_over (op_id op) (with_ops tbl w)" using tr by (rule moved_over) simp
  then show ?thesis using tr assms(2) by (simp add: time_out_def)
qed

text \<open>Without an error the operation is over, whatever fails in between.\<close>

lemma succeed_none:
  assumes inv: "op_inv (ops_of w)" and none: "fst (succeed env op remote w) = None"
  shows "op_over (op_id op) (snd (succeed env op remote w))"
proof -
  obtain u srvs where up: "update_remote (xe_update_fault env) (op_server op) remote (xe_update_at env) (xe_drift env (xw_servers w)) = (u, srvs)"
    by fastforce
  let ?w1 = "publish_server env (op_server op) (w\<lparr>xw_servers := srvs\<rparr>)"
  obtain r tbl where tr: "transition (xe_end_fault env) (xe_end_at env) (op_id op) StatusSucceeded (at_time (xe_end_at env)) (ops_of ?w1) = (r, tbl)"
    by fastforce
  from none up tr obtain x where u: "u = Inr x" by (cases u) (auto simp: succeed_def)
  from none up tr u obtain op' where r: "r = Inr op'" by (cases r) (auto simp: succeed_def Let_def)
  have "op_inv (ops_of ?w1)" using inv by simp
  then have "op_over (op_id op) (with_ops tbl ?w1)" using tr unfolding r by (rule moved_over) simp
  then show ?thesis using up tr u r by (simp add: succeed_def Let_def)
qed

lemma time_out_none:
  assumes inv: "op_inv (ops_of w)" and none: "fst (time_out env op w) = None"
  shows "op_over (op_id op) (snd (time_out env op w))"
proof -
  let ?ch = "failed_change (xe_end_at env) ''operation_timeout'' ''Provider state verification timed out''"
  obtain r tbl where tr: "transition (xe_end_fault env) (xe_end_at env) (op_id op) StatusTimedOut ?ch (ops_of w) = (r, tbl)" by fastforce
  from none tr obtain op' where r: "r = Inr op'" by (cases r) (auto simp: time_out_def)
  have "op_over (op_id op) (with_ops tbl w)" using inv tr unfolding r by (rule moved_over) simp
  then show ?thesis using tr r by (simp add: time_out_def)
qed

section \<open>The verification and the whole execution\<close>

lemma loop_not_cancelled:
  "(\<And>k. \<not> xe_cancelled env k) \<Longrightarrow> fst (verify_loop env p ref a deadline n t) \<noteq> ContextDone"
proof (induction env p ref a deadline n t rule: verify_loop.induct)
  case (1 env p ref a deadline n t)
  then show ?case by (subst verify_loop.simps) (auto split: sum.split)
qed

lemma verify_settled:
  assumes d: "driving op w" and q: "quiet env" and found: "affected (visible_row (op_server op)) (xw_servers w) = 1"
  shows "settled j (op_id op) (verify env p ref op j w)"
proof -
  obtain v n where v: "verify_loop env p ref (op_action op) (xe_loop_start env + verification_timeout_of (xe_config env)) 0 (xe_loop_start env) = (v, n)"
    by fastforce
  have d1: "driving op (calls n w)" and f1: "affected (visible_row (op_server op)) (xw_servers (calls n w)) = 1"
    using d found by simp_all
  have "v \<noteq> ContextDone"
    using loop_not_cancelled [of env p ref "op_action op" "xe_loop_start env + verification_timeout_of (xe_config env)" 0 "xe_loop_start env"] v q
    by (simp add: quiet_def)
  then show ?thesis
    using v q finish_error_settled [OF d1] succeed_settled [OF d1 _ _ _ f1] time_out_settled [OF d1]
    by (cases v) (simp_all add: verify_def quiet_def settled_def)
qed

lemma act_settled:
  assumes d: "driving op w" and q: "quiet env" and found: "affected (visible_row (op_server op)) (xw_servers w) = 1"
  shows "settled j (op_id op) (act env p ref op j w)"
proof (cases "op_status op = StatusVerifying")
  case True
  then show ?thesis using verify_settled [OF assms] by (simp add: act_def)
next
  case False
  let ?w1 = "called (PowerCall (op_action op)) w"
  have d1: "driving op ?w1" using d by simp
  show ?thesis
  proof (cases "execute_provider_action p ref (op_action op)")
    case (Inl e)
    then show ?thesis using False finish_error_settled [OF d1] q by (simp add: act_def quiet_def)
  next
    case (Inr request_id)
    let ?ch = "(at_time (xe_verifying_at env))\<lparr>ch_request_id := request_id\<rparr>"
    have "valid_transition (op_status op) StatusVerifying" using d False by (auto simp: driving_def)
    from driving_moves [OF d1 this, of "xe_verifying_at env" ?ch] obtain op1 tbl where
      tr: "transition False (xe_verifying_at env) (op_id op) StatusVerifying ?ch (ops_of ?w1) = (Inr op1, tbl)"
      and srv: "op_server op1 = op_server op" by blast
    have inv: "op_inv (ops_of ?w1)" using d1 by (simp add: driving_def)
    note m = moved [OF inv tr]
    have "driving op1 (publish_op env op1 (with_ops tbl ?w1))" using m by (simp add: driving_def)
    from verify_settled [OF this q] found srv m have
      "settled j (op_id op) (verify env p ref op1 j (publish_op env op1 (with_ops tbl ?w1)))" by simp
    then show ?thesis using False Inr tr q by (simp add: act_def quiet_def Let_def)
  qed
qed

lemma find_server_visible:
  assumes "distinct (map srv_id srvs)" and "find_server fault live i srvs = Inr srv"
  shows "affected (visible_row i) srvs = 1"
proof -
  have s: "srv \<in> set srvs" "srv_id srv = i" "srv_hidden_at srv = None"
    using assms(2) by (auto simp: find_server_def find_Some_iff split: if_splits option.splits)
  then have "find_by srv_id i srvs = Some srv" using assms(1) by (simp add: find_by_iff)
  from affected_unique [OF assms(1) this, of "\<lambda>r. srv_hidden_at r = None"] s show ?thesis
    by (simp add: visible_row_def [abs_def])
qed

lemma drive_settled:
  assumes d: "driving op w" and q: "quiet env" and srvs: "distinct (map srv_id (xw_servers w))"
  shows "settled j (op_id op) (drive env op j w)"
proof (cases "find_server (xe_server_fault env) (xe_live env) (op_server op) (xw_servers w)")
  case (Inl e)
  then show ?thesis using finish_error_settled [OF d] q by (simp add: drive_def quiet_def)
next
  case srv: (Inr srv)
  note found = find_server_visible [OF srvs srv]
  let ?ref = "\<lparr>ref_external_id = srv_external_id srv, ref_scope = srv_scope srv\<rparr>"
  let ?w1 = "called GetServerCall (called ValidateCall w)"
  have d1: "driving op ?w1" and dv: "driving op (called ValidateCall w)" and f1: "affected (visible_row (op_server op)) (xw_servers ?w1) = 1"
    using d found by simp_all
  note fe = finish_error_settled [OF d] finish_error_settled [OF dv] finish_error_settled [OF d1]
    succeed_settled [OF d1 _ _ _ f1] act_settled [OF d1 q f1]
  show ?thesis
  proof (cases "xe_provider env (op_connection op)")
    case (Inl e)
    then show ?thesis using srv fe(1) q by (simp add: drive_def quiet_def)
  next
    case p: (Inr p)
    show ?thesis
    proof (cases "pv_validate p")
      case (Some e)
      then show ?thesis using srv p fe(2) q by (simp add: drive_def quiet_def)
    next
      case valid: None
      show ?thesis
      proof (cases "pv_get_server p 0 ?ref")
        case (Inl e)
        then show ?thesis using srv p valid fe(3) q by (simp add: drive_def quiet_def)
      next
        case remote: (Inr remote)
        show ?thesis
          using srv p valid remote fe(4) [of env remote] fe(5) [of j p ?ref] q
          by (cases "action_already_satisfied (op_action op) (rs_state remote)")
             (simp_all add: drive_def quiet_def settled_def Let_def)
      qed
    qed
  qed
qed

section \<open>The result of an execution\<close>

text \<open>What \<open>execute\<close> does once the operation is found, and the cases before that.\<close>

lemma execute_found:
  assumes "job_kind j = KindPowerOperation" "decode_string_field ''operation_id'' (payload j) = Some i" "i \<noteq> []"
    and "\<not> xe_find_fault env" "find_by row_id i (ops_of w) = Some r"
  shows "execute env j w =
    (if terminal (op_status (row_op r)) then (None, w)
     else if op_status (row_op r) = StatusQueued then
       (case transition (xe_running_fault env) (xe_running_at env) i StatusRunning (at_time (xe_running_at env)) (ops_of w) of
          (Inl e, tbl) \<Rightarrow> (Some (op_error_of (xe_driver_error env) e), with_ops tbl w)
        | (Inr op1, tbl) \<Rightarrow> drive env op1 j (publish_op env op1 (with_ops tbl w)))
     else drive env (row_op r) j w)"
  using assms find_by_SomeD [OF assms(5)] by (simp add: execute_def find_operation_def)

lemma execute_cases:
  obtains (refused) e where "execute env j w = (Some e, w)" "\<not> retryable e"
  | (found) i r where "job_kind j = KindPowerOperation" "decode_string_field ''operation_id'' (payload j) = Some i" "i \<noteq> []"
      "\<not> xe_find_fault env" "find_by row_id i (ops_of w) = Some r"
proof -
  have plain: "\<not> retryable (Plain s)" for s by (simp add: retryable_def)
  show ?thesis
  proof (cases "job_kind j = KindPowerOperation \<and> decode_string_field ''operation_id'' (payload j) \<notin> {None, Some []}")
    case False
    then have "\<exists>m. execute env j w = (Some (Plain m), w)"
      by (cases "job_kind j = KindPowerOperation"; cases "decode_string_field ''operation_id'' (payload j)")
         (auto simp: execute_def)
    then show ?thesis using refused plain by blast
  next
    case True
    then obtain i where i: "job_kind j = KindPowerOperation" "decode_string_field ''operation_id'' (payload j) = Some i" "i \<noteq> []"
      by auto
    show ?thesis
    proof (cases "find_operation (xe_find_fault env) i (ops_of w)")
      case (Inl e)
      then show ?thesis using i refused [of "op_error_of (xe_driver_error env) e"] by (simp add: execute_def)
    next
      case (Inr op)
      then show ?thesis using i found by (auto simp: find_operation_def split: if_splits option.splits)
    qed
  qed
qed

lemma execute_calls:
  assumes "find_by row_id i (ops_of w) = Some r" and "decode_string_field ''operation_id'' (payload j) = Some i"
  shows "\<exists>cs. xw_calls (snd (execute env j w)) = xw_calls w @ cs \<and>
    (power_calls cs = [] \<or> power_calls cs = [PowerCall (op_action (row_op r))] \<and>
       op_status (row_op r) \<in> {StatusQueued, StatusRunning})"
proof (cases rule: execute_cases [of env j w])
  case (refused e)
  then show ?thesis by simp
next
  case (found i' r')
  then have same: "i' = i" "r' = r" using assms by simp_all
  let ?op = "row_op r"
  note ex = execute_found [OF found, unfolded same]
  show ?thesis
  proof (cases "terminal (op_status ?op) \<or> op_status ?op \<noteq> StatusQueued")
    case True
    then show ?thesis using ex drive_calls [of env ?op j w]
      by (cases "op_status ?op") auto
  next
    case False
    obtain s tbl where tr: "transition (xe_running_fault env) (xe_running_at env) i StatusRunning (at_time (xe_running_at env)) (ops_of w) = (s, tbl)"
      by fastforce
    show ?thesis
    proof (cases s)
      case (Inl e)
      then show ?thesis using ex tr False by simp
    next
      case (Inr op1)
      have "op_action op1 = op_action ?op"
        using tr Inr assms(1) by (auto simp: transition_def apply_change_def Let_def split: if_splits option.splits)
      then show ?thesis
        using ex tr Inr False drive_calls [of env op1 j "publish_op env op1 (with_ops tbl w)"] by auto
    qed
  qed
qed

lemma verify_none:
  assumes "op_inv (ops_of w)" and "fst (verify env p ref op j w) = None"
  shows "op_over (op_id op) (snd (verify env p ref op j w))"
proof -
  obtain v n where v: "verify_loop env p ref (op_action op) (xe_loop_start env + verification_timeout_of (xe_config env)) 0 (xe_loop_start env) = (v, n)"
    by fastforce
  have inv: "op_inv (ops_of (calls n w))" using assms(1) by simp
  show ?thesis
    using v assms(2) succeed_none [OF inv] time_out_none [OF inv] finish_error_reported
    by (cases v) (simp_all add: verify_def)
qed

lemma act_none:
  assumes inv: "op_inv (ops_of w)" and none: "fst (act env p ref op j w) = None"
  shows "op_over (op_id op) (snd (act env p ref op j w))"
proof (cases "op_status op = StatusVerifying")
  case True
  then show ?thesis using verify_none [OF inv] none by (simp add: act_def)
next
  case False
  let ?w1 = "called (PowerCall (op_action op)) w"
  show ?thesis
  proof (cases "execute_provider_action p ref (op_action op)")
    case (Inl e)
    then show ?thesis using False none finish_error_reports [of env op j e ?w1] by (auto simp: act_def)
  next
    case (Inr request_id)
    let ?ch = "(at_time (xe_verifying_at env))\<lparr>ch_request_id := request_id\<rparr>"
    obtain s tbl where tr: "transition (xe_verifying_fault env) (xe_verifying_at env) (op_id op) StatusVerifying ?ch (ops_of ?w1) = (s, tbl)"
      by fastforce
    then obtain op1 where s: "s = Inr op1" using False Inr none by (cases s) (auto simp: act_def Let_def)
    have "op_inv (ops_of ?w1)" using inv by simp
    from moved [OF this tr [unfolded s]] have m: "op_inv tbl" "op_id op1 = op_id op" by simp_all
    then show ?thesis
      using verify_none [of "publish_op env op1 (with_ops tbl ?w1)" env p ref op1 j] False Inr none tr s
      by (simp add: act_def Let_def)
  qed
qed

lemma drive_none:
  assumes inv: "op_inv (ops_of w)" and none: "fst (drive env op j w) = None"
  shows "op_over (op_id op) (snd (drive env op j w))"
proof -
  let ?w1 = "called GetServerCall (called ValidateCall w)"
  have fe: "fst (finish_error env op j e v) \<noteq> None" for e v using finish_error_reports [of env op j e v] by auto
  obtain srv where srv: "find_server (xe_server_fault env) (xe_live env) (op_server op) (xw_servers w) = Inr srv"
    using none fe by (cases "find_server (xe_server_fault env) (xe_live env) (op_server op) (xw_servers w)") (auto simp: drive_def)
  obtain p where p: "xe_provider env (op_connection op) = Inr p"
    using none fe srv by (cases "xe_provider env (op_connection op)") (auto simp: drive_def)
  have valid: "pv_validate p = None" using none fe srv p by (cases "pv_validate p") (auto simp: drive_def)
  let ?ref = "\<lparr>ref_external_id = srv_external_id srv, ref_scope = srv_scope srv\<rparr>"
  obtain remote where remote: "pv_get_server p 0 ?ref = Inr remote"
    using none fe srv p valid by (cases "pv_get_server p 0 ?ref") (auto simp: drive_def Let_def)
  show ?thesis
    using none srv p valid remote succeed_none [of ?w1 env op remote] act_none [of ?w1 env p ?ref op j] inv
    by (cases "action_already_satisfied (op_action op) (rs_state remote)") (simp_all add: drive_def Let_def)
qed

lemma execute_none:
  assumes inv: "op_inv (ops_of w)" and none: "fst (execute env j w) = None"
    and i: "decode_string_field ''operation_id'' (payload j) = Some i"
  shows "op_over i (snd (execute env j w))"
proof (cases rule: execute_cases [of env j w])
  case (refused e)
  then show ?thesis using none by simp
next
  case (found i' r)
  then have [simp]: "i' = i" using i by simp
  let ?op = "row_op r"
  have id: "op_id ?op = i" using find_by_SomeD [OF found(5)] by simp
  note ex = execute_found [OF found]
  show ?thesis
  proof (cases "terminal (op_status ?op)")
    case True
    then show ?thesis using ex found(5) by (simp add: op_over_def)
  next
    case active: False
    show ?thesis
    proof (cases "op_status ?op = StatusQueued")
      case False
      then show ?thesis using ex active drive_none [OF inv, of env ?op j] none id by simp
    next
      case True
      obtain s tbl where tr: "transition (xe_running_fault env) (xe_running_at env) i StatusRunning (at_time (xe_running_at env)) (ops_of w) = (s, tbl)"
        by fastforce
      then obtain op1 where s: "s = Inr op1" using ex active True none by (cases s) auto
      have "op_inv tbl" "op_id op1 = i" using moved [OF inv tr [unfolded s]] by simp_all
      then show ?thesis
        using ex active True none tr s drive_none [of "publish_op env op1 (with_ops tbl w)" env op1 j] by simp
    qed
  qed
qed

lemma execute_settled:
  assumes inv: "op_inv (ops_of w)" and srvs: "distinct (map srv_id (xw_servers w))" and q: "quiet env"
    and job: "job_kind j = KindPowerOperation" "decode_string_field ''operation_id'' (payload j) = Some i" "i \<noteq> []"
    and row: "find_by row_id i (ops_of w) = Some r"
  shows "settled j i (execute env j w)"
proof -
  have nf: "\<not> xe_find_fault env" using q by (simp add: quiet_def)
  let ?op = "row_op r"
  have id: "op_id ?op = i" and ok: "op_row_ok r" using find_by_SomeD [OF row] inv by (auto simp: op_inv_def)
  note ex = execute_found [OF job nf row]
  show ?thesis
  proof (cases "terminal (op_status ?op)")
    case True
    then show ?thesis using ex row by (simp add: op_over_def settled_def)
  next
    case active: False
    then have r: "r = \<lparr>row_op = ?op, active_marker = True\<rparr>" using ok by (simp add: op_row_ok_def Let_def)
    show ?thesis
    proof (cases "op_status ?op = StatusQueued")
      case False
      then have "driving ?op w" using inv row id r active by (cases "op_status ?op") (auto simp: driving_def)
      from drive_settled [OF this q srvs] show ?thesis using ex active False id by simp
    next
      case True
      have d: "distinct (map row_id (ops_of w))" using inv by (simp add: op_inv_def)
      have "valid_transition (op_status ?op) StatusRunning" using True by simp
      from transition_ok [OF d row this] obtain op1 tbl where
        tr: "transition False (xe_running_at env) i StatusRunning (at_time (xe_running_at env)) (ops_of w) = (Inr op1, tbl)" by blast
      note m = moved [OF inv tr]
      have "driving op1 (publish_op env op1 (with_ops tbl w))" using m by (simp add: driving_def)
      from drive_settled [OF this q, of j] srvs m show ?thesis
        using ex active True tr q by (simp add: quiet_def)
    qed
  qed
qed

section \<open>Samples\<close>

definition running_op :: operation where
  "running_op = (sample_operation ''o1'' ''s1'' ''k1'')\<lparr>op_status := StatusRunning, op_started_at := Some 11\<rparr>"

definition running_world :: exec_world where
  "running_world = \<lparr>xw_base = empty_world\<lparr>ow_ops := [\<lparr>row_op = running_op, active_marker = True\<rparr>]\<rparr>,
     xw_servers = [sample_srv], xw_calls = []\<rparr>"

definition sample_remote :: "server_state \<Rightarrow> remote_server" where
  "sample_remote s = \<lparr>rs_external_id = ''x1'', rs_scope = [], rs_name = ''web'', rs_state = s, rs_remote_state = [],
     rs_spec = JObj [], rs_addresses = JArr [], rs_capabilities = sample_capabilities\<rparr>"

text \<open>A provider whose server is stopped at first and running from the first poll on.\<close>

definition starting_provider :: provider where
  "starting_provider = \<lparr>pv_validate = None,
     pv_get_server = (\<lambda>n ref. Inr (sample_remote (if n = 0 then StateStopped else StateRunning))),
     pv_start_server = (\<lambda>ref. Inr ''req-7''), pv_stop_server = (\<lambda>ref. Inl (Plain ''busy'')), pv_reboot_server = (\<lambda>ref. Inl (Plain ''busy''))\<rparr>"

definition started_provider :: provider where
  "started_provider = starting_provider\<lparr>pv_get_server := (\<lambda>n ref. Inr (sample_remote StateRunning))\<rparr>"

definition sample_exec_env :: exec_env where
  "sample_exec_env = \<lparr>xe_config = \<lparr>xc_poll_interval = 0, xc_verification_timeout = 0\<rparr>, xe_publisher = True, xe_driver_error = ''disk'',
     xe_find_fault = False, xe_running_fault = False, xe_server_fault = False, xe_verifying_fault = False, xe_update_fault = False,
     xe_recheck_fault = False, xe_end_fault = False, xe_audit_fault = False, xe_running_at = 20, xe_verifying_at = 21,
     xe_update_at = 22, xe_end_at = 23, xe_audit_at = 24, xe_audit_id = ''a2'', xe_live = (\<lambda>_. True),
     xe_provider = (\<lambda>_. Inr starting_provider), xe_drift = (\<lambda>s. s), xe_loop_start = 100, xe_latency = (\<lambda>_. 1),
     xe_timer_delay = (\<lambda>_. 0), xe_cancelled = (\<lambda>_. False)\<rparr>"

definition power_job :: job where
  "power_job = \<lparr>job_id = ''j1'', job_kind = KindPowerOperation, payload = Some (JObj [(''operation_id'', JStr ''o1'')]),
     job_status = JobQueued, attempts = 0, max_attempts = 3, available_at = 5, lease_owner = None, lease_expires = None,
     last_error = [], job_created = 5, job_updated = 5\<rparr>"

lemma running_row: "find_by row_id ''o1'' (ops_of running_world) = Some \<lparr>row_op = running_op, active_marker = True\<rparr>"
  by (simp add: running_world_def running_op_def sample_operation_def)

lemma running_inv: "op_inv (ops_of running_world)"
  by (simp add: running_world_def running_op_def sample_operation_def op_inv_def op_row_ok_def Let_def)

lemma power_job_simps: "decode_string_field ''operation_id'' (payload power_job) = Some ''o1''" "job_kind power_job = KindPowerOperation"
  by (simp_all add: power_job_def)

section \<open>Properties\<close>

text \<open>
  C3. One execution of a job sends the provider at most one power command, the action of the
  operation, and only while the stored operation is queued or running: never once the command was
  accepted (verifying), never for an operation that is over. Other calls only read. No hypothesis on
  failures, drift or timing.
\<close>

theorem power_command_sent_at_most_once:
  assumes "find_by row_id i (ops_of w) = Some r" and "decode_string_field ''operation_id'' (payload j) = Some i"
  shows "\<exists>cs. xw_calls (snd (execute env j w)) = xw_calls w @ cs \<and>
    (power_calls cs = [] \<or> power_calls cs = [PowerCall (op_action (row_op r))] \<and>
       op_status (row_op r) \<in> {StatusQueued, StatusRunning})"
  by (rule execute_calls [OF assms])

lemma sample_execution:
  "xw_calls (snd (execute sample_exec_env power_job running_world)) =
     [ValidateCall, GetServerCall, PowerCall ActionStart, GetServerCall] \<and>
   fst (execute sample_exec_env power_job running_world) = None"
proof -
  let ?w1 = "called GetServerCall (called ValidateCall running_world)"
  let ?ref = "\<lparr>ref_external_id = ''x1'', ref_scope = []\<rparr>"
  let ?op1 = "apply_change 21 StatusVerifying ((at_time 21)\<lparr>ch_request_id := ''req-7''\<rparr>) running_op"
  have op: "op_id running_op = ''o1''" "op_server running_op = ''s1''" "op_action running_op = ActionStart" "op_status running_op = StatusRunning"
      "op_action ?op1 = ActionStart" "op_id ?op1 = ''o1''" "op_server ?op1 = ''s1''"
    by (simp_all add: running_op_def sample_operation_def apply_change_def)
  have loop: "verify_loop sample_exec_env starting_provider ?ref ActionStart deadline 0 t = (TargetReached (sample_remote StateRunning), 1)" for deadline t
    by (subst verify_loop.simps) (simp add: starting_provider_def sample_remote_def verification_target_reached_def)
  have "execute sample_exec_env power_job running_world = drive sample_exec_env running_op power_job running_world"
    by (subst execute_found [OF power_job_simps(2,1) _ _ running_row]) (simp_all add: sample_exec_env_def op)
  also have "\<dots> = act sample_exec_env starting_provider ?ref running_op power_job ?w1"
    by (simp add: drive_def op find_server_def sample_exec_env_def running_world_def sample_srv_def starting_provider_def sample_remote_def)
  also have "\<dots> = verify sample_exec_env starting_provider ?ref ?op1 power_job (publish_op sample_exec_env ?op1
      (with_ops [\<lparr>row_op = ?op1, active_marker = True\<rparr>] (called (PowerCall ActionStart) ?w1)))"
    by (simp add: act_def op starting_provider_def sample_exec_env_def transition_def transition_row_def affected_def update_where_def running_world_def Let_def)
  also have "\<dots> = succeed sample_exec_env ?op1 (sample_remote StateRunning) (calls 1 (publish_op sample_exec_env ?op1
      (with_ops [\<lparr>row_op = ?op1, active_marker = True\<rparr>] (called (PowerCall ActionStart) ?w1))))"
    by (simp add: verify_def loop op)
  finally have e: "execute sample_exec_env power_job running_world = \<dots>" .
  have "fst (succeed sample_exec_env ?op1 (sample_remote StateRunning) (calls 1 (publish_op sample_exec_env ?op1
      (with_ops [\<lparr>row_op = ?op1, active_marker = True\<rparr>] (called (PowerCall ActionStart) ?w1))))) = None"
    by (simp add: succeed_def op sample_exec_env_def update_remote_def affected_def visible_row_def running_world_def sample_srv_def
        transition_def transition_row_def append_audit_def append_audit_entry_def empty_world_def publish_op_def publish_operation_def
        publish_server_def with_ops_def called_def calls_def Let_def)
  then show ?thesis
    unfolding e succeed_calls by (simp add: calls_def called_def running_world_def)
qed

theorem power_command_sent_at_most_once_witness:
  "power_calls (xw_calls (snd (execute sample_exec_env power_job running_world))) = [PowerCall ActionStart]"
proof -
  obtain cs where cs: "xw_calls (snd (execute sample_exec_env power_job running_world)) = xw_calls running_world @ cs"
      "power_calls cs = [] \<or> power_calls cs = [PowerCall (op_action running_op)]"
    using power_command_sent_at_most_once [OF running_row power_job_simps(1), of sample_exec_env] by auto
  have "xw_calls running_world = []" "op_action running_op = ActionStart" by (simp_all add: running_world_def running_op_def sample_operation_def)
  then show ?thesis using cs sample_execution by auto
qed

text \<open>
  The executor reports success only for an operation that is over: if it returns no error, the
  stored operation has reached one of the final states, whatever failed on the way.
\<close>

lemma completed_execution_ended_the_operation:
  assumes "op_inv (ops_of w)" and "fst (execute env j w) = None"
    and "decode_string_field ''operation_id'' (payload j) = Some i"
  shows "op_over i (snd (execute env j w))"
  by (rule execute_none [OF assms])

theorem completed_execution_ended_the_operation_witness:
  "op_over ''o1'' (snd (execute sample_exec_env power_job running_world))"
  by (rule completed_execution_ended_the_operation [OF running_inv _ power_job_simps(1)]) (simp add: sample_execution)

lemma dispatch_power:
  "job_kind j = KindPowerOperation \<Longrightarrow> dispatch sync env j (tbl, w) = (fst (execute env j w), (tbl, snd (execute env j w)))"
  by (simp add: dispatch_def Let_def split: prod.split)

text \<open>
  C2. The queue and the operations end together. After a round of the worker on a power job without
  database faults, drift or cancellation, either the operation is over, or its job is queued again with
  attempts left: no operation stays in progress behind a job that ended. Whatever the provider answers.
\<close>

theorem job_ends_with_its_operation:
  assumes w: "op_inv (ops_of w)" "distinct (map srv_id (xw_servers w))" and q: "quiet env" and d: "distinct (map job_id tbl)"
    and lease: "lease_next False le (wo_owner opt) (lease_clock renv) (wo_lease_duration opt) tbl = (Inr l, tbl1)"
    and job: "job_kind (leased_job l) = KindPowerOperation" "decode_string_field ''operation_id'' (payload (leased_job l)) = Some i" "i \<noteq> []"
    and row: "find_by row_id i (ops_of w) = Some r" and ok: "lease_fault renv = False" "end_fault renv = False"
  shows "\<exists>tbl3 w2 j3. run_once opt le renv (dispatch sync env) (tbl, w) = (Inr (), (tbl3, w2)) \<and>
    find_by job_id (job_id (leased_job l)) tbl3 = Some j3 \<and>
    (op_over i w2 \<or> job_status j3 = JobQueued \<and> attempts j3 < max_attempts j3)"
proof -
  let ?j = "leased_job l"
  let ?p = "execute env ?j w"
  have handled: "dispatch sync env ?j (tbl1, w) = (fst ?p, (tbl1, snd ?p))" by (rule dispatch_power [OF job(1)])
  have s: "settled ?j i ?p" by (rule execute_settled [OF w q job row])
  from dispatcher.round_outcome [OF d lease handled ok] obtain tbl3 where
    r: "run_once opt le renv (dispatch sync env) (tbl, w) = (Inr (), (tbl3, snd ?p))"
      "find_by job_id (job_id ?j) tbl3 = Some
        (case fst ?p of None \<Rightarrow> release JobSucceeded '''' (end_clock renv) ?j
         | Some e \<Rightarrow> if retryable e then requeue_or_fail (end_clock renv + wo_retry_delay opt (attempts ?j)) (safe_error_message e) ?j
                     else release JobFailed (safe_error_message e) (end_clock renv) ?j)" (is "_ = Some ?j3")
    by blast
  have "op_over i (snd ?p) \<or> job_status ?j3 = JobQueued \<and> attempts ?j3 < max_attempts ?j3"
    using s by (auto simp: settled_def requeue_or_fail_def requeue_def)
  then show ?thesis using r by blast
qed

definition sample_round :: round_env where
  "sample_round = \<lparr>lease_fault = False, end_fault = False, lease_clock = 30, end_clock = 40\<rparr>"

definition sample_options :: worker_options where
  "sample_options = new_worker \<lparr>wc_owner = [], wc_lease_duration = 0, wc_retry_delay = None\<rparr>"

definition sample_lease :: lease where
  "sample_lease = \<lparr>leased_job = claim ''worker'' 30 (30 + 30 * second) power_job, lease_holder = ''worker'', lease_until = 30 + 30 * second\<rparr>"

lemma sample_leased:
  "lease_next False (\<le>) (wo_owner sample_options) (lease_clock sample_round) (wo_lease_duration sample_options) [power_job] =
     (Inr sample_lease, [leased_job sample_lease])"
  by (simp add: lease_next_def sample_options_def new_worker_def sample_round_def sample_lease_def due_def power_job_def
      affected_def update_where_def Let_def)

lemma sample_leased_job:
  "job_kind (leased_job sample_lease) = KindPowerOperation" "job_id (leased_job sample_lease) = ''j1''"
  "decode_string_field ''operation_id'' (payload (leased_job sample_lease)) = Some ''o1''"
  by (simp_all add: sample_lease_def claim_def power_job_def)

definition no_sync :: "string \<Rightarrow> exec_world \<Rightarrow> go_error option \<times> exec_world" where
  "no_sync i w = (None, w)"

theorem job_ends_with_its_operation_witness:
  "\<exists>tbl3 w2 j3. run_once sample_options (\<le>) sample_round (dispatch no_sync sample_exec_env) ([power_job], running_world) = (Inr (), (tbl3, w2)) \<and>
    find_by job_id ''j1'' tbl3 = Some j3 \<and> (op_over ''o1'' w2 \<or> job_status j3 = JobQueued \<and> attempts j3 < max_attempts j3)"
proof -
  have "quiet sample_exec_env" "distinct (map srv_id (xw_servers running_world))" "distinct (map job_id [power_job])"
    "lease_fault sample_round = False" "end_fault sample_round = False"
    by (simp_all add: quiet_def sample_exec_env_def running_world_def sample_round_def)
  from job_ends_with_its_operation [OF running_inv this(2,1,3) sample_leased sample_leased_job(1,3) _ running_row this(4,5)]
  show ?thesis by (simp add: sample_leased_job(2))
qed

text \<open>
  C24. A fault while the result is stored wedges the server. The provider reports the state the
  operation wants, but \<open>UpdateRemote\<close> fails, once: \<open>succeed\<close> returns the error as it is, which is
  not retryable, so the worker fails the job for good; the operation stays in progress and
  every later request for the server with a new key is refused as already active.
\<close>

theorem store_fault_leaves_operation_stuck:
  assumes d: "distinct (map job_id tbl)"
    and lease: "lease_next False le (wo_owner opt) (lease_clock renv) (wo_lease_duration opt) tbl = (Inr l, tbl1)"
    and job: "job_kind (leased_job l) = KindPowerOperation" "decode_string_field ''operation_id'' (payload (leased_job l)) = Some i" "i \<noteq> []"
    and ok: "lease_fault renv = False" "end_fault renv = False" "\<not> xe_find_fault env"
    and row: "find_by row_id i (ops_of w) = Some \<lparr>row_op = op, active_marker = True\<rparr>" "op_status op \<in> {StatusRunning, StatusVerifying}"
    and reach: "find_server (xe_server_fault env) (xe_live env) (op_server op) (xw_servers w) = Inr srv" "xe_provider env (op_connection op) = Inr p"
      "pv_validate p = None" "pv_get_server p 0 \<lparr>ref_external_id = srv_external_id srv, ref_scope = srv_scope srv\<rparr> = Inr remote"
      "action_already_satisfied (op_action op) (rs_state remote)"
    and fault: "xe_update_fault env"
    and new: "op_server op2 = op_server op" "find_by row_key (op_key op2) (ops_of w) = None"
  shows "\<exists>tbl3 w2 j3. run_once opt le renv (dispatch sync env) (tbl, w) = (Inr (), (tbl3, w2)) \<and>
    find_by job_id (job_id (leased_job l)) tbl3 = Some j3 \<and> job_status j3 = JobFailed \<and>
    find_by row_id i (ops_of w2) = Some \<lparr>row_op = op, active_marker = True\<rparr> \<and>
    create_queued False fk op2 (ops_of w2) = (Inl ErrActiveOperation, ops_of w2)"
proof -
  let ?j = "leased_job l" and ?w2 = "called GetServerCall (called ValidateCall w)\<lparr>xw_servers := xe_drift env (xw_servers w)\<rparr>"
  let ?e = "Plain (xe_driver_error env)"
  have "execute env ?j w = drive env op ?j w"
    using execute_found [OF job ok(3) row(1)] row(2) by auto
  also have "\<dots> = (Some ?e, ?w2)"
    using reach fault by (simp add: drive_def succeed_def update_remote_def)
  finally have handled: "dispatch sync env ?j (tbl1, w) = (Some ?e, (tbl1, ?w2))" by (simp add: dispatch_power [OF job(1)])
  have "\<not> retryable ?e" by (simp add: retryable_def)
  with dispatcher.round_outcome [OF d lease handled ok(1,2)] obtain tbl3 where
    r: "run_once opt le renv (dispatch sync env) (tbl, w) = (Inr (), (tbl3, ?w2))"
      "find_by job_id (job_id ?j) tbl3 = Some (release JobFailed (safe_error_message ?e) (end_clock renv) ?j)" by auto
  have "\<exists>x \<in> set (ops_of w). row_server x = op_server op2 \<and> active_marker x"
    using find_by_SomeD [OF row(1)] new(1) by (intro bexI [of _ "\<lparr>row_op = op, active_marker = True\<rparr>"]) simp_all
  then have "create_queued False fk op2 (ops_of w) = (Inl ErrActiveOperation, ops_of w)"
    using new(2) by (auto simp: create_queued_def insert_allowed_def Let_def)
  then show ?thesis using r row(1) by (auto simp: release_def)
qed

definition wedged_env :: exec_env where
  "wedged_env = sample_exec_env\<lparr>xe_provider := (\<lambda>_. Inr started_provider), xe_update_fault := True\<rparr>"

theorem store_fault_leaves_operation_stuck_witness:
  "\<exists>tbl3 w2 j3. run_once sample_options (\<le>) sample_round (dispatch no_sync wedged_env) ([power_job], running_world) = (Inr (), (tbl3, w2)) \<and>
    find_by job_id ''j1'' tbl3 = Some j3 \<and> job_status j3 = JobFailed \<and>
    find_by row_id ''o1'' (ops_of w2) = Some \<lparr>row_op = running_op, active_marker = True\<rparr> \<and>
    create_queued False (\<lambda>_. True) (sample_operation ''o2'' ''s1'' ''k2'') (ops_of w2) = (Inl ErrActiveOperation, ops_of w2)"
proof -
  have env: "\<not> xe_find_fault wedged_env" "xe_provider wedged_env (op_connection running_op) = Inr started_provider" "xe_update_fault wedged_env"
    "lease_fault sample_round = False" "end_fault sample_round = False" "distinct (map job_id [power_job])"
    by (simp_all add: wedged_env_def sample_exec_env_def sample_round_def)
  have op: "op_status running_op \<in> {StatusRunning, StatusVerifying}" "op_server (sample_operation ''o2'' ''s1'' ''k2'') = op_server running_op"
    "find_by row_key (op_key (sample_operation ''o2'' ''s1'' ''k2'')) (ops_of running_world) = None"
    by (simp_all add: running_op_def sample_operation_def running_world_def)
  have srv: "find_server (xe_server_fault wedged_env) (xe_live wedged_env) (op_server running_op) (xw_servers running_world) = Inr sample_srv"
    by (simp add: find_server_def wedged_env_def sample_exec_env_def running_world_def running_op_def sample_operation_def sample_srv_def)
  have pv: "pv_validate started_provider = None" "pv_get_server started_provider 0 ref = Inr (sample_remote StateRunning)"
    "action_already_satisfied (op_action running_op) (rs_state (sample_remote StateRunning))" for ref
    by (simp_all add: started_provider_def starting_provider_def sample_remote_def running_op_def sample_operation_def)
  show ?thesis
    using store_fault_leaves_operation_stuck [OF env(6) sample_leased sample_leased_job(1,3) _ env(4,5,1) running_row op(1) srv env(2) pv env(3) op(2,3),
      of no_sync "\<lambda>_. True"] by (simp add: sample_leased_job(2))
qed

lemma div_step: "(0 :: nat) < I \<Longrightarrow> t + I \<le> t' \<Longrightarrow> t' \<le> D \<Longrightarrow> Suc ((D - t') div I) \<le> (D - t) div I"
proof -
  assume a: "0 < I" "t + I \<le> t'" "t' \<le> D"
  have "(D - t') div I \<le> (D - t - I) div I" using a by (intro div_le_mono) simp
  moreover have "(D - t) div I = Suc ((D - t - I) div I)" using a by (intro le_div_geq) simp_all
  ultimately show ?thesis by simp
qed

lemma loop_polls:
  "snd (verify_loop env p ref a D n t) \<le>
     (if t \<le> D then n + (D - t) div max 1 (poll_interval_of (xe_config env)) + 2 else Suc n)"
proof (induction env p ref a D n t rule: verify_loop.induct)
  case (1 env p ref a D n t)
  let ?I = "max 1 (poll_interval_of (xe_config env))"
  let ?t = "t + xe_latency env n + ?I + xe_timer_delay env n"
  show ?case
  proof (cases "pv_get_server p (Suc n) ref")
    case (Inl e)
    then show ?thesis by (subst verify_loop.simps) simp
  next
    case (Inr remote)
    show ?thesis
    proof (cases "verification_target_reached a (rs_state remote) \<or> t + xe_latency env n > D \<or> xe_cancelled env n")
      case True
      then show ?thesis using Inr by (subst verify_loop.simps) auto
    next
      case False
      then have more: "verify_loop env p ref a D n t = verify_loop env p ref a D (Suc n) ?t" and le: "t \<le> D"
        using Inr by (subst verify_loop.simps, auto)
      from 1 [OF Inr] False have ih: "snd (verify_loop env p ref a D (Suc n) ?t) \<le> (if ?t \<le> D then Suc n + (D - ?t) div ?I + 2 else Suc (Suc n))"
        by simp
      show ?thesis
      proof (cases "?t \<le> D")
        case True
        have "Suc ((D - ?t) div ?I) \<le> (D - t) div ?I" using True by (intro div_step) linarith+
        then show ?thesis using more ih True le by simp
      next
        case False
        then show ?thesis using more ih le by simp
      qed
    qed
  qed
qed

text \<open>
  C38. Bounded polling. The verification asks the provider at most timeout divided by interval, plus
  two, times before it ends, whatever the provider answers and however late the timers fire;
  with the default options (two minutes, two seconds) at most 62 times.
\<close>

theorem verification_polls_bounded:
  "snd (verify_loop env p ref a (start + verification_timeout_of (xe_config env)) 0 start)
     \<le> verification_timeout_of (xe_config env) div max 1 (poll_interval_of (xe_config env)) + 2 \<and>
   verification_timeout_of \<lparr>xc_poll_interval = 0, xc_verification_timeout = 0\<rparr> div
     max 1 (poll_interval_of \<lparr>xc_poll_interval = 0, xc_verification_timeout = 0\<rparr>) + 2 = 62"
proof
  show "snd (verify_loop env p ref a (start + verification_timeout_of (xe_config env)) 0 start)
     \<le> verification_timeout_of (xe_config env) div max 1 (poll_interval_of (xe_config env)) + 2"
    using loop_polls [of env p ref a "start + verification_timeout_of (xe_config env)" 0 start] by simp
  have "(2 * 60 * second) div max 1 (2 * second) = (60 :: nat)" by (simp add: second_def)
  then show "verification_timeout_of \<lparr>xc_poll_interval = 0, xc_verification_timeout = 0\<rparr> div
     max 1 (poll_interval_of \<lparr>xc_poll_interval = 0, xc_verification_timeout = 0\<rparr>) + 2 = 62"
    by (simp add: verification_timeout_of_def poll_interval_of_def)
qed

end
