(* ===== verification/ConsolePolicy.thy ===== *)
theory ConsolePolicy imports GoTime "HOL-Library.Word" begin

text \<open>
  The network policy of consoles, \<^verbatim>\<open>internal/console/policy.go\<close>: which upstream targets may be
  stored, and which addresses are dialled when a console is opened. With it come the parts of Go's
  \<^verbatim>\<open>net\<close> and \<^verbatim>\<open>net/url\<close> that the policy calls. An IP address is the byte slice \<^verbatim>\<open>net.IP\<close>; the answers
  of the resolver and whether a dial connects are parameters.
\<close>

unbundle bit_operations_syntax

section \<open>Addresses\<close>

type_synonym ip = "8 word list"

definition v4_prefix :: ip where
  "v4_prefix = replicate 10 0 @ [255, 255]"

text \<open>\<^verbatim>\<open>To4\<close>: the four bytes of an IPv4 address in either form.\<close>

definition to4 :: "ip \<Rightarrow> ip option" where
  "to4 a = (if length a = 4 then Some a
            else if length a = 16 \<and> take 12 a = v4_prefix then Some (drop 12 a) else None)"

definition ip_equal :: "ip \<Rightarrow> ip \<Rightarrow> bool" where
  "ip_equal a b =
     (if length a = length b then a = b
      else if length a = 4 \<and> length b = 16 then take 12 b = v4_prefix \<and> a = drop 12 b
      else if length a = 16 \<and> length b = 4 then take 12 a = v4_prefix \<and> drop 12 a = b
      else False)"

definition is_unspecified :: "ip \<Rightarrow> bool" where
  "is_unspecified a \<longleftrightarrow> ip_equal a (v4_prefix @ [0, 0, 0, 0]) \<or> ip_equal a (replicate 16 0)"

definition is_loopback :: "ip \<Rightarrow> bool" where
  "is_loopback a =
     (case to4 a of Some q \<Rightarrow> q ! 0 = 127 | None \<Rightarrow> ip_equal a (replicate 15 0 @ [1]))"

definition is_private :: "ip \<Rightarrow> bool" where
  "is_private a =
     (case to4 a of
        Some q \<Rightarrow> q ! 0 = 10 \<or> (q ! 0 = 172 \<and> q ! 1 AND 0xF0 = 16) \<or> (q ! 0 = 192 \<and> q ! 1 = 168)
      | None \<Rightarrow> length a = 16 \<and> a ! 0 AND 0xFE = 0xFC)"

definition is_multicast :: "ip \<Rightarrow> bool" where
  "is_multicast a =
     (case to4 a of Some q \<Rightarrow> q ! 0 AND 0xF0 = 0xE0 | None \<Rightarrow> length a = 16 \<and> a ! 0 = 0xFF)"

definition is_link_local_multicast :: "ip \<Rightarrow> bool" where
  "is_link_local_multicast a =
     (case to4 a of
        Some q \<Rightarrow> q ! 0 = 224 \<and> q ! 1 = 0 \<and> q ! 2 = 0
      | None \<Rightarrow> length a = 16 \<and> a ! 0 = 0xFF \<and> a ! 1 AND 0x0F = 0x02)"

definition is_link_local_unicast :: "ip \<Rightarrow> bool" where
  "is_link_local_unicast a =
     (case to4 a of
        Some q \<Rightarrow> q ! 0 = 169 \<and> q ! 1 = 254
      | None \<Rightarrow> length a = 16 \<and> a ! 0 = 0xFE \<and> a ! 1 AND 0xC0 = 0x80)"

text \<open>\<^verbatim>\<open>IPNet.Contains\<close>: the network number and mask are brought to the length of the address.\<close>

record ip_net =
  net_ip :: ip
  net_mask :: "8 word list"

definition network_number_and_mask :: "ip_net \<Rightarrow> (ip \<times> 8 word list) option" where
  "network_number_and_mask n =
     (let a = (case to4 (net_ip n) of Some q \<Rightarrow> q | None \<Rightarrow> net_ip n); m = net_mask n
      in if length a \<noteq> 4 \<and> length a \<noteq> 16 then None
         else if length m = 4 then (if length a = 4 then Some (a, m) else None)
         else if length m = 16 then Some (a, if length a = 4 then drop 12 m else m)
         else None)"

definition net_contains :: "ip_net \<Rightarrow> ip \<Rightarrow> bool" where
  "net_contains n a =
     (let x = (case to4 a of Some q \<Rightarrow> q | None \<Rightarrow> a)
      in case network_number_and_mask n of
           None \<Rightarrow> x = []
         | Some (nn, m) \<Rightarrow> length x = length nn \<and> (\<forall>i < length x. nn ! i AND m ! i = x ! i AND m ! i))"

section \<open>Parsing and printing addresses\<close>

definition digit_of :: "char \<Rightarrow> nat option" where
  "digit_of c = (let n = of_char c :: nat in if 48 \<le> n \<and> n \<le> 57 then Some (n - 48) else None)"

definition hex_digit_value :: "char \<Rightarrow> nat option" where
  "hex_digit_value c =
     (let n = of_char c :: nat
      in if 48 \<le> n \<and> n \<le> 57 then Some (n - 48)
         else if 97 \<le> n \<and> n \<le> 102 then Some (n - 87)
         else if 65 \<le> n \<and> n \<le> 70 then Some (n - 55) else None)"

text \<open>One decimal field: digits, no leading zero, at most 255.\<close>

fun field_digits :: "string \<Rightarrow> nat \<Rightarrow> nat \<Rightarrow> nat option" where
  "field_digits [] len val = (if len = 0 then None else Some val)"
| "field_digits (c # s) len val =
     (case digit_of c of
        None \<Rightarrow> None
      | Some d \<Rightarrow> (if (len = 1 \<and> val = 0) \<or> 255 < val * 10 + d then None else field_digits s (Suc len) (val * 10 + d)))"

definition parse_ipv4 :: "string \<Rightarrow> ip option" where
  "parse_ipv4 s =
     (let fs = map (\<lambda>p. field_digits p 0 0) (split_on (CHR ''.'') s)
      in if length fs = 4 \<and> None \<notin> set fs then Some (map (\<lambda>f. of_nat (the f)) fs) else None)"

text \<open>
  \<^verbatim>\<open>parseIPv6\<close>: \<open>hex_field\<close> reads the hexadecimal digits of a group and gives how many there were, their
  value and the rest; \<open>v6_groups\<close> is the loop, with the bytes written, the place of the ellipsis and the
  text left. Its result is the bytes and the ellipsis once the text is used up.
\<close>

fun hex_field :: "string \<Rightarrow> nat \<Rightarrow> nat \<Rightarrow> (nat \<times> nat \<times> string) option" where
  "hex_field [] off acc = Some (off, acc, [])"
| "hex_field (c # s) off acc =
     (case hex_digit_value c of
        None \<Rightarrow> Some (off, acc, c # s)
      | Some d \<Rightarrow> (if off > 3 \<or> acc * 16 + d > 65535 then None else hex_field s (Suc off) (acc * 16 + d)))"

fun v6_groups :: "nat \<Rightarrow> ip \<Rightarrow> nat option \<Rightarrow> string \<Rightarrow> (ip \<times> nat option) option" where
  "v6_groups 0 bytes ell s = (if s = [] then Some (bytes, ell) else None)"
| "v6_groups (Suc n) bytes ell s =
     (case hex_field s 0 0 of
        None \<Rightarrow> None
      | Some (off, acc, r) \<Rightarrow>
          (if off = 0 then None
           else if r \<noteq> [] \<and> hd r = CHR ''.'' then
             (if (ell = None \<and> length bytes \<noteq> 12) \<or> length bytes > 12 then None
              else map_option (\<lambda>q. (bytes @ q, ell)) (parse_ipv4 s))
           else
             (let bytes' = bytes @ [of_nat (acc div 256), of_nat acc]
              in case r of
                   [] \<Rightarrow> Some (bytes', ell)
                 | c # r1 \<Rightarrow>
                     (if c \<noteq> CHR '':'' \<or> r1 = [] then None
                      else if hd r1 = CHR '':'' then
                        (if ell \<noteq> None then None
                         else if tl r1 = [] then Some (bytes', Some (length bytes'))
                         else v6_groups n bytes' (Some (length bytes')) (tl r1))
                      else v6_groups n bytes' ell r1))))"

definition expand_ellipsis :: "ip \<times> nat option \<Rightarrow> ip option" where
  "expand_ellipsis p =
     (case p of (bytes, ell) \<Rightarrow>
        (if length bytes < 16
         then map_option (\<lambda>e. take e bytes @ replicate (16 - length bytes) 0 @ drop e bytes) ell
         else if ell = None then Some bytes else None))"

definition parse_ipv6 :: "string \<Rightarrow> ip option" where
  "parse_ipv6 s =
     (if take 2 s = ''::'' then
        (if drop 2 s = [] then Some (replicate 16 0)
         else Option.bind (v6_groups 8 [] (Some 0) (drop 2 s)) expand_ellipsis)
      else Option.bind (v6_groups 8 [] None s) expand_ellipsis)"

text \<open>\<^verbatim>\<open>net.ParseIP\<close>: the sixteen-byte form; an address with a zone is refused.\<close>

definition parse_ip :: "string \<Rightarrow> ip option" where
  "parse_ip s =
     (case List.find (\<lambda>c. c \<in> set ''.:%'') s of
        None \<Rightarrow> None
      | Some c \<Rightarrow>
          (if c = CHR ''.'' then map_option (\<lambda>q. v4_prefix @ q) (parse_ipv4 s)
           else if c = CHR '':'' \<and> CHR ''%'' \<notin> set s then parse_ipv6 s else None))"

definition hex_char :: "nat \<Rightarrow> char" where
  "hex_char n = (if n < 10 then char_of (48 + n) else char_of (87 + n))"

fun hex_text :: "nat \<Rightarrow> string" where
  "hex_text n = (if n < 16 then [hex_char n] else hex_text (n div 16) @ [hex_char (n mod 16)])"

declare hex_text.simps [simp del]

definition group :: "ip \<Rightarrow> nat \<Rightarrow> nat" where
  "group a i = unat (a ! (2 * i)) * 256 + unat (a ! (2 * i + 1))"

definition zero_run :: "ip \<Rightarrow> nat \<Rightarrow> nat" where
  "zero_run a i = length (takeWhile (\<lambda>j. group a j = 0) [i ..< 8])"

text \<open>The first of the longest runs of at least two zero groups.\<close>

definition longest_zeros :: "ip \<Rightarrow> (nat \<times> nat) option" where
  "longest_zeros a =
     fold (\<lambda>i best. let l = zero_run a i
             in if 2 \<le> l \<and> l > (case best of None \<Rightarrow> 0 | Some (b, e) \<Rightarrow> e - b) then Some (i, i + l) else best) [0 ..< 8] None"

definition ipv6_text :: "ip \<Rightarrow> string" where
  "ipv6_text a =
     (let g = (\<lambda>is. join_with (CHR '':'') (map (\<lambda>i. hex_text (group a i)) is))
      in case longest_zeros a of
           None \<Rightarrow> g [0 ..< 8]
         | Some (b, e) \<Rightarrow> g [0 ..< b] @ ''::'' @ g [e ..< 8])"

definition ip_text :: "ip \<Rightarrow> string" where
  "ip_text a =
     (case to4 a of
        Some q \<Rightarrow> join_with (CHR ''.'') (map (\<lambda>b. digits_of (unat b)) q)
      | None \<Rightarrow>
          (if a = [] then ''<nil>''
           else if length a = 16 then ipv6_text a
           else CHR ''?'' # concat (map (\<lambda>b. [hex_char (unat b div 16), hex_char (unat b mod 16)]) a)))"

section \<open>URLs\<close>

text \<open>\<^verbatim>\<open>url.URL\<close>; \<open>u_user\<close> says whether there is user information.\<close>

record url =
  u_scheme :: string
  u_opaque :: string
  u_user :: bool
  u_host :: string
  u_path :: string
  u_raw_path :: string
  u_force_query :: bool
  u_raw_query :: string
  u_fragment :: string
  u_raw_fragment :: string

text \<open>The text before and after the last occurrence of a character.\<close>

definition split_last :: "char \<Rightarrow> string \<Rightarrow> (string \<times> string) option" where
  "split_last c s =
     (if c \<in> set s
      then Some (let after = rev (takeWhile (\<lambda>x. x \<noteq> c) (rev s)) in (take (length s - Suc (length after)) s, after))
      else None)"

definition all_digits :: "string \<Rightarrow> bool" where
  "all_digits s \<longleftrightarrow> (\<forall>c \<in> set s. digit_of c \<noteq> None)"

text \<open>\<^verbatim>\<open>splitHostPort\<close> of \<^verbatim>\<open>net/url\<close>, behind \<^verbatim>\<open>Hostname\<close> and \<^verbatim>\<open>Port\<close>.\<close>

definition url_host_port :: "string \<Rightarrow> string \<times> string" where
  "url_host_port hp =
     (let (h, p) = (case split_last (CHR '':'') hp of
                      None \<Rightarrow> (hp, [])
                    | Some (b, a) \<Rightarrow> (if all_digits a then (b, a) else (hp, [])))
      in (if h \<noteq> [] \<and> hd h = CHR ''['' \<and> last h = CHR '']'' then butlast (tl h) else h, p))"

definition hostname :: "url \<Rightarrow> string" where
  "hostname u = fst (url_host_port (u_host u))"

definition port_of :: "url \<Rightarrow> string" where
  "port_of u = snd (url_host_port (u_host u))"

text \<open>\<^verbatim>\<open>net.SplitHostPort\<close> and \<^verbatim>\<open>net.JoinHostPort\<close>.\<close>

definition split_host_port :: "string \<Rightarrow> (string \<times> string) option" where
  "split_host_port hp =
     (case split_last (CHR '':'') hp of
        None \<Rightarrow> None
      | Some (b, p) \<Rightarrow>
          (if hd hp = CHR ''['' then
             (let inside = takeWhile (\<lambda>c. c \<noteq> CHR '']'') hp
              in if CHR '']'' \<notin> set hp \<or> Suc (length inside) \<noteq> length b then None
                 else if CHR ''['' \<in> set (tl hp) \<or> CHR '']'' \<in> set (drop (Suc (length inside)) hp) then None
                 else Some (tl inside, p))
           else if CHR '':'' \<in> set b \<or> CHR ''['' \<in> set hp \<or> CHR '']'' \<in> set hp then None
           else Some (b, p)))"

definition join_host_port :: "string \<Rightarrow> string \<Rightarrow> string" where
  "join_host_port h p = (if CHR '':'' \<in> set h then ''['' @ h @ '']:'' @ p else h @ '':'' @ p)"

definition number_of :: "string \<Rightarrow> nat" where
  "number_of s = fold (\<lambda>c n. n * 10 + (case digit_of c of None \<Rightarrow> 0 | Some d \<Rightarrow> d)) s 0"

section \<open>The policy\<close>

datatype target_error = ErrTargetRejected | ErrTargetUnavailable

text \<open>
  \<open>allowed_private\<close> are the configured networks (a nil entry is \<open>None\<close>); \<open>resolve\<close> is one
  call of the resolver, \<open>None\<close> for an error. The policy of one moment: the next
  resolution of the same name may answer something else.
\<close>

record target_policy =
  allowed_private :: "ip_net option list"
  allow_mock :: bool

type_synonym resolver = "string \<Rightarrow> ip list option"

definition addressAllowed :: "target_policy \<Rightarrow> ip \<Rightarrow> bool" where
  "addressAllowed pol a =
     (if a = [] \<or> is_unspecified a \<or> is_loopback a \<or> is_link_local_unicast a \<or> is_link_local_multicast a \<or> is_multicast a
      then False
      else if \<not> is_private a then True
      else list_ex (\<lambda>n. case n of None \<Rightarrow> False | Some k \<Rightarrow> net_contains k a) (allowed_private pol))"

definition resolveAllowed :: "target_policy \<Rightarrow> resolver \<Rightarrow> string \<Rightarrow> target_error + ip list" where
  "resolveAllowed pol resolve host =
     (let addresses = (case parse_ip host of
                         Some a \<Rightarrow> [a]
                       | None \<Rightarrow> (case resolve host of None \<Rightarrow> [] | Some as \<Rightarrow> as))
      in if addresses = [] \<or> list_ex (\<lambda>a. \<not> addressAllowed pol a) addresses then Inl ErrTargetRejected
         else Inr addresses)"

definition validateURLShape :: "url \<Rightarrow> target_error + unit" where
  "validateURLShape u =
     (if go_trim (hostname u) = [] \<or> u_user u \<or> u_fragment u \<noteq> [] then Inl ErrTargetRejected else Inr ())"

definition validateRawTarget :: "url \<Rightarrow> target_error + unit" where
  "validateRawTarget u =
     (if validateURLShape u \<noteq> Inr () \<or> u_scheme u \<noteq> ''vnc+tcp'' \<or> u_path u \<noteq> [] \<or> u_raw_path u \<noteq> [] \<or>
         u_raw_query u \<noteq> [] \<or> u_force_query u \<or> u_opaque u \<noteq> [] \<or> u_raw_fragment u \<noteq> []
      then Inl ErrTargetRejected
      else (case split_host_port (u_host u) of
              None \<Rightarrow> Inl ErrTargetRejected
            | Some (h, p) \<Rightarrow>
                (if go_trim h = [] \<or> p = [] \<or> \<not> all_digits p \<or> number_of p < 1 \<or> number_of p > 65535
                 then Inl ErrTargetRejected else Inr ())))"

definition validateNetworkTarget :: "target_policy \<Rightarrow> resolver \<Rightarrow> url \<Rightarrow> target_error + unit" where
  "validateNetworkTarget pol resolve u =
     (case validateURLShape u of
        Inl e \<Rightarrow> Inl e
      | Inr _ \<Rightarrow> (case resolveAllowed pol resolve (hostname u) of Inl e \<Rightarrow> Inl e | Inr _ \<Rightarrow> Inr ()))"

definition validateEmbedded :: "target_policy \<Rightarrow> resolver \<Rightarrow> url option \<Rightarrow> target_error + unit" where
  "validateEmbedded pol resolve target =
     (case target of
        None \<Rightarrow> Inl ErrTargetRejected
      | Some u \<Rightarrow>
          (if u_scheme u = ''vnc+tcp'' then
             (case validateRawTarget u of Inl e \<Rightarrow> Inl e | Inr _ \<Rightarrow> validateNetworkTarget pol resolve u)
           else if u_scheme u = ''mock+ws'' \<and> allow_mock pol \<and> hostname u = ''console'' then validateURLShape u
           else if u_scheme u \<noteq> ''wss'' then Inl ErrTargetRejected
           else validateNetworkTarget pol resolve u))"

definition validateExternal :: "target_policy \<Rightarrow> resolver \<Rightarrow> url option \<Rightarrow> target_error + unit" where
  "validateExternal pol resolve target =
     (case target of
        None \<Rightarrow> Inl ErrTargetRejected
      | Some u \<Rightarrow> (if u_scheme u \<noteq> ''https'' then Inl ErrTargetRejected else validateNetworkTarget pol resolve u))"

section \<open>Dialling\<close>

text \<open>
  \<open>dialAllowed\<close>: \<open>connects\<close> says whether a dial of an address text succeeds and \<open>expired\<close> whether the
  ten seconds are over before the dial of that number. The result is the address connected to, with the
  texts that were dialled in order.
\<close>

fun dial_each :: "(string \<Rightarrow> bool) \<Rightarrow> (nat \<Rightarrow> bool) \<Rightarrow> string \<Rightarrow> nat \<Rightarrow> ip list \<Rightarrow> (target_error + string) \<times> string list" where
  "dial_each connects expired port n [] = (Inl ErrTargetUnavailable, [])"
| "dial_each connects expired port n (a # as) =
     (if expired n then (Inl ErrTargetUnavailable, [])
      else (let s = join_host_port (ip_text a) port
            in if connects s then (Inr s, [s])
               else (let (r, ds) = dial_each connects expired port (Suc n) as in (r, s # ds))))"

definition dialAllowed :: "target_policy \<Rightarrow> resolver \<Rightarrow> (string \<Rightarrow> bool) \<Rightarrow> (nat \<Rightarrow> bool) \<Rightarrow> string \<Rightarrow> string
    \<Rightarrow> (target_error + string) \<times> string list" where
  "dialAllowed pol resolve connects expired host port =
     (case resolveAllowed pol resolve host of
        Inl e \<Rightarrow> (Inl e, [])
      | Inr addresses \<Rightarrow> dial_each connects expired port 0 addresses)"

definition dialTCP :: "target_policy \<Rightarrow> resolver \<Rightarrow> (string \<Rightarrow> bool) \<Rightarrow> (nat \<Rightarrow> bool) \<Rightarrow> url \<Rightarrow> (target_error + string) \<times> string list" where
  "dialTCP pol resolve connects expired u =
     (case validateRawTarget u of
        Inl e \<Rightarrow> (Inl e, [])
      | Inr _ \<Rightarrow> dialAllowed pol resolve connects expired (hostname u) (port_of u))"

text \<open>\<^verbatim>\<open>strings.EqualFold\<close>, on ASCII.\<close>

definition fold_case :: "string \<Rightarrow> string" where
  "fold_case s = map (\<lambda>c. let n = of_char c :: nat in if 65 \<le> n \<and> n \<le> 90 then char_of (n + 32) else c) s"

text \<open>
  \<open>webSocketClient\<close>: what it returns is the transport's dial, here the host and port it accepts. \<open>transport_dial\<close>
  is that dial for the address the HTTP client asks for; \<open>resolve\<close> is then the answer of a later resolution.
\<close>

definition webSocketClient :: "target_policy option \<Rightarrow> resolver \<Rightarrow> url option \<Rightarrow> target_error + string \<times> string" where
  "webSocketClient policy resolve target =
     (case (policy, target) of
        (Some pol, Some u) \<Rightarrow>
          (if u_scheme u \<noteq> ''wss'' \<or> u_opaque u \<noteq> [] then Inl ErrTargetRejected
           else (case validateEmbedded pol resolve target of
                   Inl e \<Rightarrow> Inl e
                 | Inr _ \<Rightarrow>
                     (let port = (if port_of u = [] then ''443'' else port_of u)
                      in if \<not> all_digits port \<or> number_of port < 1 \<or> number_of port > 65535 \<or> digits_of (number_of port) \<noteq> port
                         then Inl ErrTargetRejected else Inr (hostname u, port))))
      | _ \<Rightarrow> Inl ErrTargetRejected)"

definition transport_dial :: "target_policy \<Rightarrow> string \<times> string \<Rightarrow> resolver \<Rightarrow> (string \<Rightarrow> bool) \<Rightarrow> (nat \<Rightarrow> bool) \<Rightarrow> string
    \<Rightarrow> (target_error + string) \<times> string list" where
  "transport_dial pol client resolve connects expired address =
     (case split_host_port address of
        None \<Rightarrow> (Inl ErrTargetRejected, [])
      | Some (h, p) \<Rightarrow>
          (if fold_case h \<noteq> fold_case (fst client) \<or> p \<noteq> snd client then (Inl ErrTargetRejected, [])
           else dialAllowed pol resolve connects expired h p))"

section \<open>What is dialled\<close>

lemma resolveAllowed_SomeD:
  assumes "resolveAllowed pol resolve host = Inr as"
  shows "as \<noteq> [] \<and> (\<forall>a \<in> set as. addressAllowed pol a) \<and>
    (case parse_ip host of Some a \<Rightarrow> as = [a] | None \<Rightarrow> resolve host = Some as)"
  using assms by (auto simp: resolveAllowed_def Let_def list_ex_iff split: if_splits option.splits)

lemma dial_each_prefix:
  "dial_each connects expired port n as = (r, ds) \<Longrightarrow>
   \<exists>k. ds = map (\<lambda>a. join_host_port (ip_text a) port) (take k as)"
proof (induction as arbitrary: n r ds)
  case (Cons a as)
  obtain r' ds' where rec: "dial_each connects expired port (Suc n) as = (r', ds')" by fastforce
  from Cons.IH [OF rec] obtain k where "ds' = map (\<lambda>a. join_host_port (ip_text a) port) (take k as)" by blast
  then have "ds = map (\<lambda>a. join_host_port (ip_text a) port) (take 0 (a # as)) \<or>
      ds = map (\<lambda>a. join_host_port (ip_text a) port) (take 1 (a # as)) \<or>
      ds = map (\<lambda>a. join_host_port (ip_text a) port) (take (Suc k) (a # as))"
    using Cons.prems rec by (auto simp: Let_def split: if_splits)
  then show ?case by blast
qed simp

lemma dial_each_result:
  "dial_each connects expired port n as = (r, ds) \<Longrightarrow>
   (case r of Inl e \<Rightarrow> e = ErrTargetUnavailable \<and> (\<forall>d \<in> set ds. \<not> connects d)
    | Inr s \<Rightarrow> ds \<noteq> [] \<and> s = last ds \<and> connects s \<and> (\<forall>d \<in> set (butlast ds). \<not> connects d))"
proof (induction as arbitrary: n r ds)
  case (Cons a as)
  obtain r' ds' where rec: "dial_each connects expired port (Suc n) as = (r', ds')" by fastforce
  from Cons.IH [OF rec] Cons.prems rec show ?case
    by (cases r') (auto simp: Let_def split: if_splits)
qed auto

text \<open>A dialled text stands for an approved answer of the resolution that preceded it.\<close>

definition approved_dial :: "target_policy \<Rightarrow> resolver \<Rightarrow> string \<Rightarrow> string \<Rightarrow> string \<Rightarrow> bool" where
  "approved_dial pol resolve host port d \<longleftrightarrow>
     (\<exists>a. d = join_host_port (ip_text a) port \<and> addressAllowed pol a \<and>
       (case parse_ip host of Some b \<Rightarrow> a = b | None \<Rightarrow> (\<exists>as. resolve host = Some as \<and> a \<in> set as \<and> (\<forall>b \<in> set as. addressAllowed pol b))))"

lemma dialAllowed_approved:
  assumes "dialAllowed pol resolve connects expired host port = (r, ds)" and "d \<in> set ds"
  shows "approved_dial pol resolve host port d"
proof -
  obtain as where as: "resolveAllowed pol resolve host = Inr as" and dial: "dial_each connects expired port 0 as = (r, ds)"
    using assms by (auto simp: dialAllowed_def split: sum.splits)
  obtain k where "ds = map (\<lambda>a. join_host_port (ip_text a) port) (take k as)" using dial_each_prefix [OF dial] by blast
  then obtain a where a: "a \<in> set as" "d = join_host_port (ip_text a) port" using assms(2) by (auto dest: in_set_takeD)
  then show ?thesis using resolveAllowed_SomeD [OF as] by (auto simp: approved_dial_def split: option.splits)
qed

lemma dialAllowed_result:
  assumes "dialAllowed pol resolve connects expired host port = (Inr s, ds)"
  shows "s \<in> set ds \<and> connects s"
proof -
  obtain as where "dial_each connects expired port 0 as = (Inr s, ds)"
    using assms by (auto simp: dialAllowed_def split: sum.splits)
  from dial_each_result [OF this] show ?thesis by auto
qed

lemma raw_port:
  assumes "validateRawTarget u = Inr ()"
  shows "1 \<le> number_of (port_of u) \<and> number_of (port_of u) \<le> 65535"
proof -
  obtain h p where p: "split_host_port (u_host u) = Some (h, p)" "all_digits p" "1 \<le> number_of p" "number_of p \<le> 65535"
    using assms by (auto simp: validateRawTarget_def not_less split: if_splits option.splits prod.splits)
  then obtain b where "split_last (CHR '':'') (u_host u) = Some (b, p)"
    by (auto simp: split_host_port_def Let_def split: option.splits if_splits)
  then have "port_of u = p" using p(2) by (simp add: port_of_def url_host_port_def)
  then show ?thesis using p by simp
qed

section \<open>Address ranges\<close>

lemma to4_four [simp]: "length q = 4 \<Longrightarrow> to4 q = Some q"
  by (simp add: to4_def)

lemma length_v4_prefix [simp]: "length v4_prefix = 12"
  by (simp add: v4_prefix_def)

lemma to4_mapped [simp]: "length q = 4 \<Longrightarrow> to4 (v4_prefix @ q) = Some q"
  by (simp add: to4_def)

lemma replicate_not_mapped: "take 12 (replicate 16 (0 :: 8 word)) \<noteq> v4_prefix"
proof
  assume "take 12 (replicate 16 (0 :: 8 word)) = v4_prefix"
  from arg_cong [OF this, where f = "\<lambda>l. l ! 10"] show False by (simp add: v4_prefix_def nth_append)
qed

lemma unspecified_v4:
  assumes "length q = 4"
  shows "is_unspecified q \<longleftrightarrow> q = [0, 0, 0, 0]" "is_unspecified (v4_prefix @ q) \<longleftrightarrow> q = [0, 0, 0, 0]"
proof -
  have "v4_prefix @ q \<noteq> replicate 16 0"
    using replicate_not_mapped by (metis append_eq_conv_conj length_v4_prefix)
  then show "is_unspecified q \<longleftrightarrow> q = [0, 0, 0, 0]" "is_unspecified (v4_prefix @ q) \<longleftrightarrow> q = [0, 0, 0, 0]"
    using assms replicate_not_mapped by (auto simp: is_unspecified_def ip_equal_def)
qed

lemma net_contains_mapped: "length q = 4 \<Longrightarrow> net_contains n (v4_prefix @ q) = net_contains n q"
  by (simp add: net_contains_def)

lemma mapped_alike:
  assumes "length q = 4"
  shows "addressAllowed pol (v4_prefix @ q) = addressAllowed pol q"
proof -
  have "q \<noteq> []" using assms by auto
  then show ?thesis
    using assms unspecified_v4 [OF assms]
    by (simp add: addressAllowed_def is_loopback_def is_private_def is_multicast_def is_link_local_multicast_def
        is_link_local_unicast_def net_contains_mapped list_ex_iff)
qed

text \<open>A range of IPv4 addresses by its first address and prefix length, over numbers.\<close>

definition quad :: "nat \<Rightarrow> nat \<Rightarrow> nat \<Rightarrow> nat \<Rightarrow> nat" where
  "quad a b c d = ((a * 256 + b) * 256 + c) * 256 + d"

definition v4_number :: "ip \<Rightarrow> nat" where
  "v4_number q = quad (unat (q ! 0)) (unat (q ! 1)) (unat (q ! 2)) (unat (q ! 3))"

definition in_range :: "ip \<times> nat \<Rightarrow> ip \<Rightarrow> bool" where
  "in_range r q \<longleftrightarrow> v4_number q div 2 ^ (32 - snd r) = v4_number (fst r) div 2 ^ (32 - snd r)"

definition forbidden_ranges :: "(ip \<times> nat) list" where
  "forbidden_ranges = [([0, 0, 0, 0], 32), ([127, 0, 0, 0], 8), ([169, 254, 0, 0], 16), ([224, 0, 0, 0], 4)]"

definition private_ranges :: "(ip \<times> nat) list" where
  "private_ranges = [([10, 0, 0, 0], 8), ([172, 16, 0, 0], 12), ([192, 168, 0, 0], 16)]"

lemma high_nibble:
  fixes b :: "8 word"
  shows "b AND 0xF0 = 16 \<longleftrightarrow> unat b div 16 = 1" "b AND 0xF0 = 0xE0 \<longleftrightarrow> unat b div 16 = 14"
proof -
  have all: "list_all (\<lambda>n. ((of_nat n :: 8 word) AND 0xF0 = 16 \<longleftrightarrow> n div 16 = 1) \<and>
      ((of_nat n :: 8 word) AND 0xF0 = 0xE0 \<longleftrightarrow> n div 16 = 14)) [0 ..< 256]"
    by code_simp
  have "unat b < 256" using unsigned_less [of b] by simp
  then have "unat b \<in> set [0 ..< 256]" by simp
  from all this have "((of_nat (unat b) :: 8 word) AND 0xF0 = 16 \<longleftrightarrow> unat b div 16 = 1) \<and>
      ((of_nat (unat b) :: 8 word) AND 0xF0 = 0xE0 \<longleftrightarrow> unat b div 16 = 14)"
    unfolding list_all_iff by (rule bspec)
  then show "b AND 0xF0 = 16 \<longleftrightarrow> unat b div 16 = 1" "b AND 0xF0 = 0xE0 \<longleftrightarrow> unat b div 16 = 14" by simp_all
qed

lemma byte_bound: "unat (b :: 8 word) < 256"
  using unsigned_less [of b] by simp

lemma byte_eq: "(b :: 8 word) = of_nat n \<longleftrightarrow> unat b = n" if "n < 256"
proof
  assume "b = of_nat n"
  then show "unat b = n" using that by (simp add: unat_of_nat take_bit_eq_mod)
qed auto

lemma quad_div:
  assumes "b < 256" "c < 256" "d < 256"
  shows "quad a b c d div 2 ^ (32 - 8) = a" "quad a b c d div 2 ^ (32 - 16) = a * 256 + b"
    "quad a b c d div 2 ^ (32 - 4) = a div 16" "quad a b c d div 2 ^ (32 - 12) = a * 16 + b div 16"
    "quad a b c d div 2 ^ (32 - 32) = ((a * 256 + b) * 256 + c) * 256 + d"
proof -
  have q: "quad a b c d = 16777216 * a + (65536 * b + (256 * c + d))" by (simp add: quad_def)
  have nib: "a = 16 * (a div 16) + a mod 16" "b = 16 * (b div 16) + b mod 16" "a mod 16 < 16" "b mod 16 < 16" by simp_all
  show "quad a b c d div 2 ^ (32 - 8) = a" by (rule div_nat_eqI) (use assms q in simp_all)
  show "quad a b c d div 2 ^ (32 - 16) = a * 256 + b" by (rule div_nat_eqI) (use assms q in simp_all)
  show "quad a b c d div 2 ^ (32 - 4) = a div 16"
    by (rule div_nat_eqI; simp add: q; use assms nib in linarith)
  show "quad a b c d div 2 ^ (32 - 12) = a * 16 + b div 16"
    by (rule div_nat_eqI; simp add: q; use assms nib in linarith)
  show "quad a b c d div 2 ^ (32 - 32) = ((a * 256 + b) * 256 + c) * 256 + d" by (simp add: quad_def)
qed

lemma pair_eq:
  fixes a b m n :: nat
  shows "b < 256 \<Longrightarrow> n < 256 \<Longrightarrow> a * 256 + b = m * 256 + n \<longleftrightarrow> a = m \<and> b = n"
    "b < 16 \<Longrightarrow> n < 16 \<Longrightarrow> a * 16 + b = m * 16 + n \<longleftrightarrow> a = m \<and> b = n"
proof -
  have "a = m \<and> b = n" if "a * k + b = m * k + n" "b < k" "n < k" for k :: nat
  proof -
    have "(x * k + y) div k = x" if "y < k" for x y :: nat using that by simp
    then have "a = m" using that by metis
    then show ?thesis using that by simp
  qed
  from this [of 256] this [of 16]
  show "b < 256 \<Longrightarrow> n < 256 \<Longrightarrow> a * 256 + b = m * 256 + n \<longleftrightarrow> a = m \<and> b = n"
    "b < 16 \<Longrightarrow> n < 16 \<Longrightarrow> a * 16 + b = m * 16 + n \<longleftrightarrow> a = m \<and> b = n" by auto
qed

lemma unat_inject: "unat x = unat y \<longleftrightarrow> x = y" for x y :: "8 word"
  using byte_eq [of "unat y" x] byte_bound [of y] by simp

lemma in_range_four:
  "in_range ([k, l, m, n], 8) [a, b, c, d] \<longleftrightarrow> unat a = unat k"
  "in_range ([k, l, m, n], 16) [a, b, c, d] \<longleftrightarrow> unat a = unat k \<and> unat b = unat l"
  "in_range ([k, l, m, n], 4) [a, b, c, d] \<longleftrightarrow> unat a div 16 = unat k div 16"
  "in_range ([k, l, m, n], 12) [a, b, c, d] \<longleftrightarrow> unat a = unat k \<and> unat b div 16 = unat l div 16"
  "in_range ([k, l, m, n], 32) [a, b, c, d] \<longleftrightarrow> [a, b, c, d] = [k, l, m, n]"
proof -
  have nib: "unat x div 16 < 16" for x :: "8 word" using byte_bound [of x] by linarith
  have num: "v4_number [a, b, c, d] = quad (unat a) (unat b) (unat c) (unat d)" for a b c d
    by (simp add: v4_number_def)
  note div = quad_div [OF byte_bound byte_bound byte_bound]
  show "in_range ([k, l, m, n], 8) [a, b, c, d] \<longleftrightarrow> unat a = unat k"
    unfolding in_range_def num snd_conv fst_conv div by (rule refl)
  show "in_range ([k, l, m, n], 16) [a, b, c, d] \<longleftrightarrow> unat a = unat k \<and> unat b = unat l"
    unfolding in_range_def num snd_conv fst_conv div by (rule pair_eq(1) [OF byte_bound byte_bound])
  show "in_range ([k, l, m, n], 4) [a, b, c, d] \<longleftrightarrow> unat a div 16 = unat k div 16"
    unfolding in_range_def num snd_conv fst_conv div by (rule refl)
  show "in_range ([k, l, m, n], 12) [a, b, c, d] \<longleftrightarrow> unat a = unat k \<and> unat b div 16 = unat l div 16"
    unfolding in_range_def num snd_conv fst_conv div by (rule pair_eq(2) [OF nib nib])
  have "in_range ([k, l, m, n], 32) [a, b, c, d] \<longleftrightarrow> ((unat a = unat k \<and> unat b = unat l) \<and> unat c = unat m) \<and> unat d = unat n"
    unfolding in_range_def num snd_conv fst_conv div pair_eq(1) [OF byte_bound byte_bound] by (rule refl)
  then show "in_range ([k, l, m, n], 32) [a, b, c, d] \<longleftrightarrow> [a, b, c, d] = [k, l, m, n]" by (simp add: unat_inject)
qed

lemma four_bytes: "length (q :: ip) = 4 \<Longrightarrow> \<exists>a b c d. q = [a, b, c, d]"
  by (auto simp: length_Suc_conv numeral_eq_Suc)

lemma forbidden_iff:
  assumes "length q = 4"
  shows "list_ex (\<lambda>r. in_range r q) forbidden_ranges \<longleftrightarrow>
    is_unspecified q \<or> is_loopback q \<or> is_link_local_unicast q \<or> is_multicast q"
proof -
  obtain a b c d where q: "q = [a, b, c, d]" using four_bytes [OF assms] by blast
  have eqs: "a = 127 \<longleftrightarrow> unat a = 127" "a = 169 \<longleftrightarrow> unat a = 169" "b = 254 \<longleftrightarrow> unat b = 254"
    using byte_eq [of 127 a] byte_eq [of 169 a] byte_eq [of 254 b] by simp_all
  show ?thesis
    using unspecified_v4(1) [OF assms] assms unfolding q
    by (simp add: eqs forbidden_ranges_def in_range_four is_loopback_def is_link_local_unicast_def is_multicast_def high_nibble)
qed

lemma private_iff:
  assumes "length q = 4"
  shows "is_private q \<longleftrightarrow> list_ex (\<lambda>r. in_range r q) private_ranges"
proof -
  obtain a b c d where q: "q = [a, b, c, d]" using four_bytes [OF assms] by blast
  have eqs: "a = 10 \<longleftrightarrow> unat a = 10" "a = 172 \<longleftrightarrow> unat a = 172" "a = 192 \<longleftrightarrow> unat a = 192" "b = 168 \<longleftrightarrow> unat b = 168"
    using byte_eq [of 10 a] byte_eq [of 172 a] byte_eq [of 192 a] byte_eq [of 168 b] by simp_all
  show ?thesis
    unfolding q by (simp add: eqs private_ranges_def in_range_four is_private_def high_nibble)
qed

section \<open>Properties\<close>

text \<open>
  C35. The address policy says what it means to. For an IPv4 address, given in four bytes or mapped into
  IPv6, the policy allows exactly the addresses that lie in none of 0.0.0.0/32, 127.0.0.0/8,
  169.254.0.0/16 (link local, with the metadata services of clouds) and 224.0.0.0/4, which no
  configuration can open, and, if they lie in 10.0.0.0/8, 172.16.0.0/12 or 192.168.0.0/16, lie in a
  configured network as well.
\<close>

theorem ipv4_policy_matches_ranges:
  assumes "length q = 4" and "a = q \<or> a = v4_prefix @ q"
  shows "addressAllowed pol a \<longleftrightarrow>
    \<not> list_ex (\<lambda>r. in_range r q) forbidden_ranges \<and>
    (list_ex (\<lambda>r. in_range r q) private_ranges \<longrightarrow> list_ex (\<lambda>n. case n of None \<Rightarrow> False | Some k \<Rightarrow> net_contains k q) (allowed_private pol))"
proof -
  have link: "is_link_local_multicast q \<Longrightarrow> is_multicast q"
    using assms(1) by (simp add: is_link_local_multicast_def is_multicast_def)
  have "addressAllowed pol a = addressAllowed pol q" using assms mapped_alike by auto
  moreover have "q \<noteq> []" using assms(1) by auto
  ultimately show ?thesis
    using link forbidden_iff [OF assms(1)] private_iff [OF assms(1)] by (auto simp: addressAllowed_def)
qed

lemma all_below_four: "(\<forall>i < 4. P i) \<longleftrightarrow> P 0 \<and> P 1 \<and> P 2 \<and> P (3 :: nat)"
  by (auto simp: less_Suc_eq numeral_eq_Suc)

definition private_policy :: target_policy where
  "private_policy = \<lparr>allowed_private = [Some \<lparr>net_ip = [10, 20, 40, 0], net_mask = [255, 255, 255, 0]\<rparr>], allow_mock = False\<rparr>"

theorem ipv4_policy_matches_ranges_witness:
  "addressAllowed private_policy (v4_prefix @ [10, 20, 40, 7]) \<and> \<not> addressAllowed private_policy (v4_prefix @ [10, 20, 41, 7]) \<and>
   \<not> addressAllowed private_policy (v4_prefix @ [169, 254, 169, 254])"
  using ipv4_policy_matches_ranges [of "[10, 20, 40, 7]" "v4_prefix @ [10, 20, 40, 7]" private_policy]
    ipv4_policy_matches_ranges [of "[10, 20, 41, 7]" "v4_prefix @ [10, 20, 41, 7]" private_policy]
    ipv4_policy_matches_ranges [of "[169, 254, 169, 254]" "v4_prefix @ [169, 254, 169, 254]" private_policy]
  by (simp add: forbidden_ranges_def private_ranges_def in_range_four private_policy_def net_contains_def
      network_number_and_mask_def all_below_four All_less_Suc)

end
