(* ===== verification/ConsoleSessions.thy ===== *)
theory ConsoleSessions imports ConsolePolicy OpService begin

text \<open>
  Embedded consoles on the server: \<^verbatim>\<open>internal/console\<close> without the policy (theory ConsolePolicy). The
  sessions table and the target store, the service that creates a session with its one-time ticket, the
  links to external pages, the HTTP answers, and the WebSocket gateway that redeems a ticket. Requests
  run concurrently: a statement or a call of the target store is one step of one request, and a
  schedule is any interleaving of the steps of any number of requests.
\<close>

section \<open>Data\<close>

datatype console_result = ResultPending | ResultActive | ResultCompleted | ResultFailed | ResultExpired

fun console_result_text :: "console_result \<Rightarrow> string" where
  "console_result_text ResultPending = ''pending''"
| "console_result_text ResultActive = ''active''"
| "console_result_text ResultCompleted = ''completed''"
| "console_result_text ResultFailed = ''failed''"
| "console_result_text ResultExpired = ''expired''"

record console_session =
  cs_id :: string
  cs_server :: string
  cs_mode :: string
  cs_hash :: string
  cs_expires :: time
  cs_opened :: "time option"
  cs_closed :: "time option"
  cs_result :: console_result
  cs_created :: time

type_synonym console_table = "console_session list"
type_synonym target_store = "(string \<times> url) list"

section \<open>The sessions table\<close>

datatype session_error = ErrTicketUnavailable | ErrSessionNotFound | ErrSessionDatabase

text \<open>The id is the primary key and the hash is unique; \<open>fault\<close> includes a missing server.\<close>

definition create_console_session :: "bool \<Rightarrow> console_session \<Rightarrow> console_table \<Rightarrow> (session_error + unit) \<times> console_table" where
  "create_console_session fault s tbl =
     (if fault \<or> find_by cs_id (cs_id s) tbl \<noteq> None \<or> find_by cs_hash (cs_hash s) tbl \<noteq> None then (Inl ErrSessionDatabase, tbl)
      else (Inr (), tbl @ [s]))"

text \<open>
  \<open>ConsumeTicket\<close> reads the row, then updates it under conditions of its own; another transaction may
  commit in between. \<open>le\<close> is the order of stored times, the first comparison is Go's.
\<close>

definition read_ticket :: "bool \<Rightarrow> string \<Rightarrow> time \<Rightarrow> console_table \<Rightarrow> session_error + console_session" where
  "read_ticket fault h opened tbl =
     (case (if fault then None else find_by cs_hash h tbl) of
        None \<Rightarrow> Inl ErrTicketUnavailable
      | Some s \<Rightarrow> (if cs_opened s \<noteq> None \<or> cs_closed s \<noteq> None \<or> \<not> opened < cs_expires s then Inl ErrTicketUnavailable else Inr s))"

definition redeemable :: "(time \<Rightarrow> time \<Rightarrow> bool) \<Rightarrow> string \<Rightarrow> time \<Rightarrow> console_session \<Rightarrow> bool" where
  "redeemable le i opened r \<longleftrightarrow> cs_id r = i \<and> cs_opened r = None \<and> cs_closed r = None \<and> \<not> le (cs_expires r) opened"

definition mark_opened :: "time \<Rightarrow> console_session \<Rightarrow> console_session" where
  "mark_opened opened r = r\<lparr>cs_opened := Some opened, cs_result := ResultActive\<rparr>"

definition redeem_ticket :: "(time \<Rightarrow> time \<Rightarrow> bool) \<Rightarrow> bool \<Rightarrow> console_session \<Rightarrow> time \<Rightarrow> console_table
    \<Rightarrow> (session_error + console_session) \<times> console_table" where
  "redeem_ticket le fault s opened tbl =
     (if fault then (Inl ErrSessionDatabase, tbl)
      else if affected (redeemable le (cs_id s) opened) tbl \<noteq> 1 then (Inl ErrTicketUnavailable, tbl)
      else (Inr (mark_opened opened s), update_where (redeemable le (cs_id s) opened) (mark_opened opened) tbl))"

definition close_console_session :: "bool \<Rightarrow> string \<Rightarrow> console_result \<Rightarrow> time \<Rightarrow> console_table \<Rightarrow> (session_error + unit) \<times> console_table" where
  "close_console_session fault i res at tbl =
     (let P = (\<lambda>r. cs_id r = i \<and> cs_closed r = None)
      in if fault then (Inl ErrSessionDatabase, tbl)
         else (if affected P tbl \<noteq> 1 then Inl ErrSessionNotFound else Inr (),
               update_where P (\<lambda>r. r\<lparr>cs_closed := Some at, cs_result := res\<rparr>) tbl))"

section \<open>The target store\<close>

definition put_target :: "string \<Rightarrow> url \<Rightarrow> target_store \<Rightarrow> target_store" where
  "put_target i u store = put_key i u store"

definition take_target :: "string \<Rightarrow> target_store \<Rightarrow> url option \<times> target_store" where
  "take_target i store = (map_of store i, delete_key i store)"

definition delete_target :: "string \<Rightarrow> target_store \<Rightarrow> target_store" where
  "delete_target i store = delete_key i store"

section \<open>The service\<close>

record console_world =
  cw_sessions :: console_table
  cw_targets :: target_store
  cw_audit :: audit_log

datatype console_error = ErrConsoleCapability | ErrConsoleTarget target_error
  | ErrConsoleInventory inventory_error | ErrConsoleOther

record console_target =
  ct_protocol :: string
  ct_url :: "url option"
  ct_password :: string

text \<open>
  What a request gets from its surroundings: the inventory, the provider of a connection (looked up,
  decrypted and created; its type) with its answers (for the connection, the external id and the scope of a
  server, and the mode), the resolver, the generators, the clock and the
  faults of the driver. \<open>sha\<close> is \<^verbatim>\<open>sha256.Sum256\<close>.
\<close>

record console_env =
  ce_inventory_fault :: bool
  ce_live :: "string \<Rightarrow> bool"
  ce_servers :: server_table
  ce_provider :: "string \<Rightarrow> console_error + string"
  ce_open_console :: "string \<Rightarrow> string \<Rightarrow> string \<Rightarrow> string \<Rightarrow> console_error + console_target"
  ce_portal_url :: "string \<Rightarrow> string \<Rightarrow> string \<Rightarrow> console_error + url option"
  ce_policy :: target_policy
  ce_resolve :: resolver
  ce_now :: time
  ce_ttl :: time
  ce_ticket :: string
  ce_id :: string
  ce_sha :: "string \<Rightarrow> string"
  ce_create_fault :: bool
  ce_audit_fault :: bool
  ce_audit_id :: string
  ce_audit_now :: time
  ce_close_fault :: bool
  ce_request_id :: string
  ce_source_ip :: string

definition server_capabilities :: "console_env \<Rightarrow> string \<Rightarrow> console_error + server \<times> capabilities" where
  "server_capabilities env i =
     (case find_server (ce_inventory_fault env) (ce_live env) i (ce_servers env) of
        Inl e \<Rightarrow> Inl (ErrConsoleInventory e)
      | Inr srv \<Rightarrow> (case decode_capabilities (srv_capabilities srv) of None \<Rightarrow> Inl ErrConsoleOther | Some c \<Rightarrow> Inr (srv, c)))"

definition console_options :: "console_env \<Rightarrow> string \<Rightarrow> console_error + capability \<times> capability \<times> capability" where
  "console_options env i =
     (case server_capabilities env i of
        Inl e \<Rightarrow> Inl e
      | Inr (_, c) \<Rightarrow> Inr (can_embed_console c, can_open_console_window c, has_provider_portal c))"

text \<open>The audit entry of the service; its target is the session or the server.\<close>

definition console_audit_entry :: "console_env \<Rightarrow> string \<Rightarrow> string \<Rightarrow> string \<Rightarrow> audit_entry" where
  "console_audit_entry env target type mode =
     \<lparr>ae_id = ce_audit_id env, ae_event_type = type, ae_target_type = ''console'', ae_target = target,
      ae_request_id = ce_request_id env, ae_source_ip = ce_source_ip env,
      ae_metadata = JObj [(''mode'', JStr mode)], ae_created = ce_audit_now env\<rparr>"

text \<open>The part of \<open>CreateEmbedded\<close> before the session is stored: the session and the target to store.\<close>

definition new_console_session :: "console_env \<Rightarrow> server \<Rightarrow> console_session" where
  "new_console_session env srv =
     \<lparr>cs_id = ce_id env, cs_server = srv_id srv, cs_mode = ''embedded'', cs_hash = ce_sha env (ce_ticket env),
      cs_expires = ce_now env + ce_ttl env, cs_opened = None, cs_closed = None, cs_result = ResultPending, cs_created = ce_now env\<rparr>"

definition prepare_embedded :: "console_env \<Rightarrow> string \<Rightarrow> console_error + console_session \<times> url \<times> console_target" where
  "prepare_embedded env i =
     (case server_capabilities env i of
        Inl e \<Rightarrow> Inl e
      | Inr (srv, c) \<Rightarrow>
          (if \<not> cap_available (can_embed_console c) then Inl ErrConsoleCapability
           else (case ce_provider env (srv_connection srv) of
                   Inl e \<Rightarrow> Inl e
                 | Inr type \<Rightarrow>
                     (case ce_open_console env (srv_connection srv) (srv_external_id srv) (srv_scope srv) ''embedded'' of
                        Inl e \<Rightarrow> Inl e
                      | Inr target \<Rightarrow>
                          (case ct_url target of
                             None \<Rightarrow> Inl (ErrConsoleTarget ErrTargetUnavailable)
                           | Some u \<Rightarrow>
                               (if u_scheme u = ''vnc+tcp'' \<and> type \<noteq> ''virtualizor'' then Inl (ErrConsoleTarget ErrTargetRejected)
                                else (case validateEmbedded (ce_policy env) (ce_resolve env) (Some u) of
                                        Inl e \<Rightarrow> Inl (ErrConsoleTarget e)
                                      | Inr _ \<Rightarrow> Inr (new_console_session env srv, u, target))))))))"

record session_ticket =
  st_session_id :: string
  st_ticket :: string
  st_expires :: time
  st_protocol :: string
  st_password :: "string option"

definition ticket_of :: "console_env \<Rightarrow> console_session \<Rightarrow> console_target \<Rightarrow> session_ticket" where
  "ticket_of env s target =
     (let protocol = (if ct_protocol target = [] then ''terminal'' else ct_protocol target)
      in \<lparr>st_session_id = cs_id s, st_ticket = ce_ticket env, st_expires = cs_expires s, st_protocol = protocol,
          st_password = (if protocol = ''rfb'' \<and> ct_password target \<noteq> [] then Some (ct_password target) else None)\<rparr>)"

definition createEmbedded :: "console_env \<Rightarrow> string \<Rightarrow> console_world \<Rightarrow> (console_error + session_ticket) \<times> console_world" where
  "createEmbedded env i w =
     (case prepare_embedded env i of
        Inl e \<Rightarrow> (Inl e, w)
      | Inr (s, u, target) \<Rightarrow>
          (case create_console_session (ce_create_fault env) s (cw_sessions w) of
             (Inl _, _) \<Rightarrow> (Inl ErrConsoleOther, w)
           | (Inr _, tbl) \<Rightarrow>
               (let w1 = w\<lparr>cw_sessions := tbl, cw_targets := put_target (cs_id s) u (cw_targets w)\<rparr>;
                    (ok, log) = append_audit_entry (ce_audit_fault env)
                      (console_audit_entry env (cs_id s) ''console_session_created'' ''embedded'') (cw_audit w1)
                in if \<not> ok then
                     (Inl ErrConsoleOther,
                      w1\<lparr>cw_targets := delete_target (cs_id s) (cw_targets w1),
                         cw_sessions := snd (close_console_session (ce_close_fault env) (cs_id s) ResultFailed (ce_now env) tbl)\<rparr>)
                   else (Inr (ticket_of env s target), w1\<lparr>cw_audit := log\<rparr>))))"

text \<open>The pages of the mock provider; the host of the URL has no port.\<close>

definition trustedMockPage :: "string \<Rightarrow> url \<Rightarrow> string option" where
  "trustedMockPage type u =
     (if type \<noteq> ''mock'' \<or> u_scheme u \<noteq> ''mock+page'' \<or> u_user u \<or> u_fragment u \<noteq> [] \<or> u_raw_query u \<noteq> [] \<or>
         (u_path u \<noteq> [] \<and> u_path u \<noteq> ''/'') \<or> port_of u \<noteq> [] then None
      else if hostname u = ''console'' then Some ''/api/v1/mock-pages/console''
      else if hostname u = ''portal'' then Some ''/api/v1/mock-pages/portal''
      else None)"

text \<open>A link that is handed out: a path of this site or the URL itself.\<close>

datatype external_target = MockPage string | ExternalURL url

definition hand_out :: "console_env \<Rightarrow> string \<Rightarrow> string \<Rightarrow> string \<Rightarrow> external_target \<Rightarrow> console_world
    \<Rightarrow> (console_error + external_target) \<times> console_world" where
  "hand_out env target type mode link w =
     (let (ok, log) = append_audit_entry (ce_audit_fault env) (console_audit_entry env target type mode) (cw_audit w)
      in if ok then (Inr link, w\<lparr>cw_audit := log\<rparr>) else (Inl ErrConsoleOther, w))"

definition external_link :: "console_env \<Rightarrow> string \<Rightarrow> server \<Rightarrow> string \<Rightarrow> string \<Rightarrow> url option \<Rightarrow> console_world
    \<Rightarrow> (console_error + external_target) \<times> console_world" where
  "external_link env ptype srv type mode target w =
     (case target of
        None \<Rightarrow> (Inl (ErrConsoleTarget ErrTargetUnavailable), w)
      | Some u \<Rightarrow>
          (case trustedMockPage ptype u of
             Some path \<Rightarrow> hand_out env (srv_id srv) type mode (MockPage path) w
           | None \<Rightarrow>
               (case validateExternal (ce_policy env) (ce_resolve env) (Some u) of
                  Inl e \<Rightarrow> (Inl (ErrConsoleTarget e), w)
                | Inr _ \<Rightarrow> hand_out env (srv_id srv) type mode (ExternalURL u) w)))"

definition openWindow :: "console_env \<Rightarrow> string \<Rightarrow> console_world \<Rightarrow> (console_error + external_target) \<times> console_world" where
  "openWindow env i w =
     (case server_capabilities env i of
        Inl e \<Rightarrow> (Inl e, w)
      | Inr (srv, c) \<Rightarrow>
          (if \<not> cap_available (can_open_console_window c) then (Inl ErrConsoleCapability, w)
           else (case ce_provider env (srv_connection srv) of
                   Inl e \<Rightarrow> (Inl e, w)
                 | Inr type \<Rightarrow>
                     (case ce_open_console env (srv_connection srv) (srv_external_id srv) (srv_scope srv) ''window'' of
                        Inl e \<Rightarrow> (Inl e, w)
                      | Inr target \<Rightarrow> external_link env type srv ''console_window_opened'' ''window'' (ct_url target) w))))"

definition providerPortal :: "console_env \<Rightarrow> string \<Rightarrow> console_world \<Rightarrow> (console_error + external_target) \<times> console_world" where
  "providerPortal env i w =
     (case server_capabilities env i of
        Inl e \<Rightarrow> (Inl e, w)
      | Inr (srv, c) \<Rightarrow>
          (if \<not> cap_available (has_provider_portal c) then (Inl ErrConsoleCapability, w)
           else (case ce_provider env (srv_connection srv) of
                   Inl e \<Rightarrow> (Inl e, w)
                 | Inr type \<Rightarrow>
                     (case ce_portal_url env (srv_connection srv) (srv_external_id srv) (srv_scope srv) of
                        Inl e \<Rightarrow> (Inl e, w)
                      | Inr target \<Rightarrow> external_link env type srv ''provider_portal_opened'' ''portal'' target w))))"

section \<open>HTTP answers\<close>

text \<open>\<open>writeConsoleError\<close>; \<open>i\<close> is the generated id of the error.\<close>

fun write_console_error :: "string \<Rightarrow> console_error \<Rightarrow> http_response" where
  "write_console_error i (ErrConsoleInventory ErrServerNotFound) = write_error i 404 ''server_not_found'' ''Server was not found''"
| "write_console_error i ErrConsoleCapability = write_error i 409 ''capability_unavailable'' ''Console option is unavailable''"
| "write_console_error i (ErrConsoleTarget ErrTargetRejected) =
     write_error i 502 ''console_target_rejected'' ''Console target was rejected by security policy''"
| "write_console_error i (ErrConsoleTarget ErrTargetUnavailable) =
     write_error i 502 ''console_target_unavailable'' ''Console target is unavailable''"
| "write_console_error i _ = write_error i 500 ''internal_error'' ''Unable to open console''"

definition session_ticket_json :: "session_ticket \<Rightarrow> json" where
  "session_ticket_json t =
     JObj ([(''session_id'', JStr (st_session_id t)), (''ticket'', JStr (st_ticket t)),
            (''expires_at'', time_json (st_expires t)), (''protocol'', JStr (st_protocol t))] @
           (case st_password t of None \<Rightarrow> [] | Some p \<Rightarrow> [(''credentials'', JObj [(''password'', JStr p)])]))"

definition create_session_route :: "string \<Rightarrow> console_env \<Rightarrow> string \<Rightarrow> console_world \<Rightarrow> http_response \<times> console_world" where
  "create_session_route error_id env i w =
     (case createEmbedded env i w of
        (Inl e, w') \<Rightarrow> (write_console_error error_id e, w')
      | (Inr t, w') \<Rightarrow> (\<lparr>hr_status = 201, hr_body = JObj [(''session'', session_ticket_json t)]\<rparr>, w'))"

section \<open>The gateway\<close>

text \<open>
  The outcome of proxying: what was dialled, in order, and whether a connection was made. The target is
  checked again: for a WebSocket when the client is made, and at the dial itself with a fresh
  resolution; \<open>address\<close> is what the HTTP client asks the transport to dial.
\<close>

record proxy_env =
  pe_policy :: "target_policy option"
  pe_resolve :: resolver
  pe_dial_resolve :: resolver
  pe_connects :: "string \<Rightarrow> bool"
  pe_expired :: "nat \<Rightarrow> bool"
  pe_address :: string

datatype upstream = NoUpstream | MockConsole | DialledUpstream string

definition proxy_upstream :: "proxy_env \<Rightarrow> url \<Rightarrow> upstream \<times> string list" where
  "proxy_upstream env u =
     (let connected = (\<lambda>(r, ds). (case r of Inl _ \<Rightarrow> NoUpstream | Inr s \<Rightarrow> DialledUpstream s, ds))
      in if u_scheme u = ''vnc+tcp'' then
           (case pe_policy env of
              None \<Rightarrow> (NoUpstream, [])
            | Some pol \<Rightarrow> connected (dialTCP pol (pe_dial_resolve env) (pe_connects env) (pe_expired env) u))
         else if u_scheme u = ''mock+ws'' then (MockConsole, [])
         else (case (webSocketClient (pe_policy env) (pe_resolve env) (Some u), pe_policy env) of
                 (Inr client, Some pol) \<Rightarrow>
                   connected (transport_dial pol client (pe_dial_resolve env) (pe_connects env) (pe_expired env) (pe_address env))
               | _ \<Rightarrow> (NoUpstream, [])))"

text \<open>
  A request of the service or of the gateway and how far it is. \<open>Opening\<close> requests have presented a
  ticket; a creating request starts when the target was validated.
\<close>

datatype console_request =
    CreateChecked console_env console_session url
  | CreateStored console_env console_session url
  | CreatePut console_env console_session url
  | CreateUndo console_env console_session url
  | CreateClose console_env console_session url
  | CreateDone bool console_env console_session url
  | OpenArrived string time
  | OpenRead string time console_session
  | OpenRedeemed string time console_session
  | OpenNoTarget console_session
  | OpenAttached string time console_session url
  | OpenProxying string time console_session url proxy_env
  | OpenProxied string time console_session url console_result
  | OpenClosed string time console_session url console_result
  | OpenAnswered nat

text \<open>What a step meets: the fault of its statement, the clock, whether the socket was accepted, the surroundings of the
  proxy and how it ends, and the generated id of an audit entry.\<close>

record console_choice =
  ch_fault :: bool
  ch_audit_fault :: bool
  ch_now :: time
  ch_accepted :: bool
  ch_proxy :: proxy_env
  ch_result :: console_result
  ch_audit_id :: string

definition closed_audit_entry :: "console_choice \<Rightarrow> console_session \<Rightarrow> console_result \<Rightarrow> time \<Rightarrow> audit_entry" where
  "closed_audit_entry ch s res opened =
     \<lparr>ae_id = ch_audit_id ch, ae_event_type = ''console_session_closed'', ae_target_type = ''console'', ae_target = cs_id s,
      ae_request_id = [], ae_source_ip = [],
      ae_metadata = JObj [(''duration_seconds'', JNum (if opened \<le> ch_now ch then int ((ch_now ch - opened) div second) else - int ((opened - ch_now ch) div second))), (''mode'', JStr (cs_mode s)),
        (''result'', JStr (console_result_text res))], ae_created = ch_now ch\<rparr>"

fun request_step :: "(time \<Rightarrow> time \<Rightarrow> bool) \<Rightarrow> console_choice \<Rightarrow> console_request \<Rightarrow> console_world \<Rightarrow> console_request \<times> console_world" where
  "request_step le ch (CreateChecked env s u) w =
     (case create_console_session (ch_fault ch) s (cw_sessions w) of
        (Inl _, _) \<Rightarrow> (OpenAnswered 500, w)
      | (Inr _, tbl) \<Rightarrow> (CreateStored env s u, w\<lparr>cw_sessions := tbl\<rparr>))"
| "request_step le ch (CreateStored env s u) w =
     (CreatePut env s u, w\<lparr>cw_targets := put_target (cs_id s) u (cw_targets w)\<rparr>)"
| "request_step le ch (CreatePut env s u) w =
     (let (ok, log) = append_audit_entry (ch_fault ch) (console_audit_entry env (cs_id s) ''console_session_created'' ''embedded'') (cw_audit w)
      in if ok then (CreateDone True env s u, w\<lparr>cw_audit := log\<rparr>) else (CreateUndo env s u, w))"
| "request_step le ch (CreateUndo env s u) w =
     (CreateClose env s u, w\<lparr>cw_targets := delete_target (cs_id s) (cw_targets w)\<rparr>)"
| "request_step le ch (CreateClose env s u) w =
     (CreateDone False env s u, w\<lparr>cw_sessions := snd (close_console_session (ch_fault ch) (cs_id s) ResultFailed (ce_now env) (cw_sessions w))\<rparr>)"
| "request_step le ch (OpenArrived h opened) w =
     (case read_ticket (ch_fault ch) h opened (cw_sessions w) of
        Inl _ \<Rightarrow> (OpenAnswered 401, w)
      | Inr s \<Rightarrow> (OpenRead h opened s, w))"
| "request_step le ch (OpenRead h opened s) w =
     (case redeem_ticket le (ch_fault ch) s opened (cw_sessions w) of
        (Inl _, _) \<Rightarrow> (OpenAnswered 401, w)
      | (Inr s', tbl) \<Rightarrow> (OpenRedeemed h opened s', w\<lparr>cw_sessions := tbl\<rparr>))"
| "request_step le ch (OpenRedeemed h opened s) w =
     (case take_target (cs_id s) (cw_targets w) of
        (None, targets) \<Rightarrow> (OpenNoTarget s, w\<lparr>cw_targets := targets\<rparr>)
      | (Some u, targets) \<Rightarrow> (OpenAttached h opened s u, w\<lparr>cw_targets := targets\<rparr>))"
| "request_step le ch (OpenNoTarget s) w =
     (OpenAnswered 410, w\<lparr>cw_sessions := snd (close_console_session (ch_fault ch) (cs_id s) ResultFailed (ch_now ch) (cw_sessions w))\<rparr>)"
| "request_step le ch (OpenAttached h opened s u) w =
     (if ch_accepted ch then (OpenProxying h opened s u (ch_proxy ch), w)
      else (OpenClosed h opened s u ResultFailed,
            w\<lparr>cw_sessions := snd (close_console_session (ch_fault ch) (cs_id s) ResultFailed (ch_now ch) (cw_sessions w))\<rparr>))"
| "request_step le ch (OpenProxying h opened s u env) w =
     (OpenProxied h opened s u
        (case fst (proxy_upstream env u) of NoUpstream \<Rightarrow> ResultFailed | _ \<Rightarrow> ch_result ch), w)"
| "request_step le ch (OpenProxied h opened s u res) w =
     (OpenClosed h opened s u res,
      w\<lparr>cw_sessions := snd (close_console_session (ch_fault ch) (cs_id s) res (ch_now ch) (cw_sessions w)),
        cw_audit := snd (append_audit_entry (ch_audit_fault ch) (closed_audit_entry ch s res opened) (cw_audit w))\<rparr>)"
| "request_step le ch r w = (r, w)"

text \<open>
  The system: requests arrive, and the request of any number takes its next step. A creating request that
  the policy refuses answers at once.
\<close>

datatype console_event = ArriveCreate console_env string | ArriveOpen string time | Advance nat console_choice

record gateway_system =
  sys_world :: console_world
  sys_requests :: "console_request list"

fun system_step :: "(time \<Rightarrow> time \<Rightarrow> bool) \<Rightarrow> (string \<Rightarrow> string) \<Rightarrow> console_event \<Rightarrow> gateway_system \<Rightarrow> gateway_system" where
  "system_step le sha (ArriveCreate env i) y =
     y\<lparr>sys_requests := sys_requests y @
        [(case prepare_embedded env i of Inl e \<Rightarrow> OpenAnswered (hr_status (write_console_error [] e)) | Inr (s, u, _) \<Rightarrow> CreateChecked env s u)]\<rparr>"
| "system_step le sha (ArriveOpen ticket opened) y = y\<lparr>sys_requests := sys_requests y @ [OpenArrived (sha ticket) opened]\<rparr>"
| "system_step le sha (Advance n ch) y =
     (if n < length (sys_requests y) then
        (let (r, w) = request_step le ch (sys_requests y ! n) (sys_world y)
         in \<lparr>sys_world = w, sys_requests = (sys_requests y)[n := r]\<rparr>)
      else y)"

definition empty_system :: gateway_system where
  "empty_system = \<lparr>sys_world = \<lparr>cw_sessions = [], cw_targets = [], cw_audit = []\<rparr>, sys_requests = []\<rparr>"

definition run_system :: "(time \<Rightarrow> time \<Rightarrow> bool) \<Rightarrow> (string \<Rightarrow> string) \<Rightarrow> console_event list \<Rightarrow> gateway_system" where
  "run_system le sha es = fold (system_step le sha) es empty_system"

section \<open>Views of a request\<close>

fun prepared_by :: "console_request \<Rightarrow> (console_env \<times> console_session \<times> url) option" where
  "prepared_by (CreateChecked env s u) = Some (env, s, u)"
| "prepared_by (CreateStored env s u) = Some (env, s, u)"
| "prepared_by (CreatePut env s u) = Some (env, s, u)"
| "prepared_by (CreateUndo env s u) = Some (env, s, u)"
| "prepared_by (CreateClose env s u) = Some (env, s, u)"
| "prepared_by (CreateDone b env s u) = Some (env, s, u)"
| "prepared_by _ = None"

fun stored_by :: "console_request \<Rightarrow> console_session option" where
  "stored_by (CreateStored env s u) = Some s"
| "stored_by (CreatePut env s u) = Some s"
| "stored_by (CreateUndo env s u) = Some s"
| "stored_by (CreateClose env s u) = Some s"
| "stored_by (CreateDone b env s u) = Some s"
| "stored_by _ = None"

fun put_by :: "console_request \<Rightarrow> (console_env \<times> console_session \<times> url) option" where
  "put_by (CreatePut env s u) = Some (env, s, u)"
| "put_by (CreateUndo env s u) = Some (env, s, u)"
| "put_by (CreateClose env s u) = Some (env, s, u)"
| "put_by (CreateDone b env s u) = Some (env, s, u)"
| "put_by _ = None"

fun presented_by :: "console_request \<Rightarrow> (string \<times> time \<times> console_session) option" where
  "presented_by (OpenRead h t s) = Some (h, t, s)"
| "presented_by (OpenRedeemed h t s) = Some (h, t, s)"
| "presented_by (OpenAttached h t s u) = Some (h, t, s)"
| "presented_by (OpenProxying h t s u env) = Some (h, t, s)"
| "presented_by (OpenProxied h t s u res) = Some (h, t, s)"
| "presented_by (OpenClosed h t s u res) = Some (h, t, s)"
| "presented_by _ = None"

fun opened_by :: "console_request \<Rightarrow> console_session option" where
  "opened_by (OpenRedeemed h t s) = Some s"
| "opened_by (OpenNoTarget s) = Some s"
| "opened_by (OpenAttached h t s u) = Some s"
| "opened_by (OpenProxying h t s u env) = Some s"
| "opened_by (OpenProxied h t s u res) = Some s"
| "opened_by (OpenClosed h t s u res) = Some s"
| "opened_by _ = None"

text \<open>A request that has taken its target, also after its console has closed.\<close>

fun attached_by :: "console_request \<Rightarrow> (string \<times> time \<times> console_session \<times> url) option" where
  "attached_by (OpenAttached h t s u) = Some (h, t, s, u)"
| "attached_by (OpenProxying h t s u env) = Some (h, t, s, u)"
| "attached_by (OpenProxied h t s u res) = Some (h, t, s, u)"
| "attached_by (OpenClosed h t s u res) = Some (h, t, s, u)"
| "attached_by _ = None"

section \<open>Rows only advance\<close>

definition table_ok :: "console_table \<Rightarrow> bool" where
  "table_ok tbl \<longleftrightarrow> distinct (map cs_id tbl) \<and> distinct (map cs_hash tbl)"

definition same_row :: "console_session \<Rightarrow> console_session \<Rightarrow> bool" where
  "same_row r r' \<longleftrightarrow> cs_id r' = cs_id r \<and> cs_server r' = cs_server r \<and> cs_hash r' = cs_hash r \<and> cs_expires r' = cs_expires r \<and>
     (cs_opened r \<noteq> None \<longrightarrow> cs_opened r' = cs_opened r) \<and> (cs_closed r \<noteq> None \<longrightarrow> cs_closed r' = cs_closed r)"

definition rows_advance :: "console_table \<Rightarrow> console_table \<Rightarrow> bool" where
  "rows_advance tbl tbl' \<longleftrightarrow> (\<forall>r \<in> set tbl. \<exists>r' \<in> set tbl'. same_row r r')"

lemma same_row_refl [simp]: "same_row r r"
  by (simp add: same_row_def)

lemma rows_advanceI:
  "(\<And>r. r \<in> set tbl \<Longrightarrow> g r \<in> set tbl' \<and> same_row r (g r)) \<Longrightarrow> rows_advance tbl tbl'"
  unfolding rows_advance_def by blast

lemma rows_advance_subset: "set tbl \<subseteq> set tbl' \<Longrightarrow> rows_advance tbl tbl'"
  by (rule rows_advanceI [where g = id]) auto

lemma rows_advance_refl [simp]: "rows_advance tbl tbl"
  by (rule rows_advance_subset) simp

lemma update_advances:
  assumes "\<And>r. P r \<Longrightarrow> same_row r (f r)"
  shows "rows_advance tbl (update_where P f tbl)" and "table_ok tbl \<Longrightarrow> table_ok (update_where P f tbl)"
proof -
  show "rows_advance tbl (update_where P f tbl)"
    by (rule rows_advanceI [where g = "\<lambda>r. if P r then f r else r"]) (use assms in \<open>auto simp: set_update_where\<close>)
  have "\<And>r. P r \<Longrightarrow> cs_id (f r) = cs_id r" "\<And>r. P r \<Longrightarrow> cs_hash (f r) = cs_hash r"
    using assms by (auto simp: same_row_def)
  then show "table_ok tbl \<Longrightarrow> table_ok (update_where P f tbl)"
    by (simp add: table_ok_def map_update_where [where P = P and f = f])
qed

lemma create_advances:
  assumes "create_console_session fault s tbl = (res, tbl')"
  shows "rows_advance tbl tbl'" and "table_ok tbl \<Longrightarrow> table_ok tbl'"
proof -
  have tbl: "tbl' = tbl \<or> tbl' = tbl @ [s] \<and> find_by cs_id (cs_id s) tbl = None \<and> find_by cs_hash (cs_hash s) tbl = None"
    using assms by (auto simp: create_console_session_def split: if_splits)
  then show "rows_advance tbl tbl'" by (auto intro: rows_advance_subset)
  show "table_ok tbl \<Longrightarrow> table_ok tbl'" using tbl by (auto simp: table_ok_def find_by_None)
qed

lemma redeem_advances:
  assumes "redeem_ticket le fault s opened tbl = (res, tbl')"
  shows "rows_advance tbl tbl'" and "table_ok tbl \<Longrightarrow> table_ok tbl'"
proof -
  have "tbl' = tbl \<or> tbl' = update_where (redeemable le (cs_id s) opened) (mark_opened opened) tbl"
    using assms by (auto simp: redeem_ticket_def split: if_splits)
  moreover have "redeemable le (cs_id s) opened r \<Longrightarrow> same_row r (mark_opened opened r)" for r
    by (simp add: redeemable_def same_row_def mark_opened_def)
  ultimately show "rows_advance tbl tbl'" "table_ok tbl \<Longrightarrow> table_ok tbl'"
    using update_advances [where P = "redeemable le (cs_id s) opened" and f = "mark_opened opened"] by auto
qed

lemma close_advances:
  "rows_advance tbl (snd (close_console_session fault i res at tbl))"
  "table_ok tbl \<Longrightarrow> table_ok (snd (close_console_session fault i res at tbl))"
  using update_advances [where P = "\<lambda>r. cs_id r = i \<and> cs_closed r = None" and f = "\<lambda>r. r\<lparr>cs_closed := Some at, cs_result := res\<rparr>"]
  by (auto simp: close_console_session_def Let_def same_row_def)

lemma step_advances:
  assumes "request_step le ch r w = (r', w')"
  shows "rows_advance (cw_sessions w) (cw_sessions w')" and "table_ok (cw_sessions w) \<Longrightarrow> table_ok (cw_sessions w')"
  using assms create_advances redeem_advances close_advances
  by (cases r; fastforce simp: take_target_def Let_def split: prod.splits sum.splits option.splits if_splits)+

section \<open>The invariant of a schedule\<close>

text \<open>\<open>P\<close> is the set of targets that were put into the store so far.\<close>

definition was_prepared :: "console_env \<Rightarrow> console_session \<Rightarrow> url \<Rightarrow> bool" where
  "was_prepared env s u \<longleftrightarrow> (\<exists>i target. prepare_embedded env i = Inr (s, u, target))"

definition stored_row :: "console_table \<Rightarrow> console_session \<Rightarrow> bool" where
  "stored_row tbl s \<longleftrightarrow> (\<exists>row \<in> set tbl. same_row s row)"

definition ticket_row :: "console_table \<Rightarrow> string \<Rightarrow> time \<Rightarrow> console_session \<Rightarrow> bool" where
  "ticket_row tbl h t s \<longleftrightarrow>
     (\<exists>row \<in> set tbl. cs_id row = cs_id s \<and> cs_server row = cs_server s \<and> cs_hash row = h \<and> t < cs_expires row)"

definition opened_row :: "console_table \<Rightarrow> string \<Rightarrow> bool" where
  "opened_row tbl i \<longleftrightarrow> (\<exists>row \<in> set tbl. cs_id row = i \<and> cs_opened row \<noteq> None)"

definition put_for :: "(console_env \<times> console_session \<times> url) set \<Rightarrow> string \<Rightarrow> url \<Rightarrow> bool" where
  "put_for P i u \<longleftrightarrow> (\<exists>env c. (env, c, u) \<in> P \<and> cs_id c = i)"

definition request_ok :: "console_table \<Rightarrow> (console_env \<times> console_session \<times> url) set \<Rightarrow> console_request \<Rightarrow> bool" where
  "request_ok tbl P r \<longleftrightarrow>
     (\<forall>env s u. prepared_by r = Some (env, s, u) \<longrightarrow> was_prepared env s u) \<and>
     (\<forall>s. stored_by r = Some s \<longrightarrow> stored_row tbl s) \<and>
     (\<forall>h t s. presented_by r = Some (h, t, s) \<longrightarrow> ticket_row tbl h t s) \<and>
     (\<forall>s. opened_by r = Some s \<longrightarrow> opened_row tbl (cs_id s)) \<and>
     (\<forall>h t s u. attached_by r = Some (h, t, s, u) \<longrightarrow> put_for P (cs_id s) u)"

definition targets_ok :: "(console_env \<times> console_session \<times> url) set \<Rightarrow> target_store \<Rightarrow> bool" where
  "targets_ok P store \<longleftrightarrow> (\<forall>i u. map_of store i = Some u \<longrightarrow> put_for P i u)"

lemma rows_mono:
  assumes "rows_advance tbl tbl'"
  shows "stored_row tbl s \<Longrightarrow> stored_row tbl' s" "ticket_row tbl h t s \<Longrightarrow> ticket_row tbl' h t s"
    "opened_row tbl i \<Longrightarrow> opened_row tbl' i"
proof -
  have trans: "same_row s row \<Longrightarrow> same_row row row' \<Longrightarrow> same_row s row'" for s row row'
    by (auto simp: same_row_def)
  have adv: "\<exists>row' \<in> set tbl'. same_row row row'" if "row \<in> set tbl" for row
    using assms that by (auto simp: rows_advance_def)
  show "stored_row tbl s \<Longrightarrow> stored_row tbl' s" using adv trans unfolding stored_row_def by blast
  show "ticket_row tbl h t s \<Longrightarrow> ticket_row tbl' h t s" using adv unfolding ticket_row_def by (metis same_row_def)
  show "opened_row tbl i \<Longrightarrow> opened_row tbl' i" using adv unfolding opened_row_def by (metis same_row_def)
qed

lemma put_for_mono: "P \<subseteq> P' \<Longrightarrow> put_for P i u \<Longrightarrow> put_for P' i u"
  unfolding put_for_def by blast

lemma request_ok_mono:
  "request_ok tbl P r \<Longrightarrow> rows_advance tbl tbl' \<Longrightarrow> P \<subseteq> P' \<Longrightarrow> request_ok tbl' P' r"
  unfolding request_ok_def by (blast intro: rows_mono put_for_mono)

lemma mark_opened_id [simp]: "cs_id (mark_opened t s) = cs_id s" "cs_server (mark_opened t s) = cs_server s"
  by (simp_all add: mark_opened_def)

lemma read_ticketD:
  "read_ticket fault h t tbl = Inr s \<Longrightarrow> s \<in> set tbl \<and> cs_hash s = h \<and> cs_opened s = None \<and> t < cs_expires s"
  by (auto simp: read_ticket_def dest: find_by_SomeD split: option.splits if_splits)

lemma create_storedD:
  "create_console_session fault s tbl = (Inr x, tbl') \<Longrightarrow> find_by cs_id (cs_id s) tbl = None \<and> tbl' = tbl @ [s]"
  by (auto simp: create_console_session_def split: if_splits)

lemma redeem_openedD:
  assumes "redeem_ticket le fault s t tbl = (Inr s', tbl')"
  shows "\<exists>row \<in> set tbl. cs_id row = cs_id s \<and> cs_opened row = None \<and> mark_opened t row \<in> set tbl'"
    and "s' = mark_opened t s"
proof -
  have one: "affected (redeemable le (cs_id s) t) tbl = 1" and tbl': "tbl' = update_where (redeemable le (cs_id s) t) (mark_opened t) tbl"
    and s': "s' = mark_opened t s"
    using assms by (auto simp: redeem_ticket_def split: if_splits)
  from one obtain row where "row \<in> set tbl" "redeemable le (cs_id s) t row"
    unfolding affected_def by (metis One_nat_def filter_False length_0_conv list.size(3) zero_neq_one)
  then show "\<exists>row \<in> set tbl. cs_id row = cs_id s \<and> cs_opened row = None \<and> mark_opened t row \<in> set tbl'"
    unfolding tbl' set_update_where by (auto simp: redeemable_def intro!: bexI [of _ row] image_eqI [where x = row])
  show "s' = mark_opened t s" by (rule s')
qed

lemma put_grows: "request_step le ch r w = (r', w') \<Longrightarrow> set_option (put_by r) \<subseteq> set_option (put_by r')"
  by (cases r) (auto split: prod.splits sum.splits option.splits if_splits simp: Let_def)

lemma targets_step:
  assumes "request_step le ch r w = (r', w')" and "targets_ok P (cw_targets w)" and "P \<union> set_option (put_by r') \<subseteq> P'"
  shows "targets_ok P' (cw_targets w')"
proof -
  have "P \<subseteq> P'" using assms(3) by blast
  then have mono: "targets_ok P' (cw_targets w)" using assms(2) put_for_mono unfolding targets_ok_def by blast
  consider (same) "cw_targets w' = cw_targets w"
    | (put) env s u where "cw_targets w' = put_key (cs_id s) u (cw_targets w)" "put_by r' = Some (env, s, u)"
    | (del) i where "cw_targets w' = delete_key i (cw_targets w)"
    using assms(1) by (cases r)
      (auto simp: take_target_def put_target_def delete_target_def Let_def split: prod.splits sum.splits option.splits if_splits)
  then show ?thesis
  proof cases
    case put
    then have "put_for P' (cs_id s) u" using assms(3) unfolding put_for_def by auto
    then show ?thesis using put mono by (auto simp: targets_ok_def map_of_put_key)
  next
    case del
    then show ?thesis using mono by (auto simp: targets_ok_def map_of_delete_key split: if_splits)
  qed (use mono in simp)
qed

lemma request_ok_step:
  assumes "request_step le ch r w = (r', w')" and "request_ok (cw_sessions w) P r" and "targets_ok P (cw_targets w)"
    and "P \<union> set_option (put_by r') \<subseteq> P'"
  shows "request_ok (cw_sessions w') P' r'"
proof -
  have P: "P \<subseteq> P'" using assms(4) by blast
  have old: "request_ok (cw_sessions w') P' r"
    by (rule request_ok_mono [OF assms(2) step_advances(1) [OF assms(1)] P])
  show ?thesis
  proof (cases r)
    case (CreateChecked env s u)
    have "stored_row (tbl @ [s]) s" for tbl by (simp add: stored_row_def)
    then show ?thesis using assms(1) old CreateChecked
      by (auto simp: request_ok_def dest!: create_storedD split: prod.splits sum.splits)
  next
    case (OpenArrived h t)
    have "ticket_row (cw_sessions w) h t s" if "read_ticket (ch_fault ch) h t (cw_sessions w) = Inr s" for s
      using read_ticketD [OF that] by (auto simp: ticket_row_def)
    then show ?thesis using assms(1) OpenArrived by (auto simp: request_ok_def split: sum.splits)
  next
    case (OpenRead h t s)
    have row: "opened_row tbl (cs_id s) \<and> s' = mark_opened t s"
      if "redeem_ticket le (ch_fault ch) s t (cw_sessions w) = (Inr s', tbl)" for s' tbl
    proof -
      from redeem_openedD [OF that] obtain row where "s' = mark_opened t s" "cs_id row = cs_id s" "mark_opened t row \<in> set tbl"
        by blast
      then show ?thesis unfolding opened_row_def by (auto simp: mark_opened_def intro!: bexI [of _ "mark_opened t row"])
    qed
    have "ticket_row tbl h t (mark_opened t s) = ticket_row tbl h t s" for tbl by (simp add: ticket_row_def)
    with row show ?thesis using assms(1) old OpenRead by (auto simp: request_ok_def split: prod.splits sum.splits)
  next
    case (OpenRedeemed h t s)
    have "put_for P' (cs_id s) u" if "map_of (cw_targets w) (cs_id s) = Some u" for u
      using assms(3) put_for_mono [OF P] that unfolding targets_ok_def by blast
    then show ?thesis using assms(1) OpenRedeemed old
      by (auto simp: request_ok_def take_target_def split: option.splits)
  qed (use assms(1) old in \<open>auto simp: request_ok_def Let_def split: prod.splits if_splits\<close>)
qed

section \<open>Two requests\<close>

definition pairwise_distinct :: "('r \<Rightarrow> string option) \<Rightarrow> 'r list \<Rightarrow> bool" where
  "pairwise_distinct g rs \<longleftrightarrow>
     (\<forall>k l i. k < length rs \<longrightarrow> l < length rs \<longrightarrow> k \<noteq> l \<longrightarrow> g (rs ! k) = Some i \<longrightarrow> g (rs ! l) \<noteq> Some i)"

lemma pairwiseD: "pairwise_distinct g rs \<Longrightarrow> k < length rs \<Longrightarrow> l < length rs \<Longrightarrow> k \<noteq> l \<Longrightarrow> g (rs ! k) = Some i \<Longrightarrow> g (rs ! l) \<noteq> Some i"
  unfolding pairwise_distinct_def by blast

lemma pairwise_append:
  assumes "pairwise_distinct g rs" and "g r = None"
  shows "pairwise_distinct g (rs @ [r])"
  unfolding pairwise_distinct_def
proof (intro allI impI)
  fix k l i
  assume kl: "k < length (rs @ [r])" "l < length (rs @ [r])" "k \<noteq> l" "g ((rs @ [r]) ! k) = Some i"
  have k: "k < length rs \<and> g (rs ! k) = Some i"
    using kl(1,4) assms(2) by (cases "k < length rs") (auto simp: nth_append less_Suc_eq)
  show "g ((rs @ [r]) ! l) \<noteq> Some i"
  proof (cases "l < length rs")
    case True
    have "g (rs ! l) \<noteq> Some i" by (rule pairwiseD [OF assms(1) _ True kl(3)]) (use k in simp_all)
    then show ?thesis using True by (simp add: nth_append)
  next
    case False
    then show ?thesis using kl(2) assms(2) by (simp add: nth_append)
  qed
qed

lemma pairwise_update:
  assumes "pairwise_distinct g rs" and "n < length rs"
    and "g r = None \<or> g r = g (rs ! n) \<or> (\<forall>l < length rs. l \<noteq> n \<longrightarrow> g (rs ! l) \<noteq> g r)"
  shows "pairwise_distinct g (rs[n := r])"
  unfolding pairwise_distinct_def
proof (intro allI impI)
  fix k l i
  assume kl: "k < length (rs[n := r])" "l < length (rs[n := r])" "k \<noteq> l" "g (rs[n := r] ! k) = Some i"
  have other: "g (rs ! m) \<noteq> Some j" if "g r = Some j" "m < length rs" "m \<noteq> n" for m j
  proof (cases "g r = g (rs ! n)")
    case True
    then show ?thesis using pairwiseD [OF assms(1,2) that(2), of j] that by auto
  next
    case False
    then show ?thesis using assms(3) that by auto
  qed
  consider "k = n" | "l = n" "k \<noteq> n" | "k \<noteq> n" "l \<noteq> n" by blast
  then show "g (rs[n := r] ! l) \<noteq> Some i"
  proof cases
    case 1
    then show ?thesis using other [of i l] kl assms(2) by simp
  next
    case 2
    then show ?thesis using other [of i k] kl assms(2) by auto
  next
    case 3
    then show ?thesis using pairwiseD [OF assms(1), of k l i] kl by simp
  qed
qed

definition stored_id :: "console_request \<Rightarrow> string option" where
  "stored_id r = map_option cs_id (stored_by r)"

definition opened_id :: "console_request \<Rightarrow> string option" where
  "opened_id r = map_option cs_id (opened_by r)"

lemma stored_id_step:
  assumes "request_step le ch r w = (r', w')"
  shows "stored_id r' = None \<or> stored_id r' = stored_id r \<or>
    (\<exists>i. stored_id r' = Some i \<and> find_by cs_id i (cw_sessions w) = None)"
  using assms
  by (cases r) (auto simp: stored_id_def Let_def dest!: create_storedD split: prod.splits sum.splits option.splits if_splits)

lemma opened_id_step:
  assumes "request_step le ch r w = (r', w')"
  shows "opened_id r' = None \<or> opened_id r' = opened_id r \<or>
    (\<exists>row \<in> set (cw_sessions w). opened_id r' = Some (cs_id row) \<and> cs_opened row = None)"
proof (cases r)
  case (OpenRead h t s)
  show ?thesis
  proof (cases "redeem_ticket le (ch_fault ch) s t (cw_sessions w)")
    case (Pair res tbl)
    then show ?thesis
    proof (cases res)
      case (Inr s')
      from redeem_openedD [OF Pair [unfolded Inr]] obtain row where
        "row \<in> set (cw_sessions w)" "cs_id row = cs_id s" "cs_opened row = None" "s' = mark_opened t s" by blast
      moreover have "r' = OpenRedeemed h t s'" using assms OpenRead Pair Inr by auto
      ultimately show ?thesis by (auto simp: opened_id_def mark_opened_def intro!: bexI [of _ row])
    qed (use assms OpenRead Pair in \<open>auto simp: opened_id_def\<close>)
  qed
qed (use assms in \<open>auto simp: opened_id_def Let_def split: prod.splits sum.splits option.splits if_splits\<close>)

section \<open>Every schedule\<close>

definition put_targets :: "gateway_system \<Rightarrow> (console_env \<times> console_session \<times> url) set" where
  "put_targets y = (\<Union>r \<in> set (sys_requests y). set_option (put_by r))"

definition system_ok :: "gateway_system \<Rightarrow> bool" where
  "system_ok y \<longleftrightarrow>
     table_ok (cw_sessions (sys_world y)) \<and>
     (\<forall>r \<in> set (sys_requests y). request_ok (cw_sessions (sys_world y)) (put_targets y) r) \<and>
     targets_ok (put_targets y) (cw_targets (sys_world y)) \<and>
     pairwise_distinct stored_id (sys_requests y) \<and> pairwise_distinct opened_id (sys_requests y)"

lemma put_targets_update:
  assumes "n < length rs" and "set_option (put_by (rs ! n)) \<subseteq> set_option (put_by r)"
  shows "(\<Union>r \<in> set rs. set_option (put_by r)) \<union> set_option (put_by r) \<subseteq> (\<Union>r \<in> set (rs[n := r]). set_option (put_by r))"
proof -
  have "\<exists>x' \<in> set (rs[n := r]). set_option (put_by x) \<subseteq> set_option (put_by x')" if x: "x \<in> set rs" for x
  proof -
    obtain k where k: "k < length rs" "x = rs ! k" using x by (auto simp: in_set_conv_nth)
    show ?thesis
    proof (cases "k = n")
      case True
      then show ?thesis using assms k by (auto intro!: bexI [of _ r] set_update_memI)
    next
      case False
      then have "rs[n := r] ! k = x" using k by simp
      then show ?thesis using k by (metis nth_mem length_list_update order_refl)
    qed
  qed
  moreover have "r \<in> set (rs[n := r])" using assms(1) by (rule set_update_memI)
  ultimately show ?thesis by blast
qed

lemma system_ok_start: "system_ok empty_system"
  by (simp add: system_ok_def empty_system_def table_ok_def put_targets_def targets_ok_def pairwise_distinct_def)

lemma system_ok_arrive:
  assumes "system_ok y" and "put_by r = None" and "stored_id r = None" and "opened_id r = None"
    and "request_ok (cw_sessions (sys_world y)) (put_targets y) r"
  shows "system_ok (y\<lparr>sys_requests := sys_requests y @ [r]\<rparr>)"
  using assms by (auto simp: system_ok_def put_targets_def intro: pairwise_append)

lemma system_ok_advance:
  assumes "system_ok y" and n: "n < length (sys_requests y)"
    and step: "request_step le ch (sys_requests y ! n) (sys_world y) = (r, w)"
  shows "system_ok \<lparr>sys_world = w, sys_requests = (sys_requests y)[n := r]\<rparr>"
proof -
  let ?rs = "sys_requests y" and ?tbl = "cw_sessions (sys_world y)"
  let ?y = "\<lparr>sys_world = w, sys_requests = ?rs[n := r]\<rparr>"
  have ok: "table_ok ?tbl" "\<And>k. k < length ?rs \<Longrightarrow> request_ok ?tbl (put_targets y) (?rs ! k)"
      "targets_ok (put_targets y) (cw_targets (sys_world y))" "pairwise_distinct stored_id ?rs" "pairwise_distinct opened_id ?rs"
    using assms(1) by (auto simp: system_ok_def)
  have P: "put_targets y \<union> set_option (put_by r) \<subseteq> put_targets ?y"
    unfolding put_targets_def using put_targets_update [OF n put_grows [OF step]] by simp
  have reqs: "request_ok (cw_sessions w) (put_targets ?y) x" if "x \<in> set (?rs[n := r])" for x
  proof -
    have "x = r \<or> x \<in> set ?rs" using that set_update_subset_insert [of ?rs n r] by blast
    then show ?thesis
    proof
      assume "x = r"
      then show ?thesis using request_ok_step [OF step ok(2) [OF n] ok(3) P] by simp
    next
      assume "x \<in> set ?rs"
      then have "request_ok ?tbl (put_targets y) x" using ok(2) by (metis in_set_conv_nth)
      then show ?thesis using request_ok_mono [OF _ step_advances(1) [OF step]] P by blast
    qed
  qed
  have stored: "\<forall>l < length ?rs. l \<noteq> n \<longrightarrow> stored_id (?rs ! l) \<noteq> Some i" if "find_by cs_id i ?tbl = None" for i
  proof (intro allI impI notI)
    fix l assume l: "l < length ?rs" "stored_id (?rs ! l) = Some i"
    then obtain s where "stored_by (?rs ! l) = Some s" "cs_id s = i" by (auto simp: stored_id_def)
    then obtain row where "row \<in> set ?tbl" "cs_id row = i"
      using ok(2) [OF l(1)] by (auto simp: request_ok_def stored_row_def same_row_def)
    then show False using that by (auto simp: find_by_None)
  qed
  have opened: "\<forall>l < length ?rs. l \<noteq> n \<longrightarrow> opened_id (?rs ! l) \<noteq> Some (cs_id row)"
    if "row \<in> set ?tbl" "cs_opened row = None" for row
  proof (intro allI impI notI)
    fix l assume l: "l < length ?rs" "opened_id (?rs ! l) = Some (cs_id row)"
    then obtain s where "opened_by (?rs ! l) = Some s" "cs_id s = cs_id row" by (auto simp: opened_id_def)
    then obtain row' where "row' \<in> set ?tbl" "cs_id row' = cs_id row" "cs_opened row' \<noteq> None"
      using ok(2) [OF l(1)] by (auto simp: request_ok_def opened_row_def)
    then show False using that ok(1) by (metis distinct_map inj_onD table_ok_def)
  qed
  have "pairwise_distinct stored_id (?rs[n := r])"
    by (rule pairwise_update [OF ok(4) n]) (use stored_id_step [OF step] stored in auto)
  moreover have "pairwise_distinct opened_id (?rs[n := r])"
    by (rule pairwise_update [OF ok(5) n]) (use opened_id_step [OF step] opened in auto)
  ultimately show ?thesis
    using step_advances(2) [OF step ok(1)] reqs targets_step [OF step ok(3) P] by (simp add: system_ok_def)
qed

lemma system_ok_step: "system_ok y \<Longrightarrow> system_ok (system_step le sha e y)"
proof (cases e)
  case (ArriveCreate env i)
  assume "system_ok y"
  then show ?thesis unfolding ArriveCreate system_step.simps
    by (rule system_ok_arrive)
      (auto simp: stored_id_def opened_id_def request_ok_def was_prepared_def split: sum.splits)
next
  case (ArriveOpen ticket t)
  assume "system_ok y"
  then show ?thesis unfolding ArriveOpen system_step.simps
    by (rule system_ok_arrive) (simp_all add: stored_id_def opened_id_def request_ok_def)
next
  case (Advance n ch)
  assume "system_ok y"
  then show ?thesis using system_ok_advance [of y n le ch] by (auto simp: Advance split: prod.splits)
qed

lemma run_system_ok: "system_ok (run_system le sha es)"
proof -
  have "system_ok y \<Longrightarrow> system_ok (fold (system_step le sha) es y)" for y
    by (induction es arbitrary: y) (simp_all add: system_ok_step)
  then show ?thesis by (simp add: run_system_def system_ok_start)
qed

section \<open>What was prepared and what is dialled\<close>

text \<open>
  \<open>u\<close> is what the connection of the session's own server answered for this server: the server was found
  in the inventory by the id the session carries, and raw VNC comes from a Virtualizor connection only.
\<close>

definition opened_for :: "console_env \<Rightarrow> console_session \<Rightarrow> url \<Rightarrow> bool" where
  "opened_for env s u \<longleftrightarrow>
     (\<exists>srv type target. find_server (ce_inventory_fault env) (ce_live env) (cs_server s) (ce_servers env) = Inr srv \<and>
        srv_id srv = cs_server s \<and> ce_provider env (srv_connection srv) = Inr type \<and>
        ce_open_console env (srv_connection srv) (srv_external_id srv) (srv_scope srv) ''embedded'' = Inr target \<and>
        ct_url target = Some u \<and> (u_scheme u = ''vnc+tcp'' \<longrightarrow> type = ''virtualizor''))"

lemma prepare_embeddedD:
  assumes "prepare_embedded env i = Inr (s, u, target)"
  shows "validateEmbedded (ce_policy env) (ce_resolve env) (Some u) = Inr ()" and "ct_url target = Some u"
    and "cs_id s = ce_id env" "cs_hash s = ce_sha env (ce_ticket env)" "cs_expires s = ce_now env + ce_ttl env"
    and "cs_opened s = None" "cs_closed s = None"
    and "opened_for env s u"
proof -
  obtain srv c type where *: "server_capabilities env i = Inr (srv, c)" "ce_provider env (srv_connection srv) = Inr type"
      "ce_open_console env (srv_connection srv) (srv_external_id srv) (srv_scope srv) ''embedded'' = Inr target" "ct_url target = Some u" "u_scheme u = ''vnc+tcp'' \<longrightarrow> type = ''virtualizor''"
      "validateEmbedded (ce_policy env) (ce_resolve env) (Some u) = Inr ()" "s = new_console_session env srv"
    using assms by (auto simp: prepare_embedded_def split: sum.splits prod.splits if_splits option.splits)
  show "validateEmbedded (ce_policy env) (ce_resolve env) (Some u) = Inr ()" "ct_url target = Some u"
    "cs_id s = ce_id env" "cs_hash s = ce_sha env (ce_ticket env)" "cs_expires s = ce_now env + ce_ttl env"
    "cs_opened s = None" "cs_closed s = None"
    using * by (simp_all add: new_console_session_def)
  have found: "find_server (ce_inventory_fault env) (ce_live env) i (ce_servers env) = Inr srv"
    using *(1) by (auto simp: server_capabilities_def split: sum.splits option.splits)
  then have "srv_id srv = i" by (auto simp: find_server_def find_Some_iff split: option.splits if_splits)
  with found * show "opened_for env s u"
    unfolding opened_for_def by (intro exI [of _ srv] exI [of _ type] exI [of _ target]) (simp add: new_console_session_def)
qed

lemma put_by_prepared: "put_by r = Some p \<Longrightarrow> prepared_by r = Some p \<and> stored_by r = Some (fst (snd p))"
  by (cases r) auto

lemma attached_presented: "attached_by r = Some (h, t, s, u) \<Longrightarrow> presented_by r = Some (h, t, s) \<and> opened_by r = Some s"
  by (cases r) auto

lemma attached_step: "attached_by r = Some x \<Longrightarrow> attached_by (fst (request_step le ch r w)) = Some x"
  by (cases r) (auto split: prod.splits)

lemma attached_for_good:
  assumes "k < length (sys_requests y)" and "attached_by (sys_requests y ! k) = Some x"
  shows "attached_by (sys_requests (fold (system_step le sha) es y) ! k) = Some x"
  using assms
proof (induction es arbitrary: y)
  case (Cons e es)
  have "k < length (sys_requests (system_step le sha e y)) \<and> attached_by (sys_requests (system_step le sha e y) ! k) = Some x"
  proof (cases e)
    case (Advance n ch)
    then show ?thesis using Cons.prems attached_step [OF Cons.prems(2), of le ch "sys_world y"]
      by (cases "n = k") (auto split: prod.splits)
  qed (use Cons.prems in \<open>simp_all add: nth_append\<close>)
  then show ?case using Cons.IH by simp
qed simp

section \<open>Properties\<close>

text \<open>
  C6. A ticket opens one console, in time, and the one it was made for. In every interleaving of any
  number of requests: when the gateway has given a request a target, the hash of the ticket it presented is
  that of the same session's creation, for the same server; that creation got this very target from the connection
  of this server (raw VNC only from a Virtualizor connection) and checked it against the policy; the ticket
  was presented before the session expired; and no other request has, or had before its console closed,
  a target with the same session. A request that was given a target counts as such ever after, whatever
  happens next, so the ticket stays used when the console is closed.
\<close>

theorem ticket_opens_one_console:
  assumes "rs = sys_requests (run_system le sha es)" and "k < length rs" and "attached_by (rs ! k) = Some (h, t, s, u)"
  shows "(\<exists>env c. (env, c, u) \<in> put_targets (run_system le sha es) \<and> cs_id c = cs_id s \<and> cs_server c = cs_server s \<and>
        cs_hash c = h \<and> h = ce_sha env (ce_ticket env) \<and> t < ce_now env + ce_ttl env \<and> opened_for env s u \<and>
        validateEmbedded (ce_policy env) (ce_resolve env) (Some u) = Inr ()) \<and>
    (\<forall>l < length rs. \<forall>h' t' s' u'. l \<noteq> k \<longrightarrow> attached_by (rs ! l) = Some (h', t', s', u') \<longrightarrow> cs_id s' \<noteq> cs_id s) \<and>
    (\<forall>es'. attached_by (sys_requests (run_system le sha (es @ es')) ! k) = Some (h, t, s, u))"
proof (intro conjI)
  let ?y = "run_system le sha es" and ?tbl = "cw_sessions (sys_world (run_system le sha es))"
  have inv: "system_ok ?y" by (rule run_system_ok)
  then have ok: "request_ok ?tbl (put_targets ?y) r" if "r \<in> set rs" for r using that assms(1) by (simp add: system_ok_def)
  note att = attached_presented [OF assms(3)]
  have "ticket_row ?tbl h t s" "put_for (put_targets ?y) (cs_id s) u"
    using ok [of "rs ! k"] assms(2,3) att by (auto simp: request_ok_def)
  then obtain env c row where c: "(env, c, u) \<in> put_targets ?y" "cs_id c = cs_id s"
    and row: "row \<in> set ?tbl" "cs_id row = cs_id s" "cs_server row = cs_server s" "cs_hash row = h" "t < cs_expires row"
    by (auto simp: put_for_def ticket_row_def)
  then obtain r where r: "r \<in> set rs" "put_by r = Some (env, c, u)" using assms(1) by (auto simp: put_targets_def)
  then have "was_prepared env c u" "stored_row ?tbl c"
    using ok [OF r(1)] put_by_prepared [OF r(2)] by (auto simp: request_ok_def)
  then obtain i target row' where p: "prepare_embedded env i = Inr (c, u, target)" and row': "row' \<in> set ?tbl" "same_row c row'"
    by (auto simp: was_prepared_def stored_row_def)
  have "distinct (map cs_id ?tbl)" using inv by (simp add: system_ok_def table_ok_def)
  moreover have "cs_id row' = cs_id row" using row' row c(2) by (simp add: same_row_def)
  ultimately have "row' = row" using row' row by (simp add: distinct_map inj_on_def)
  then have same: "cs_hash c = h" "t < cs_expires c" "cs_server c = cs_server s" using row row' by (simp_all add: same_row_def)
  then have "opened_for env s u" using prepare_embeddedD(8) [OF p] by (simp add: opened_for_def)
  then show "\<exists>env c. (env, c, u) \<in> put_targets ?y \<and> cs_id c = cs_id s \<and> cs_server c = cs_server s \<and>
      cs_hash c = h \<and> h = ce_sha env (ce_ticket env) \<and> t < ce_now env + ce_ttl env \<and> opened_for env s u \<and>
      validateEmbedded (ce_policy env) (ce_resolve env) (Some u) = Inr ()"
    using c same prepare_embeddedD(1,4,5) [OF p] by auto
  have pw: "pairwise_distinct opened_id rs" using inv assms(1) by (simp add: system_ok_def)
  show "\<forall>l < length rs. \<forall>h' t' s' u'. l \<noteq> k \<longrightarrow> attached_by (rs ! l) = Some (h', t', s', u') \<longrightarrow> cs_id s' \<noteq> cs_id s"
    using pairwiseD [OF pw assms(2)] att attached_presented by (fastforce simp: opened_id_def)
  show "\<forall>es'. attached_by (sys_requests (run_system le sha (es @ es')) ! k) = Some (h, t, s, u)"
    using attached_for_good [of k "run_system le sha es"] assms by (simp add: run_system_def)
qed

text \<open>
  C7. Every address that is dialled was approved at that moment. Whatever the stored target, whatever
  the resolver said before: each text the proxy dials is an address that the policy allows, taken from the very
  resolution that precedes the dial (or written in the URL), all of whose answers are allowed, with a port
  from 1 to 65535; without a policy nothing is dialled.
\<close>

theorem console_dials_only_approved:
  assumes "proxy_upstream env u = (up, ds)" and "d \<in> set ds"
  shows "\<exists>pol host port. pe_policy env = Some pol \<and> approved_dial pol (pe_dial_resolve env) host port d \<and>
    fold_case host = fold_case (hostname u) \<and> 1 \<le> number_of port \<and> number_of port \<le> 65535"
proof (cases "u_scheme u = ''vnc+tcp''")
  case True
  then obtain pol r where pol: "pe_policy env = Some pol"
    and "dialTCP pol (pe_dial_resolve env) (pe_connects env) (pe_expired env) u = (r, ds)"
    using assms by (auto simp: proxy_upstream_def Let_def split: option.splits prod.splits)
  then have "dialAllowed pol (pe_dial_resolve env) (pe_connects env) (pe_expired env) (hostname u) (port_of u) = (r, ds)"
    and "validateRawTarget u = Inr ()"
    using assms(2) by (auto simp: dialTCP_def split: sum.splits)
  from dialAllowed_approved [OF this(1) assms(2)] raw_port [OF this(2)] show ?thesis using pol by auto
next
  case False
  then obtain client pol r where c: "webSocketClient (pe_policy env) (pe_resolve env) (Some u) = Inr client" "pe_policy env = Some pol"
    and dial: "transport_dial pol client (pe_dial_resolve env) (pe_connects env) (pe_expired env) (pe_address env) = (r, ds)"
    using assms by (auto simp: proxy_upstream_def Let_def split: if_splits option.splits sum.splits prod.splits)
  then obtain h where "fold_case h = fold_case (fst client)"
    and "dialAllowed pol (pe_dial_resolve env) (pe_connects env) (pe_expired env) h (snd client) = (r, ds)"
    using assms(2) by (auto simp: transport_dial_def split: option.splits prod.splits if_splits)
  moreover have "fst client = hostname u" "1 \<le> number_of (snd client)" "number_of (snd client) \<le> 65535"
    using c by (auto simp: webSocketClient_def Let_def split: if_splits sum.splits)
  ultimately show ?thesis using dialAllowed_approved assms(2) c(2) by metis
qed

definition console_caps :: capabilities where
  "console_caps = sample_capabilities\<lparr>can_embed_console := \<lparr>cap_available = True, cap_reason = []\<rparr>\<rparr>"

definition mock_url :: url where
  "mock_url = \<lparr>u_scheme = ''mock+ws'', u_opaque = [], u_user = False, u_host = ''console'', u_path = [], u_raw_path = [],
     u_force_query = False, u_raw_query = [], u_fragment = [], u_raw_fragment = []\<rparr>"

definition sample_console_env :: console_env where
  "sample_console_env = \<lparr>ce_inventory_fault = False, ce_live = (\<lambda>_. True),
     ce_servers = [sample_srv\<lparr>srv_capabilities := Some (capabilities_json console_caps)\<rparr>],
     ce_provider = (\<lambda>_. Inr ''mock''), ce_open_console = (\<lambda>_ _ _ _. Inr \<lparr>ct_protocol = [], ct_url = Some mock_url, ct_password = []\<rparr>),
     ce_portal_url = (\<lambda>_ _ _. Inr None), ce_policy = \<lparr>allowed_private = [], allow_mock = True\<rparr>, ce_resolve = (\<lambda>_. None),
     ce_now = 5, ce_ttl = 60 * second, ce_ticket = ''ticket'', ce_id = ''c1'', ce_sha = id, ce_create_fault = False,
     ce_audit_fault = False, ce_audit_id = ''a1'', ce_audit_now = 5, ce_close_fault = False,
     ce_request_id = ''r1'', ce_source_ip = ''192.0.2.1''\<rparr>"

definition sample_choice :: console_choice where
  "sample_choice = \<lparr>ch_fault = False, ch_audit_fault = False, ch_now = 9, ch_accepted = True,
     ch_proxy = \<lparr>pe_policy = None, pe_resolve = (\<lambda>_. None), pe_dial_resolve = (\<lambda>_. None), pe_connects = (\<lambda>_. False),
       pe_expired = (\<lambda>_. False), pe_address = []\<rparr>, ch_result = ResultCompleted, ch_audit_id = ''a2''\<rparr>"

definition sample_console_session :: console_session where
  "sample_console_session = \<lparr>cs_id = ''c1'', cs_server = srv_id sample_srv, cs_mode = ''embedded'', cs_hash = ''ticket'',
     cs_expires = 5 + 60 * second, cs_opened = None, cs_closed = None, cs_result = ResultPending, cs_created = 5\<rparr>"

lemma sample_prepared:
  "prepare_embedded sample_console_env (srv_id sample_srv) =
     Inr (sample_console_session, mock_url, \<lparr>ct_protocol = [], ct_url = Some mock_url, ct_password = []\<rparr>)"
proof -
  have "decode_capabilities (Some (capabilities_json console_caps)) = Some console_caps" by (rule capabilities_round_trip)
  moreover have "hostname mock_url = ''console''" "validateURLShape mock_url = Inr ()"
    by (simp_all add: mock_url_def hostname_def url_host_port_def split_last_def validateURLShape_def trim_by_def go_space_def)
  moreover have "u_scheme mock_url = ''mock+ws''" by (simp add: mock_url_def)
  ultimately show ?thesis
    by (simp add: prepare_embedded_def server_capabilities_def sample_console_env_def find_server_def sample_srv_def console_caps_def
        validateEmbedded_def new_console_session_def sample_console_session_def)
qed

text \<open>
  One console is created; two requests present its ticket, both read it, the second redeems it and is
  connected; its console closes, and then the first redeems in vain and a third request presents the
  ticket again.
\<close>

definition sample_schedule :: "console_event list" where
  "sample_schedule = [ArriveCreate sample_console_env (srv_id sample_srv), Advance 0 sample_choice, Advance 0 sample_choice,
     ArriveOpen ''ticket'' 7, ArriveOpen ''ticket'' 8, Advance 1 sample_choice, Advance 2 sample_choice, Advance 2 sample_choice,
     Advance 2 sample_choice, Advance 2 sample_choice, Advance 2 sample_choice, Advance 2 sample_choice,
     Advance 1 sample_choice, ArriveOpen ''ticket'' 10, Advance 3 sample_choice]"

lemma sample_attached:
  "sys_requests (run_system (\<le>) id sample_schedule) =
     [CreatePut sample_console_env sample_console_session mock_url, OpenAnswered 401,
      OpenClosed ''ticket'' 8 (mark_opened 8 sample_console_session) mock_url ResultCompleted, OpenAnswered 401]"
proof -
  have "proxy_upstream env mock_url = (MockConsole, [])" for env by (simp add: proxy_upstream_def mock_url_def)
  then show ?thesis
    by (simp add: run_system_def sample_schedule_def empty_system_def sample_prepared create_console_session_def put_target_def put_key_def
        read_ticket_def redeem_ticket_def affected_def redeemable_def take_target_def sample_choice_def sample_console_session_def
        mark_opened_def second_def close_console_session_def)
qed

theorem ticket_opens_one_console_witness:
  "opened_for sample_console_env (mark_opened 8 sample_console_session) mock_url \<and>
   (\<forall>es. attached_by (sys_requests (run_system (\<le>) id (sample_schedule @ es)) ! 2) =
      Some (''ticket'', 8, mark_opened 8 sample_console_session, mock_url))"
  using ticket_opens_one_console [OF refl, of 2 "(\<le>)" id sample_schedule "''ticket''" 8 "mark_opened 8 sample_console_session" mock_url]
  by (auto simp: sample_attached put_targets_def)

definition wss_url :: url where
  "wss_url = mock_url\<lparr>u_scheme := ''wss'', u_host := ''203.0.113.9''\<rparr>"

definition wss_proxy :: proxy_env where
  "wss_proxy = \<lparr>pe_policy = Some \<lparr>allowed_private = [], allow_mock = True\<rparr>, pe_resolve = (\<lambda>_. None), pe_dial_resolve = (\<lambda>_. None),
     pe_connects = (\<lambda>_. True), pe_expired = (\<lambda>_. False), pe_address = ''203.0.113.9:443''\<rparr>"

text \<open>Creating, as one function and as steps: the same sequence of effects.\<close>

fun steps_with :: "(time \<Rightarrow> time \<Rightarrow> bool) \<Rightarrow> console_choice list \<Rightarrow> console_request \<Rightarrow> console_world \<Rightarrow> console_request \<times> console_world" where
  "steps_with le [] r w = (r, w)"
| "steps_with le (ch # chs) r w = (let (r', w') = request_step le ch r w in steps_with le chs r' w')"

definition create_choices :: "console_env \<Rightarrow> console_choice \<Rightarrow> console_choice list" where
  "create_choices env ch = [ch\<lparr>ch_fault := ce_create_fault env\<rparr>, ch, ch\<lparr>ch_fault := ce_audit_fault env\<rparr>, ch, ch\<lparr>ch_fault := ce_close_fault env\<rparr>]"

text \<open>
  The request that takes its steps alone does what \<open>CreateEmbedded\<close> does: for every fault of every
  statement the same sessions, targets and audit log result, and the request has succeeded exactly
  when the function returns a ticket.
\<close>

lemma create_steps_refine_service:
  assumes "prepare_embedded env i = Inr (s, u, target)"
    and "createEmbedded env i w = (res, w')" and "steps_with le (create_choices env ch) (CreateChecked env s u) w = (r, w'')"
  shows "w'' = w' \<and> (r = CreateDone True env s u \<longleftrightarrow> (\<exists>t. res = Inr t))"
proof (cases "create_console_session (ce_create_fault env) s (cw_sessions w)")
  case (Pair x tbl)
  show ?thesis
  proof (cases x)
    case Inl
    then show ?thesis using assms Pair by (auto simp: createEmbedded_def create_choices_def)
  next
    case (Inr unit)
    then show ?thesis using assms Pair
      by (cases "append_audit_entry (ce_audit_fault env) (console_audit_entry env (cs_id s) ''console_session_created'' ''embedded'') (cw_audit w)";
          cases "fst (append_audit_entry (ce_audit_fault env) (console_audit_entry env (cs_id s) ''console_session_created'' ''embedded'') (cw_audit w))")
        (auto simp: createEmbedded_def create_choices_def Let_def)
  qed
qed

theorem create_steps_refine_service_witness:
  "\<exists>res w' r. createEmbedded sample_console_env (srv_id sample_srv) (sys_world empty_system) = (res, w') \<and>
     steps_with (\<le>) (create_choices sample_console_env sample_choice) (CreateChecked sample_console_env sample_console_session mock_url)
       (sys_world empty_system) = (r, w')"
proof -
  obtain res w' r w'' where *: "createEmbedded sample_console_env (srv_id sample_srv) (sys_world empty_system) = (res, w')"
      "steps_with (\<le>) (create_choices sample_console_env sample_choice) (CreateChecked sample_console_env sample_console_session mock_url)
         (sys_world empty_system) = (r, w'')"
    by fastforce
  from create_steps_refine_service [OF sample_prepared *] show ?thesis using * by auto
qed

text \<open>
  A creation that fails leaves nothing to open: no target is in the store that was not there, the
  audit log is as it was, and, unless closing the session fails as well, every ticket that can be
  redeemed could be redeemed before. A creation that succeeds stores one pending session with its checked
  target and one audit entry, and gives the ticket, with a password for \<^verbatim>\<open>rfb\<close> only.
\<close>

lemma failed_creation_leaves_nothing:
  assumes "createEmbedded env i w = (res, w')"
  shows "case res of
      Inl e \<Rightarrow> (\<forall>j u. map_of (cw_targets w') j = Some u \<longrightarrow> map_of (cw_targets w) j = Some u) \<and> cw_audit w' = cw_audit w \<and>
        (\<not> ce_close_fault env \<longrightarrow> (\<forall>f h t s. read_ticket f h t (cw_sessions w') = Inr s \<longrightarrow> read_ticket f h t (cw_sessions w) = Inr s))
    | Inr t \<Rightarrow> \<exists>s u. st_ticket t = ce_ticket env \<and> st_expires t = cs_expires s \<and> cs_hash s = ce_sha env (ce_ticket env) \<and>
        cs_result s = ResultPending \<and> cw_sessions w' = cw_sessions w @ [s] \<and> map_of (cw_targets w') = (map_of (cw_targets w))(st_session_id t \<mapsto> u) \<and>
        validateEmbedded (ce_policy env) (ce_resolve env) (Some u) = Inr () \<and>
        length (cw_audit w') = Suc (length (cw_audit w)) \<and> (st_password t \<noteq> None \<longrightarrow> st_protocol t = ''rfb'')"
proof (cases "prepare_embedded env i")
  case (Inl e)
  then show ?thesis using assms by (auto simp: createEmbedded_def)
next
  case (Inr p)
  obtain s u target where p: "p = (s, u, target)" using prod_cases3 by blast
  note prep = Inr [unfolded p]
  show ?thesis
  proof (cases "create_console_session (ce_create_fault env) s (cw_sessions w)")
    case (Pair x tbl)
    show ?thesis
    proof (cases x)
      case (Inl e)
      then show ?thesis using assms prep Pair by (auto simp: createEmbedded_def)
    next
      case (Inr unit)
      have new: "find_by cs_id (cs_id s) (cw_sessions w) = None" "tbl = cw_sessions w @ [s]"
        using create_storedD [OF Pair [unfolded Inr]] by simp_all
      let ?e = "console_audit_entry env (cs_id s) ''console_session_created'' ''embedded''"
      obtain ok log where audit: "append_audit_entry (ce_audit_fault env) ?e (cw_audit w) = (ok, log)" by fastforce
      show ?thesis
      proof (cases ok)
        case True
        have "log = cw_audit w @ [?e]" using audit True by (auto simp: append_audit_entry_def split: if_splits)
        moreover have "cs_result s = ResultPending"
          using prep by (auto simp: prepare_embedded_def new_console_session_def split: sum.splits prod.splits if_splits option.splits)
        ultimately show ?thesis using assms prep Pair Inr new audit True prepare_embeddedD [OF prep]
          by (auto simp: createEmbedded_def Let_def ticket_of_def put_target_def map_of_put_key)
      next
        case False
        have res: "res = Inl ErrConsoleOther" "cw_audit w' = cw_audit w"
            "cw_targets w' = delete_target (cs_id s) (put_target (cs_id s) u (cw_targets w))"
            "cw_sessions w' = snd (close_console_session (ce_close_fault env) (cs_id s) ResultFailed (ce_now env) tbl)"
          using assms prep Pair Inr audit False by (auto simp: createEmbedded_def Let_def)
        have closed: "cw_sessions w' = cw_sessions w @ [s\<lparr>cs_closed := Some (ce_now env), cs_result := ResultFailed\<rparr>]"
          if "\<not> ce_close_fault env"
        proof -
          have "cs_id s \<notin> cs_id ` set (cw_sessions w)" using new(1) by (simp add: find_by_None)
          then have "update_where (\<lambda>r. cs_id r = cs_id s \<and> cs_closed r = None) f (cw_sessions w) = cw_sessions w" for f
            by (intro update_where_none) (metis imageI)
          then show ?thesis using that res(4) new(2) prepare_embeddedD(7) [OF prep]
            by (simp add: close_console_session_def Let_def update_where_append)
        qed
        show ?thesis using res closed
          by (auto simp: delete_target_def put_target_def map_of_delete_key map_of_put_key read_ticket_def find_by_append
              split: if_splits option.splits)
      qed
    qed
  qed
qed

definition failing_audit_env :: console_env where
  "failing_audit_env = sample_console_env\<lparr>ce_audit_fault := True\<rparr>"

lemma failing_prepared:
  "prepare_embedded failing_audit_env (srv_id sample_srv) =
     Inr (sample_console_session, mock_url, \<lparr>ct_protocol = [], ct_url = Some mock_url, ct_password = []\<rparr>)"
proof -
  have "prepare_embedded (env\<lparr>ce_audit_fault := b\<rparr>) i = prepare_embedded env i" for env :: console_env and b i
    by (simp add: prepare_embedded_def server_capabilities_def new_console_session_def
        cong: sum.case_cong option.case_cong prod.case_cong if_cong)
  then show ?thesis using sample_prepared by (simp add: failing_audit_env_def)
qed

text \<open>
  Only checked links are handed out, and each is on record. A window or portal link that is returned
  is either one of the two local pages, and only for the mock provider, or an \<^verbatim>\<open>https\<close> URL without
  user information whose host resolves to allowed addresses only; one audit entry was added for it. When an
  error is returned the audit log is unchanged.
\<close>

lemma handed_out_links_are_checked:
  assumes "openWindow env i w = (res, w') \<or> providerPortal env i w = (res, w')"
  shows "case res of
      Inl e \<Rightarrow> w' = w
    | Inr (MockPage path) \<Rightarrow> path \<in> {''/api/v1/mock-pages/console'', ''/api/v1/mock-pages/portal''} \<and>
        (\<exists>srv :: server. ce_provider env (srv_connection srv) = Inr ''mock'') \<and> length (cw_audit w') = Suc (length (cw_audit w))
    | Inr (ExternalURL u) \<Rightarrow> u_scheme u = ''https'' \<and> \<not> u_user u \<and> u_fragment u = [] \<and>
        (\<exists>as. resolveAllowed (ce_policy env) (ce_resolve env) (hostname u) = Inr as \<and> list_all (addressAllowed (ce_policy env)) as) \<and>
        length (cw_audit w') = Suc (length (cw_audit w))"
proof -
  have hand: "(case res of Inl e \<Rightarrow> w' = w | Inr l \<Rightarrow> l = link \<and> length (cw_audit w') = Suc (length (cw_audit w)))"
    if "hand_out env target type mode link w = (res, w')" for target type mode link
    using that by (auto simp: hand_out_def append_audit_entry_def split: if_splits)
  have mock: "type = ''mock'' \<and> path \<in> {''/api/v1/mock-pages/console'', ''/api/v1/mock-pages/portal''}"
    if "trustedMockPage type u = Some path" for type u path
    using that by (auto simp: trustedMockPage_def split: if_splits)
  have ext: "u_scheme u = ''https'' \<and> \<not> u_user u \<and> u_fragment u = [] \<and>
      (\<exists>as. resolveAllowed (ce_policy env) (ce_resolve env) (hostname u) = Inr as \<and> list_all (addressAllowed (ce_policy env)) as)"
    if "validateExternal (ce_policy env) (ce_resolve env) (Some u) = Inr ()" for u
    using that resolveAllowed_SomeD [of "ce_policy env" "ce_resolve env" "hostname u"]
    by (auto simp: validateExternal_def validateNetworkTarget_def validateURLShape_def list_all_iff split: if_splits sum.splits)
  consider "res \<in> range Inl" "w' = w"
    | srv type ev mode target where "ce_provider env (srv_connection (srv :: server)) = Inr type" "external_link env type srv ev mode target w = (res, w')"
    using assms by (auto simp: openWindow_def providerPortal_def split: sum.splits prod.splits if_splits)
  then show ?thesis
  proof cases
    case 1
    then show ?thesis by auto
  next
    case 2
    show ?thesis
    proof (cases target)
      case None
      then show ?thesis using 2 by (auto simp: external_link_def)
    next
      case (Some u)
      then show ?thesis
      proof (cases "trustedMockPage type u")
        case None
        show ?thesis
        proof (cases "validateExternal (ce_policy env) (ce_resolve env) (Some u)")
          case (Inr unit)
          then have "hand_out env (srv_id srv) ev mode (ExternalURL u) w = (res, w')"
            using 2 Some None by (simp add: external_link_def)
          from hand [OF this] show ?thesis using ext [of u] Inr by (auto split: sum.splits)
        qed (use 2 Some None in \<open>auto simp: external_link_def\<close>)
      next
        case (Some path)
        then have "hand_out env (srv_id srv) ev mode (MockPage path) w = (res, w')"
          using 2 \<open>target = Some u\<close> by (simp add: external_link_def)
        from hand [OF this] show ?thesis using mock [OF Some] 2(1) by (auto split: sum.splits)
      qed
    qed
  qed
qed

lemma sample_literal: "parse_ip ''203.0.113.9'' = Some (v4_prefix @ [203, 0, 113, 9])"
  by code_simp

lemma sample_dial:
  "proxy_upstream wss_proxy wss_url = (DialledUpstream ''203.0.113.9:443'', [''203.0.113.9:443''])"
proof -
  let ?pol = "\<lparr>allowed_private = [], allow_mock = True\<rparr> :: target_policy" and ?none = "\<lambda>_. None :: ip list option"
  have url: "u_scheme wss_url = ''wss''" "u_opaque wss_url = []" "hostname wss_url = ''203.0.113.9''" "port_of wss_url = []"
    by code_simp+
  have shape: "validateURLShape wss_url = Inr ()" by code_simp
  have "addressAllowed ?pol (v4_prefix @ [203, 0, 113, 9])" by code_simp
  then have resolved: "resolveAllowed ?pol ?none ''203.0.113.9'' = Inr [v4_prefix @ [203, 0, 113, 9]]"
    by (simp add: resolveAllowed_def sample_literal)
  have port: "all_digits ''443''" "number_of ''443'' = 443" "digits_of 443 = ''443''" by code_simp+
  have client: "webSocketClient (Some ?pol) ?none (Some wss_url) = Inr (''203.0.113.9'', ''443'')"
    by (simp add: webSocketClient_def validateEmbedded_def validateNetworkTarget_def url shape resolved port)
  have address: "split_host_port ''203.0.113.9:443'' = Some (''203.0.113.9'', ''443'')" by code_simp
  have "join_host_port (ip_text (v4_prefix @ [203, 0, 113, 9])) ''443'' = ''203.0.113.9:443''" by code_simp
  then show ?thesis
    by (simp add: proxy_upstream_def wss_proxy_def url client transport_dial_def address dialAllowed_def resolved Let_def)
qed

theorem console_dials_only_approved_witness:
  "\<exists>host port. approved_dial \<lparr>allowed_private = [], allow_mock = True\<rparr> (\<lambda>_. None) host port ''203.0.113.9:443'' \<and>
     number_of port \<le> 65535"
  using console_dials_only_approved [OF sample_dial, of "''203.0.113.9:443''"] by (auto simp: wss_proxy_def)

theorem failed_creation_leaves_nothing_witness:
  "\<exists>w'. createEmbedded failing_audit_env (srv_id sample_srv) (sys_world empty_system) = (Inl ErrConsoleOther, w') \<and>
     map_of (cw_targets w') ''c1'' = None"
proof -
  let ?w = "sys_world empty_system"
  have "create_console_session (ce_create_fault failing_audit_env) sample_console_session (cw_sessions ?w) = (Inr (), [sample_console_session])"
      "append_audit_entry (ce_audit_fault failing_audit_env) e log = (False, log)" for e log
    by (simp_all add: create_console_session_def empty_system_def failing_audit_env_def sample_console_env_def append_audit_entry_def)
  then obtain w' where w': "createEmbedded failing_audit_env (srv_id sample_srv) ?w = (Inl ErrConsoleOther, w')"
    by (simp add: createEmbedded_def failing_prepared Let_def)
  from failed_creation_leaves_nothing [OF w'(1)] have "map_of (cw_targets w') ''c1'' = None"
    by (cases "map_of (cw_targets w') ''c1''") (auto simp: empty_system_def)
  then show ?thesis using w' by blast
qed

definition portal_env :: console_env where
  "portal_env = sample_console_env\<lparr>ce_servers := [sample_srv\<lparr>srv_capabilities :=
     Some (capabilities_json (console_caps\<lparr>has_provider_portal := \<lparr>cap_available = True, cap_reason = []\<rparr>\<rparr>))\<rparr>],
     ce_portal_url := (\<lambda>_ _ _. Inr (Some (mock_url\<lparr>u_scheme := ''https'', u_host := ''203.0.113.9''\<rparr>)))\<rparr>"

theorem handed_out_links_are_checked_witness:
  "\<exists>res w'. providerPortal portal_env (srv_id sample_srv) (sys_world empty_system) = (res, w') \<and>
     (case res of Inr (ExternalURL u) \<Rightarrow> u_scheme u = ''https'' | _ \<Rightarrow> True)"
proof -
  obtain res w' where p: "providerPortal portal_env (srv_id sample_srv) (sys_world empty_system) = (res, w')" by fastforce
  from handed_out_links_are_checked [OF disjI2, OF p] show ?thesis using p
    by (auto split: sum.splits external_target.splits)
qed

end
