(* ===== verification/PasswordHash.thy ===== *)
theory PasswordHash imports GoTime begin

text \<open>
  Stored passwords, \<^verbatim>\<open>internal/auth/password.go\<close>: the rule for passwords, the text an Argon2id hash is
  stored as, and its verification, with the base64 encodings and the \<^verbatim>\<open>Sscanf\<close> formats they use. Argon2 itself
  (\<^verbatim>\<open>golang.org/x/crypto\<close>) is a parameter, the function from its inputs to the key. A byte slice is a string.
\<close>

section \<open>Base64 without padding\<close>

definition std_alphabet :: "nat \<Rightarrow> char" where
  "std_alphabet n = (if n < 26 then char_of (65 + n) else if n < 52 then char_of (71 + n)
     else if n < 62 then char_of (n - 4) else if n = 62 then CHR ''+'' else CHR ''/'')"

definition url_alphabet :: "nat \<Rightarrow> char" where
  "url_alphabet n = (if n < 26 then char_of (65 + n) else if n < 52 then char_of (71 + n)
     else if n < 62 then char_of (n - 4) else if n = 62 then CHR ''-'' else CHR ''_'')"

abbreviation byte_of :: "char \<Rightarrow> nat" where
  "byte_of c \<equiv> of_char c"

fun sextets :: "string \<Rightarrow> nat list" where
  "sextets [] = []"
| "sextets [a] = [byte_of a div 4, byte_of a mod 4 * 16]"
| "sextets [a, b] = [byte_of a div 4, byte_of a mod 4 * 16 + byte_of b div 16, byte_of b mod 16 * 4]"
| "sextets (a # b # c # s) =
     [byte_of a div 4, byte_of a mod 4 * 16 + byte_of b div 16, byte_of b mod 16 * 4 + byte_of c div 64, byte_of c mod 64] @ sextets s"

fun bytes_of :: "nat list \<Rightarrow> string option" where
  "bytes_of [] = Some []"
| "bytes_of [v] = None"
| "bytes_of [v, w] = Some [char_of (v * 4 + w div 16)]"
| "bytes_of [v, w, x] = Some [char_of (v * 4 + w div 16), char_of (w mod 16 * 16 + x div 4)]"
| "bytes_of (v # w # x # y # s) =
     map_option (\<lambda>r. char_of (v * 4 + w div 16) # char_of (w mod 16 * 16 + x div 4) # char_of (x mod 4 * 64 + y) # r) (bytes_of s)"

definition base64_encode :: "(nat \<Rightarrow> char) \<Rightarrow> string \<Rightarrow> string" where
  "base64_encode alph s = map alph (sextets s)"

definition sextet_value :: "(nat \<Rightarrow> char) \<Rightarrow> char \<Rightarrow> nat option" where
  "sextet_value alph c = List.find (\<lambda>n. alph n = c) [0 ..< 64]"

fun all_some :: "'a option list \<Rightarrow> 'a list option" where
  "all_some [] = Some []"
| "all_some (None # xs) = None"
| "all_some (Some x # xs) = map_option ((#) x) (all_some xs)"

text \<open>\<^verbatim>\<open>DecodeString\<close> skips line ends.\<close>

definition base64_decode :: "(nat \<Rightarrow> char) \<Rightarrow> string \<Rightarrow> string option" where
  "base64_decode alph s =
     Option.bind (all_some (map (sextet_value alph) (filter (\<lambda>c. c \<noteq> CHR 0x0A \<and> c \<noteq> CHR 0x0D) s))) bytes_of"

lemma byte_less: "byte_of c < 256"
  by simp

lemma byte_parts [simp]: "byte_of c div 4 < 64" "byte_of c div 16 < 16" "byte_of c div 64 < 4"
  using byte_less [of c] by linarith+

lemma joined_parts [simp]:
  "y < 16 \<Longrightarrow> (x * 16 + y) div 16 = x" "y < 16 \<Longrightarrow> (x * 16 + y) mod 16 = y"
  "y < 4 \<Longrightarrow> (x * 4 + y) div 4 = x" "y < 4 \<Longrightarrow> (x * 4 + y) mod 4 = (y :: nat)"
  by simp_all

lemma sextets_less: "n \<in> set (sextets s) \<Longrightarrow> n < 64"
proof (induction s rule: sextets.induct)
  case (2 a)
  then show ?case using byte_parts [of a] mod_less_divisor [of 4 "byte_of a"] by auto
next
  case (3 a b)
  have "byte_of a mod 4 * 16 + byte_of b div 16 < 64" "byte_of b mod 16 * 4 < 64"
    using byte_parts [of b] mod_less_divisor [of 4 "byte_of a"] mod_less_divisor [of 16 "byte_of b"] by linarith+
  then show ?case using 3 by auto
next
  case (4 a b c s)
  have "byte_of a mod 4 * 16 + byte_of b div 16 < 64" "byte_of b mod 16 * 4 + byte_of c div 64 < 64"
    using byte_parts [of b] byte_parts [of c] mod_less_divisor [of 4 "byte_of a"] mod_less_divisor [of 16 "byte_of b"] by linarith+
  then show ?case using 4 by auto
qed simp

lemma bytes_sextets: "bytes_of (sextets s) = Some s"
proof (induction s rule: sextets.induct)
  case (2 a)
  have "byte_of a div 4 * 4 + byte_of a mod 4 = byte_of a" by simp
  then show ?case by simp
next
  case (3 a b)
  have "byte_of a div 4 * 4 + byte_of a mod 4 = byte_of a" "byte_of b div 16 * 16 + byte_of b mod 16 = byte_of b" by simp_all
  then show ?case by simp
next
  case (4 a b c s)
  have "byte_of a div 4 * 4 + byte_of a mod 4 = byte_of a" "byte_of b div 16 * 16 + byte_of b mod 16 = byte_of b"
    "byte_of c div 64 * 64 + byte_of c mod 64 = byte_of c" by simp_all
  then show ?case using 4 by simp
qed simp

lemma find_alphabet:
  assumes "distinct (map alph [0 ..< 64])" and "n < 64"
  shows "sextet_value alph (alph n) = Some n"
proof -
  have inj: "inj_on alph {0 ..< 64}" using assms(1) by (simp add: distinct_map)
  have "List.find (\<lambda>m. alph m = alph n) [0 ..< 64] = Some n"
    unfolding find_Some_iff using inj assms(2) by (intro exI [of _ n]) (auto dest: inj_onD)
  then show ?thesis by (simp add: sextet_value_def)
qed

lemma alphabets_distinct: "distinct (map std_alphabet [0 ..< 64])" "distinct (map url_alphabet [0 ..< 64])"
  by code_simp+

lemma alphabets_printable:
  "n < 64 \<Longrightarrow> std_alphabet n \<notin> {CHR 0x0A, CHR 0x0D, CHR ''$''}" "n < 64 \<Longrightarrow> url_alphabet n \<notin> {CHR 0x0A, CHR 0x0D, CHR ''$''}"
proof -
  have "list_all (\<lambda>n. std_alphabet n \<notin> {CHR 0x0A, CHR 0x0D, CHR ''$''} \<and> url_alphabet n \<notin> {CHR 0x0A, CHR 0x0D, CHR ''$''}) [0 ..< 64]"
    by code_simp
  then show "n < 64 \<Longrightarrow> std_alphabet n \<notin> {CHR 0x0A, CHR 0x0D, CHR ''$''}" "n < 64 \<Longrightarrow> url_alphabet n \<notin> {CHR 0x0A, CHR 0x0D, CHR ''$''}"
    by (simp_all add: list_all_iff)
qed

lemma all_some_map: "(\<And>x. x \<in> set xs \<Longrightarrow> f x = Some (g x)) \<Longrightarrow> all_some (map f xs) = Some (map g xs)"
  by (induction xs) auto

lemma base64_round_trip:
  assumes "distinct (map alph [0 ..< 64])" and "\<And>n. n < 64 \<Longrightarrow> alph n \<notin> {CHR 0x0A, CHR 0x0D}"
  shows "base64_decode alph (base64_encode alph s) = Some s"
proof -
  have "filter (\<lambda>c. c \<noteq> CHR 0x0A \<and> c \<noteq> CHR 0x0D) (base64_encode alph s) = base64_encode alph s"
    using assms(2) sextets_less [of _ s] by (auto simp: base64_encode_def filter_id_conv)
  moreover have "all_some (map (sextet_value alph \<circ> alph) (sextets s)) = Some (map id (sextets s))"
    by (rule all_some_map) (simp add: find_alphabet [OF assms(1)] sextets_less)
  ultimately show ?thesis by (simp add: base64_decode_def base64_encode_def bytes_sextets)
qed

lemma std_round_trip [simp]: "base64_decode std_alphabet (base64_encode std_alphabet s) = Some s"
  using base64_round_trip [OF alphabets_distinct(1)] alphabets_printable(1) by blast

lemma std_no_dollar: "CHR ''$'' \<notin> set (base64_encode std_alphabet s)"
  using alphabets_printable(1) sextets_less [of _ s] by (fastforce simp: base64_encode_def)

section \<open>Scanning\<close>

text \<open>\<^verbatim>\<open>Sscanf\<close>: literal text, and \<^verbatim>\<open>%d\<close>, which skips blanks. What is left over is not looked at.\<close>

definition ascii_digit :: "char \<Rightarrow> bool" where
  "ascii_digit c \<longleftrightarrow> 48 \<le> byte_of c \<and> byte_of c \<le> 57"

definition decimal_value :: "string \<Rightarrow> nat" where
  "decimal_value s = fold (\<lambda>c n. n * 10 + (byte_of c - 48)) s 0"

definition skip_blanks :: "string \<Rightarrow> string" where
  "skip_blanks s = dropWhile (\<lambda>c. go_space c \<and> c \<noteq> CHR 0x0A) s"

definition scan_text :: "string \<Rightarrow> string \<Rightarrow> string option" where
  "scan_text p s = (if take (length p) s = p then Some (drop (length p) s) else None)"

definition scan_uint32 :: "string \<Rightarrow> (nat \<times> string) option" where
  "scan_uint32 s =
     (let t = skip_blanks s; ds = takeWhile ascii_digit t
      in if ds = [] \<or> decimal_value ds \<ge> 2 ^ 32 then None else Some (decimal_value ds, dropWhile ascii_digit t))"

definition scan_int :: "string \<Rightarrow> int option" where
  "scan_int s =
     (let t = skip_blanks s; minus = (t \<noteq> [] \<and> hd t = CHR ''-''); u = (if minus \<or> (t \<noteq> [] \<and> hd t = CHR ''+'') then tl t else t);
          ds = takeWhile ascii_digit u; v = int (decimal_value ds)
      in if ds = [] \<or> (if minus then v > 2 ^ 63 else v \<ge> 2 ^ 63) then None else Some (if minus then - v else v))"

section \<open>Hashes of passwords\<close>

datatype password_error = ErrPasswordEmpty | ErrPasswordTooShort | ErrPasswordTooLong | ErrHashFormat | ErrRandom

definition validatePassword :: "string \<Rightarrow> password_error option" where
  "validatePassword p =
     (if p = [] then Some ErrPasswordEmpty else if length p < 12 then Some ErrPasswordTooShort
      else if length p > 1024 then Some ErrPasswordTooLong else None)"

record argon2id_params =
  ap_memory :: nat
  ap_iterations :: nat
  ap_parallelism :: nat
  ap_salt_length :: nat
  ap_key_length :: nat

definition default_params :: argon2id_params where
  "default_params = \<lparr>ap_memory = 64 * 1024, ap_iterations = 3, ap_parallelism = 2, ap_salt_length = 16, ap_key_length = 32\<rparr>"

text \<open>\<open>kdf password salt iterations memory parallelism length\<close> is \<^verbatim>\<open>argon2.IDKey\<close>; \<open>salt\<close> is what the
  random source gave, \<open>None\<close> when it failed.\<close>

type_synonym argon2 = "string \<Rightarrow> string \<Rightarrow> nat \<Rightarrow> nat \<Rightarrow> nat \<Rightarrow> nat \<Rightarrow> string"

definition hash_password :: "argon2 \<Rightarrow> argon2id_params \<Rightarrow> string option \<Rightarrow> string \<Rightarrow> password_error + string" where
  "hash_password kdf ps salt p =
     (case validatePassword p of
        Some e \<Rightarrow> Inl e
      | None \<Rightarrow>
          (case salt of
             None \<Rightarrow> Inl ErrRandom
           | Some s \<Rightarrow>
               (let key = kdf p s (ap_iterations ps) (ap_memory ps) (ap_parallelism ps) (ap_key_length ps)
                in Inr (''$argon2id$v='' @ digits_of 19 @ ''$m='' @ digits_of (ap_memory ps) @ '',t='' @ digits_of (ap_iterations ps) @
                        '',p='' @ digits_of (ap_parallelism ps) @ ''$'' @ base64_encode std_alphabet s @ ''$'' @
                        base64_encode std_alphabet key))))"

text \<open>The three parameters of the stored text.\<close>

definition scan_params :: "string \<Rightarrow> (nat \<times> nat \<times> nat) option" where
  "scan_params s =
     Option.bind (scan_text ''m='' s) (\<lambda>s1. Option.bind (scan_uint32 s1) (\<lambda>(m, s2).
     Option.bind (scan_text '',t='' s2) (\<lambda>s3. Option.bind (scan_uint32 s3) (\<lambda>(t, s4).
     Option.bind (scan_text '',p='' s4) (\<lambda>s5. Option.bind (scan_uint32 s5) (\<lambda>(p, _). Some (m, t, p)))))))"

definition verify_password :: "argon2 \<Rightarrow> string \<Rightarrow> string \<Rightarrow> password_error + bool" where
  "verify_password kdf encoded p =
     (case validatePassword p of
        Some e \<Rightarrow> Inl e
      | None \<Rightarrow>
          (let parts = split_on (CHR ''$'') encoded
           in if length encoded > 1024 \<or> length parts \<noteq> 6 \<or> parts ! 0 \<noteq> [] \<or> parts ! 1 \<noteq> ''argon2id'' then Inl ErrHashFormat
              else if Option.bind (scan_text ''v='' (parts ! 2)) scan_int \<noteq> Some 19 then Inl ErrHashFormat
              else (case (scan_params (parts ! 3), base64_decode std_alphabet (parts ! 4), base64_decode std_alphabet (parts ! 5)) of
                      (Some (m, t, par), Some salt, Some expected) \<Rightarrow>
                        (if m < 8 * 1024 \<or> m > 1024 * 1024 \<or> t = 0 \<or> t > 20 \<or> par = 0 \<or> par > 16 \<or>
                            length salt < 8 \<or> length salt > 64 \<or> length expected < 16 \<or> length expected > 64
                         then Inl ErrHashFormat
                         else Inr (kdf p salt t m par (length expected) = expected))
                    | _ \<Rightarrow> Inl ErrHashFormat)))"

section \<open>Lemmas\<close>

lemma length_sextets: "length (sextets s) \<le> 2 * length s"
  by (induction s rule: sextets.induct) auto

lemma length_base64: "length (base64_encode alph s) \<le> 2 * length s"
  by (simp add: base64_encode_def length_sextets)

lemma default_hash:
  assumes "hash_password kdf default_params (Some salt) p = Inr enc"
  shows "enc = [] @ CHR ''$'' # ''argon2id'' @ CHR ''$'' # ''v=19'' @ CHR ''$'' # ''m=65536,t=3,p=2'' @ CHR ''$'' #
    base64_encode std_alphabet salt @ CHR ''$'' # base64_encode std_alphabet (kdf p salt 3 65536 2 32)"
proof -
  have "digits_of 19 = ''19''" "digits_of 65536 = ''65536''" "digits_of 3 = ''3''" "digits_of 2 = ''2''"
    by (simp_all add: digits_of.simps digit_def char_of_eq_iff)
  then show ?thesis using assms by (simp add: hash_password_def default_params_def Let_def split: option.splits)
qed

lemma default_parts:
  "split_on (CHR ''$'') ([] @ CHR ''$'' # ''argon2id'' @ CHR ''$'' # ''v=19'' @ CHR ''$'' # ''m=65536,t=3,p=2'' @ CHR ''$'' #
      base64_encode std_alphabet salt @ CHR ''$'' # base64_encode std_alphabet key) =
    [[], ''argon2id'', ''v=19'', ''m=65536,t=3,p=2'', base64_encode std_alphabet salt, base64_encode std_alphabet key]"
  by (subst split_on_cons, simp)+ (simp add: split_on_cons split_on_none std_no_dollar)

section \<open>Properties\<close>

text \<open>
  C34. A stored password verifies, and only against the same key. When hashing succeeds with the default
  parameters and a salt of the requested length, verifying any password of allowed length against the stored
  text is not an error, and answers whether Argon2 derives the stored key from it; so the password
  itself is accepted. Passwords outside 12 to 1024 bytes are refused by both. (Argon2 gives keys of the length it
  is asked for.)
\<close>

theorem stored_password_verifies:
  assumes "\<And>p s t m par n. length (kdf p s t m par n) = n" and "length salt = ap_salt_length default_params"
    and "hash_password kdf default_params (Some salt) p = Inr enc"
  shows "verify_password kdf enc p = Inr True \<and>
    verify_password kdf enc q =
      (case validatePassword q of Some e \<Rightarrow> Inl e | None \<Rightarrow> Inr (kdf q salt 3 65536 2 32 = kdf p salt 3 65536 2 32))"
proof -
  let ?key = "kdf p salt 3 65536 2 32"
  note enc = default_hash [OF assms(3)]
  have salt: "length salt = 16" using assms(2) by (simp add: default_params_def)
  have parts: "split_on (CHR ''$'') enc = [[], ''argon2id'', ''v=19'', ''m=65536,t=3,p=2'', base64_encode std_alphabet salt, base64_encode std_alphabet ?key]"
    unfolding enc by (rule default_parts)
  have "length enc \<le> 40 + 2 * length salt + 2 * length ?key"
    unfolding enc using length_base64 [of std_alphabet salt] length_base64 [of std_alphabet ?key] by simp
  then have short: "length enc \<le> 1024" using salt assms(1) by simp
  have scan: "Option.bind (scan_text ''v='' ''v=19'') scan_int = Some 19" "scan_params ''m=65536,t=3,p=2'' = Some (65536, 3, 2)"
    by (simp_all add: scan_params_def scan_int_def scan_text_def scan_uint32_def skip_blanks_def ascii_digit_def decimal_value_def
        go_space_def Let_def)
  have all: "verify_password kdf enc q =
      (case validatePassword q of Some e \<Rightarrow> Inl e | None \<Rightarrow> Inr (kdf q salt 3 65536 2 32 = ?key))" for q
    using short salt assms(1) by (simp add: verify_password_def parts scan split: option.splits)
  moreover have "validatePassword p = None" using assms(3) by (auto simp: hash_password_def split: option.splits)
  ultimately show ?thesis by simp
qed

theorem stored_password_verifies_witness:
  "\<exists>enc. hash_password (\<lambda>p s t m par n. take n (p @ replicate n CHR ''0'')) default_params (Some (replicate 16 CHR ''s'')) ''correct horse'' = Inr enc \<and>
     verify_password (\<lambda>p s t m par n. take n (p @ replicate n CHR ''0'')) enc ''correct horse'' = Inr True \<and>
     verify_password (\<lambda>p s t m par n. take n (p @ replicate n CHR ''0'')) enc ''battery staple'' = Inr False"
proof -
  let ?kdf = "\<lambda>p s t m par n. take n (p @ replicate n CHR ''0'')"
  obtain enc where enc: "hash_password ?kdf default_params (Some (replicate 16 CHR ''s'')) ''correct horse'' = Inr enc"
    by (simp add: hash_password_def validatePassword_def)
  have "length (?kdf p s t m par n) = n" for p s :: string and t m par n :: nat by simp
  from stored_password_verifies [OF this _ enc, of "''battery staple''"] show ?thesis
    using enc by (simp add: default_params_def validatePassword_def)
qed

end
