(* ===== verification/AuthService.thy ===== *)
theory AuthService imports PasswordHash OpService begin

text \<open>
  Signing in on the server, \<^verbatim>\<open>internal/auth\<close>: the users and sessions tables, the service (setup,
  login, authentication with its sliding expiry, logout, change of password), the HTTP handlers with their
  origin and CSRF checks and their cookies, and the cookie jar of a browser. Password hashes are those of
  theory PasswordHash, here any two functions; SHA-256 is a parameter too. Names are compared
  by their ASCII letters.
\<close>

section \<open>Tables\<close>

record account =
  usr_id :: string
  usr_name :: string
  usr_normalized :: string
  usr_password_hash :: string
  usr_initialized :: time
  usr_last_login :: "time option"

record auth_session =
  as_token_hash :: string
  as_csrf_hash :: string
  as_user :: string
  as_expires :: time
  as_absolute :: time
  as_last_seen :: time
  as_created :: time

record auth_db =
  db_users :: "account list"
  db_sessions :: "auth_session list"

datatype auth_error = ErrAlreadyInitialized | ErrAuthNotFound | ErrInvalidCredentials | ErrInvalidSession
  | ErrInvalidCurrentPassword | ErrInvalidUsername | ErrPassword password_error | ErrAuthDatabase | ErrAuthRandom

text \<open>Which statements of a request the driver fails.\<close>

datatype auth_statement = CountUsers | InsertUser | SelectUser | SelectSession | InsertSession | UpdateLogin
  | TouchRow | DeleteRow | UpdatePassword

type_synonym auth_faults = "auth_statement \<Rightarrow> bool"

definition is_initialized :: "auth_faults \<Rightarrow> auth_db \<Rightarrow> auth_error + bool" where
  "is_initialized f db = (if f CountUsers then Inl ErrAuthDatabase else Inr (0 < length (db_users db)))"

text \<open>The primary key of every user is the constant 1, so a second row is a duplicate.\<close>

definition initialize_user :: "auth_faults \<Rightarrow> account \<Rightarrow> auth_db \<Rightarrow> (auth_error + unit) \<times> auth_db" where
  "initialize_user f u db =
     (if f InsertUser then (Inl ErrAuthDatabase, db)
      else if db_users db \<noteq> [] then (Inl ErrAlreadyInitialized, db)
      else (Inr (), db\<lparr>db_users := [u]\<rparr>))"

definition find_user :: "auth_faults \<Rightarrow> (account \<Rightarrow> string) \<Rightarrow> string \<Rightarrow> auth_db \<Rightarrow> auth_error + account" where
  "find_user f column v db =
     (if f SelectUser then Inl ErrAuthDatabase
      else (case find_by column v (db_users db) of None \<Rightarrow> Inl ErrAuthNotFound | Some u \<Rightarrow> Inr u))"

definition update_last_login :: "auth_faults \<Rightarrow> string \<Rightarrow> time \<Rightarrow> auth_db \<Rightarrow> (auth_error + unit) \<times> auth_db" where
  "update_last_login f i at db =
     (if f UpdateLogin then (Inl ErrAuthDatabase, db)
      else (Inr (), db\<lparr>db_users := update_where (\<lambda>u. usr_id u = i) (\<lambda>u. u\<lparr>usr_last_login := Some at\<rparr>) (db_users db)\<rparr>))"

text \<open>The token hash is the primary key; the user must exist.\<close>

definition create_session :: "auth_faults \<Rightarrow> auth_session \<Rightarrow> auth_db \<Rightarrow> (auth_error + unit) \<times> auth_db" where
  "create_session f s db =
     (if f InsertSession \<or> find_by as_token_hash (as_token_hash s) (db_sessions db) \<noteq> None \<or>
         find_by usr_id (as_user s) (db_users db) = None
      then (Inl ErrAuthDatabase, db) else (Inr (), db\<lparr>db_sessions := db_sessions db @ [s]\<rparr>))"

definition find_session :: "auth_faults \<Rightarrow> string \<Rightarrow> auth_db \<Rightarrow> auth_error + auth_session" where
  "find_session f h db =
     (if f SelectSession then Inl ErrAuthDatabase
      else (case find_by as_token_hash h (db_sessions db) of None \<Rightarrow> Inl ErrAuthNotFound | Some s \<Rightarrow> Inr s))"

definition touch_session :: "auth_faults \<Rightarrow> string \<Rightarrow> time \<Rightarrow> time \<Rightarrow> auth_db \<Rightarrow> (auth_error + unit) \<times> auth_db" where
  "touch_session f h seen expires db =
     (if f TouchRow then (Inl ErrAuthDatabase, db)
      else (Inr (), db\<lparr>db_sessions := update_where (\<lambda>s. as_token_hash s = h)
              (\<lambda>s. s\<lparr>as_last_seen := seen, as_expires := expires\<rparr>) (db_sessions db)\<rparr>))"

definition delete_session :: "auth_faults \<Rightarrow> string \<Rightarrow> auth_db \<Rightarrow> (auth_error + unit) \<times> auth_db" where
  "delete_session f h db =
     (if f DeleteRow then (Inl ErrAuthDatabase, db)
      else (Inr (), db\<lparr>db_sessions := filter (\<lambda>s. as_token_hash s \<noteq> h) (db_sessions db)\<rparr>))"

definition update_password_and_revoke :: "auth_faults \<Rightarrow> string \<Rightarrow> string \<Rightarrow> string \<Rightarrow> auth_db \<Rightarrow> (auth_error + unit) \<times> auth_db" where
  "update_password_and_revoke f i hash keep db =
     (if f UpdatePassword then (Inl ErrAuthDatabase, db)
      else (Inr (), db\<lparr>db_users := update_where (\<lambda>u. usr_id u = i) (\<lambda>u. u\<lparr>usr_password_hash := hash\<rparr>) (db_users db),
                       db_sessions := filter (\<lambda>s. \<not> (as_user s = i \<and> as_token_hash s \<noteq> keep)) (db_sessions db)\<rparr>))"

section \<open>The service\<close>

text \<open>The options of the service, and what one call meets: faults, clock, random bytes, salt and generated id.\<close>

record auth_service =
  sv_hash :: "string option \<Rightarrow> string \<Rightarrow> password_error + string"
  sv_verify :: "string \<Rightarrow> string \<Rightarrow> password_error + bool"
  sv_sha :: "string \<Rightarrow> string"
  sv_idle :: time
  sv_absolute :: time
  sv_touch :: time

record auth_env =
  av_fault :: auth_faults
  av_now :: time
  av_random :: "(string \<times> string) option"
  av_salt :: "string option"
  av_id :: string

definition default_service :: "(string option \<Rightarrow> string \<Rightarrow> password_error + string) \<Rightarrow> (string \<Rightarrow> string \<Rightarrow> password_error + bool)
    \<Rightarrow> (string \<Rightarrow> string) \<Rightarrow> auth_service" where
  "default_service hash verify sha = \<lparr>sv_hash = hash, sv_verify = verify, sv_sha = sha,
     sv_idle = 12 * 3600 * second, sv_absolute = 7 * 24 * 3600 * second, sv_touch = 5 * 60 * second\<rparr>"

definition normalizeUsername :: "string \<Rightarrow> string" where
  "normalizeUsername s = go_lower (go_trim s)"

definition initialize :: "auth_service \<Rightarrow> auth_env \<Rightarrow> string \<Rightarrow> string \<Rightarrow> auth_db \<Rightarrow> (auth_error + unit) \<times> auth_db" where
  "initialize sv env username password db =
     (let name = go_trim username
      in if name = [] \<or> length name > 255 then (Inl ErrInvalidUsername, db)
         else (case sv_hash sv (av_salt env) password of
                 Inl e \<Rightarrow> (Inl (ErrPassword e), db)
               | Inr h \<Rightarrow> initialize_user (av_fault env)
                   \<lparr>usr_id = av_id env, usr_name = name, usr_normalized = normalizeUsername name, usr_password_hash = h,
                    usr_initialized = av_now env, usr_last_login = None\<rparr> db))"

record session_grant =
  gr_session :: string
  gr_csrf :: string
  gr_expires :: time
  gr_user :: account

definition new_session :: "auth_service \<Rightarrow> auth_env \<Rightarrow> account \<Rightarrow> (session_grant \<times> auth_session) option" where
  "new_session sv env u =
     (case av_random env of
        None \<Rightarrow> None
      | Some (raw, csrf) \<Rightarrow>
          (let token = base64_encode url_alphabet raw; csrf_token = base64_encode url_alphabet csrf; now = av_now env
           in Some (\<lparr>gr_session = token, gr_csrf = csrf_token, gr_expires = now + sv_idle sv, gr_user = u\<rparr>,
                    \<lparr>as_token_hash = sv_sha sv token, as_csrf_hash = sv_sha sv csrf_token, as_user = usr_id u,
                     as_expires = now + sv_idle sv, as_absolute = now + sv_absolute sv, as_last_seen = now, as_created = now\<rparr>)))"

text \<open>\<open>Login\<close> in two parts: reading and checking, and storing the session.\<close>

definition login_check :: "auth_service \<Rightarrow> auth_env \<Rightarrow> string \<Rightarrow> string \<Rightarrow> auth_db \<Rightarrow> auth_error + session_grant \<times> auth_session" where
  "login_check sv env username password db =
     (case find_user (av_fault env) usr_normalized (normalizeUsername username) db of
        Inl ErrAuthNotFound \<Rightarrow> Inl ErrInvalidCredentials
      | Inl e \<Rightarrow> Inl e
      | Inr u \<Rightarrow>
          (if sv_verify sv (usr_password_hash u) password \<noteq> Inr True then Inl ErrInvalidCredentials
           else (case new_session sv env u of None \<Rightarrow> Inl ErrAuthRandom | Some p \<Rightarrow> Inr p)))"

definition login_store :: "auth_env \<Rightarrow> session_grant \<times> auth_session \<Rightarrow> auth_db \<Rightarrow> (auth_error + session_grant) \<times> auth_db" where
  "login_store env p db =
     (case p of (grant, s) \<Rightarrow>
        (case create_session (av_fault env) s db of
           (Inl e, db1) \<Rightarrow> (Inl e, db1)
         | (Inr _, db1) \<Rightarrow>
             (case update_last_login (av_fault env) (as_user s) (av_now env) db1 of
                (Inl e, db2) \<Rightarrow> (Inl e, snd (delete_session (av_fault env) (as_token_hash s) db2))
              | (Inr _, db2) \<Rightarrow> (Inr grant, db2))))"

definition login :: "auth_service \<Rightarrow> auth_env \<Rightarrow> string \<Rightarrow> string \<Rightarrow> auth_db \<Rightarrow> (auth_error + session_grant) \<times> auth_db" where
  "login sv env username password db =
     (case login_check sv env username password db of Inl e \<Rightarrow> (Inl e, db) | Inr p \<Rightarrow> login_store env p db)"

definition authenticate :: "auth_service \<Rightarrow> auth_env \<Rightarrow> string \<Rightarrow> auth_db \<Rightarrow> (auth_error + account \<times> auth_session) \<times> auth_db" where
  "authenticate sv env token db =
     (let h = sv_sha sv token; now = av_now env
      in if token = [] then (Inl ErrInvalidSession, db)
         else (case find_session (av_fault env) h db of
                 Inl _ \<Rightarrow> (Inl ErrInvalidSession, db)
               | Inr s \<Rightarrow>
                   (if \<not> now < as_expires s \<or> \<not> now < as_absolute s
                    then (Inl ErrInvalidSession, snd (delete_session (av_fault env) h db))
                    else (case find_user (av_fault env) usr_id (as_user s) db of
                            Inl _ \<Rightarrow> (Inl ErrInvalidSession, db)
                          | Inr u \<Rightarrow>
                              (if as_last_seen s + sv_touch sv \<le> now then
                                 (let expires = min (now + sv_idle sv) (as_absolute s)
                                  in case touch_session (av_fault env) h now expires db of
                                       (Inl e, db') \<Rightarrow> (Inl e, db')
                                     | (Inr _, db') \<Rightarrow> (Inr (u, s\<lparr>as_last_seen := now, as_expires := expires\<rparr>), db'))
                               else (Inr (u, s), db))))))"

definition logout :: "auth_service \<Rightarrow> auth_env \<Rightarrow> string \<Rightarrow> auth_db \<Rightarrow> (auth_error + unit) \<times> auth_db" where
  "logout sv env token db = (if token = [] then (Inr (), db) else delete_session (av_fault env) (sv_sha sv token) db)"

definition change_password :: "auth_service \<Rightarrow> auth_env \<Rightarrow> string \<Rightarrow> string \<Rightarrow> string \<Rightarrow> auth_db \<Rightarrow> (auth_error + unit) \<times> auth_db" where
  "change_password sv env token current new db =
     (case authenticate sv env token db of
        (Inl e, db1) \<Rightarrow> (Inl e, db1)
      | (Inr (u, s), db1) \<Rightarrow>
          (if sv_verify sv (usr_password_hash u) current \<noteq> Inr True then (Inl ErrInvalidCurrentPassword, db1)
           else (case sv_hash sv (av_salt env) new of
                   Inl e \<Rightarrow> (Inl (ErrPassword e), db1)
                 | Inr h \<Rightarrow> update_password_and_revoke (av_fault env) (usr_id u) h (as_token_hash s) db1)))"

section \<open>HTTP\<close>

text \<open>
  A request as the handlers look at it: absent headers are empty, \<open>aq_body\<close> is the one JSON value of a body of at
  most 64 KiB, \<open>None\<close> otherwise. \<open>ho_parse\<close> is \<^verbatim>\<open>url.Parse\<close>: scheme and host.
\<close>

record auth_request =
  aq_method :: string
  aq_cookies :: "(string \<times> string) list"
  aq_origin :: string
  aq_fetch_site :: string
  aq_csrf :: string
  aq_host :: string
  aq_body :: "json option"

record http_options =
  ho_public_origin :: string
  ho_secure_cookies :: bool
  ho_parse :: "string \<Rightarrow> (string \<times> string) option"

record set_cookie =
  ck_name :: string
  ck_value :: string
  ck_expires :: time
  ck_delete :: bool
  ck_http_only :: bool
  ck_secure :: bool

record auth_response =
  ar_http :: http_response
  ar_cookies :: "set_cookie list"

definition plain_response :: "http_response \<Rightarrow> auth_response" where
  "plain_response r = \<lparr>ar_http = r, ar_cookies = []\<rparr>"

definition no_content :: http_response where
  "no_content = \<lparr>hr_status = 204, hr_body = JNull\<rparr>"

definition sessionCookieName :: string where
  "sessionCookieName = ''controlpanel_session''"

definition csrfCookieName :: string where
  "csrfCookieName = ''controlpanel_csrf''"

definition setAuthCookies :: "http_options \<Rightarrow> session_grant \<Rightarrow> set_cookie list" where
  "setAuthCookies ho g =
     [\<lparr>ck_name = sessionCookieName, ck_value = gr_session g, ck_expires = gr_expires g, ck_delete = False,
       ck_http_only = True, ck_secure = ho_secure_cookies ho\<rparr>,
      \<lparr>ck_name = csrfCookieName, ck_value = gr_csrf g, ck_expires = gr_expires g, ck_delete = False,
       ck_http_only = False, ck_secure = ho_secure_cookies ho\<rparr>]"

definition clearAuthCookies :: "http_options \<Rightarrow> set_cookie list" where
  "clearAuthCookies ho = map (\<lambda>n. \<lparr>ck_name = n, ck_value = [], ck_expires = second, ck_delete = True,
     ck_http_only = (n = sessionCookieName), ck_secure = ho_secure_cookies ho\<rparr>) [sessionCookieName, csrfCookieName]"

definition user_response :: "account \<Rightarrow> json" where
  "user_response u = JObj [(''user'', JObj [(''id'', JStr (usr_id u)), (''username'', JStr (usr_name u))])]"

text \<open>
  \<open>decodeJSON\<close> into a struct of strings: names are matched without case, an unknown name and a value of another
  type are errors, \<^verbatim>\<open>null\<close> leaves a field as it is.
\<close>

fun decode_members :: "string list \<Rightarrow> (string \<times> json) list \<Rightarrow> (string \<times> string) list \<Rightarrow> (string \<times> string) list option" where
  "decode_members names [] acc = Some acc"
| "decode_members names ((k, v) # ms) acc =
     (case List.find (\<lambda>n. go_lower n = go_lower k) names of
        None \<Rightarrow> None
      | Some n \<Rightarrow> (case v of
                     JStr s \<Rightarrow> decode_members names ms (put_key n s acc)
                   | JNull \<Rightarrow> decode_members names ms acc
                   | _ \<Rightarrow> None))"

definition decode_strings :: "string list \<Rightarrow> json option \<Rightarrow> (string \<Rightarrow> string) option" where
  "decode_strings names body =
     (case body of
        Some (JObj ms) \<Rightarrow> map_option (\<lambda>al n. case map_of al n of None \<Rightarrow> [] | Some s \<Rightarrow> s) (decode_members names ms [])
      | Some JNull \<Rightarrow> Some (\<lambda>_. [])
      | _ \<Rightarrow> None)"

definition requireOrigin :: "http_options \<Rightarrow> string \<Rightarrow> auth_request \<Rightarrow> http_response option" where
  "requireOrigin ho i q =
     (if aq_origin q \<noteq> [] then
        (if (ho_public_origin ho \<noteq> [] \<and> aq_origin q \<noteq> ho_public_origin ho) \<or>
            (ho_public_origin ho = [] \<and>
             \<not> (case ho_parse ho (aq_origin q) of None \<Rightarrow> False
                 | Some (scheme, host) \<Rightarrow> (scheme = ''http'' \<or> scheme = ''https'') \<and> host = aq_host q))
         then Some (write_error i 403 ''origin_rejected'' ''Request origin is not allowed'') else None)
      else if go_lower (aq_fetch_site q) \<noteq> ''same-origin''
           then Some (write_error i 403 ''origin_required'' ''Request origin is required'') else None)"

definition requireCSRF :: "auth_service \<Rightarrow> string \<Rightarrow> auth_session \<Rightarrow> auth_request \<Rightarrow> http_response option" where
  "requireCSRF sv i s q =
     (if aq_csrf q = [] \<or> map_of (aq_cookies q) csrfCookieName \<noteq> Some (aq_csrf q) \<or> sv_sha sv (aq_csrf q) \<noteq> as_csrf_hash s
      then Some (write_error i 403 ''csrf_rejected'' ''CSRF validation failed'') else None)"

definition safe_request :: "auth_request \<Rightarrow> bool" where
  "safe_request q \<longleftrightarrow> aq_method q \<in> {''GET'', ''HEAD'', ''OPTIONS''}"

definition requireMutationSecurity :: "auth_service \<Rightarrow> http_options \<Rightarrow> string \<Rightarrow> auth_session \<Rightarrow> auth_request \<Rightarrow> http_response option" where
  "requireMutationSecurity sv ho i s q =
     (if safe_request q then None
      else (case requireOrigin ho i q of Some r \<Rightarrow> Some r | None \<Rightarrow> requireCSRF sv i s q))"

text \<open>\<open>requireSession\<close>: the response that ends the request, or the user and session it goes on with.\<close>

definition requireSession :: "auth_service \<Rightarrow> http_options \<Rightarrow> string \<Rightarrow> auth_env \<Rightarrow> auth_request \<Rightarrow> auth_db
    \<Rightarrow> (auth_response + string \<times> account \<times> auth_session) \<times> auth_db" where
  "requireSession sv ho i env q db =
     (let refused = write_error i 401 ''unauthenticated'' ''Authentication is required''
      in case map_of (aq_cookies q) sessionCookieName of
           None \<Rightarrow> (Inl (plain_response refused), db)
         | Some token \<Rightarrow>
             (case authenticate sv env token db of
                (Inl _, db') \<Rightarrow> (Inl \<lparr>ar_http = refused, ar_cookies = clearAuthCookies ho\<rparr>, db')
              | (Inr (u, s), db') \<Rightarrow> (Inr (token, u, s), db')))"

definition setupStatus_route :: "string \<Rightarrow> auth_env \<Rightarrow> auth_db \<Rightarrow> auth_response" where
  "setupStatus_route i env db = plain_response
     (case is_initialized (av_fault env) db of
        Inl _ \<Rightarrow> write_error i 500 ''internal_error'' ''Unable to check setup status''
      | Inr b \<Rightarrow> \<lparr>hr_status = 200, hr_body = JObj [(''requires_setup'', JBool (\<not> b))]\<rparr>)"

definition granted :: "http_options \<Rightarrow> nat \<Rightarrow> session_grant \<Rightarrow> auth_response" where
  "granted ho status g = \<lparr>ar_http = \<lparr>hr_status = status, hr_body = user_response (gr_user g)\<rparr>, ar_cookies = setAuthCookies ho g\<rparr>"

definition initialize_route :: "auth_service \<Rightarrow> http_options \<Rightarrow> string \<Rightarrow> auth_env \<Rightarrow> auth_request \<Rightarrow> auth_db \<Rightarrow> auth_response \<times> auth_db" where
  "initialize_route sv ho i env q db =
     (case requireOrigin ho i q of
        Some r \<Rightarrow> (plain_response r, db)
      | None \<Rightarrow>
          (case decode_strings [''username'', ''password''] (aq_body q) of
             None \<Rightarrow> (plain_response (write_error i 400 ''invalid_request'' ''Request body is invalid''), db)
           | Some field \<Rightarrow>
               (case initialize sv env (field ''username'') (field ''password'') db of
                  (Inl ErrAlreadyInitialized, db1) \<Rightarrow>
                    (plain_response (write_error i 409 ''already_initialized'' ''Administrator is already initialized''), db1)
                | (Inl _, db1) \<Rightarrow> (plain_response (write_error i 400 ''invalid_setup'' ''Administrator settings are invalid''), db1)
                | (Inr _, db1) \<Rightarrow>
                    (case login sv env (field ''username'') (field ''password'') db1 of
                       (Inl _, db2) \<Rightarrow>
                         (plain_response (write_error i 500 ''internal_error'' ''Administrator was created but login failed''), db2)
                     | (Inr g, db2) \<Rightarrow> (granted ho 201 g, db2)))))"

definition login_route :: "auth_service \<Rightarrow> http_options \<Rightarrow> string \<Rightarrow> auth_env \<Rightarrow> auth_request \<Rightarrow> auth_db \<Rightarrow> auth_response \<times> auth_db" where
  "login_route sv ho i env q db =
     (case requireOrigin ho i q of
        Some r \<Rightarrow> (plain_response r, db)
      | None \<Rightarrow>
          (case decode_strings [''username'', ''password''] (aq_body q) of
             None \<Rightarrow> (plain_response (write_error i 400 ''invalid_request'' ''Request body is invalid''), db)
           | Some field \<Rightarrow>
               (case login sv env (field ''username'') (field ''password'') db of
                  (Inl _, db1) \<Rightarrow> (plain_response (write_error i 401 ''invalid_credentials'' ''Username or password is invalid''), db1)
                | (Inr g, db1) \<Rightarrow> (granted ho 200 g, db1))))"

text \<open>The routes behind \<open>requireSession\<close>; \<open>Forwarded\<close> is a request that reaches the handlers of the other packages.\<close>

datatype session_route = RouteMe | RouteLogout | RoutePassword | RouteProtected

datatype served = Answered auth_response | Forwarded account auth_session

definition with_csrf :: "auth_service \<Rightarrow> http_options \<Rightarrow> string \<Rightarrow> auth_session \<Rightarrow> auth_request \<Rightarrow> http_response option" where
  "with_csrf sv ho i s q = (case requireOrigin ho i q of Some r \<Rightarrow> Some r | None \<Rightarrow> requireCSRF sv i s q)"

definition logout_route :: "auth_service \<Rightarrow> http_options \<Rightarrow> string \<Rightarrow> auth_env \<Rightarrow> string \<Rightarrow> auth_db \<Rightarrow> auth_response \<times> auth_db" where
  "logout_route sv ho i env token db =
     (case logout sv env token db of
        (Inl _, db') \<Rightarrow> (plain_response (write_error i 500 ''internal_error'' ''Unable to log out''), db')
      | (Inr _, db') \<Rightarrow> (\<lparr>ar_http = no_content, ar_cookies = clearAuthCookies ho\<rparr>, db'))"

definition password_route :: "auth_service \<Rightarrow> string \<Rightarrow> auth_env \<Rightarrow> string \<Rightarrow> json option \<Rightarrow> auth_db \<Rightarrow> auth_response \<times> auth_db" where
  "password_route sv i env token body db =
     (case decode_strings [''current_password'', ''new_password''] body of
        None \<Rightarrow> (plain_response (write_error i 400 ''invalid_request'' ''Request body is invalid''), db)
      | Some field \<Rightarrow>
          (case change_password sv env token (field ''current_password'') (field ''new_password'') db of
             (Inl ErrInvalidCurrentPassword, db') \<Rightarrow>
               (plain_response (write_error i 400 ''invalid_current_password'' ''Current password is invalid''), db')
           | (Inl _, db') \<Rightarrow> (plain_response (write_error i 400 ''invalid_password'' ''New password is invalid''), db')
           | (Inr _, db') \<Rightarrow> (plain_response no_content, db')))"

definition session_request :: "auth_service \<Rightarrow> http_options \<Rightarrow> string \<Rightarrow> auth_env \<Rightarrow> session_route \<Rightarrow> auth_request \<Rightarrow> auth_db \<Rightarrow> served \<times> auth_db" where
  "session_request sv ho i env route q db =
     (case requireSession sv ho i env q db of
        (Inl r, db1) \<Rightarrow> (Answered r, db1)
      | (Inr (token, u, s), db1) \<Rightarrow>
          (case route of
             RouteMe \<Rightarrow> (Answered (plain_response \<lparr>hr_status = 200, hr_body = user_response u\<rparr>), db1)
           | RouteLogout \<Rightarrow>
               (case with_csrf sv ho i s q of
                  Some r \<Rightarrow> (Answered (plain_response r), db1)
                | None \<Rightarrow> apfst Answered (logout_route sv ho i env token db1))
           | RoutePassword \<Rightarrow>
               (case with_csrf sv ho i s q of
                  Some r \<Rightarrow> (Answered (plain_response r), db1)
                | None \<Rightarrow> apfst Answered (password_route sv i env token (aq_body q) db1))
           | RouteProtected \<Rightarrow>
               (case requireMutationSecurity sv ho i s q of
                  Some r \<Rightarrow> (Answered (plain_response r), db1)
                | None \<Rightarrow> (Forwarded u s, db1))))"

section \<open>The browser's cookies\<close>

text \<open>
  A cookie jar for the site: a cookie that is set replaces the one of its name, and one with a negative
  \<^verbatim>\<open>Max-Age\<close> is removed. A cookie is sent, and visible to \<^verbatim>\<open>document.cookie\<close> unless it is
  \<^verbatim>\<open>HttpOnly\<close>, until it expires; the header gives the expiry in whole seconds.
\<close>

type_synonym cookie_jar = "set_cookie list"

definition store_cookie :: "set_cookie \<Rightarrow> cookie_jar \<Rightarrow> cookie_jar" where
  "store_cookie c jar =
     (let others = filter (\<lambda>d. ck_name d \<noteq> ck_name c) jar in if ck_delete c then others else others @ [c])"

definition store_cookies :: "set_cookie list \<Rightarrow> cookie_jar \<Rightarrow> cookie_jar" where
  "store_cookies cs jar = fold store_cookie cs jar"

definition sent_cookies :: "time \<Rightarrow> cookie_jar \<Rightarrow> (string \<times> string) list" where
  "sent_cookies now jar = map (\<lambda>c. (ck_name c, ck_value c)) (filter (\<lambda>c. now < ck_expires c div second * second) jar)"

fun cookie_text :: "(string \<times> string) list \<Rightarrow> string" where
  "cookie_text [] = []"
| "cookie_text [(n, v)] = n @ ''='' @ v"
| "cookie_text ((n, v) # c # cs) = n @ ''='' @ v @ ''; '' @ cookie_text (c # cs)"

definition visible_cookies :: "time \<Rightarrow> cookie_jar \<Rightarrow> string" where
  "visible_cookies now jar = cookie_text (sent_cookies now (filter (\<lambda>c. \<not> ck_http_only c) jar))"

section \<open>Runs\<close>

text \<open>
  The calls that reach the service, in any order; the two parts of a login are separate events, so that
  anything may happen between checking a password and storing the session.
\<close>

record auth_system =
  au_db :: auth_db
  au_checked :: "(session_grant \<times> auth_session) list"

datatype login_event = DoInitialize auth_env string string | DoLoginCheck auth_env string string | DoLoginStore auth_env nat
  | DoAuthenticate auth_env string | DoLogout auth_env string | DoChangePassword auth_env string string string

fun auth_step :: "auth_service \<Rightarrow> login_event \<Rightarrow> auth_system \<Rightarrow> auth_system" where
  "auth_step sv (DoInitialize env u p) y = y\<lparr>au_db := snd (initialize sv env u p (au_db y))\<rparr>"
| "auth_step sv (DoLoginCheck env u p) y =
     (case login_check sv env u p (au_db y) of Inl _ \<Rightarrow> y | Inr g \<Rightarrow> y\<lparr>au_checked := au_checked y @ [g]\<rparr>)"
| "auth_step sv (DoLoginStore env n) y =
     (if n < length (au_checked y) then y\<lparr>au_db := snd (login_store env (au_checked y ! n) (au_db y))\<rparr> else y)"
| "auth_step sv (DoAuthenticate env token) y = y\<lparr>au_db := snd (authenticate sv env token (au_db y))\<rparr>"
| "auth_step sv (DoLogout env token) y = y\<lparr>au_db := snd (logout sv env token (au_db y))\<rparr>"
| "auth_step sv (DoChangePassword env token a b) y = y\<lparr>au_db := snd (change_password sv env token a b (au_db y))\<rparr>"

definition new_system :: auth_system where
  "new_system = \<lparr>au_db = \<lparr>db_users = [], db_sessions = []\<rparr>, au_checked = []\<rparr>"

definition service_run :: "auth_service \<Rightarrow> login_event list \<Rightarrow> auth_system" where
  "service_run sv es = fold (auth_step sv) es new_system"

section \<open>The invariant\<close>

definition session_ok :: "auth_service \<Rightarrow> auth_session \<Rightarrow> bool" where
  "session_ok sv s \<longleftrightarrow> as_absolute s = as_created s + sv_absolute sv \<and> as_expires s \<le> as_last_seen s + sv_idle sv"

definition db_ok :: "auth_service \<Rightarrow> auth_db \<Rightarrow> bool" where
  "db_ok sv db \<longleftrightarrow> length (db_users db) \<le> 1 \<and> distinct (map as_token_hash (db_sessions db)) \<and>
     (\<forall>s \<in> set (db_sessions db). session_ok sv s \<and> as_user s \<in> usr_id ` set (db_users db))"

lemma db_okD: "db_ok sv db \<Longrightarrow> s \<in> set (db_sessions db) \<Longrightarrow> session_ok sv s"
  by (simp add: db_ok_def)

lemma db_ok_filter: "db_ok sv db \<Longrightarrow> db_ok sv (db\<lparr>db_sessions := filter P (db_sessions db)\<rparr>)"
  by (auto simp: db_ok_def distinct_map inj_on_def)

lemma db_ok_users:
  assumes "db_ok sv db" and "\<And>u. usr_id (f u) = usr_id u"
  shows "db_ok sv (db\<lparr>db_users := update_where P f (db_users db)\<rparr>)"
proof -
  have "usr_id ` set (update_where P f (db_users db)) = usr_id ` set (db_users db)"
    using assms(2) map_update_where [of P usr_id f "db_users db"] by (metis list.set_map)
  then show ?thesis using assms(1) by (simp add: db_ok_def)
qed

lemma initialize_ok:
  assumes "db_ok sv db"
  shows "db_ok sv (snd (initialize sv env u p db))"
proof -
  have "snd (initialize sv env u p db) = db \<or> (db_users db = [] \<and> (\<exists>a. snd (initialize sv env u p db) = db\<lparr>db_users := [a]\<rparr>))"
    by (auto simp: initialize_def initialize_user_def Let_def split: sum.splits)
  moreover have "db_users db = [] \<Longrightarrow> db_sessions db = []" using assms by (cases "db_sessions db") (auto simp: db_ok_def)
  ultimately show ?thesis using assms by (auto simp: db_ok_def)
qed

lemma create_session_ok:
  assumes "db_ok sv db" and "session_ok sv s" and "create_session f s db = (res, db')"
  shows "db_ok sv db'"
  using assms by (auto simp: db_ok_def create_session_def find_by_None split: if_splits)

lemma delete_session_ok: "db_ok sv db \<Longrightarrow> db_ok sv (snd (delete_session f h db))"
  by (simp add: delete_session_def db_ok_filter)

lemma update_login_ok: "db_ok sv db \<Longrightarrow> update_last_login f i t db = (res, db') \<Longrightarrow> db_ok sv db'"
  by (auto simp: update_last_login_def split: if_splits intro: db_ok_users)

lemma login_store_ok:
  assumes "db_ok sv db" and "session_ok sv (snd p)"
  shows "db_ok sv (snd (login_store env p db))"
proof -
  obtain g s where p: "p = (g, s)" by fastforce
  obtain r db1 where c: "create_session (av_fault env) s db = (r, db1)" by fastforce
  obtain r2 db2 where l: "update_last_login (av_fault env) (as_user s) (av_now env) db1 = (r2, db2)" by fastforce
  have "db_ok sv db1" using create_session_ok [OF assms(1) _ c] assms(2) p by simp
  moreover from this have "db_ok sv db2" using update_login_ok l by blast
  ultimately show ?thesis using p c l delete_session_ok by (auto simp: login_store_def split: sum.splits)
qed

lemma touch_session_ok:
  assumes "db_ok sv db" and "touch_session f h seen expires db = (res, db')" and "expires \<le> seen + sv_idle sv"
  shows "db_ok sv db'"
proof (cases "f TouchRow")
  case False
  let ?g = "\<lambda>s. s\<lparr>as_last_seen := seen, as_expires := expires\<rparr>"
  have db': "db' = db\<lparr>db_sessions := update_where (\<lambda>s. as_token_hash s = h) ?g (db_sessions db)\<rparr>"
    using assms(2) False by (simp add: touch_session_def)
  have "map as_token_hash (db_sessions db') = map as_token_hash (db_sessions db)"
    unfolding db' by (simp add: map_update_where)
  moreover have "session_ok sv s \<Longrightarrow> session_ok sv (?g s)" for s
    using assms(3) by (simp add: session_ok_def)
  ultimately show ?thesis using assms(1) unfolding db_ok_def by (auto simp: db' set_update_where)
qed (use assms in \<open>simp add: touch_session_def\<close>)

lemma authenticate_cases:
  assumes "authenticate sv env token db = (res, db')"
  obtains (same) "db' = db" "\<forall>u s. res = Inr (u, s) \<longrightarrow> s \<in> set (db_sessions db) \<and>
        as_token_hash s = sv_sha sv token \<and> av_now env < as_expires s \<and> av_now env < as_absolute s \<and> as_user s = usr_id u \<and> u \<in> set (db_users db)"
    | (expired) e where "res = Inl e" "db' = snd (delete_session (av_fault env) (sv_sha sv token) db)"
    | (touched) u s r where "s \<in> set (db_sessions db)" "as_token_hash s = sv_sha sv token" "av_now env < as_expires s" "av_now env < as_absolute s"
        "as_user s = usr_id u" "u \<in> set (db_users db)"
        "touch_session (av_fault env) (sv_sha sv token) (av_now env) (min (av_now env + sv_idle sv) (as_absolute s)) db = (r, db')"
        "case r of Inl e \<Rightarrow> res = Inl e | Inr _ \<Rightarrow> res = Inr (u, s\<lparr>as_last_seen := av_now env, as_expires := min (av_now env + sv_idle sv) (as_absolute s)\<rparr>)"
proof (cases "token = []")
  case True
  then show ?thesis using assms that(1) by (auto simp: authenticate_def)
next
  case nonempty: False
  show ?thesis
  proof (cases "find_session (av_fault env) (sv_sha sv token) db")
    case (Inl e)
    then show ?thesis using assms nonempty that(1) by (auto simp: authenticate_def)
  next
    case (Inr s)
    then have s: "s \<in> set (db_sessions db)" "as_token_hash s = sv_sha sv token"
      by (auto simp: find_session_def dest: find_by_SomeD split: if_splits option.splits)
    show ?thesis
    proof (cases "av_now env < as_expires s \<and> av_now env < as_absolute s")
      case False
      then show ?thesis using assms nonempty Inr that(2) by (auto simp: authenticate_def)
    next
      case valid: True
      show ?thesis
      proof (cases "find_user (av_fault env) usr_id (as_user s) db")
        case (Inl e)
        then show ?thesis using assms nonempty Inr valid that(1) \<open>find_session _ _ _ = Inr s\<close> by (auto simp: authenticate_def)
      next
        case (Inr u)
        then have u: "as_user s = usr_id u" "u \<in> set (db_users db)"
          by (auto simp: find_user_def dest: find_by_SomeD split: if_splits option.splits)
        obtain r dbt where t: "touch_session (av_fault env) (sv_sha sv token) (av_now env) (min (av_now env + sv_idle sv) (as_absolute s)) db = (r, dbt)"
          by fastforce
        show ?thesis
        proof (cases "as_last_seen s + sv_touch sv \<le> av_now env")
          case True
          have "db' = dbt \<and> (case r of Inl e \<Rightarrow> res = Inl e
              | Inr _ \<Rightarrow> res = Inr (u, s\<lparr>as_last_seen := av_now env, as_expires := min (av_now env + sv_idle sv) (as_absolute s)\<rparr>))"
            using assms nonempty valid Inr True t \<open>find_session _ _ _ = Inr s\<close>
            by (auto simp: authenticate_def Let_def split: sum.splits)
          then show ?thesis using that(3) s valid u t by blast
        next
          case False
          then have "db' = db \<and> res = Inr (u, s)"
            using assms nonempty valid Inr \<open>find_session _ _ _ = Inr s\<close> by (auto simp: authenticate_def Let_def)
          then show ?thesis using that(1) s valid u by auto
        qed
      qed
    qed
  qed
qed

lemma authenticate_ok:
  assumes "db_ok sv db" and "authenticate sv env token db = (res, db')"
  shows "db_ok sv db'"
  using assms(2)
proof (cases rule: authenticate_cases)
  case (expired e)
  then show ?thesis using delete_session_ok [OF assms(1)] by simp
next
  case (touched u s r)
  show ?thesis by (rule touch_session_ok [OF assms(1) touched(7)]) simp
qed (use assms(1) in simp)

lemma change_password_ok:
  assumes "db_ok sv db"
  shows "db_ok sv (snd (change_password sv env token a b db))"
proof -
  obtain res db1 where a: "authenticate sv env token db = (res, db1)" by fastforce
  have ok: "db_ok sv db1" by (rule authenticate_ok [OF assms a])
  have "db_ok sv (snd (update_password_and_revoke f i h k db1))" for f i h k
    using db_ok_filter [OF db_ok_users [OF ok, of "\<lambda>u. u\<lparr>usr_password_hash := h\<rparr>" "\<lambda>u. usr_id u = i"]]
    by (auto simp: update_password_and_revoke_def ok)
  then show ?thesis using a ok by (auto simp: change_password_def split: sum.splits)
qed

lemma login_check_session:
  assumes "login_check sv env u p db = Inr (g, s)"
  shows "session_ok sv s \<and> as_token_hash s = sv_sha sv (gr_session g) \<and> as_csrf_hash s = sv_sha sv (gr_csrf g) \<and>
    as_expires s = av_now env + sv_idle sv \<and> as_absolute s = av_now env + sv_absolute sv \<and> as_last_seen s = av_now env \<and>
    gr_expires g = av_now env + sv_idle sv \<and> gr_user g \<in> set (db_users db) \<and> as_user s = usr_id (gr_user g) \<and>
    sv_verify sv (usr_password_hash (gr_user g)) p = Inr True \<and> usr_normalized (gr_user g) = normalizeUsername u \<and>
    (\<exists>raw csrf. gr_session g = base64_encode url_alphabet raw \<and> gr_csrf g = base64_encode url_alphabet csrf \<and> av_random env = Some (raw, csrf))"
proof -
  obtain a where a: "find_user (av_fault env) usr_normalized (normalizeUsername u) db = Inr a"
    and v: "sv_verify sv (usr_password_hash a) p = Inr True" and n: "new_session sv env a = Some (g, s)"
    using assms by (auto simp: login_check_def split: sum.splits auth_error.splits if_splits option.splits)
  then have "a \<in> set (db_users db) \<and> usr_normalized a = normalizeUsername u"
    by (auto simp: find_user_def dest: find_by_SomeD split: if_splits option.splits)
  then show ?thesis using n v by (auto simp: new_session_def session_ok_def Let_def split: option.splits prod.splits)
qed

definition system_good :: "auth_service \<Rightarrow> auth_system \<Rightarrow> bool" where
  "system_good sv y \<longleftrightarrow> db_ok sv (au_db y) \<and> (\<forall>p \<in> set (au_checked y). session_ok sv (snd p))"

lemma auth_step_good: "system_good sv y \<Longrightarrow> system_good sv (auth_step sv e y)"
proof (cases e)
  case (DoLoginCheck env u p)
  assume "system_good sv y"
  then show ?thesis using login_check_session [of sv env u p "au_db y"]
    by (cases "login_check sv env u p (au_db y)") (auto simp: system_good_def DoLoginCheck)
next
  case (DoLoginStore env n)
  assume "system_good sv y"
  then show ?thesis using login_store_ok [of sv "au_db y" "au_checked y ! n" env] by (simp add: system_good_def DoLoginStore)
next
  case (DoAuthenticate env token)
  assume "system_good sv y"
  then show ?thesis using authenticate_ok [of sv "au_db y" env token]
    by (cases "authenticate sv env token (au_db y)") (simp add: system_good_def DoAuthenticate)
next
  case (DoLogout env token)
  assume "system_good sv y"
  then show ?thesis using delete_session_ok [of sv "au_db y"] by (simp add: system_good_def logout_def DoLogout)
next
  case (DoInitialize env u p)
  assume "system_good sv y"
  then show ?thesis using initialize_ok [of sv "au_db y" env u p] by (simp add: system_good_def DoInitialize)
next
  case (DoChangePassword env token a b)
  assume "system_good sv y"
  then show ?thesis using change_password_ok [of sv "au_db y" env token a b] by (simp add: system_good_def DoChangePassword)
qed

lemma auth_run_good: "system_good sv (service_run sv es)"
proof -
  have fold: "system_good sv y \<Longrightarrow> system_good sv (fold (auth_step sv) es y)" for y
  proof (induction es arbitrary: y)
    case (Cons e es)
    then show ?case unfolding fold_simps by (blast intro: auth_step_good)
  qed simp
  have "system_good sv new_system" by (simp add: system_good_def new_system_def db_ok_def)
  then show ?thesis unfolding service_run_def by (rule fold)
qed

lemma run_db_ok: "db_ok sv (au_db (service_run sv es))"
  using auth_run_good by (simp add: system_good_def)

lemma sessions_end_facts:
  assumes "db = au_db (service_run sv es)" and "authenticate sv env token db = (Inr (u, s'), db')"
  shows "\<exists>s \<in> set (db_sessions db). as_token_hash s = sv_sha sv token \<and> as_user s = usr_id u \<and> db_users db = [u] \<and>
    av_now env < as_last_seen s + sv_idle sv \<and> av_now env < as_created s + sv_absolute sv \<and>
    s' \<in> set (db_sessions db') \<and> as_created s' = as_created s \<and> as_token_hash s' = as_token_hash s \<and>
    as_expires s' \<le> max (as_expires s) (min (av_now env + sv_idle sv) (as_created s + sv_absolute sv))"
proof -
  have ok: "db_ok sv db" using run_db_ok assms(1) by simp
  have one: "db_users db = [u]" if "u \<in> set (db_users db)"
    using ok that by (cases "db_users db") (auto simp: db_ok_def)
  have bounds: "as_expires s \<le> as_last_seen s + sv_idle sv \<and> as_absolute s = as_created s + sv_absolute sv" if "s \<in> set (db_sessions db)" for s
    using db_okD [OF ok that] by (simp add: session_ok_def)
  show ?thesis using assms(2)
  proof (cases rule: authenticate_cases)
    case same
    then have s': "s' \<in> set (db_sessions db)" "as_token_hash s' = sv_sha sv token" "av_now env < as_expires s'" "av_now env < as_absolute s'"
        "as_user s' = usr_id u" "u \<in> set (db_users db)" "db' = db" by auto
    then show ?thesis using bounds [OF s'(1)] one by (intro bexI [of _ s']) auto
  next
    case (touched v s r)
    let ?e = "min (av_now env + sv_idle sv) (as_absolute s)"
    let ?s = "s\<lparr>as_last_seen := av_now env, as_expires := ?e\<rparr>"
    obtain x where r: "r = Inr x" using touched(8) by (cases r) auto
    then have "s' = ?s" "v = u" using touched(8) by auto
    moreover have "db_sessions db' = update_where (\<lambda>s. as_token_hash s = sv_sha sv token)
        (\<lambda>s. s\<lparr>as_last_seen := av_now env, as_expires := ?e\<rparr>) (db_sessions db)"
      using touched(7) r by (auto simp: touch_session_def split: if_splits)
    moreover from this have "?s \<in> set (db_sessions db')"
      using touched(1,2) by (auto simp: set_update_where intro!: image_eqI [where x = s])
    ultimately show ?thesis using touched(1-6) bounds [OF touched(1)] one by (intro bexI [of _ s]) auto
  qed simp
qed

section \<open>Sessions end\<close>

text \<open>
  C9. Sessions end. After any sequence of calls, a token is accepted only for a stored session that was
  used within the idle time and was created less than the absolute life time ago (12 hours and seven days by
  default), whatever accesses prolonged it; the answer names the one administrator and the session that
  is stored, and extends it to at most the idle time from now and never past its absolute end.
\<close>

theorem sessions_end:
  assumes "db = au_db (service_run sv es)" and "authenticate sv env token db = (Inr (u, s'), db')"
  shows "\<exists>s \<in> set (db_sessions db). as_token_hash s = sv_sha sv token \<and> as_user s = usr_id u \<and> db_users db = [u] \<and>
    av_now env < as_last_seen s + sv_idle sv \<and> av_now env < as_created s + sv_absolute sv \<and>
    s' \<in> set (db_sessions db') \<and> as_created s' = as_created s \<and> as_token_hash s' = as_token_hash s \<and>
    as_expires s' \<le> max (as_expires s) (min (av_now env + sv_idle sv) (as_created s + sv_absolute sv))"
  by (rule sessions_end_facts [OF assms])

definition sample_service :: auth_service where
  "sample_service = default_service (\<lambda>salt p. case validatePassword p of Some e \<Rightarrow> Inl e | None \<Rightarrow> Inr p) (\<lambda>h p. Inr (h = p)) id"

definition quiet_env :: "time \<Rightarrow> auth_env" where
  "quiet_env now = \<lparr>av_fault = (\<lambda>_. False), av_now = now, av_random = Some (''r'', ''s''), av_salt = Some ''t'', av_id = ''u1''\<rparr>"

definition sample_account :: account where
  "sample_account = \<lparr>usr_id = ''u1'', usr_name = ''Admin'', usr_normalized = ''admin'', usr_password_hash = ''correct horse'',
     usr_initialized = 0, usr_last_login = Some (10 * second)\<rparr>"

definition sample_events :: "login_event list" where
  "sample_events = [DoInitialize (quiet_env 0) '' Admin'' ''correct horse'', DoLoginCheck (quiet_env (10 * second)) ''admin'' ''correct horse'',
     DoLoginStore (quiet_env (10 * second)) 0]"

definition sample_stored :: auth_session where
  "sample_stored = \<lparr>as_token_hash = ''cg'', as_csrf_hash = ''cw'', as_user = ''u1'', as_expires = (10 + 12 * 3600) * second,
     as_absolute = (10 + 7 * 24 * 3600) * second, as_last_seen = 10 * second, as_created = 10 * second\<rparr>"

lemma sample_tokens: "base64_encode url_alphabet ''r'' = ''cg''" "base64_encode url_alphabet ''s'' = ''cw''"
  by (simp_all add: base64_encode_def url_alphabet_def char_of_eq_iff)

lemma sample_names: "go_trim '' Admin'' = ''Admin''" "normalizeUsername ''Admin'' = ''admin''" "normalizeUsername ''admin'' = ''admin''"
  by (simp_all add: normalizeUsername_def trim_by_def go_space_def go_lower_def char_of_eq_iff)

lemma sample_run: "au_db (service_run sample_service sample_events) = \<lparr>db_users = [sample_account], db_sessions = [sample_stored]\<rparr>"
proof -
  have seconds: "10 * second + 12 * 3600 * second = (10 + 12 * 3600) * second" "10 * second + 7 * 24 * 3600 * second = (10 + 7 * 24 * 3600) * second"
    by (simp_all add: algebra_simps)
  let ?u = "sample_account\<lparr>usr_last_login := None\<rparr>"
  let ?y1 = "\<lparr>au_db = \<lparr>db_users = [?u], db_sessions = []\<rparr>, au_checked = []\<rparr>"
  have 1: "auth_step sample_service (DoInitialize (quiet_env 0) '' Admin'' ''correct horse'') new_system = ?y1"
    by (simp add: new_system_def initialize_def initialize_user_def sample_names sample_service_def default_service_def
        validatePassword_def quiet_env_def sample_account_def Let_def)
  let ?g = "\<lparr>gr_session = ''cg'', gr_csrf = ''cw'', gr_expires = (10 + 12 * 3600) * second, gr_user = ?u\<rparr>"
  have check: "login_check sample_service (quiet_env (10 * second)) ''admin'' ''correct horse'' (au_db ?y1) = Inr (?g, sample_stored)"
    by (simp add: login_check_def find_user_def sample_names sample_account_def sample_service_def default_service_def new_session_def
        quiet_env_def sample_tokens sample_stored_def Let_def algebra_simps)
  have store: "login_store (quiet_env (10 * second)) (?g, sample_stored) (au_db ?y1) = (Inr ?g, \<lparr>db_users = [sample_account], db_sessions = [sample_stored]\<rparr>)"
    by (simp add: login_store_def create_session_def sample_stored_def sample_account_def quiet_env_def update_last_login_def)
  have 2: "auth_step sample_service (DoLoginCheck (quiet_env (10 * second)) ''admin'' ''correct horse'') ?y1 = ?y1\<lparr>au_checked := [(?g, sample_stored)]\<rparr>"
    using check by simp
  have 3: "auth_step sample_service (DoLoginStore (quiet_env (10 * second)) 0) (?y1\<lparr>au_checked := [(?g, sample_stored)]\<rparr>) =
      \<lparr>au_db = \<lparr>db_users = [sample_account], db_sessions = [sample_stored]\<rparr>, au_checked = [(?g, sample_stored)]\<rparr>"
    using store by simp
  show ?thesis unfolding service_run_def sample_events_def fold_simps 1 2 3 by simp
qed

theorem sessions_end_witness:
  "\<exists>u s' db'. authenticate sample_service (quiet_env (20 * second)) ''cg'' (au_db (service_run sample_service sample_events)) = (Inr (u, s'), db') \<and>
     20 * second < as_created s' + 7 * 24 * 3600 * second"
proof -
  obtain u s' db' where a: "authenticate sample_service (quiet_env (20 * second)) ''cg'' (au_db (service_run sample_service sample_events)) = (Inr (u, s'), db')"
    unfolding sample_run
    by (simp add: authenticate_def find_session_def find_user_def sample_service_def default_service_def quiet_env_def sample_stored_def
        sample_account_def second_def Let_def)
  from sessions_end [OF refl a] have "av_now (quiet_env (20 * second)) < as_created s' + sv_absolute sample_service" by auto
  then have "20 * second < as_created s' + 7 * 24 * 3600 * second"
    by (simp add: quiet_env_def sample_service_def default_service_def)
  then show ?thesis using a by blast
qed

section \<open>One administrator\<close>

definition same_account :: "account \<Rightarrow> account \<Rightarrow> bool" where
  "same_account u v \<longleftrightarrow> usr_id v = usr_id u \<and> usr_name v = usr_name u \<and> usr_normalized v = usr_normalized u \<and>
     usr_initialized v = usr_initialized u"

lemma initialize_present: "db_users db \<noteq> [] \<Longrightarrow> snd (initialize sv env n p db) = db \<and> (\<exists>e. fst (initialize sv env n p db) = Inl e)"
  by (auto simp: initialize_def initialize_user_def Let_def split: sum.splits)

lemma authenticate_users: "authenticate sv env token db = (res, db') \<Longrightarrow> db_users db' = db_users db"
  by (erule authenticate_cases) (auto simp: delete_session_def touch_session_def split: if_splits)

lemma update_one: "\<exists>v. update_where P f [u] = [v] \<and> (v = u \<or> v = f u)"
  by auto

lemma login_store_users:
  assumes "db_users db = [u]"
  shows "\<exists>v. db_users (snd (login_store env p db)) = [v] \<and> same_account u v"
proof -
  obtain g s where p: "p = (g, s)" by fastforce
  obtain r db1 where c: "create_session (av_fault env) s db = (r, db1)" by fastforce
  obtain r2 db2 where l: "update_last_login (av_fault env) (as_user s) (av_now env) db1 = (r2, db2)" by fastforce
  have u1: "db_users db1 = [u]" using c assms by (auto simp: create_session_def split: if_splits)
  have u2: "\<exists>v. db_users db2 = [v] \<and> same_account u v"
    using l u1 by (auto simp: update_last_login_def same_account_def split: if_splits)
  show ?thesis
  proof (cases r)
    case Inl
    then show ?thesis using p c u1 by (auto simp: login_store_def same_account_def)
  next
    case Inr
    then show ?thesis using p c l u2 by (cases r2) (auto simp: login_store_def delete_session_def)
  qed
qed

lemma auth_step_user:
  assumes "db_users (au_db y) = [u]"
  shows "\<exists>v. db_users (au_db (auth_step sv e y)) = [v] \<and> same_account u v"
proof -
  have same: "same_account u u" by (simp add: same_account_def)
  show ?thesis
  proof (cases e)
    case (DoInitialize env n p)
    then show ?thesis using initialize_present [of "au_db y" sv env n p] assms same by simp
  next
    case (DoLoginCheck env n p)
    then show ?thesis using assms same by (cases "login_check sv env n p (au_db y)") simp_all
  next
    case (DoLoginStore env n)
    then show ?thesis using login_store_users [OF assms] assms same by simp
  next
    case (DoAuthenticate env token)
    then show ?thesis using authenticate_users [of sv env token "au_db y"] assms same
      by (cases "authenticate sv env token (au_db y)") simp
  next
    case (DoLogout env token)
    then show ?thesis using assms same by (simp add: logout_def delete_session_def)
  next
    case (DoChangePassword env token a b)
    obtain res db1 where au: "authenticate sv env token (au_db y) = (res, db1)" by fastforce
    have u1: "db_users db1 = [u]" using authenticate_users [OF au] assms by simp
    have "\<exists>v. db_users (snd (update_password_and_revoke f i h k db1)) = [v] \<and> same_account u v" for f i h k
      using u1 by (auto simp: update_password_and_revoke_def same_account_def)
    then show ?thesis using DoChangePassword au u1 same
      by (auto simp: change_password_def split: sum.splits)
  qed
qed

text \<open>
  There is one administrator, the first. After any calls, however the parts of logins interleave, there
  is at most one user and every session is one of that user's; once there is one, setting up again
  fails and changes nothing, and no later call changes the id or the names.
\<close>

lemma one_administrator:
  assumes "db = au_db (service_run sv es)" and "db' = au_db (service_run sv (es @ es'))"
  shows "length (db_users db) \<le> 1 \<and> (\<forall>s \<in> set (db_sessions db). [as_user s] = map usr_id (db_users db)) \<and>
    (db_users db \<noteq> [] \<longrightarrow>
      (\<forall>env n p. \<exists>e. initialize sv env n p db = (Inl e, db)) \<and> (\<exists>u v. db_users db = [u] \<and> db_users db' = [v] \<and> same_account u v))"
proof -
  have ok: "db_ok sv db" using run_db_ok assms(1) by simp
  have later: "\<exists>v. db_users (au_db (fold (auth_step sv) es' y)) = [v] \<and> same_account u v" if "db_users (au_db y) = [u]" for y u
    using that
  proof (induction es' arbitrary: y u)
    case (Cons e es')
    obtain w where w: "db_users (au_db (auth_step sv e y)) = [w]" "same_account u w" using auth_step_user [OF Cons.prems] by blast
    from Cons.IH [OF w(1)] obtain v where "db_users (au_db (fold (auth_step sv) es' (auth_step sv e y))) = [v]" "same_account w v" by blast
    then show ?case using w(2) by (auto simp: same_account_def)
  qed (simp add: same_account_def)
  show ?thesis
  proof (intro conjI impI)
    show "length (db_users db) \<le> 1" using ok by (simp add: db_ok_def)
    then have "db_users db = [] \<or> (\<exists>u. db_users db = [u])" by (cases "db_users db") auto
    then show "\<forall>s \<in> set (db_sessions db). [as_user s] = map usr_id (db_users db)" using ok by (auto simp: db_ok_def)
    assume ne: "db_users db \<noteq> []"
    show "\<forall>env n p. \<exists>e. initialize sv env n p db = (Inl e, db)" using initialize_present [OF ne] by (metis prod.collapse)
    from ne \<open>db_users db = [] \<or> (\<exists>u. db_users db = [u])\<close> obtain u where u: "db_users db = [u]" by blast
    have "db' = au_db (fold (auth_step sv) es' (service_run sv es))" using assms(2) by (simp add: service_run_def)
    then show "\<exists>u v. db_users db = [u] \<and> db_users db' = [v] \<and> same_account u v"
      using later [of "service_run sv es" u] u assms(1) by simp
  qed
qed

theorem one_administrator_witness:
  "\<exists>e. initialize sample_service (quiet_env 5) ''eve'' ''another secret'' (au_db (service_run sample_service sample_events)) =
     (Inl e, au_db (service_run sample_service sample_events))"
  using one_administrator [OF refl refl, of sample_service sample_events "[]"] by (simp add: sample_run)

section \<open>Changing the password\<close>

lemma filter_one: "distinct (map k xs) \<Longrightarrow> x \<in> set xs \<Longrightarrow> filter (\<lambda>r. k r = k x) xs = [x]"
proof (induction xs)
  case (Cons y xs)
  show ?case
  proof (cases "y = x")
    case True
    then have "filter (\<lambda>r. k r = k x) xs = []" using Cons.prems(1) by (auto simp: filter_empty_conv image_iff)
    then show ?thesis using True by simp
  next
    case False
    then have "k y \<noteq> k x" "x \<in> set xs" using Cons.prems by auto
    then show ?thesis using Cons by simp
  qed
qed simp

lemma update_login_ids:
  "update_last_login f i t db = (Inr x, db') \<Longrightarrow>
   db_sessions db' = db_sessions db \<and> map usr_id (db_users db') = map usr_id (db_users db)"
  by (auto simp: update_last_login_def map_update_where split: if_splits)

lemma change_passwordD:
  assumes "change_password sv env token a b db = (Inr x, db')"
  obtains u s db1 h where "authenticate sv env token db = (Inr (u, s), db1)" "sv_verify sv (usr_password_hash u) a = Inr True"
    "sv_hash sv (av_salt env) b = Inr h" "db' = db1\<lparr>db_users := update_where (\<lambda>v. usr_id v = usr_id u) (\<lambda>v. v\<lparr>usr_password_hash := h\<rparr>) (db_users db1),
      db_sessions := filter (\<lambda>r. \<not> (as_user r = usr_id u \<and> as_token_hash r \<noteq> as_token_hash s)) (db_sessions db1)\<rparr>"
  using assms that
  by (auto simp: change_password_def update_password_and_revoke_def split: sum.splits prod.splits if_splits)

text \<open>What a successful change leaves: the one user with the new hash and the session that made the change.\<close>

lemma password_change_facts:
  assumes "db = au_db (service_run sv es)" and "change_password sv env token current new db = (Inr x, db')"
  obtains u s h where "db_users db = [u]" "sv_verify sv (usr_password_hash u) current = Inr True" "sv_hash sv (av_salt env) new = Inr h"
    "db_users db' = [u\<lparr>usr_password_hash := h\<rparr>]" "db_sessions db' = [s]" "as_token_hash s = sv_sha sv token"
proof -
  from assms(2) obtain u s db1 h where a: "authenticate sv env token db = (Inr (u, s), db1)"
    and v: "sv_verify sv (usr_password_hash u) current = Inr True" and h: "sv_hash sv (av_salt env) new = Inr h"
    and db': "db' = db1\<lparr>db_users := update_where (\<lambda>v. usr_id v = usr_id u) (\<lambda>v. v\<lparr>usr_password_hash := h\<rparr>) (db_users db1),
      db_sessions := filter (\<lambda>r. \<not> (as_user r = usr_id u \<and> as_token_hash r \<noteq> as_token_hash s)) (db_sessions db1)\<rparr>"
    by (rule change_passwordD)
  from sessions_end_facts [OF assms(1) a] have u: "db_users db = [u]" and s: "s \<in> set (db_sessions db1)" "as_token_hash s = sv_sha sv token"
    by auto
  have ok1: "db_ok sv db1" using authenticate_ok [OF _ a] run_db_ok assms(1) by simp
  have users1: "db_users db1 = [u]" using authenticate_users [OF a] u by simp
  have "as_user r = usr_id u" if "r \<in> set (db_sessions db1)" for r
    using ok1 that users1 by (auto simp: db_ok_def)
  then have "db_sessions db' = filter (\<lambda>r. as_token_hash r = as_token_hash s) (db_sessions db1)"
    using db' by (auto intro!: filter_cong)
  moreover have "distinct (map as_token_hash (db_sessions db1))" using ok1 by (simp add: db_ok_def)
  ultimately have left: "db_sessions db' = [s]" using s(1)
    by (simp add: filter_one)
  have users': "db_users db' = [u\<lparr>usr_password_hash := h\<rparr>]" using db' users1 by simp
  show ?thesis by (rule that [OF u v h users' left s(2)])
qed

text \<open>
  C33. A change of password shuts everyone else out. When it succeeds, the current password was right, the
  only session left is the one that made the change, so every token with another hash is refused from
  then on, and a login with a password the new hash does not verify finds no credentials, whatever the clock and
  the random source.
\<close>

theorem password_change_shuts_others_out:
  assumes "db = au_db (service_run sv es)" and "change_password sv env token current new db = (Inr x, db')"
  shows "\<exists>u s h. db_users db = [u] \<and> sv_verify sv (usr_password_hash u) current = Inr True \<and> sv_hash sv (av_salt env) new = Inr h \<and>
    db_users db' = [u\<lparr>usr_password_hash := h\<rparr>] \<and> db_sessions db' = [s] \<and> as_token_hash s = sv_sha sv token \<and>
    (\<forall>env' other. sv_sha sv other \<noteq> sv_sha sv token \<longrightarrow> fst (authenticate sv env' other db') = Inl ErrInvalidSession) \<and>
    (\<forall>env' name p. sv_verify sv h p \<noteq> Inr True \<longrightarrow> (\<exists>e. login sv env' name p db' = (Inl e, db')))"
proof -
  from password_change_facts [OF assms] obtain u s h where facts: "db_users db = [u]"
      "sv_verify sv (usr_password_hash u) current = Inr True" "sv_hash sv (av_salt env) new = Inr h"
    and after: "db_users db' = [u\<lparr>usr_password_hash := h\<rparr>]" "db_sessions db' = [s]" "as_token_hash s = sv_sha sv token" .
  have "fst (authenticate sv env' other db') = Inl ErrInvalidSession" if "sv_sha sv other \<noteq> sv_sha sv token" for env' other
    using that after(2,3) by (auto simp: authenticate_def find_session_def Let_def)
  moreover have "\<exists>e. login sv env' name p db' = (Inl e, db')" if "sv_verify sv h p \<noteq> Inr True" for env' name p
    using that after(1) by (auto simp: login_def login_check_def find_user_def split: auth_error.splits)
  ultimately show ?thesis using facts after by blast
qed

theorem password_change_shuts_others_out_witness:
  "\<exists>db'. change_password sample_service (quiet_env (20 * second)) ''cg'' ''correct horse'' ''battery staple'' (au_db (service_run sample_service sample_events)) = (Inr (), db') \<and>
     (\<exists>e. login sample_service (quiet_env (30 * second)) ''admin'' ''correct horse'' db' = (Inl e, db'))"
proof -
  obtain db' where c: "change_password sample_service (quiet_env (20 * second)) ''cg'' ''correct horse'' ''battery staple''
      (au_db (service_run sample_service sample_events)) = (Inr (), db')"
    unfolding sample_run
    by (simp add: change_password_def authenticate_def find_session_def find_user_def sample_service_def default_service_def quiet_env_def
        sample_stored_def sample_account_def second_def Let_def validatePassword_def update_password_and_revoke_def)
  from password_change_shuts_others_out [OF refl c] obtain h where
    "sv_hash sample_service (av_salt (quiet_env (20 * second))) ''battery staple'' = Inr h"
    "sv_verify sample_service h ''correct horse'' \<noteq> Inr True \<longrightarrow>
       (\<exists>e. login sample_service (quiet_env (30 * second)) ''admin'' ''correct horse'' db' = (Inl e, db'))" by blast
  then show ?thesis using c by (auto simp: sample_service_def default_service_def validatePassword_def)
qed

text \<open>
  C39. A login that was checked before the change survives it. Checking the password and storing the session
  are separate statements. If the password is changed in between, to one whose hash rejects the old password, then
  storing succeeds all the same whenever the driver does not fail and the new token is not that of the session
  that made the change: the change revokes the sessions that are stored, and this one is not yet. Afterwards the token
  is accepted until the session ends, although every login with the old password is refused and changes nothing.
\<close>

theorem login_survives_password_change:
  assumes "db = au_db (service_run sv es)" and "login_check sv env1 name old db = Inr (g, s)"
    and "change_password sv env2 token old new db = (Inr x, db')"
    and "\<And>h. sv_hash sv (av_salt env2) new = Inr h \<Longrightarrow> sv_verify sv h old \<noteq> Inr True"
    and "av_fault env1 = (\<lambda>_. False)" and "sv_sha sv (gr_session g) \<noteq> sv_sha sv token" and "gr_session g \<noteq> []"
  shows "\<exists>db''. login_store env1 (g, s) db' = (Inr g, db'') \<and>
    (\<forall>env3. av_fault env3 = (\<lambda>_. False) \<and> av_now env3 < av_now env1 + sv_idle sv \<and> av_now env3 < av_now env1 + sv_absolute sv \<longrightarrow>
       (\<exists>u s'. fst (authenticate sv env3 (gr_session g) db'') = Inr (u, s') \<and> usr_id u = usr_id (gr_user g))) \<and>
    (\<forall>env3 name'. \<exists>e. login sv env3 name' old db'' = (Inl e, db'') \<and> (av_fault env3 = (\<lambda>_. False) \<longrightarrow> e = ErrInvalidCredentials))"
proof -
  from password_change_facts [OF assms(1,3)] obtain u r h where "db_users db = [u]" "sv_hash sv (av_salt env2) new = Inr h"
    and after: "db_users db' = [u\<lparr>usr_password_hash := h\<rparr>]" "db_sessions db' = [r]" "as_token_hash r = sv_sha sv token" by metis
  note chk = login_check_session [OF assms(2)]
  have user: "as_user s = usr_id u" "gr_user g = u" using chk \<open>db_users db = [u]\<close> by auto
  let ?u = "u\<lparr>usr_password_hash := h, usr_last_login := Some (av_now env1)\<rparr>"
  let ?db = "\<lparr>db_users = [?u], db_sessions = [r, s]\<rparr>"
  have db': "db' = \<lparr>db_users = [u\<lparr>usr_password_hash := h\<rparr>], db_sessions = [r]\<rparr>" using after(1,2) by (cases db') simp
  have "login_store env1 (g, s) db' = (Inr g, ?db)"
    using assms(5,6) after(3) chk user(1) by (simp add: db' login_store_def create_session_def update_last_login_def)
  moreover have "\<exists>v s'. fst (authenticate sv env3 (gr_session g) ?db) = Inr (v, s') \<and> usr_id v = usr_id (gr_user g)"
    if "av_fault env3 = (\<lambda>_. False) \<and> av_now env3 < av_now env1 + sv_idle sv \<and> av_now env3 < av_now env1 + sv_absolute sv" for env3
    using that assms(6,7) after(3) chk user by (simp add: authenticate_def find_session_def find_user_def touch_session_def Let_def)
  moreover have "\<exists>e. login sv env3 name' old ?db = (Inl e, ?db) \<and> (av_fault env3 = (\<lambda>_. False) \<longrightarrow> e = ErrInvalidCredentials)" for env3 name'
    using assms(4) [OF \<open>sv_hash sv (av_salt env2) new = Inr h\<close>] by (auto simp: login_def login_check_def find_user_def)
  ultimately show ?thesis by blast
qed

definition other_env :: "time \<Rightarrow> auth_env" where
  "other_env now = (quiet_env now)\<lparr>av_random := Some (''x'', ''y'')\<rparr>"

theorem login_survives_password_change_witness:
  "\<exists>g s db' db''. login_check sample_service (other_env (20 * second)) ''admin'' ''correct horse'' (au_db (service_run sample_service sample_events)) = Inr (g, s) \<and>
     change_password sample_service (quiet_env (20 * second)) ''cg'' ''correct horse'' ''battery staple'' (au_db (service_run sample_service sample_events)) = (Inr (), db') \<and>
     login_store (other_env (20 * second)) (g, s) db' = (Inr g, db'') \<and>
     (\<exists>u s'. fst (authenticate sample_service (quiet_env (30 * second)) (gr_session g) db'') = Inr (u, s')) \<and>
     login sample_service (quiet_env (30 * second)) ''admin'' ''correct horse'' db'' = (Inl ErrInvalidCredentials, db'')"
proof -
  have tokens: "base64_encode url_alphabet ''x'' = ''eA''" "base64_encode url_alphabet ''y'' = ''eQ''"
    by (simp_all add: base64_encode_def url_alphabet_def char_of_eq_iff)
  let ?db = "au_db (service_run sample_service sample_events)"
  obtain g s where check: "login_check sample_service (other_env (20 * second)) ''admin'' ''correct horse'' ?db = Inr (g, s)"
    and g: "gr_session g = ''eA''"
    unfolding sample_run
    by (simp add: login_check_def find_user_def sample_names sample_account_def sample_service_def default_service_def new_session_def
        other_env_def quiet_env_def tokens Let_def)
  obtain db' where change: "change_password sample_service (quiet_env (20 * second)) ''cg'' ''correct horse'' ''battery staple'' ?db = (Inr (), db')"
    unfolding sample_run
    by (simp add: change_password_def authenticate_def find_session_def find_user_def sample_service_def default_service_def quiet_env_def
        sample_stored_def sample_account_def second_def Let_def validatePassword_def update_password_and_revoke_def)
  have rejects: "sv_verify sample_service h ''correct horse'' \<noteq> Inr True"
    if "sv_hash sample_service (av_salt (quiet_env (20 * second))) ''battery staple'' = Inr h" for h
    using that by (auto simp: sample_service_def default_service_def validatePassword_def)
  have other: "av_fault (other_env now) = (\<lambda>_. False)" "av_now (other_env now) = now" for now by (simp_all add: other_env_def quiet_env_def)
  have quiet: "av_fault (quiet_env now) = (\<lambda>_. False)" "av_now (quiet_env now) = now" for now by (simp_all add: quiet_env_def)
  have sv: "sv_sha sample_service t = t" "sv_idle sample_service = 12 * 3600 * second" "sv_absolute sample_service = 7 * 24 * 3600 * second" for t
    by (simp_all add: sample_service_def default_service_def)
  have "sv_sha sample_service (gr_session g) \<noteq> sv_sha sample_service ''cg''" "gr_session g \<noteq> []" by (simp_all add: g sv)
  from login_survives_password_change [OF refl check change rejects other(1) this] obtain db'' where
      store: "login_store (other_env (20 * second)) (g, s) db' = (Inr g, db'')"
    and lives: "\<forall>env3. av_fault env3 = (\<lambda>_. False) \<and> av_now env3 < av_now (other_env (20 * second)) + sv_idle sample_service \<and>
        av_now env3 < av_now (other_env (20 * second)) + sv_absolute sample_service \<longrightarrow>
        (\<exists>u s'. fst (authenticate sample_service env3 (gr_session g) db'') = Inr (u, s') \<and> usr_id u = usr_id (gr_user g))"
    and out: "\<forall>env3 name'. \<exists>e. login sample_service env3 name' ''correct horse'' db'' = (Inl e, db'') \<and> (av_fault env3 = (\<lambda>_. False) \<longrightarrow> e = ErrInvalidCredentials)"
    by blast
  have "\<exists>u s'. fst (authenticate sample_service (quiet_env (30 * second)) (gr_session g) db'') = Inr (u, s')"
    using spec [OF lives, of "quiet_env (30 * second)"] by (auto simp: quiet other sv second_def)
  moreover have "login sample_service (quiet_env (30 * second)) ''admin'' ''correct horse'' db'' = (Inl ErrInvalidCredentials, db'')"
    using spec [OF spec [OF out, of "quiet_env (30 * second)"], of "''admin''"] quiet(1) by auto
  ultimately show ?thesis using check change store by blast
qed

section \<open>Cookies\<close>

lemma store_cookies_sent:
  assumes "\<And>c. c \<in> set cs \<Longrightarrow> ck_name c = n \<Longrightarrow> ck_delete c \<or> \<not> now < ck_expires c div second * second"
    and "map_of (sent_cookies now jar) n = None"
  shows "map_of (sent_cookies now (store_cookies cs jar)) n = None"
  using assms
proof (induction cs arbitrary: jar)
  case (Cons c cs)
  have none: "map_of (sent_cookies now j) n = None \<longleftrightarrow> (\<forall>d \<in> set j. ck_name d = n \<longrightarrow> \<not> now < ck_expires d div second * second)" for j
    by (force simp: sent_cookies_def map_of_eq_None_iff)
  have "map_of (sent_cookies now (store_cookie c jar)) n = None"
    using Cons.prems(1) [of c] Cons.prems(2) by (auto simp: none store_cookie_def Let_def)
  then show ?case using Cons.IH [of "store_cookie c jar"] Cons.prems(1) by (simp add: store_cookies_def)
qed (simp add: store_cookies_def)

lemma requireSession_cookies: "requireSession sv ho i env q db = (Inl r, db') \<Longrightarrow> ar_cookies r \<in> {[], clearAuthCookies ho} \<and> hr_status (ar_http r) = 401"
  by (auto simp: requireSession_def plain_response_def write_error_def Let_def split: option.splits sum.splits prod.splits)

lemma session_request_cookies:
  assumes "session_request sv ho i env route q db = (Answered r, db')"
  shows "ar_cookies r \<in> {[], clearAuthCookies ho}"
proof (cases "requireSession sv ho i env q db")
  case (Pair x db1)
  show ?thesis
  proof (cases x)
    case (Inl r1)
    then show ?thesis using assms Pair requireSession_cookies [of sv ho i env q db r1 db1] by (simp add: session_request_def)
  next
    case (Inr t)
    obtain token u s where t: "t = (token, u, s)" using prod_cases3 by blast
    have "ar_cookies r' \<in> {[], clearAuthCookies ho}" if "logout_route sv ho i env token db1 = (r', d)" for r' d
      using that by (auto simp: logout_route_def plain_response_def split: prod.splits sum.splits)
    moreover have "ar_cookies r' = []" if "password_route sv i env token b db1 = (r', d)" for b r' d
      using that by (auto simp: password_route_def plain_response_def split: prod.splits sum.splits option.splits auth_error.splits)
    ultimately show ?thesis using assms Pair Inr t
      by (cases route) (auto simp: session_request_def plain_response_def apfst_def map_prod_def split: option.splits prod.splits)
  qed
qed

lemma cleared_deleted: "c \<in> set (clearAuthCookies ho) \<Longrightarrow> ck_delete c"
  by (auto simp: clearAuthCookies_def)

lemma session_cookie_set: "c \<in> set (setAuthCookies ho g) \<Longrightarrow> ck_name c = sessionCookieName \<Longrightarrow> ck_expires c = gr_expires g"
  by (auto simp: setAuthCookies_def)

lemma login_row:
  assumes "login sv env n p db = (Inr g, db')"
  obtains s raw csrf where "find_by as_token_hash (sv_sha sv (gr_session g)) (db_sessions db') = Some s" "as_expires s = gr_expires g"
    "as_absolute s = av_now env + sv_absolute sv" "as_csrf_hash s = sv_sha sv (gr_csrf g)" "as_user s = usr_id (gr_user g)"
    "find_by usr_id (as_user s) (db_users db') \<noteq> None" "as_last_seen s = av_now env" "gr_expires g = av_now env + sv_idle sv"
    "gr_session g = base64_encode url_alphabet raw" "gr_csrf g = base64_encode url_alphabet csrf"
proof -
  obtain q where c: "login_check sv env n p db = Inr q" and st: "login_store env q db = (Inr g, db')"
    using assms by (auto simp: login_def split: sum.splits)
  obtain g0 s where q: "q = (g0, s)" by fastforce
  obtain db1 where cr: "create_session (av_fault env) s db = (Inr (), db1)" and l: "update_last_login (av_fault env) (as_user s) (av_now env) db1 = (Inr (), db')"
    and g: "g0 = g" using st q by (auto simp: login_store_def split: sum.splits prod.splits)
  note chk = login_check_session [OF c [unfolded q]]
  have row: "db_sessions db' = db_sessions db @ [s]" "find_by as_token_hash (as_token_hash s) (db_sessions db) = None"
      "find_by usr_id (as_user s) (db_users db) \<noteq> None" "db_users db1 = db_users db"
    using cr update_login_ids [OF l] by (auto simp: create_session_def split: if_splits)
  have "usr_id ` set (db_users db') = usr_id ` set (db_users db)"
    using update_login_ids [OF l] row(4) by (metis list.set_map)
  then have "find_by usr_id (as_user s) (db_users db') \<noteq> None" using row(3) by (simp add: find_by_None)
  then have user: "find_by usr_id (as_user s) (db_users db') \<noteq> None" .
  obtain raw csrf where tokens: "gr_session g = base64_encode url_alphabet raw" "gr_csrf g = base64_encode url_alphabet csrf"
    using chk unfolding g by blast
  have hash: "as_token_hash s = sv_sha sv (gr_session g)" using chk unfolding g by blast
  then have "find_by as_token_hash (sv_sha sv (gr_session g)) (db_sessions db') = Some s" using row(1,2) by (simp add: find_by_append)
  from that [OF this _ _ _ _ user _ _ tokens] chk show ?thesis unfolding g by simp
qed

definition answers_of :: "auth_service \<Rightarrow> http_options \<Rightarrow> auth_response \<Rightarrow> bool" where
  "answers_of sv ho r \<longleftrightarrow> (\<exists>i env route q db db'. session_request sv ho i env route q db = (Answered r, db'))"

lemma answers_never_renew:
  assumes "\<forall>r \<in> set rs. answers_of sv ho r" and "map_of (sent_cookies now jar) sessionCookieName = None"
  shows "map_of (sent_cookies now (fold (\<lambda>r. store_cookies (ar_cookies r)) rs jar)) sessionCookieName = None"
  using assms
proof (induction rs arbitrary: jar)
  case (Cons r rs)
  have "ar_cookies r \<in> {[], clearAuthCookies ho}" using Cons.prems(1) session_request_cookies
    unfolding answers_of_def by (metis list.set_intros(1))
  then have "map_of (sent_cookies now (store_cookies (ar_cookies r) jar)) sessionCookieName = None"
    using cleared_deleted by (intro store_cookies_sent Cons.prems(2)) auto
  then show ?case using Cons by simp
qed simp

text \<open>
  The cookies end before the session. The cookies of a login expire with the first idle time and no answer
  of any other route renews them: from then on the browser sends no session cookie and every request is
  answered 401, although the session was used meanwhile, was prolonged in the database, and its token
  would still be accepted. An active user is signed out 12 hours after the login; the seven days
  of the absolute limit are never reached.
\<close>

lemma cookies_end_before_session:
  assumes "login sv env0 name password db0 = (Inr g, db1)" and "gr_session g \<noteq> []"
    and "authenticate sv env1 (gr_session g) db1 = (Inr (u, s1), db2)" and "av_now env0 + sv_touch sv \<le> av_now env1"
    and "av_fault env2 = (\<lambda>_. False)" and "av_now env0 + sv_idle sv \<le> av_now env2" and "av_now env2 < av_now env1 + sv_idle sv"
    and "av_now env2 < av_now env0 + sv_absolute sv"
    and "\<forall>r \<in> set rs. answers_of sv ho r"
    and "aq_cookies q = sent_cookies (av_now env2) (fold (\<lambda>r. store_cookies (ar_cookies r)) rs (store_cookies (setAuthCookies ho g) []))"
  shows "(\<exists>r. session_request sv ho i env2 route q db2 = (Answered r, db2) \<and> hr_status (ar_http r) = 401) \<and>
    (\<exists>v s2. fst (authenticate sv env2 (gr_session g) db2) = Inr (v, s2))"
proof
  obtain s where s: "find_by as_token_hash (sv_sha sv (gr_session g)) (db_sessions db1) = Some s"
      "as_last_seen s = av_now env0" "as_absolute s = av_now env0 + sv_absolute sv" "gr_expires g = av_now env0 + sv_idle sv"
    by (rule login_row [OF assms(1)])
  have "\<not> av_now env2 < gr_expires g div second * second"
    using s(4) assms(6) div_times_less_eq_dividend [of "gr_expires g" second] by linarith
  then have "map_of (sent_cookies (av_now env2) (store_cookies (setAuthCookies ho g) [])) sessionCookieName = None"
    using session_cookie_set by (intro store_cookies_sent) (auto simp: sent_cookies_def)
  then have "map_of (aq_cookies q) sessionCookieName = None" using answers_never_renew [OF assms(9)] assms(10) by simp
  then show "\<exists>r. session_request sv ho i env2 route q db2 = (Answered r, db2) \<and> hr_status (ar_http r) = 401"
    by (simp add: session_request_def requireSession_def plain_response_def write_error_def)
  let ?e = "min (av_now env1 + sv_idle sv) (as_absolute s)"
  have db2: "db2 = db1\<lparr>db_sessions := update_where (\<lambda>s. as_token_hash s = sv_sha sv (gr_session g))
        (\<lambda>s. s\<lparr>as_last_seen := av_now env1, as_expires := ?e\<rparr>) (db_sessions db1)\<rparr>"
      and u: "find_by usr_id (as_user s) (db_users db1) = Some u"
    using assms(2,3,4) s(1,2)
    by (auto simp: authenticate_def find_session_def find_user_def touch_session_def Let_def split: if_splits option.splits sum.splits prod.splits)
  have "find_by as_token_hash (sv_sha sv (gr_session g)) (db_sessions db2) = Some (s\<lparr>as_last_seen := av_now env1, as_expires := ?e\<rparr>)"
    using s(1) find_by_SomeD [OF s(1)] by (simp add: db2 find_by_update_where)
  then show "\<exists>v s2. fst (authenticate sv env2 (gr_session g) db2) = Inr (v, s2)"
    using assms(2,5,7,8) s(3) u db2
    by (auto simp: authenticate_def find_session_def find_user_def touch_session_def Let_def)
qed

text \<open>
  A fault of the database signs the user out. When reading the session fails once, whatever the reason, the
  answer is 401 and removes both cookies, so the browser has no session cookie left, although the session is
  in the table and its token is accepted as soon as the fault is over.
\<close>

lemma store_fault_signs_out:
  assumes "map_of (aq_cookies q) sessionCookieName = Some token" and "token \<noteq> []" and "av_fault env SelectSession"
    and "fst (authenticate sv env' token db) = Inr (u, s)"
  shows "\<exists>r. session_request sv ho i env route q db = (Answered r, db) \<and> hr_status (ar_http r) = 401 \<and>
    map_of (sent_cookies now (store_cookies (ar_cookies r) jar)) sessionCookieName = None \<and>
    (\<exists>s \<in> set (db_sessions db). as_token_hash s = sv_sha sv token \<and> av_now env' < as_expires s)"
proof -
  let ?r = "\<lparr>ar_http = write_error i 401 ''unauthenticated'' ''Authentication is required'', ar_cookies = clearAuthCookies ho\<rparr>"
  have "session_request sv ho i env route q db = (Answered ?r, db)"
    using assms(1-3) by (simp add: session_request_def requireSession_def authenticate_def find_session_def Let_def)
  moreover have "ck_name d = sessionCookieName \<Longrightarrow> d \<notin> set (store_cookies (clearAuthCookies ho) jar)" for d
    by (auto simp: store_cookies_def clearAuthCookies_def store_cookie_def sessionCookieName_def csrfCookieName_def Let_def)
  then have "map_of (sent_cookies now (store_cookies (clearAuthCookies ho) jar)) sessionCookieName = None"
    by (force simp: sent_cookies_def map_of_eq_None_iff)
  moreover obtain res db' where a: "authenticate sv env' token db = (Inr (u, s), db')"
    using assms(4) by (cases "authenticate sv env' token db") auto
  have "\<exists>s \<in> set (db_sessions db). as_token_hash s = sv_sha sv token \<and> av_now env' < as_expires s"
    using a by (rule authenticate_cases) auto
  ultimately show ?thesis by (simp add: write_error_def)
qed

definition plain_options :: http_options where
  "plain_options = \<lparr>ho_public_origin = ''https://panel.test'', ho_secure_cookies = True, ho_parse = (\<lambda>_. None)\<rparr>"

definition sample_auth_request :: "(string \<times> string) list \<Rightarrow> auth_request" where
  "sample_auth_request cookies = \<lparr>aq_method = ''POST'', aq_cookies = cookies, aq_origin = ''https://panel.test'', aq_fetch_site = [],
     aq_csrf = ''cw'', aq_host = [], aq_body = None\<rparr>"

lemma sample_relogin:
  "login sample_service (other_env (20 * second)) ''admin'' ''correct horse'' (au_db (service_run sample_service sample_events)) = (res, db') \<Longrightarrow>
   \<exists>g. res = Inr g \<and> gr_session g = ''eA'' \<and> gr_csrf g = ''eQ'' \<and> find_by as_token_hash ''eA'' (db_sessions db') \<noteq> None \<and>
     fst (authenticate sample_service (quiet_env ((20 + 11 * 3600) * second)) ''eA'' db') \<noteq> Inl ErrInvalidSession \<and>
     \<not> (\<exists>e. fst (authenticate sample_service (quiet_env ((20 + 11 * 3600) * second)) ''eA'' db') = Inl e)"
proof -
  have tokens: "base64_encode url_alphabet ''x'' = ''eA''" "base64_encode url_alphabet ''y'' = ''eQ''"
    by (simp_all add: base64_encode_def url_alphabet_def char_of_eq_iff)
  show "login sample_service (other_env (20 * second)) ''admin'' ''correct horse'' (au_db (service_run sample_service sample_events)) = (res, db') \<Longrightarrow> ?thesis"
    unfolding sample_run
    by (auto simp: login_def login_check_def login_store_def create_session_def update_last_login_def find_user_def sample_names sample_account_def
        sample_stored_def sample_service_def default_service_def new_session_def other_env_def quiet_env_def tokens Let_def
        authenticate_def find_session_def touch_session_def second_def)
qed

theorem cookies_end_before_session_witness:
  "\<exists>g db1 u s1 db2 r v s2. login sample_service (other_env (20 * second)) ''admin'' ''correct horse'' (au_db (service_run sample_service sample_events)) = (Inr g, db1) \<and>
     authenticate sample_service (quiet_env ((20 + 11 * 3600) * second)) (gr_session g) db1 = (Inr (u, s1), db2) \<and>
     session_request sample_service plain_options [] (quiet_env ((20 + 12 * 3600) * second)) RouteMe
       (sample_auth_request (sent_cookies ((20 + 12 * 3600) * second) (store_cookies (setAuthCookies plain_options g) []))) db2 = (Answered r, db2) \<and>
     hr_status (ar_http r) = 401 \<and> fst (authenticate sample_service (quiet_env ((20 + 12 * 3600) * second)) (gr_session g) db2) = Inr (v, s2)"
proof -
  let ?db = "au_db (service_run sample_service sample_events)"
  obtain res db1 where l: "login sample_service (other_env (20 * second)) ''admin'' ''correct horse'' ?db = (res, db1)" by fastforce
  from sample_relogin [OF l] obtain g where g: "res = Inr g" "gr_session g = ''eA''"
    and a: "\<not> (\<exists>e. fst (authenticate sample_service (quiet_env ((20 + 11 * 3600) * second)) ''eA'' db1) = Inl e)" by blast
  obtain x db2 where ax: "authenticate sample_service (quiet_env ((20 + 11 * 3600) * second)) (gr_session g) db1 = (x, db2)" by fastforce
  then obtain u s1 where x: "x = Inr (u, s1)" using a g(2) by (cases x) auto
  let ?q = "sample_auth_request (sent_cookies ((20 + 12 * 3600) * second) (store_cookies (setAuthCookies plain_options g) []))"
  have times: "av_now (other_env (20 * second)) + sv_touch sample_service \<le> av_now (quiet_env ((20 + 11 * 3600) * second))"
      "av_fault (quiet_env ((20 + 12 * 3600) * second)) = (\<lambda>_. False)"
      "av_now (other_env (20 * second)) + sv_idle sample_service \<le> av_now (quiet_env ((20 + 12 * 3600) * second))"
      "av_now (quiet_env ((20 + 12 * 3600) * second)) < av_now (quiet_env ((20 + 11 * 3600) * second)) + sv_idle sample_service"
      "av_now (quiet_env ((20 + 12 * 3600) * second)) < av_now (other_env (20 * second)) + sv_absolute sample_service"
    by (simp_all add: other_env_def quiet_env_def sample_service_def default_service_def second_def)
  have q: "aq_cookies ?q = sent_cookies (av_now (quiet_env ((20 + 12 * 3600) * second)))
      (fold (\<lambda>r. store_cookies (ar_cookies r)) [] (store_cookies (setAuthCookies plain_options g) []))"
    by (simp add: sample_auth_request_def quiet_env_def)
  from cookies_end_before_session [OF l [unfolded g(1)] _ ax [unfolded x] times _ q, where i = "[]" and route = RouteMe] g
  obtain r v s2 where "session_request sample_service plain_options [] (quiet_env ((20 + 12 * 3600) * second)) RouteMe ?q db2 = (Answered r, db2)"
    "hr_status (ar_http r) = 401" "fst (authenticate sample_service (quiet_env ((20 + 12 * 3600) * second)) (gr_session g) db2) = Inr (v, s2)" by auto
  then show ?thesis using l ax x g(1) by blast
qed

theorem store_fault_signs_out_witness:
  "\<exists>r. session_request sample_service plain_options [] ((quiet_env (20 * second))\<lparr>av_fault := (\<lambda>s. s = SelectSession)\<rparr>) RouteMe
       (sample_auth_request [(sessionCookieName, ''cg'')]) (au_db (service_run sample_service sample_events)) = (Answered r, au_db (service_run sample_service sample_events)) \<and>
     hr_status (ar_http r) = 401"
proof -
  obtain u s db' where "authenticate sample_service (quiet_env (20 * second)) ''cg'' (au_db (service_run sample_service sample_events)) = (Inr (u, s), db')"
    unfolding sample_run
    by (simp add: authenticate_def find_session_def find_user_def sample_service_def default_service_def quiet_env_def sample_stored_def
        sample_account_def second_def Let_def)
  then have a: "fst (authenticate sample_service (quiet_env (20 * second)) ''cg'' (au_db (service_run sample_service sample_events))) = Inr (u, s)" by simp
  have "map_of (aq_cookies (sample_auth_request [(sessionCookieName, ''cg'')])) sessionCookieName = Some ''cg''" by (simp add: sample_auth_request_def)
  from store_fault_signs_out [OF this _ _ a, where env = "(quiet_env (20 * second))\<lparr>av_fault := (\<lambda>s. s = SelectSession)\<rparr>" and ho = plain_options and i = "[]" and route = RouteMe]
  show ?thesis by auto
qed

section \<open>Pages and origins\<close>

text \<open>
  What a browser does, independently of the server. An origin is a scheme and a host with its port unless that is the
  default one; browsers write it in lower case, as \<open>scheme://host\<close>. A page sends its own origin, or \<^verbatim>\<open>null\<close> when it has an opaque
  one, or none, and only the panel's own page is \<^verbatim>\<open>same-origin\<close> for \<^verbatim>\<open>Sec-Fetch-Site\<close>;
  scripts can set neither of the headers, nor \<^verbatim>\<open>Host\<close>, which names the panel.
\<close>

record web_origin =
  wo_scheme :: string
  wo_host :: string

definition origin_text :: "web_origin \<Rightarrow> string" where
  "origin_text w = wo_scheme w @ ''://'' @ wo_host w"

definition valid_origin :: "web_origin \<Rightarrow> bool" where
  "valid_origin w \<longleftrightarrow>
     wo_scheme w \<noteq> [] \<and> list_all (\<lambda>c. c \<in> set ''abcdefghijklmnopqrstuvwxyz0123456789+-.'') (wo_scheme w) \<and>
     wo_host w \<noteq> [] \<and> list_all (\<lambda>c. c \<in> set ''abcdefghijklmnopqrstuvwxyz0123456789-._:[]'') (wo_host w)"

definition sent_from :: "web_origin \<Rightarrow> web_origin \<Rightarrow> auth_request \<Rightarrow> bool" where
  "sent_from page panel q \<longleftrightarrow>
     aq_host q = wo_host panel \<and> aq_origin q \<in> {origin_text page, ''null'', []} \<and>
     (go_lower (aq_fetch_site q) = ''same-origin'' \<longrightarrow> page = panel)"

text \<open>The panel's own page has no opaque origin, and the browser says so in at least one of the headers.\<close>

definition sent_by_own_page :: "web_origin \<Rightarrow> auth_request \<Rightarrow> bool" where
  "sent_by_own_page panel q \<longleftrightarrow>
     sent_from panel panel q \<and> aq_origin q \<noteq> ''null'' \<and> (aq_origin q = [] \<longrightarrow> go_lower (aq_fetch_site q) = ''same-origin'')"

text \<open>
  The options of a panel that is reached under \<open>panel\<close>: its public origin, if there is one, is this one. The law of \<^verbatim>\<open>url.Parse\<close> is
  about the texts browsers send: the scheme and the host of an origin are found as they are written, if at all, and \<^verbatim>\<open>null\<close>
  is a relative reference without a scheme.
\<close>

definition options_for :: "web_origin \<Rightarrow> http_options \<Rightarrow> bool" where
  "options_for panel ho \<longleftrightarrow> ho_public_origin ho \<in> {[], origin_text panel}"

definition parses_origins :: "(string \<Rightarrow> (string \<times> string) option) \<Rightarrow> bool" where
  "parses_origins parse \<longleftrightarrow>
     (\<forall>w r. valid_origin w \<longrightarrow> parse (origin_text w) = Some r \<longrightarrow> r = (wo_scheme w, wo_host w)) \<and>
     (\<forall>r. parse ''null'' = Some r \<longrightarrow> fst r = [])"

text \<open>
  A request of another site's page. Where no public origin is configured the server knows its name only from the
  \<^verbatim>\<open>Host\<close> header, not the scheme it is served with, so another site is one with another host there.
\<close>

definition foreign_request :: "http_options \<Rightarrow> web_origin \<Rightarrow> web_origin \<Rightarrow> auth_request \<Rightarrow> bool" where
  "foreign_request ho page panel q \<longleftrightarrow>
     valid_origin page \<and> valid_origin panel \<and> sent_from page panel q \<and> options_for panel ho \<and> page \<noteq> panel \<and>
     (ho_public_origin ho = [] \<longrightarrow> wo_host page \<noteq> wo_host panel)"

lemma origin_text_scheme: "valid_origin w \<Longrightarrow> takeWhile (\<lambda>c. c \<noteq> CHR '':'') (origin_text w) = wo_scheme w"
proof -
  assume "valid_origin w"
  then have "CHR '':'' \<notin> set (wo_scheme w)" unfolding valid_origin_def list_all_iff by fastforce
  then have "\<And>c. c \<in> set (wo_scheme w) \<Longrightarrow> c \<noteq> CHR '':''" by blast
  then have "takeWhile (\<lambda>c. c \<noteq> CHR '':'') (wo_scheme w @ ''://'' @ wo_host w) = wo_scheme w @ takeWhile (\<lambda>c. c \<noteq> CHR '':'') (''://'' @ wo_host w)"
    by (rule takeWhile_append2)
  then show ?thesis by (simp add: origin_text_def)
qed

lemma origin_text_inj: "valid_origin w \<Longrightarrow> valid_origin v \<Longrightarrow> origin_text w = origin_text v \<Longrightarrow> w = v"
proof -
  assume "valid_origin w" "valid_origin v" and eq: "origin_text w = origin_text v"
  then have "wo_scheme w = wo_scheme v" using origin_text_scheme by metis
  moreover from this have "wo_host w = wo_host v" using eq by (simp add: origin_text_def)
  ultimately show ?thesis by simp
qed

lemma origin_text_colon: "CHR '':'' \<in> set (origin_text w)" "origin_text w \<noteq> ''null''" "origin_text w \<noteq> []"
proof -
  show "CHR '':'' \<in> set (origin_text w)" by (simp add: origin_text_def)
  then show "origin_text w \<noteq> ''null''" "origin_text w \<noteq> []" by auto
qed

lemma foreign_refused:
  assumes "parses_origins (ho_parse ho)" and "foreign_request ho page panel q"
  shows "requireOrigin ho i q \<noteq> None"
proof (cases "aq_origin q = []")
  case True
  then show ?thesis using assms(2) by (auto simp: requireOrigin_def foreign_request_def sent_from_def)
next
  case False
  have valid: "valid_origin page" "valid_origin panel" "page \<noteq> panel" and host: "aq_host q = wo_host panel"
    and origin: "aq_origin q = origin_text page \<or> aq_origin q = ''null''"
    using assms(2) False by (auto simp: foreign_request_def sent_from_def)
  consider (public) "ho_public_origin ho = origin_text panel" | (host) "ho_public_origin ho = []" "wo_host page \<noteq> wo_host panel"
    using assms(2) by (auto simp: foreign_request_def options_for_def)
  then show ?thesis
  proof cases
    case public
    have "aq_origin q \<noteq> origin_text panel"
      using origin origin_text_inj [OF valid(1,2)] valid(3) origin_text_colon(2) [of panel] by auto
    then show ?thesis using False public origin_text_colon(3) [of panel] by (simp add: requireOrigin_def)
  next
    case host': host
    have "\<not> (case ho_parse ho (aq_origin q) of None \<Rightarrow> False
        | Some (scheme, h) \<Rightarrow> (scheme = ''http'' \<or> scheme = ''https'') \<and> h = aq_host q)"
      using assms(1) origin valid(1) host host'(2) unfolding parses_origins_def by (fastforce split: option.splits)
    then show ?thesis using False host'(1) by (simp add: requireOrigin_def)
  qed
qed

lemma own_page_accepted:
  assumes "sent_by_own_page panel q" and "options_for panel ho"
    and "wo_scheme panel = ''http'' \<or> wo_scheme panel = ''https''"
    and "ho_public_origin ho = [] \<Longrightarrow> ho_parse ho (origin_text panel) = Some (wo_scheme panel, wo_host panel)"
  shows "requireOrigin ho i q = None"
  using assms by (auto simp: requireOrigin_def sent_by_own_page_def sent_from_def options_for_def)

section \<open>Forged requests\<close>

lemma authenticate_effect:
  assumes "authenticate sv env token db = (res, db')"
  shows "db_users db' = db_users db \<and>
    (\<forall>s' \<in> set (db_sessions db'). \<exists>s \<in> set (db_sessions db). as_token_hash s' = as_token_hash s \<and> as_csrf_hash s' = as_csrf_hash s \<and> as_user s' = as_user s) \<and>
    (\<forall>u s. res = Inr (u, s) \<longrightarrow> (\<exists>s0 \<in> set (db_sessions db). as_csrf_hash s = as_csrf_hash s0))"
  using assms
proof (cases rule: authenticate_cases)
  case (touched u s r)
  let ?g = "\<lambda>x. x\<lparr>as_last_seen := av_now env, as_expires := min (av_now env + sv_idle sv) (as_absolute s)\<rparr>"
  have "db' = db \<or> db' = db\<lparr>db_sessions := update_where (\<lambda>x. as_token_hash x = sv_sha sv token) ?g (db_sessions db)\<rparr>"
    using touched(7) by (auto simp: touch_session_def split: if_splits)
  moreover have "\<exists>x \<in> set xs. as_token_hash y = as_token_hash x \<and> as_csrf_hash y = as_csrf_hash x \<and> as_user y = as_user x"
    if "y \<in> set (update_where (\<lambda>x. as_token_hash x = sv_sha sv token) ?g xs)" for y xs
    using that by (force simp: set_update_where)
  ultimately show ?thesis using touched(1,8) by (auto split: sum.splits)
qed (auto simp: delete_session_def)

text \<open>
  The configuration accepts a public origin with a final slash and hands its text on with it. Browsers never write the slash: then
  the panel's own page is refused wherever it sends its origin, and nobody can sign in.
\<close>

lemma trailing_slash_refuses_own_page:
  assumes "ho_public_origin ho = origin_text panel @ ''/''" and "sent_by_own_page panel q" and "aq_origin q \<noteq> []"
  shows "\<exists>r. requireOrigin ho i q = Some r \<and> hr_status r = 403"
  using assms by (auto simp: requireOrigin_def sent_by_own_page_def sent_from_def write_error_def)

text \<open>
  C10. A forged request has no effect. A request with effects that a browser sends for a page of another
  origin than the panel's (with that origin, an opaque one or none), or whose CSRF token is that of
  no session, reaches no handler, whatever cookies the browser added: it is answered 401 or 403; no user
  changes, and no session appears or changes its token. Setting up and logging in from a page of another origin are refused with 403 and
  change nothing. When no public origin is configured, an origin is another one by its host.
\<close>

theorem forged_requests_have_no_effect:
  assumes "foreign_request ho page panel q \<or> (\<forall>s \<in> set (db_sessions db). sv_sha sv (aq_csrf q) \<noteq> as_csrf_hash s)"
    and "parses_origins (ho_parse ho)"
    and "route = RouteLogout \<or> route = RoutePassword \<or> (route = RouteProtected \<and> \<not> safe_request q)"
  shows "(\<exists>r db'. session_request sv ho i env route q db = (Answered r, db') \<and> hr_status (ar_http r) \<in> {401, 403} \<and>
      db_users db' = db_users db \<and>
      (\<forall>s' \<in> set (db_sessions db'). \<exists>s \<in> set (db_sessions db). as_token_hash s' = as_token_hash s \<and> as_csrf_hash s' = as_csrf_hash s \<and> as_user s' = as_user s)) \<and>
    (foreign_request ho page panel q \<longrightarrow>
      (\<exists>r. initialize_route sv ho i env q db = (r, db) \<and> login_route sv ho i env q db = (r, db) \<and> hr_status (ar_http r) = 403))"
proof
  have origin: "hr_status r = 403" if "requireOrigin ho i q = Some r" for r
    using that by (auto simp: requireOrigin_def write_error_def split: if_splits)
  have csrf: "hr_status r = 403" if "requireCSRF sv i s q = Some r" for r s
    using that by (auto simp: requireCSRF_def write_error_def split: if_splits)
  note refused = foreign_refused [OF assms(2)]
  show "foreign_request ho page panel q \<longrightarrow>
      (\<exists>r. initialize_route sv ho i env q db = (r, db) \<and> login_route sv ho i env q db = (r, db) \<and> hr_status (ar_http r) = 403)"
    using origin refused [where i = i] by (fastforce simp: initialize_route_def login_route_def plain_response_def)
  obtain x db1 where rs: "requireSession sv ho i env q db = (x, db1)" by fastforce
  have eff: "db_users db1 = db_users db \<and>
      (\<forall>s' \<in> set (db_sessions db1). \<exists>s \<in> set (db_sessions db). as_token_hash s' = as_token_hash s \<and> as_csrf_hash s' = as_csrf_hash s \<and> as_user s' = as_user s) \<and>
      (\<forall>t u s. x = Inr (t, u, s) \<longrightarrow> (\<exists>s0 \<in> set (db_sessions db). as_csrf_hash s = as_csrf_hash s0))"
  proof (cases "map_of (aq_cookies q) sessionCookieName")
    case (Some token)
    obtain res d where a: "authenticate sv env token db = (res, d)" by fastforce
    then show ?thesis using authenticate_effect [OF a] rs Some
      by (auto simp: requireSession_def Let_def split: sum.splits prod.splits)
  qed (use rs in \<open>auto simp: requireSession_def Let_def\<close>)
  show "\<exists>r db'. session_request sv ho i env route q db = (Answered r, db') \<and> hr_status (ar_http r) \<in> {401, 403} \<and>
      db_users db' = db_users db \<and>
      (\<forall>s' \<in> set (db_sessions db'). \<exists>s \<in> set (db_sessions db). as_token_hash s' = as_token_hash s \<and> as_csrf_hash s' = as_csrf_hash s \<and> as_user s' = as_user s)"
  proof (cases x)
    case (Inl r)
    then show ?thesis using rs eff requireSession_cookies [of sv ho i env q db r db1] by (simp add: session_request_def)
  next
    case (Inr t)
    obtain token u s where t: "t = (token, u, s)" using prod_cases3 by blast
    have "with_csrf sv ho i s q \<noteq> None"
      using assms(1) refused [where i = i] eff Inr t by (fastforce simp: with_csrf_def requireCSRF_def split: option.splits if_splits)
    then obtain r where r: "with_csrf sv ho i s q = Some r" by blast
    then have "hr_status r = 403" using origin csrf by (auto simp: with_csrf_def split: option.splits)
    moreover have "session_request sv ho i env route q db = (Answered (plain_response r), db1)"
      using assms(3) rs Inr t r by (auto simp: session_request_def requireMutationSecurity_def with_csrf_def split: option.splits)
    ultimately show ?thesis using eff by (simp add: plain_response_def)
  qed
qed

text \<open>A parser that splits a text at \<open>://\<close>, and options that rely on it.\<close>

definition split_origin :: "string \<Rightarrow> (string \<times> string) option" where
  "split_origin s =
     (let scheme = takeWhile (\<lambda>c. c \<noteq> CHR '':'') s; rest = drop (length scheme) s
      in Some (if take 3 rest = ''://'' then (scheme, drop 3 rest) else ([], [])))"

lemma split_origin_parses: "parses_origins split_origin"
proof -
  have "split_origin (origin_text w) = Some (wo_scheme w, wo_host w)" if "valid_origin w" for w
    using origin_text_scheme [OF that] by (simp add: split_origin_def origin_text_def Let_def)
  then show ?thesis by (simp add: parses_origins_def split_origin_def)
qed

definition host_options :: http_options where
  "host_options = plain_options\<lparr>ho_public_origin := [], ho_parse := split_origin\<rparr>"

definition panel_origin :: web_origin where
  "panel_origin = \<lparr>wo_scheme = ''https'', wo_host = ''panel.test''\<rparr>"

definition evil_origin :: web_origin where
  "evil_origin = \<lparr>wo_scheme = ''https'', wo_host = ''evil.test''\<rparr>"

lemma sample_origins: "valid_origin panel_origin" "valid_origin evil_origin" "panel_origin \<noteq> evil_origin"
  "origin_text panel_origin = ''https://panel.test''" "origin_text evil_origin = ''https://evil.test''"
  by (simp_all add: valid_origin_def panel_origin_def evil_origin_def origin_text_def)

definition evil_request :: auth_request where
  "evil_request = (sample_auth_request [(sessionCookieName, ''cg''), (csrfCookieName, ''cw'')])
     \<lparr>aq_origin := ''https://evil.test'', aq_host := ''panel.test''\<rparr>"

theorem forged_requests_have_no_effect_witness:
  "(\<exists>r db'. session_request sample_service host_options [] (quiet_env (20 * second)) RouteProtected evil_request (au_db (service_run sample_service sample_events)) =
      (Answered r, db') \<and> hr_status (ar_http r) \<in> {401, 403}) \<and>
   (\<exists>r db'. session_request sample_service host_options [] (quiet_env (20 * second)) RoutePassword evil_request (au_db (service_run sample_service sample_events)) =
      (Answered r, db') \<and> hr_status (ar_http r) \<in> {401, 403}) \<and>
   (\<exists>r. login_route sample_service host_options [] (quiet_env (20 * second)) evil_request (au_db (service_run sample_service sample_events)) =
      (r, au_db (service_run sample_service sample_events)) \<and> hr_status (ar_http r) = 403)"
proof -
  let ?db = "au_db (service_run sample_service sample_events)" and ?env = "quiet_env (20 * second)"
  have foreign: "foreign_request host_options evil_origin panel_origin evil_request"
    using sample_origins by (auto simp: foreign_request_def sent_from_def options_for_def host_options_def evil_request_def
        sample_auth_request_def panel_origin_def evil_origin_def go_lower_def)
  have parses: "parses_origins (ho_parse host_options)" using split_origin_parses by (simp add: host_options_def)
  have "\<not> safe_request evil_request" by (simp add: safe_request_def evil_request_def sample_auth_request_def)
  then have routes: "RouteProtected = RouteLogout \<or> RouteProtected = RoutePassword \<or> (RouteProtected = RouteProtected \<and> \<not> safe_request evil_request)"
    "RoutePassword = RouteLogout \<or> RoutePassword = RoutePassword \<or> (RoutePassword = RouteProtected \<and> \<not> safe_request evil_request)" by simp_all
  note forged = forged_requests_have_no_effect [OF disjI1 [OF foreign] parses, where sv = sample_service and i = "[]" and env = ?env and db = ?db]
  from forged [OF routes(1)] forged [OF routes(2)] foreign show ?thesis by blast
qed

end
