(* ===== verification/WebText.thy ===== *)
theory WebText imports Prelude begin

text \<open>
  The JavaScript string functions the web client uses: \<^verbatim>\<open>encodeURIComponent\<close> and
  \<^verbatim>\<open>decodeURIComponent\<close> with their UTF-8 coding, \<^verbatim>\<open>toLowerCase\<close>, \<^verbatim>\<open>toUpperCase\<close>, \<^verbatim>\<open>includes\<close>.
  A JavaScript string is a list of code units below 256, one \<^typ>\<open>char\<close> each; decoding gives a
  list of code points (numbers), since an escape may stand for any of them, and \<open>None\<close> is the
  \<^verbatim>\<open>URIError\<close> it throws.
\<close>

section \<open>Percent encoding\<close>

definition uri_unreserved :: "char \<Rightarrow> bool" where
  "uri_unreserved c \<longleftrightarrow> c \<in> set ''ABCDEFGHIJKLMNOPQRSTUVWXYZabcdefghijklmnopqrstuvwxyz0123456789-_.!~*()'' \<or>
     of_char c = (39 :: nat)"

definition hex_digit :: "nat \<Rightarrow> char" where
  "hex_digit n = char_of (if n < 10 then 48 + n else 55 + n)"

definition hex_value :: "char \<Rightarrow> nat option" where
  "hex_value c =
     (let n = of_char c :: nat
      in if 48 \<le> n \<and> n \<le> 57 then Some (n - 48)
         else if 65 \<le> n \<and> n \<le> 70 then Some (n - 55)
         else if 97 \<le> n \<and> n \<le> 102 then Some (n - 87) else None)"

definition percent_byte :: "nat \<Rightarrow> string" where
  "percent_byte b = [CHR ''%'', hex_digit (b div 16), hex_digit (b mod 16)]"

definition encode_unit :: "char \<Rightarrow> string" where
  "encode_unit c =
     (let n = of_char c :: nat
      in if uri_unreserved c then [c]
         else if n < 128 then percent_byte n
         else percent_byte (192 + n div 64) @ percent_byte (128 + n mod 64))"

definition encodeURIComponent :: "string \<Rightarrow> string" where
  "encodeURIComponent s = concat (map encode_unit s)"

text \<open>One escaped byte at the head of the text, and the bytes that continue a UTF-8 sequence.\<close>

fun take_byte :: "string \<Rightarrow> (nat \<times> string) option" where
  "take_byte (p # a # b # rest) =
     (if p \<noteq> CHR ''%'' then None
      else (case (hex_value a, hex_value b) of (Some x, Some y) \<Rightarrow> Some (16 * x + y, rest) | _ \<Rightarrow> None))"
| "take_byte _ = None"

fun take_continuation :: "nat \<Rightarrow> nat \<Rightarrow> string \<Rightarrow> (nat \<times> string) option" where
  "take_continuation 0 acc s = Some (acc, s)"
| "take_continuation (Suc k) acc s =
     (case take_byte s of
        Some (b, rest) \<Rightarrow>
          (if 128 \<le> b \<and> b < 192 then take_continuation k (acc * 64 + (b - 128)) rest else None)
      | None \<Rightarrow> None)"

definition sequence_length :: "nat \<Rightarrow> nat" where
  "sequence_length b = (if 192 \<le> b \<and> b < 224 then 1 else if 224 \<le> b \<and> b < 240 then 2
     else if 240 \<le> b \<and> b < 248 then 3 else 0)"

definition lead_bits :: "nat \<Rightarrow> nat" where
  "lead_bits b = (if b < 224 then b - 192 else if b < 240 then b - 224 else b - 240)"

text \<open>Shortest form, no surrogate, at most \<^verbatim>\<open>U+10FFFF\<close>.\<close>

definition valid_point :: "nat \<Rightarrow> nat \<Rightarrow> bool" where
  "valid_point k p \<longleftrightarrow> (if k = 1 then 128 else if k = 2 then 2048 else 65536) \<le> p \<and> p \<le> 1114111 \<and>
     \<not> (55296 \<le> p \<and> p \<le> 57343)"

definition take_point :: "string \<Rightarrow> (nat \<times> string) option" where
  "take_point s =
     (case take_byte s of
        None \<Rightarrow> None
      | Some (b, rest) \<Rightarrow>
          (if b < 128 then Some (b, rest)
           else if sequence_length b = 0 then None
           else (case take_continuation (sequence_length b) (lead_bits b) rest of
                   Some (p, rest') \<Rightarrow> (if valid_point (sequence_length b) p then Some (p, rest') else None)
                 | None \<Rightarrow> None)))"

lemma take_byte_shorter: "take_byte s = Some (b, r) \<Longrightarrow> length r < length s"
  by (cases s rule: take_byte.cases) (auto split: if_splits option.splits)

lemma take_continuation_shorter: "take_continuation k acc s = Some (p, r) \<Longrightarrow> length r \<le> length s"
  by (induction k acc s rule: take_continuation.induct)
     (fastforce split: option.splits if_splits dest: take_byte_shorter)+

lemma take_point_shorter: "take_point s = Some (p, r) \<Longrightarrow> length r < length s"
  by (auto simp: take_point_def split: option.splits if_splits
        dest!: take_byte_shorter take_continuation_shorter)

function decodeURIComponent :: "string \<Rightarrow> nat list option" where
  "decodeURIComponent [] = Some []"
| "decodeURIComponent (c # s) =
     (if c \<noteq> CHR ''%'' then map_option ((#) (of_char c)) (decodeURIComponent s)
      else (case take_point (c # s) of
              None \<Rightarrow> None
            | Some (p, rest) \<Rightarrow> map_option ((#) p) (decodeURIComponent rest)))"
  by pat_completeness auto
termination
  by (relation "measure length") (use take_point_shorter in force)+

definition points :: "string \<Rightarrow> nat list" where
  "points s = map of_char s"

lemma points_inject [simp]: "points s = points t \<longleftrightarrow> s = t"
  by (auto simp: points_def inj_map_eq_map [OF inj_of_char])

section \<open>The round trip\<close>

lemma hex_value_digit: "n < 16 \<Longrightarrow> hex_value (hex_digit n) = Some n"
  by (auto simp: hex_value_def hex_digit_def Let_def)

lemma take_byte_percent: "b < 256 \<Longrightarrow> take_byte (percent_byte b @ s) = Some (b, s)"
  by (simp add: percent_byte_def hex_value_digit)

lemma of_char_less: "of_char c < (256 :: nat)"
  by (rule nat_of_char_less_256)

lemma take_point_two_bytes:
  assumes "128 \<le> n" and "n < 256"
  shows "take_point (percent_byte (192 + n div 64) @ percent_byte (128 + n mod 64) @ s) = Some (n, s)"
proof -
  have "n div 64 \<in> {2, 3}" using assms by auto
  then have lead: "192 + n div 64 < 224" "192 + n div 64 < 256" by auto
  have tail: "128 + n mod 64 < 192" "128 + n mod 64 < 256" using mod_less_divisor [of 64 n] by linarith+
  have "n div 64 * 64 + n mod 64 = n" by simp
  then show ?thesis
    using lead tail assms
    by (simp add: take_point_def take_byte_percent sequence_length_def lead_bits_def valid_point_def numeral_2_eq_2 [symmetric])
qed

lemma decode_encode_unit:
  "decodeURIComponent (encode_unit c @ s) = map_option ((#) (of_char c)) (decodeURIComponent s)"
proof -
  let ?n = "of_char c :: nat"
  have lt: "?n < 256" by (rule of_char_less)
  have pct: "\<not> uri_unreserved (CHR ''%'')" by (simp add: uri_unreserved_def)
  consider "uri_unreserved c" | "\<not> uri_unreserved c" "?n < 128" | "\<not> uri_unreserved c" "128 \<le> ?n" by linarith
  then show ?thesis
  proof cases
    case 1
    then have "c \<noteq> CHR ''%''" using pct by auto
    then show ?thesis using 1 by (simp add: encode_unit_def)
  next
    case 2
    then have "take_point (percent_byte ?n @ s) = Some (?n, s)"
      using lt by (simp add: take_point_def take_byte_percent)
    then show ?thesis using 2 by (simp add: encode_unit_def percent_byte_def Let_def)
  next
    case 3
    then show ?thesis
      using take_point_two_bytes [OF 3(2) lt, of s] by (simp add: encode_unit_def percent_byte_def Let_def)
  qed
qed

lemma decode_encode [text_simps]: "decodeURIComponent (encodeURIComponent s) = Some (points s)"
  by (induction s) (simp_all add: encodeURIComponent_def points_def decode_encode_unit)

lemma hex_digit_unreserved:
  assumes "n < 16" shows "uri_unreserved (hex_digit n)"
proof -
  have "\<forall>n \<in> set [0..<16]. uri_unreserved (hex_digit n)" by code_simp
  then show ?thesis using assms by auto
qed

lemma percent_byte_alphabet:
  "y \<in> set (percent_byte b) \<Longrightarrow> b < 256 \<Longrightarrow> uri_unreserved y \<or> y = CHR ''%''"
  using hex_digit_unreserved [of "b div 16"] hex_digit_unreserved [of "b mod 16"] by (auto simp: percent_byte_def)

lemma encode_unit_alphabet:
  assumes "x \<in> set (encode_unit c)" shows "uri_unreserved x \<or> x = CHR ''%''"
proof -
  let ?n = "of_char c :: nat"
  have lt: "?n < 256" by (rule of_char_less)
  have "?n div 64 < 4" using lt by (simp add: div_less_iff_less_mult)
  then have b: "192 + ?n div 64 < 256" "128 + ?n mod 64 < 256" using mod_less_divisor [of 64 ?n] by linarith+
  consider "uri_unreserved c" | "\<not> uri_unreserved c" "?n < 128" | "\<not> uri_unreserved c" "128 \<le> ?n" by linarith
  then show ?thesis
  proof cases
    case 1
    then show ?thesis using assms by (simp add: encode_unit_def Let_def)
  next
    case 2
    then have "x \<in> set (percent_byte ?n)" using assms by (simp add: encode_unit_def Let_def)
    then show ?thesis using percent_byte_alphabet lt by blast
  next
    case 3
    then have "x \<in> set (percent_byte (192 + ?n div 64)) \<union> set (percent_byte (128 + ?n mod 64))"
      using assms by (simp add: encode_unit_def Let_def)
    then show ?thesis using percent_byte_alphabet b by blast
  qed
qed

lemma encode_alphabet:
  assumes "x \<in> set (encodeURIComponent s)" shows "uri_unreserved x \<or> x = CHR ''%''"
proof -
  obtain c where "x \<in> set (encode_unit c)" using assms by (auto simp: encodeURIComponent_def)
  then show ?thesis by (rule encode_unit_alphabet)
qed

text \<open>An encoded component has no separator of a path, so it is one segment of it.\<close>

lemma encode_no_slash: "CHR ''/'' \<notin> set (encodeURIComponent s)"
  using encode_alphabet [of "CHR ''/''" s] by (auto simp: uri_unreserved_def)

lemma encode_unit_nonempty: "encode_unit c \<noteq> []"
  by (simp add: encode_unit_def percent_byte_def Let_def)

lemma encode_empty [simp]: "encodeURIComponent s = [] \<longleftrightarrow> s = []"
  by (cases s) (simp_all add: encodeURIComponent_def encode_unit_nonempty)

lemma encode_inject [simp]: "encodeURIComponent s = encodeURIComponent t \<longleftrightarrow> s = t"
  by (metis decode_encode option.inject points_inject)

section \<open>Case and search\<close>

text \<open>
  The letters below 256 with a lower case letter: \<^verbatim>\<open>A\<close> to \<^verbatim>\<open>Z\<close> and 192 to 222 without the
  multiplication sign. Upper case also turns the sharp s into \<^verbatim>\<open>SS\<close>; the two letters whose
  capital is not below 256 (181 and 255) are left as they are.
\<close>

definition lower_unit :: "char \<Rightarrow> char" where
  "lower_unit c = (let n = of_char c :: nat
     in if (65 \<le> n \<and> n \<le> 90) \<or> (192 \<le> n \<and> n \<le> 222 \<and> n \<noteq> 215) then char_of (n + 32) else c)"

definition js_lower :: "string \<Rightarrow> string" where
  "js_lower s = map lower_unit s"

definition upper_unit :: "char \<Rightarrow> string" where
  "upper_unit c = (let n = of_char c :: nat
     in if n = 223 then ''SS''
        else if (97 \<le> n \<and> n \<le> 122) \<or> (224 \<le> n \<and> n \<le> 254 \<and> n \<noteq> 247) then [char_of (n - 32)] else [c])"

definition js_upper :: "string \<Rightarrow> string" where
  "js_upper s = concat (map upper_unit s)"

fun js_includes :: "string \<Rightarrow> string \<Rightarrow> bool" where
  "js_includes [] t = (t = [])"
| "js_includes (c # s) t = (starts_with (c # s) t \<or> js_includes s t)"

lemma js_includes_iff: "js_includes s t \<longleftrightarrow> (\<exists>a b. s = a @ t @ b)"
proof (induction s)
  case (Cons c s)
  then show ?case
    by (auto simp: starts_with_iff Cons_eq_append_conv)
qed simp

lemma js_includes_empty [simp]: "js_includes s []"
  by (auto simp: js_includes_iff)

lemma js_includes_refl [simp]: "js_includes s s"
  unfolding js_includes_iff by (rule exI [of _ "[]"], rule exI [of _ "[]"]) simp

lemma js_includes_trans: "js_includes a b \<Longrightarrow> js_includes b c \<Longrightarrow> js_includes a c"
  unfolding js_includes_iff by (metis append.assoc)

end
