(* ===== verification/WebClient.thy ===== *)
theory WebClient imports WebText begin

text \<open>
  The API client of the web interface: \<^verbatim>\<open>web/src/api/client.ts\<close> and the wrappers around it
  (\<^verbatim>\<open>api.ts\<close> of the connections, servers, operations, backups and console directories). A request
  body is the JSON value that \<^verbatim>\<open>JSON.stringify\<close> prints; \<^verbatim>\<open>fetch\<close> is a parameter, the
  \<open>fetch_result\<close> it gives. The module variable \<^verbatim>\<open>csrfToken\<close> and \<^verbatim>\<open>document.cookie\<close> are the state.
\<close>

section \<open>Data\<close>

record request_init =
  in_method :: "string option"
  in_headers :: "(string \<times> string) list"
  in_body :: "json option"

definition no_init :: request_init where
  "no_init = \<lparr>in_method = None, in_headers = [], in_body = None\<rparr>"

record fetch_request =
  f_url :: string
  f_method :: string
  f_headers :: "(string \<times> string) list"
  f_body :: "json option"
  f_include_credentials :: bool

text \<open>A response has its status and its body, \<open>None\<close> when the body is not a JSON text.\<close>

datatype fetch_result = NetworkFailure | Response nat "json option"

text \<open>
  What a call of \<^verbatim>\<open>apiRequest\<close> settles to: a JSON value, \<^verbatim>\<open>undefined\<close>, an
  \<^verbatim>\<open>APIRequestError\<close> with its detail, or another exception.
\<close>

datatype api_outcome = ApiValue json | ApiNoContent | ApiRequestError json | ApiThrown

record client =
  csrf_token :: "nat list option"
  document_cookie :: string

section \<open>The CSRF token\<close>

definition setCSRFToken :: "nat list option \<Rightarrow> client \<Rightarrow> client" where
  "setCSRFToken token c = c\<lparr>csrf_token := token\<rparr>"

definition csrf_prefix :: string where
  "csrf_prefix = ''controlpanel_csrf=''"

text \<open>\<^verbatim>\<open>s.split('; ')\<close>.\<close>

fun split_cookies :: "string \<Rightarrow> string list" where
  "split_cookies [] = [[]]"
| "split_cookies [c] = [[c]]"
| "split_cookies (a # b # s) =
     (if a = CHR '';'' \<and> b = CHR '' '' then [] # split_cookies s
      else (case split_cookies (b # s) of [] \<Rightarrow> [[a]] | p # ps \<Rightarrow> (a # p) # ps))"

text \<open>\<open>None\<close> is the \<^verbatim>\<open>URIError\<close> of a malformed cookie, \<open>Some None\<close> is \<^verbatim>\<open>null\<close>.\<close>

definition readCSRFCookie :: "string \<Rightarrow> nat list option option" where
  "readCSRFCookie cookie =
     (case List.find (\<lambda>entry. starts_with entry csrf_prefix) (split_cookies cookie) of
        None \<Rightarrow> Some None
      | Some entry \<Rightarrow> map_option Some (decodeURIComponent (drop (length csrf_prefix) entry)))"

section \<open>Requests\<close>

text \<open>
  \<^verbatim>\<open>Headers\<close>: names are compared without case, a value is stripped of white space, and a
  value with a code above 255, a zero or a line break is refused with a \<^verbatim>\<open>TypeError\<close>.
\<close>

definition http_space :: "char \<Rightarrow> bool" where
  "http_space c \<longleftrightarrow> of_char c \<in> {9, 10, 13, 32 :: nat}"

definition header_value :: "nat list \<Rightarrow> string option" where
  "header_value v =
     (if \<exists>n \<in> set v. 255 < n then None
      else (let s = trim_by http_space (map char_of v)
            in if \<exists>c \<in> set s. of_char c \<in> {0, 10, 13 :: nat} then None else Some s))"

definition set_header :: "string \<Rightarrow> string \<Rightarrow> (string \<times> string) list \<Rightarrow> (string \<times> string) list" where
  "set_header name v hs = put_key (js_lower name) v hs"

definition get_header :: "string \<Rightarrow> (string \<times> string) list \<Rightarrow> string option" where
  "get_header name hs = map_of hs (js_lower name)"

definition headers_of :: "(string \<times> string) list \<Rightarrow> (string \<times> string) list" where
  "headers_of hs = fold (\<lambda>(n, v). set_header n v) hs []"

definition request_method :: "request_init \<Rightarrow> string" where
  "request_method init = js_upper (case in_method init of None \<Rightarrow> ''GET'' | Some m \<Rightarrow> m)"

definition safe_method :: "string \<Rightarrow> bool" where
  "safe_method m \<longleftrightarrow> m \<in> set [''GET'', ''HEAD'', ''OPTIONS'']"

text \<open>The request \<^verbatim>\<open>apiRequest\<close> hands to \<^verbatim>\<open>fetch\<close>; \<open>None\<close> when setting a header throws.\<close>

definition build_request :: "client \<Rightarrow> string \<Rightarrow> request_init \<Rightarrow> fetch_request option" where
  "build_request c path init =
     (let method = request_method init;
          h0 = headers_of (in_headers init);
          h1 = (if in_body init \<noteq> None \<and> get_header ''Content-Type'' h0 = None
                then set_header ''Content-Type'' ''application/json'' h0 else h0);
          h2 = (if safe_method method then Some h1
                else (case csrf_token c of
                        None \<Rightarrow> Some h1
                      | Some [] \<Rightarrow> Some h1
                      | Some token \<Rightarrow> map_option (\<lambda>v. set_header ''X-CSRF-Token'' v h1) (header_value token)))
      in map_option (\<lambda>h. \<lparr>f_url = ''/api/v1'' @ path, f_method = method, f_headers = h,
           f_body = in_body init, f_include_credentials = True\<rparr>) h2)"

definition unexpected_response :: json where
  "unexpected_response = JObj [(''code'', JStr ''unexpected_response''),
     (''message'', JStr ''The server returned an unexpected response''), (''request_id'', JStr '''')]"

definition response_ok :: "nat \<Rightarrow> bool" where
  "response_ok status \<longleftrightarrow> 200 \<le> status \<and> status \<le> 299"

definition error_detail :: "json option \<Rightarrow> json" where
  "error_detail payload =
     (case payload of
        None \<Rightarrow> unexpected_response
      | Some p \<Rightarrow> (case json_member ''error'' p of
                    None \<Rightarrow> unexpected_response
                  | Some JNull \<Rightarrow> unexpected_response
                  | Some d \<Rightarrow> d))"

text \<open>What becomes of the response, and of the token: a 401 forgets it.\<close>

definition finish_request :: "fetch_result \<Rightarrow> client \<Rightarrow> api_outcome \<times> client" where
  "finish_request r c =
     (case r of
        NetworkFailure \<Rightarrow> (ApiThrown, c)
      | Response status body \<Rightarrow>
          (if \<not> response_ok status
           then (ApiRequestError (error_detail body), if status = 401 then setCSRFToken None c else c)
           else if status = 204 then (ApiNoContent, c)
           else (case body of None \<Rightarrow> (ApiThrown, c) | Some v \<Rightarrow> (ApiValue v, c))))"

definition apiRequest :: "(fetch_request \<Rightarrow> fetch_result) \<Rightarrow> string \<Rightarrow> request_init \<Rightarrow> client \<Rightarrow> api_outcome \<times> client" where
  "apiRequest fetch path init c =
     (case build_request c path init of
        None \<Rightarrow> (ApiThrown, c)
      | Some req \<Rightarrow> finish_request (fetch req) c)"

section \<open>The wrappers\<close>

text \<open>
  A wrapper is the path and the options it passes on, and the member of the answer it returns
  (\<open>None\<close> for the wrappers that return the whole answer or nothing).
\<close>

record api_call =
  call_path :: string
  call_init :: request_init
  call_field :: "string option"

definition get_call :: "string \<Rightarrow> string \<Rightarrow> api_call" where
  "get_call path field = \<lparr>call_path = path, call_init = no_init, call_field = Some field\<rparr>"

definition post_call :: "string \<Rightarrow> json option \<Rightarrow> string option \<Rightarrow> api_call" where
  "post_call path body field =
     \<lparr>call_path = path, call_init = no_init\<lparr>in_method := Some ''POST'', in_body := body\<rparr>, call_field = field\<rparr>"

datatype 'a promise = Fulfilled 'a | RejectedRequest json | RejectedOther

text \<open>\<^verbatim>\<open>(await apiRequest(...)).field\<close>: reading a member of \<^verbatim>\<open>null\<close> or \<^verbatim>\<open>undefined\<close> throws.\<close>

definition call_result :: "api_call \<Rightarrow> api_outcome \<Rightarrow> json option promise" where
  "call_result call out =
     (case out of
        ApiRequestError d \<Rightarrow> RejectedRequest d
      | ApiThrown \<Rightarrow> RejectedOther
      | ApiNoContent \<Rightarrow> (case call_field call of None \<Rightarrow> Fulfilled None | Some _ \<Rightarrow> RejectedOther)
      | ApiValue v \<Rightarrow>
          (case call_field call of
             None \<Rightarrow> Fulfilled (Some v)
           | Some f \<Rightarrow> (if v = JNull then RejectedOther else Fulfilled (json_member f v))))"

definition run_call :: "(fetch_request \<Rightarrow> fetch_result) \<Rightarrow> api_call \<Rightarrow> client \<Rightarrow> json option promise \<times> client" where
  "run_call fetch call c =
     (let (out, c') = apiRequest fetch (call_path call) (call_init call) c in (call_result call out, c'))"

subsection \<open>Connections\<close>

record connection_input =
  ci_name :: string
  ci_provider_type :: string
  ci_endpoint :: string
  ci_settings :: json
  ci_credentials :: json
  ci_enabled :: bool

definition connection_json :: "connection_input \<Rightarrow> json" where
  "connection_json i = JObj [(''name'', JStr (ci_name i)), (''provider_type'', JStr (ci_provider_type i)),
     (''endpoint'', JStr (ci_endpoint i)), (''settings'', ci_settings i),
     (''credentials'', ci_credentials i), (''enabled'', JBool (ci_enabled i))]"

definition listProviderTypes :: api_call where
  "listProviderTypes = get_call ''/provider-types'' ''provider_types''"

definition listConnections :: api_call where
  "listConnections = get_call ''/connections'' ''connections''"

definition createConnection :: "connection_input \<Rightarrow> api_call" where
  "createConnection i = post_call ''/connections'' (Some (connection_json i)) (Some ''connection'')"

definition testConnection :: "string \<Rightarrow> api_call" where
  "testConnection i = post_call (''/connections/'' @ i @ ''/test'') (Some (JObj [])) None"

definition syncConnection :: "string \<Rightarrow> api_call" where
  "syncConnection i = post_call (''/connections/'' @ i @ ''/sync'') (Some (JObj [])) None"

definition deleteConnection :: "string \<Rightarrow> api_call" where
  "deleteConnection i =
     \<lparr>call_path = ''/connections/'' @ i, call_init = no_init\<lparr>in_method := Some ''DELETE''\<rparr>, call_field = None\<rparr>"

subsection \<open>Servers and operations\<close>

datatype power_action = PowerStart | PowerStop | PowerReboot

fun power_action_text :: "power_action \<Rightarrow> string" where
  "power_action_text PowerStart = ''start''"
| "power_action_text PowerStop = ''stop''"
| "power_action_text PowerReboot = ''reboot''"

definition listServers :: api_call where
  "listServers = get_call ''/servers'' ''servers''"

definition refreshServer :: "string \<Rightarrow> api_call" where
  "refreshServer i = post_call (''/servers/'' @ i @ ''/refresh'') None None"

definition requestPowerAction :: "string \<Rightarrow> power_action \<Rightarrow> string \<Rightarrow> api_call" where
  "requestPowerAction server action k =
     \<lparr>call_path = ''/servers/'' @ encodeURIComponent server @ ''/actions/'' @ power_action_text action,
      call_init = no_init\<lparr>in_method := Some ''POST'', in_headers := [(''Idempotency-Key'', k)]\<rparr>,
      call_field = Some ''operation''\<rparr>"

definition listOperations :: api_call where
  "listOperations = get_call ''/operations'' ''operations''"

subsection \<open>Console and backups\<close>

definition createEmbeddedConsole :: "string \<Rightarrow> api_call" where
  "createEmbeddedConsole server =
     post_call (''/servers/'' @ encodeURIComponent server @ ''/console-sessions'') None (Some ''session'')"

definition console_window_call :: "string \<Rightarrow> api_call" where
  "console_window_call server =
     post_call (''/servers/'' @ encodeURIComponent server @ ''/console-window'') None (Some ''target'')"

definition provider_portal_call :: "string \<Rightarrow> api_call" where
  "provider_portal_call server =
     get_call (''/servers/'' @ encodeURIComponent server @ ''/provider-portal'') ''target''"

definition listBackups :: api_call where
  "listBackups = get_call ''/backups'' ''backups''"

definition createBackup :: "string \<Rightarrow> api_call" where
  "createBackup passphrase = post_call ''/backups'' (Some (JObj [(''passphrase'', JStr passphrase)])) (Some ''backup'')"

definition validateBackup :: "string \<Rightarrow> string \<Rightarrow> api_call" where
  "validateBackup backup passphrase = post_call ''/backups/validate''
     (Some (JObj [(''backup_id'', JStr backup), (''passphrase'', JStr passphrase)])) (Some ''validation'')"

definition restoreBackup :: "string \<Rightarrow> string \<Rightarrow> api_call" where
  "restoreBackup backup passphrase = post_call (''/backups/'' @ encodeURIComponent backup @ ''/restore'')
     (Some (JObj [(''passphrase'', JStr passphrase)])) None"

text \<open>
  The download fetches the archive itself: a file name to save it under, or an error. The
  object URL is revoked right after the click.
\<close>

definition download_url :: "string \<Rightarrow> string" where
  "download_url backup = ''/api/v1/backups/'' @ encodeURIComponent backup @ ''/download''"

definition downloadBackup :: "(string \<Rightarrow> fetch_result) \<Rightarrow> string \<Rightarrow> string \<Rightarrow> string promise" where
  "downloadBackup fetch backup filename =
     (case fetch (download_url backup) of
        NetworkFailure \<Rightarrow> RejectedOther
      | Response status _ \<Rightarrow> (if response_ok status then Fulfilled filename else RejectedOther))"

section \<open>Lemmas\<close>

lemma js_upper_known [simp]:
  "js_upper ''GET'' = ''GET''" "js_upper ''POST'' = ''POST''" "js_upper ''DELETE'' = ''DELETE''"
  by code_simp+

lemma lower_names [simp]:
  "js_lower ''Content-Type'' = ''content-type''" "js_lower ''X-CSRF-Token'' = ''x-csrf-token''"
  "js_lower ''Idempotency-Key'' = ''idempotency-key''"
  by code_simp+

lemma get_set_header:
  "get_header n (set_header m v hs) = (if js_lower n = js_lower m then Some v else get_header n hs)"
  by (simp add: get_header_def set_header_def table_simps)

lemma safe_upper [simp]: "safe_method ''GET''" "\<not> safe_method ''POST''" "\<not> safe_method ''DELETE''"
  by (simp_all add: safe_method_def)

lemma build_request_method: "build_request c path init = Some req \<Longrightarrow>
    f_method req = request_method init \<and> f_body req = in_body init \<and> f_url req = ''/api/v1'' @ path \<and> f_include_credentials req"
  by (auto simp: build_request_def Let_def)

text \<open>The token header of a request: exactly on a method with effects, when a token is known.\<close>

lemma build_request_csrf:
  assumes "build_request c path init = Some req" and "get_header ''X-CSRF-Token'' (headers_of (in_headers init)) = None"
  shows "get_header ''X-CSRF-Token'' (f_headers req) =
    (if safe_method (request_method init) then None
     else (case csrf_token c of None \<Rightarrow> None | Some [] \<Rightarrow> None | Some t \<Rightarrow> header_value t))"
  using assms
  by (auto simp: build_request_def Let_def get_set_header split: if_splits option.splits list.splits)

lemma headers_of_Nil [simp]: "headers_of [] = []"
  by (simp add: headers_of_def)

lemma get_header_Nil [simp]: "get_header n [] = None"
  by (simp add: get_header_def)

lemma finish_request_token:
  "csrf_token (snd (finish_request r c)) = csrf_token c \<or>
   (csrf_token (snd (finish_request r c)) = None \<and> (\<exists>b. r = Response 401 b))"
  by (auto simp: finish_request_def setCSRFToken_def response_ok_def split: fetch_result.splits option.splits)

lemma action_text_no_slash: "CHR ''/'' \<notin> set (power_action_text a)"
  by (cases a) auto

lemma action_text_inject [simp]: "power_action_text a = power_action_text b \<longleftrightarrow> a = b"
  by (cases a; cases b) auto

lemma power_path_split: "split_on (CHR ''/'') (call_path (requestPowerAction s a k)) =
     [[], ''servers'', encodeURIComponent s, ''actions'', power_action_text a]"
  using split_on_cons [OF encode_no_slash [of s], of "''actions/'' @ power_action_text a"]
    split_on_none [OF action_text_no_slash [of a]]
  by (simp add: requestPowerAction_def)

lemma power_path_inject:
  "call_path (requestPowerAction s a k) = call_path (requestPowerAction s2 a2 k2) \<Longrightarrow> s = s2 \<and> a = a2"
  using power_path_split [of s a k] power_path_split [of s2 a2 k2] by simp

lemma requestPowerAction_inject [simp]:
  "requestPowerAction s a k = requestPowerAction s2 a2 k2 \<longleftrightarrow> s = s2 \<and> a = a2 \<and> k = k2"
proof
  assume eq: "requestPowerAction s a k = requestPowerAction s2 a2 k2"
  then show "s = s2 \<and> a = a2 \<and> k = k2" using power_path_inject [of s a k s2 a2 k2]
    by (simp add: requestPowerAction_def no_init_def)
qed simp

section \<open>Properties\<close>

text \<open>
  Every call of the API client carries the CSRF token header exactly when the method is not
  GET, HEAD or OPTIONS and a non-empty token is known (whatever case the method was written in),
  and it always includes the cookies, as long as the caller sets no such header itself.
\<close>

lemma csrf_header_exactly_on_unsafe_methods:
  assumes "build_request c path init = Some req" and "get_header ''X-CSRF-Token'' (headers_of (in_headers init)) = None"
  shows "f_include_credentials req \<and>
    (get_header ''X-CSRF-Token'' (f_headers req) \<noteq> None \<longleftrightarrow>
      \<not> safe_method (js_upper (case in_method init of None \<Rightarrow> ''GET'' | Some m \<Rightarrow> m)) \<and> csrf_token c \<notin> {None, Some []}) \<and>
    (get_header ''X-CSRF-Token'' (f_headers req) \<noteq> None \<longrightarrow>
      get_header ''X-CSRF-Token'' (f_headers req) = header_value (the (csrf_token c)))"
proof -
  have "header_value t \<noteq> None" if "\<not> safe_method (request_method init)" "csrf_token c = Some t" "t \<noteq> []" for t
    using assms(1) that by (auto simp: build_request_def Let_def split: list.splits)
  then show ?thesis
    using build_request_csrf [OF assms] build_request_method [OF assms(1)]
    by (auto simp: request_method_def split: option.splits list.splits if_splits)
qed

definition sample_client :: client where
  "sample_client = \<lparr>csrf_token = Some (points ''t0k''), document_cookie = ''a=b; controlpanel_csrf=t0k''\<rparr>"

definition sample_request :: fetch_request where
  "sample_request = the (build_request sample_client ''/servers/s1/actions/start'' (call_init (requestPowerAction ''s1'' PowerStart ''k'')))"

lemma sample_request_built:
  "build_request sample_client ''/servers/s1/actions/start'' (call_init (requestPowerAction ''s1'' PowerStart ''k'')) = Some sample_request"
  unfolding sample_request_def by code_simp

theorem csrf_header_exactly_on_unsafe_methods_witness:
  "get_header ''X-CSRF-Token'' (f_headers sample_request) = header_value (points ''t0k'')"
proof -
  have none: "get_header ''X-CSRF-Token'' (headers_of (in_headers (call_init (requestPowerAction ''s1'' PowerStart ''k'')))) = None"
    by code_simp
  have "\<not> safe_method (js_upper (case in_method (call_init (requestPowerAction ''s1'' PowerStart ''k'')) of None \<Rightarrow> ''GET'' | Some m \<Rightarrow> m))"
    by (simp add: requestPowerAction_def no_init_def)
  moreover have "csrf_token sample_client \<notin> {None, Some []}" "the (csrf_token sample_client) = points ''t0k''"
    by (simp_all add: sample_client_def points_def)
  ultimately show ?thesis
    using csrf_header_exactly_on_unsafe_methods [OF sample_request_built none] by auto
qed

text \<open>
  The power request of a server is one POST whose path has the encoded server id as a single
  segment, which decodes to that id whatever characters it has, and which carries the caller's
  idempotency key: no id can address another route, and two different servers or actions never
  share a path.
\<close>

lemma power_request_addresses_one_server:
  "split_on (CHR ''/'') (call_path (requestPowerAction server action k)) =
     [[], ''servers'', encodeURIComponent server, ''actions'', power_action_text action] \<and>
   decodeURIComponent (encodeURIComponent server) = Some (points server) \<and>
   in_method (call_init (requestPowerAction server action k)) = Some ''POST'' \<and>
   get_header ''Idempotency-Key'' (headers_of (in_headers (call_init (requestPowerAction server action k)))) = Some k \<and>
   (call_path (requestPowerAction server action k) = call_path (requestPowerAction server2 action2 k2) \<longrightarrow>
      server = server2 \<and> action = action2)"
  using power_path_split [of server action k] power_path_inject [of server action k server2 action2 k2]
  by (auto simp: decode_encode requestPowerAction_def headers_of_def get_set_header)

theorem power_request_addresses_one_server_witness:
  "call_path (requestPowerAction ''a/b'' PowerStop ''k'') \<noteq> call_path (requestPowerAction ''a'' PowerStop ''k'')"
  using power_request_addresses_one_server [of "''a/b''" PowerStop "''k''" "''a''" PowerStop "''k''"] by auto

end
