(* ===== verification/BrowserSession.thy ===== *)
theory BrowserSession imports AuthService WebClient begin

text \<open>
  Browser and server together: the cookies of a login in the browser's jar, the token the API client reads
  from \<^verbatim>\<open>document.cookie\<close> and sends, and the checks of the server on the request.
\<close>

section \<open>Tokens in the browser\<close>

lemma url_alphabet_chars: "n < 64 \<Longrightarrow> uri_unreserved (url_alphabet n) \<and> url_alphabet n \<notin> {CHR '';'', CHR '' '', CHR ''%''} \<and> \<not> http_space (url_alphabet n)"
proof -
  have "list_all (\<lambda>n. uri_unreserved (url_alphabet n) \<and> url_alphabet n \<notin> {CHR '';'', CHR '' '', CHR ''%''} \<and> \<not> http_space (url_alphabet n)) [0 ..< 64]"
    by code_simp
  then show "n < 64 \<Longrightarrow> ?thesis" by (simp add: list_all_iff)
qed

definition token_text :: "string \<Rightarrow> bool" where
  "token_text s \<longleftrightarrow> (\<forall>c \<in> set s. uri_unreserved c \<and> c \<notin> {CHR '';'', CHR '' '', CHR ''%''} \<and> \<not> http_space c)"

lemma base64_token: "token_text (base64_encode url_alphabet raw)"
  using url_alphabet_chars sextets_less [of _ raw] by (auto simp: token_text_def base64_encode_def)

lemma encode_token: "token_text s \<Longrightarrow> encodeURIComponent s = s"
  by (induction s) (auto simp: token_text_def encodeURIComponent_def encode_unit_def Let_def)

lemma decode_token: "token_text s \<Longrightarrow> decodeURIComponent s = Some (points s)"
  using decode_encode [of s] by (simp add: encode_token)

lemma split_one_cookie: "CHR '';'' \<notin> set s \<Longrightarrow> split_cookies s = [s]"
proof (induction s rule: split_cookies.induct)
  case (3 a b s)
  then have a: "CHR '';'' \<noteq> a" "CHR '';'' \<notin> set (b # s)" by simp_all
  then have "split_cookies (b # s) = [b # s]" by (intro "3.IH"(2)) blast+
  then show ?case using a(1) by simp
qed simp_all

lemma header_of_token: "token_text s \<Longrightarrow> header_value (points s) = Some s"
proof -
  assume s: "token_text s"
  have "(of_char c :: nat) \<le> 255" for c using of_char_less [of c] by linarith
  moreover have "map char_of (points s) = s" by (simp add: points_def comp_def)
  moreover have "trim_by http_space s = s"
  proof (rule trim_by_trimmed)
    have "\<forall>c \<in> set s. \<not> http_space c" using s unfolding token_text_def by blast
    then show "trimmed_by http_space s" unfolding trimmed_by_def by (cases "s = []") (simp_all only: hd_in_set last_in_set not_False_eq_True simp_thms)
  qed
  moreover have "of_char c \<notin> {0, 10, 13 :: nat}" if "c \<in> set s" for c
  proof -
    have c: "uri_unreserved c" "\<not> http_space c" using s that by (auto simp: token_text_def)
    have "of_char c \<noteq> (0 :: nat)" using c(1) by (auto simp: uri_unreserved_def)
    then show ?thesis using c(2) by (simp add: http_space_def)
  qed
  ultimately show ?thesis by (auto simp: header_value_def points_def not_less)
qed

section \<open>A signed-in page\<close>

text \<open>
  The request as the server sees it: what the client built, with the jar's cookies and the three headers that
  the browser adds, \<^verbatim>\<open>Host\<close>, \<^verbatim>\<open>Origin\<close> and \<^verbatim>\<open>Sec-Fetch-Site\<close> (an absent one is empty).
\<close>

definition received_request :: "time \<Rightarrow> cookie_jar \<Rightarrow> string \<Rightarrow> string \<Rightarrow> string \<Rightarrow> fetch_request \<Rightarrow> auth_request" where
  "received_request now jar host origin site req =
     \<lparr>aq_method = f_method req, aq_cookies = sent_cookies now jar, aq_origin = origin, aq_fetch_site = site,
      aq_csrf = (case get_header ''X-CSRF-Token'' (f_headers req) of None \<Rightarrow> [] | Some v \<Rightarrow> v), aq_host = host, aq_body = f_body req\<rparr>"

lemma jar_of_login:
  assumes "now < gr_expires g div second * second"
  shows "sent_cookies now (store_cookies (setAuthCookies ho g) []) = [(sessionCookieName, gr_session g), (csrfCookieName, gr_csrf g)]"
    and "visible_cookies now (store_cookies (setAuthCookies ho g) []) = csrf_prefix @ gr_csrf g"
  using assms
  by (simp_all add: store_cookies_def setAuthCookies_def store_cookie_def sent_cookies_def visible_cookies_def sessionCookieName_def
      csrfCookieName_def csrf_prefix_def)

lemma read_login_token:
  assumes "token_text t"
  shows "readCSRFCookie (csrf_prefix @ t) = Some (Some (points t))"
proof -
  have "CHR '';'' \<notin> set (csrf_prefix @ t)" using assms by (auto simp: csrf_prefix_def token_text_def)
  then have "split_cookies (csrf_prefix @ t) = [csrf_prefix @ t]" by (rule split_one_cookie)
  then show ?thesis using decode_token [OF assms] by (simp add: readCSRFCookie_def)
qed

text \<open>
  C14. A page that has signed in can act. After a login, while its cookies live, the client reads the CSRF token
  from the cookie exactly as the server made it, puts it on a request with effects, and the server,
  which gets the cookies and the headers of the panel's own page from the browser, lets the request through to the
  handlers with the user that logged in: the token survives base64, the cookie, decoding and the header unchanged, and
  the origin check accepts the page, whether the panel's origin is configured or only known from the \<^verbatim>\<open>Host\<close> header, whether
  the browser sends \<^verbatim>\<open>Origin\<close> or only \<^verbatim>\<open>Sec-Fetch-Site\<close>.
\<close>

theorem signed_in_page_passes_csrf:
  assumes "login sv env0 name password db0 = (Inr g, db1)" and "gr_session g \<noteq> []" and "gr_csrf g \<noteq> []"
    and "jar = store_cookies (setAuthCookies ho g) []" and "now < gr_expires g div second * second" and "now < av_now env0 + sv_absolute sv"
    and "build_request (setCSRFToken token c) path init = Some req" and "readCSRFCookie (visible_cookies now jar) = Some token"
    and "get_header ''X-CSRF-Token'' (headers_of (in_headers init)) = None" and "\<not> safe_method (request_method init)"
    and "q = received_request now jar host origin site req" and "sent_by_own_page panel q" and "options_for panel ho"
    and "wo_scheme panel = ''http'' \<or> wo_scheme panel = ''https''"
    and "ho_public_origin ho = [] \<Longrightarrow> ho_parse ho (origin_text panel) = Some (wo_scheme panel, wo_host panel)"
    and "av_fault env = (\<lambda>_. False)" and "av_now env = now"
  shows "token = Some (points (gr_csrf g)) \<and> aq_csrf q = gr_csrf g \<and>
    (\<exists>u s db2. session_request sv ho i env RouteProtected q db1 = (Forwarded u s, db2) \<and> usr_id u = usr_id (gr_user g))"
proof -
  have origin: "requireOrigin ho i q = None" by (rule own_page_accepted [OF assms(12,13,14,15)])
  obtain s where s: "find_by as_token_hash (sv_sha sv (gr_session g)) (db_sessions db1) = Some s" "as_expires s = gr_expires g"
      "as_absolute s = av_now env0 + sv_absolute sv" "as_csrf_hash s = sv_sha sv (gr_csrf g)" "as_user s = usr_id (gr_user g)"
      "find_by usr_id (as_user s) (db_users db1) \<noteq> None" and tok: "token_text (gr_csrf g)"
    by (rule login_row [OF assms(1)]) (use base64_token in metis)
  have cookies: "aq_cookies q = [(sessionCookieName, gr_session g), (csrfCookieName, gr_csrf g)]"
    using jar_of_login(1) [OF assms(5)] assms(4,11) by (simp add: received_request_def)
  have token: "token = Some (points (gr_csrf g))"
    using jar_of_login(2) [OF assms(5)] assms(4,8) read_login_token [OF tok] by simp
  have "points (gr_csrf g) \<noteq> []" using assms(3) by (simp add: points_def)
  then have "get_header ''X-CSRF-Token'' (f_headers req) = Some (gr_csrf g)"
    using build_request_csrf [OF assms(7,9)] assms(10) token header_of_token [OF tok]
    by (auto simp: setCSRFToken_def split: list.splits)
  then have csrf: "aq_csrf q = gr_csrf g" by (simp add: assms(11) received_request_def)
  have valid: "now < as_expires s" "now < as_absolute s"
    using assms(5,6) s(2,3) div_times_less_eq_dividend [of "gr_expires g" second] by linarith+
  obtain u where u: "find_by usr_id (as_user s) (db_users db1) = Some u" using s(6) by blast
  then have id: "usr_id u = usr_id (gr_user g)" using s(5) by (auto dest: find_by_SomeD)
  have "\<exists>s' db2. authenticate sv env (gr_session g) db1 = (Inr (u, s'), db2) \<and> as_csrf_hash s' = as_csrf_hash s"
    using assms(2,16,17) s(1) valid u
    by (auto simp: authenticate_def find_session_def find_user_def touch_session_def Let_def)
  then obtain s' db2 where a: "authenticate sv env (gr_session g) db1 = (Inr (u, s'), db2)" "as_csrf_hash s' = as_csrf_hash s" by blast
  have "requireSession sv ho i env q db1 = (Inr (gr_session g, u, s'), db2)"
    using a(1) cookies by (simp add: requireSession_def)
  moreover have "requireMutationSecurity sv ho i s' q = None"
    using assms(3) origin csrf cookies a(2) s(4)
    by (simp add: requireMutationSecurity_def requireCSRF_def sessionCookieName_def csrfCookieName_def)
  ultimately have "session_request sv ho i env RouteProtected q db1 = (Forwarded u s', db2)" by (simp add: session_request_def)
  then show ?thesis using token csrf id by blast
qed

definition mutation_init :: request_init where
  "mutation_init = no_init\<lparr>in_method := Some ''POST''\<rparr>"

text \<open>With the origin configured and only \<^verbatim>\<open>Sec-Fetch-Site\<close> sent, and without one and \<^verbatim>\<open>Origin\<close> sent.\<close>

theorem signed_in_page_passes_csrf_witness:
  "\<exists>g db1 req. login sample_service (other_env (20 * second)) ''admin'' ''correct horse'' (au_db (service_run sample_service sample_events)) = (Inr g, db1) \<and>
     build_request (setCSRFToken (Some (points ''eQ'')) sample_client) ''/connections'' mutation_init = Some req \<and>
     (\<exists>u s db2. session_request sample_service plain_options [] (quiet_env (30 * second)) RouteProtected
        (received_request (30 * second) (store_cookies (setAuthCookies plain_options g) []) ''panel.test'' [] ''same-origin'' req) db1 = (Forwarded u s, db2)) \<and>
     (\<exists>u s db2. session_request sample_service host_options [] (quiet_env (30 * second)) RouteProtected
        (received_request (30 * second) (store_cookies (setAuthCookies host_options g) []) ''panel.test'' ''https://panel.test'' [] req) db1 = (Forwarded u s, db2))"
proof -
  obtain res db1 where l: "login sample_service (other_env (20 * second)) ''admin'' ''correct horse'' (au_db (service_run sample_service sample_events)) = (res, db1)" by fastforce
  from sample_relogin [OF l] obtain g where g: "res = Inr g" "gr_session g = ''eA''" "gr_csrf g = ''eQ''" by blast
  note login = l [unfolded g(1)]
  have e: "gr_expires g = (20 + 12 * 3600) * second"
    by (rule login_row [OF login]) (simp add: other_env_def quiet_env_def sample_service_def default_service_def second_def)
  have live: "30 * second < gr_expires g div second * second" by (simp add: e second_def)
  have tok: "token_text ''eQ''" by (simp add: token_text_def uri_unreserved_def http_space_def)
  have read: "readCSRFCookie (visible_cookies (30 * second) (store_cookies (setAuthCookies ho g) [])) = Some (Some (points ''eQ''))" for ho
    using jar_of_login(2) [OF live, of ho] read_login_token [OF tok] g(3) by simp
  have "build_request (setCSRFToken (Some (points ''eQ'')) sample_client) ''/connections'' mutation_init \<noteq> None"
    using header_of_token [OF tok] by (simp add: build_request_def setCSRFToken_def mutation_init_def no_init_def points_def Let_def split: list.splits)
  then obtain req where req: "build_request (setCSRFToken (Some (points ''eQ'')) sample_client) ''/connections'' mutation_init = Some req" by blast
  have through: "\<exists>u s db2. session_request sample_service ho [] (quiet_env (30 * second)) RouteProtected
       (received_request (30 * second) (store_cookies (setAuthCookies ho g) []) ''panel.test'' origin site req) db1 = (Forwarded u s, db2)"
    if "(origin, site) \<in> {([], ''same-origin''), (''https://panel.test'', [])}" "ho \<in> {plain_options, host_options}" for ho origin site
  proof -
    let ?q = "received_request (30 * second) (store_cookies (setAuthCookies ho g) []) ''panel.test'' origin site req"
    have own: "sent_by_own_page panel_origin ?q"
      using that(1) by (auto simp: sent_by_own_page_def sent_from_def received_request_def panel_origin_def origin_text_def go_lower_def)
    have options: "options_for panel_origin ho"
      "ho_public_origin ho = [] \<Longrightarrow> ho_parse ho (origin_text panel_origin) = Some (wo_scheme panel_origin, wo_host panel_origin)"
      using that(2) by (auto simp: options_for_def origin_text_def plain_options_def host_options_def split_origin_def panel_origin_def Let_def)
    have set: "gr_session g \<noteq> []" "gr_csrf g \<noteq> []" "get_header ''X-CSRF-Token'' (headers_of (in_headers mutation_init)) = None"
      "\<not> safe_method (request_method mutation_init)" "wo_scheme panel_origin = ''http'' \<or> wo_scheme panel_origin = ''https''"
      "30 * second < av_now (other_env (20 * second)) + sv_absolute sample_service"
      by (simp_all add: g mutation_init_def no_init_def headers_of_def get_header_def request_method_def safe_method_def panel_origin_def
          other_env_def quiet_env_def sample_service_def default_service_def second_def)
    have quiet: "av_fault (quiet_env (30 * second)) = (\<lambda>_. False)" "av_now (quiet_env (30 * second)) = 30 * second" by (simp_all add: quiet_env_def)
    from signed_in_page_passes_csrf [OF login set(1,2) refl live set(6) req read set(3,4) refl own options(1) set(5) options(2) quiet] show ?thesis
      by blast
  qed
  have "(''https://panel.test'', []) \<in> {([], ''same-origin''), (''https://panel.test'', [])}"
    "([], ''same-origin'') \<in> {([] :: string, ''same-origin''), (''https://panel.test'', [])}" by simp_all
  from through [OF this(2), of plain_options] through [OF this(1), of host_options] show ?thesis using login req by blast
qed

end
