(* ===== verification/WebPage.thy ===== *)
theory WebPage imports WebClient begin

text \<open>
  What the list pages of the web client have in common: \<^verbatim>\<open>ConnectionsPage\<close>, \<^verbatim>\<open>ServersPage\<close>,
  \<^verbatim>\<open>OperationsPage\<close> and \<^verbatim>\<open>BackupsPage\<close> each show "loading", "empty" or the items, and load their
  items again and again, successfully or not. The locale states what a load may do to a page.
\<close>

datatype 'i list_view = ShowLoading | ShowEmpty | ShowItems "'i list"

definition list_view :: "bool \<Rightarrow> 'i list \<Rightarrow> 'i list_view" where
  "list_view loading items = (if loading then ShowLoading else if items = [] then ShowEmpty else ShowItems items)"

text \<open>The result of a load: what was loaded, or \<open>None\<close> when it is rejected.\<close>

fun run_loads :: "('d \<Rightarrow> 's \<Rightarrow> 's) \<Rightarrow> ('s \<Rightarrow> 's) \<Rightarrow> 'd option list \<Rightarrow> 's \<Rightarrow> 's" where
  "run_loads ok bad [] s = s"
| "run_loads ok bad (Some xs # rs) s = run_loads ok bad rs (ok xs s)"
| "run_loads ok bad (None # rs) s = run_loads ok bad rs (bad s)"

definition last_loaded :: "'d option list \<Rightarrow> 'd \<Rightarrow> 'd" where
  "last_loaded rs xs = fold (\<lambda>r acc. case r of None \<Rightarrow> acc | Some ys \<Rightarrow> ys) rs xs"

text \<open>
  \<^verbatim>\<open>useServerEvents\<close> (\<^verbatim>\<open>web/src/events/useServerEvents.ts\<close>): an event source while the component
  is mounted, if the browser has one; two event names call the callback, the latest one given.
\<close>

record 'c event_hook =
  eh_open :: bool
  eh_callback :: 'c

definition event_source_url :: string where
  "event_source_url = ''/api/v1/events''"

definition mount_hook :: "bool \<Rightarrow> 'c \<Rightarrow> 'c event_hook" where
  "mount_hook supported callback = \<lparr>eh_open = supported, eh_callback = callback\<rparr>"

definition rerender_hook :: "'c \<Rightarrow> 'c event_hook \<Rightarrow> 'c event_hook" where
  "rerender_hook callback h = h\<lparr>eh_callback := callback\<rparr>"

definition unmount_hook :: "'c event_hook \<Rightarrow> 'c event_hook" where
  "unmount_hook h = h\<lparr>eh_open := False\<rparr>"

definition invalidating :: "string \<Rightarrow> bool" where
  "invalidating name \<longleftrightarrow> name \<in> set [''operation.updated'', ''server.updated'']"

definition hook_event :: "string \<Rightarrow> 'c event_hook \<Rightarrow> 'c option" where
  "hook_event name h = (if eh_open h \<and> invalidating name then Some (eh_callback h) else None)"

locale list_page =
  fixes mounted :: "'s \<Rightarrow> bool"
    and loading :: "'s \<Rightarrow> bool"
    and items :: "'s \<Rightarrow> 'd"
    and alert :: "'s \<Rightarrow> bool"
    and loaded :: "'d \<Rightarrow> 's \<Rightarrow> 's"
    and load_failed :: "'s \<Rightarrow> 's"
  assumes loaded_shows: "mounted s \<Longrightarrow> mounted (loaded xs s) \<and> \<not> loading (loaded xs s) \<and> items (loaded xs s) = xs"
    and failed_keeps: "mounted s \<Longrightarrow>
      mounted (load_failed s) \<and> \<not> loading (load_failed s) \<and> items (load_failed s) = items s \<and> alert (load_failed s)"

text \<open>A page that takes the alert down again when a load succeeds, and one that leaves it up.\<close>

locale recovering_page = list_page +
  assumes loaded_clears: "mounted s \<Longrightarrow> \<not> alert (loaded xs s)"

locale sticky_page = list_page +
  assumes loaded_leaves: "mounted s \<Longrightarrow> alert (loaded xs s) = alert s"

context list_page begin

lemma run_mounted: "mounted s \<Longrightarrow> mounted (run_loads loaded load_failed rs s)"
proof (induction rs arbitrary: s)
  case (Cons r rs)
  then show ?case using loaded_shows failed_keeps by (cases r) simp_all
qed simp

lemma run_items: "mounted s \<Longrightarrow> items (run_loads loaded load_failed rs s) = last_loaded rs (items s)"
proof (induction rs arbitrary: s)
  case (Cons r rs)
  then show ?case using loaded_shows failed_keeps by (cases r) (simp_all add: last_loaded_def)
qed (simp add: last_loaded_def)

lemma run_not_loading: "mounted s \<Longrightarrow> \<not> loading s \<Longrightarrow> \<not> loading (run_loads loaded load_failed rs s)"
proof (induction rs arbitrary: s)
  case (Cons r rs)
  then show ?case using loaded_shows failed_keeps by (cases r) simp_all
qed simp

lemma run_shown:
  assumes "mounted s" and "rs \<noteq> []"
  shows "\<not> loading (run_loads loaded load_failed rs s)"
  using assms run_not_loading loaded_shows failed_keeps
  by (cases rs; cases "hd rs") simp_all

end

context recovering_page begin

text \<open>The alert tells whether the last load failed.\<close>

lemma run_alert:
  assumes "mounted s" shows "alert (run_loads loaded load_failed (rs @ [r]) s) \<longleftrightarrow> r = None"
  using assms
proof (induction rs arbitrary: s)
  case Nil
  then show ?case using loaded_clears failed_keeps by (cases r) simp_all
next
  case (Cons q rs)
  then show ?case using loaded_shows failed_keeps by (cases q) simp_all
qed

end

context sticky_page begin

text \<open>The alert tells whether any load failed.\<close>

lemma run_alert:
  assumes "mounted s" shows "alert (run_loads loaded load_failed rs s) \<longleftrightarrow> alert s \<or> None \<in> set rs"
  using assms
proof (induction rs arbitrary: s)
  case (Cons q rs)
  then show ?case using loaded_leaves loaded_shows failed_keeps by (cases q) simp_all
qed simp

end

end
