(* ===== verification/WebOperations.thy ===== *)
theory WebOperations imports WebPage OpStore begin

text \<open>
  The history page, \<^verbatim>\<open>web/src/operations/OperationsPage.tsx\<close>: it loads operations and servers when
  it is mounted and again on every event of the server, and shows one card per operation.
\<close>

section \<open>Data\<close>

record web_operation =
  wo_id :: string
  wo_server_id :: string
  wo_action :: power_action
  wo_status :: op_status
  wo_error_message :: "string option"
  wo_queued_at :: string
  wo_updated_at :: string

record operations_page =
  oh_operations :: "web_operation list"
  oh_servers :: "(string \<times> string) list"
  oh_loading :: bool
  oh_error :: bool
  oh_refreshing :: nat
  oh_hook :: "unit event_hook"

datatype action_word = LabelStart | LabelStop | LabelReboot

fun action_label :: "power_action \<Rightarrow> action_word" where
  "action_label PowerStart = LabelStart"
| "action_label PowerStop = LabelStop"
| "action_label PowerReboot = LabelReboot"

datatype status_word = LabelQueued | LabelRunning | LabelVerifying | LabelSucceeded | LabelFailed
  | LabelTimedOut | LabelCancelled

fun status_label :: "op_status \<Rightarrow> status_word" where
  "status_label StatusQueued = LabelQueued"
| "status_label StatusRunning = LabelRunning"
| "status_label StatusVerifying = LabelVerifying"
| "status_label StatusSucceeded = LabelSucceeded"
| "status_label StatusFailed = LabelFailed"
| "status_label StatusTimedOut = LabelTimedOut"
| "status_label StatusCancelled = LabelCancelled"

section \<open>The page\<close>

text \<open>\<^verbatim>\<open>refresh\<close> starts by asking for both lists; it ends with both or with the error.\<close>

definition start_refresh :: "operations_page \<Rightarrow> operations_page" where
  "start_refresh p = p\<lparr>oh_refreshing := Suc (oh_refreshing p)\<rparr>"

definition operations_mounted :: "bool \<Rightarrow> operations_page" where
  "operations_mounted supported = start_refresh
     \<lparr>oh_operations = [], oh_servers = [], oh_loading = True, oh_error = False, oh_refreshing = 0,
      oh_hook = mount_hook supported ()\<rparr>"

definition operations_loaded :: "(string \<times> string) list \<Rightarrow> web_operation list \<Rightarrow> operations_page \<Rightarrow> operations_page" where
  "operations_loaded servers ops p = p\<lparr>oh_operations := ops, oh_servers := servers, oh_error := False, oh_loading := False\<rparr>"

definition operations_failed :: "operations_page \<Rightarrow> operations_page" where
  "operations_failed p = p\<lparr>oh_error := True, oh_loading := False\<rparr>"

datatype operations_event = OperationsServerEvent string
  | RefreshAnswered "((string \<times> string) list \<times> web_operation list) option"
  | OperationsUnmount

fun operations_step :: "operations_event \<Rightarrow> operations_page \<Rightarrow> operations_page" where
  "operations_step (OperationsServerEvent name) p = (case hook_event name (oh_hook p) of None \<Rightarrow> p | Some _ \<Rightarrow> start_refresh p)"
| "operations_step (RefreshAnswered r) p =
     (if oh_refreshing p = 0 then p
      else (let q = p\<lparr>oh_refreshing := oh_refreshing p - 1\<rparr>
            in (case r of None \<Rightarrow> operations_failed q | Some (servers, ops) \<Rightarrow> operations_loaded servers ops q)))"
| "operations_step OperationsUnmount p = p\<lparr>oh_hook := unmount_hook (oh_hook p)\<rparr>"

section \<open>What is shown\<close>

record operation_card =
  oc_server :: string
  oc_id :: string
  oc_status :: status_word
  oc_status_class :: string
  oc_action :: action_word
  oc_queued_at :: string
  oc_updated_at :: string
  oc_error :: "string option"

text \<open>\<^verbatim>\<open>new Map(...)\<close> keeps the last of several entries with a key.\<close>

definition server_name :: "(string \<times> string) list \<Rightarrow> string \<Rightarrow> string" where
  "server_name servers i = (case map_of (rev servers) i of None \<Rightarrow> i | Some n \<Rightarrow> n)"

definition operation_card :: "(string \<times> string) list \<Rightarrow> web_operation \<Rightarrow> operation_card" where
  "operation_card servers o1 =
     \<lparr>oc_server = server_name servers (wo_server_id o1), oc_id = wo_id o1, oc_status = status_label (wo_status o1),
      oc_status_class = op_status_text (wo_status o1), oc_action = action_label (wo_action o1),
      oc_queued_at = wo_queued_at o1, oc_updated_at = wo_updated_at o1,
      oc_error = (case wo_error_message o1 of Some m \<Rightarrow> (if m = [] then None else Some m) | None \<Rightarrow> None)\<rparr>"

record operations_view =
  ov_count :: nat
  ov_error :: bool
  ov_list :: "operation_card list_view"

definition operations_view :: "operations_page \<Rightarrow> operations_view" where
  "operations_view p =
     \<lparr>ov_count = length (oh_operations p), ov_error = oh_error p,
      ov_list = list_view (oh_loading p) (map (operation_card (oh_servers p)) (oh_operations p))\<rparr>"

section \<open>Lemmas and properties\<close>

interpretation operations: recovering_page "\<lambda>_. True" oh_loading "\<lambda>p. (oh_servers p, oh_operations p)" oh_error
  "\<lambda>(servers, ops). operations_loaded servers ops" operations_failed
  by unfold_locales (auto simp: operations_loaded_def operations_failed_def)

definition answers :: "operations_event list \<Rightarrow> ((string \<times> string) list \<times> web_operation list) option list" where
  "answers evs = concat (map (\<lambda>ev. case ev of RefreshAnswered r \<Rightarrow> [r] | _ \<Rightarrow> []) evs)"

text \<open>An answer needs a request: a run in which every answer settles one that is in flight.\<close>

fun answered_run :: "operations_event list \<Rightarrow> operations_page \<Rightarrow> bool" where
  "answered_run [] p = True"
| "answered_run (ev # evs) p =
     ((case ev of RefreshAnswered _ \<Rightarrow> oh_refreshing p > 0 | _ \<Rightarrow> True) \<and> answered_run evs (operations_step ev p))"

definition same_lists :: "operations_page \<Rightarrow> operations_page \<Rightarrow> bool" where
  "same_lists p q \<longleftrightarrow> oh_operations p = oh_operations q \<and> oh_servers p = oh_servers q \<and> oh_loading p = oh_loading q \<and> oh_error p = oh_error q"

lemma run_same:
  assumes "answered_run evs p" and "same_lists p q"
  shows "same_lists (fold operations_step evs p)
    (run_loads (\<lambda>(servers, ops). operations_loaded servers ops) operations_failed (answers evs) q)"
  using assms
proof (induction evs arbitrary: p q)
  case (Cons ev evs)
  show ?case
  proof (cases ev)
    case (OperationsServerEvent name)
    then have "same_lists (operations_step ev p) q" using Cons.prems
      by (auto simp: same_lists_def start_refresh_def split: option.split)
    then show ?thesis using Cons OperationsServerEvent by (simp add: answers_def)
  next
    case (RefreshAnswered r)
    let ?q = "case r of None \<Rightarrow> operations_failed q | Some (s, o1) \<Rightarrow> operations_loaded s o1 q"
    have "same_lists (operations_step ev p) ?q" using Cons.prems RefreshAnswered
      by (auto simp: same_lists_def operations_loaded_def operations_failed_def Let_def split: option.split)
    then show ?thesis using Cons.IH [of "operations_step ev p" ?q] Cons.prems RefreshAnswered
      by (cases r) (auto simp: answers_def)
  next
    case OperationsUnmount
    then have "same_lists (operations_step ev p) q" using Cons.prems by (simp add: same_lists_def)
    then show ?thesis using Cons OperationsUnmount by (simp add: answers_def)
  qed
qed (simp add: answers_def)

text \<open>
  After any run of the history page in which at least one load was answered: nothing is "loading",
  the error is shown exactly when the last answered load failed, and the operations and server names
  are those of the last load that succeeded, so a failing load keeps the list that was there.
\<close>

lemma history_shows_last_successful_load:
  assumes "answered_run evs (operations_mounted supported)" and "fold operations_step evs (operations_mounted supported) = p"
    and "answers evs = rs @ [r]"
  shows "(ov_error (operations_view p) \<longleftrightarrow> r = None) \<and>
    (oh_servers p, oh_operations p) = last_loaded (rs @ [r]) ([], []) \<and>
    ov_list (operations_view p) = (if oh_operations p = [] then ShowEmpty
      else ShowItems (map (operation_card (oh_servers p)) (oh_operations p)))"
proof -
  let ?m = "operations_mounted supported"
  let ?run = "run_loads (\<lambda>(servers, ops). operations_loaded servers ops) operations_failed (rs @ [r]) ?m"
  have same: "same_lists p ?run" using run_same [OF assms(1), of ?m] assms(2,3) by (simp add: same_lists_def)
  have "\<not> oh_loading ?run" by (rule operations.run_shown) simp_all
  moreover have "oh_error ?run \<longleftrightarrow> r = None" by (rule operations.run_alert) simp
  moreover have "(oh_servers ?run, oh_operations ?run) = last_loaded (rs @ [r]) (oh_servers ?m, oh_operations ?m)"
    by (rule operations.run_items) simp
  moreover have "oh_servers ?m = []" "oh_operations ?m = []" by (simp_all add: operations_mounted_def start_refresh_def)
  ultimately show ?thesis using same by (simp add: same_lists_def operations_view_def list_view_def)
qed

definition sample_history :: "operations_event list" where
  "sample_history = [RefreshAnswered (Some ([(''s1'', ''web'')], [\<lparr>wo_id = ''o1'', wo_server_id = ''s1'', wo_action = PowerStart,
     wo_status = StatusQueued, wo_error_message = None, wo_queued_at = ''t'', wo_updated_at = ''t''\<rparr>])),
     OperationsServerEvent ''operation.updated'', RefreshAnswered None]"

theorem history_shows_last_successful_load_witness:
  "ov_error (operations_view (fold operations_step sample_history (operations_mounted True)))"
proof -
  have run: "answered_run sample_history (operations_mounted True)" by code_simp
  have "\<exists>r1. answers sample_history = [r1] @ [None]" by (simp add: sample_history_def answers_def)
  then show ?thesis using history_shows_last_successful_load [OF run refl] by auto
qed

end
