(* ===== verification/EventStream.thy ===== *)
theory EventStream imports EventBroker GoTime WebOperations begin

text \<open>
  Server-sent events from end to end: the frames \<^verbatim>\<open>internal/events/http.go\<close> writes for the events of
  one subscription, the stream parser of the browser's \<^verbatim>\<open>EventSource\<close> (the HTML standard), and the
  hook \<^verbatim>\<open>web/src/events/useServerEvents.ts\<close> that listens to it. Strings are the bytes of valid UTF-8.
\<close>

section \<open>JSON text\<close>

text \<open>\<^verbatim>\<open>json.Marshal\<close>: strings escape quotes, controls, the HTML characters and U+2028, U+2029.\<close>

definition hex_lower :: "nat \<Rightarrow> char" where
  "hex_lower n = (if n < 10 then char_of (48 + n) else char_of (87 + n))"

definition escape_unit :: "char \<Rightarrow> string" where
  "escape_unit c =
     (let n = of_char c :: nat; backslash = char_of (92 :: nat)
      in if n = 34 \<or> n = 92 then [backslash, c]
         else if n = 8 then [backslash, CHR ''b''] else if n = 12 then [backslash, CHR ''f'']
         else if n = 10 then [backslash, CHR ''n''] else if n = 13 then [backslash, CHR ''r'']
         else if n = 9 then [backslash, CHR ''t'']
         else if n < 32 \<or> n = 60 \<or> n = 62 \<or> n = 38
         then backslash # ''u00'' @ [hex_lower (n div 16), hex_lower (n mod 16)]
         else [c])"

fun escape_text :: "string \<Rightarrow> string" where
  "escape_text (a # b # c # s) =
     (if of_char a = (226 :: nat) \<and> of_char b = (128 :: nat) \<and> of_char c \<in> {168, 169 :: nat}
      then char_of (92 :: nat) # ''u202'' @ [hex_lower (of_char c - 160)] @ escape_text s
      else escape_unit a @ escape_text (b # c # s))"
| "escape_text (a # s) = escape_unit a @ escape_text s"
| "escape_text [] = []"

definition quoted :: "string \<Rightarrow> string" where
  "quoted s = CHR 0x22 # escape_text s @ [CHR 0x22]"

definition int_text :: "int \<Rightarrow> string" where
  "int_text i = (if i < 0 then CHR ''-'' # digits_of (nat (- i)) else digits_of (nat i))"

fun json_text :: "json \<Rightarrow> string" where
  "json_text JNull = ''null''"
| "json_text (JBool b) = (if b then ''true'' else ''false'')"
| "json_text (JNum n) = int_text n"
| "json_text (JStr s) = quoted s"
| "json_text (JArr vs) = ''['' @ join_with (CHR '','') (map json_text vs) @ '']''"
| "json_text (JObj ms) = CHR 0x7B # join_with (CHR '','') (map (\<lambda>(k, v). quoted k @ '':'' @ json_text v) ms) @ [CHR 0x7D]"

section \<open>The stream the server writes\<close>

text \<open>
  What \<open>stream\<close> writes: the retry interval, then, as the channel and the ticker come, frames and
  heartbeats. Data that is not JSON is replaced by an empty object; \<^verbatim>\<open>json.Compact\<close> leaves
  the text that \<^verbatim>\<open>json.Marshal\<close> wrote as it is.
\<close>

abbreviation newline :: char where
  "newline \<equiv> CHR 0x0A"

definition frame_data :: "json option \<Rightarrow> string" where
  "frame_data d = (case d of None \<Rightarrow> [CHR 0x7B, CHR 0x7D] | Some v \<Rightarrow> json_text v)"

definition event_frame :: "event \<Rightarrow> string" where
  "event_frame ev = ''id: '' @ digits_of (unat (ev_id ev)) @ newline # ''event: '' @ ev_type ev @ newline #
     ''data: '' @ frame_data (ev_data ev) @ [newline, newline]"

datatype stream_step = SendEvent event | SendHeartbeat

fun step_text :: "stream_step \<Rightarrow> string" where
  "step_text (SendEvent ev) = event_frame ev"
| "step_text SendHeartbeat = '': heartbeat'' @ [newline, newline]"

definition stream_text :: "stream_step list \<Rightarrow> string" where
  "stream_text steps = ''retry: 3000'' @ [newline, newline] @ concat (map step_text steps)"

definition sent_events :: "stream_step list \<Rightarrow> event list" where
  "sent_events steps = concat (map (\<lambda>s. case s of SendEvent ev \<Rightarrow> [ev] | SendHeartbeat \<Rightarrow> []) steps)"

section \<open>EventSource\<close>

text \<open>Lines end with LF, CR or both; what follows the last end is not a line yet.\<close>

definition drop_lf :: "string \<Rightarrow> string" where
  "drop_lf s = (case s of [] \<Rightarrow> [] | c # t \<Rightarrow> if c = newline then t else s)"

lemma drop_lf_length: "length (drop_lf s) \<le> length s"
  by (cases s) (simp_all add: drop_lf_def)

function sse_lines :: "string \<Rightarrow> string \<Rightarrow> string list" where
  "sse_lines cur [] = []"
| "sse_lines cur (c # s) =
     (if c = newline then cur # sse_lines [] s
      else if c = CHR 0x0D then cur # sse_lines [] (drop_lf s)
      else sse_lines (cur @ [c]) s)"
  by pat_completeness auto
termination
  by (relation "measure (length \<circ> snd)") (auto simp: le_imp_less_Suc drop_lf_length)

record sse_state =
  ss_type :: string
  ss_data :: string
  ss_last_id :: string
  ss_retry :: "string option"
  ss_events :: "(string \<times> string \<times> string) list"

definition sse_start :: sse_state where
  "sse_start = \<lparr>ss_type = [], ss_data = [], ss_last_id = [], ss_retry = None, ss_events = []\<rparr>"

text \<open>An empty line dispatches type, data without its last line end, and the last event id.\<close>

definition sse_dispatch :: "sse_state \<Rightarrow> sse_state" where
  "sse_dispatch st =
     (if ss_data st = [] then st\<lparr>ss_type := []\<rparr>
      else st\<lparr>ss_events := ss_events st @ [(if ss_type st = [] then ''message'' else ss_type st, butlast (ss_data st), ss_last_id st)],
              ss_type := [], ss_data := []\<rparr>)"

definition is_digits :: "string \<Rightarrow> bool" where
  "is_digits s = list_all (\<lambda>c. 48 \<le> (of_char c :: nat) \<and> of_char c \<le> (57 :: nat)) s"

definition sse_field :: "string \<Rightarrow> string \<Rightarrow> sse_state \<Rightarrow> sse_state" where
  "sse_field name value st =
     (if name = ''event'' then st\<lparr>ss_type := value\<rparr>
      else if name = ''data'' then st\<lparr>ss_data := ss_data st @ value @ [newline]\<rparr>
      else if name = ''id'' then (if CHR 0x00 \<in> set value then st else st\<lparr>ss_last_id := value\<rparr>)
      else if name = ''retry'' then (if is_digits value then st\<lparr>ss_retry := Some value\<rparr> else st)
      else st)"

definition sse_line :: "string \<Rightarrow> sse_state \<Rightarrow> sse_state" where
  "sse_line l st =
     (if l = [] then sse_dispatch st
      else if hd l = CHR '':'' then st
      else if CHR '':'' \<notin> set l then sse_field l [] st
      else (let name = takeWhile (\<lambda>c. c \<noteq> CHR '':'') l;
                rest = drop (Suc (length name)) l;
                value = (if rest \<noteq> [] \<and> hd rest = CHR '' '' then tl rest else rest)
            in sse_field name value st))"

definition sse_parse :: "string \<Rightarrow> sse_state" where
  "sse_parse s = fold sse_line (sse_lines [] s) sse_start"

section \<open>Texts without line ends\<close>

definition one_line :: "string \<Rightarrow> bool" where
  "one_line s \<longleftrightarrow> newline \<notin> set s \<and> CHR 0x0D \<notin> set s"

lemma one_line_simps [simp]:
  "one_line []" "one_line (c # s) \<longleftrightarrow> c \<noteq> newline \<and> c \<noteq> CHR 0x0D \<and> one_line s"
  "one_line (s @ t) \<longleftrightarrow> one_line s \<and> one_line t"
  by (auto simp: one_line_def)

lemma code_neq: "of_char c \<noteq> (of_char d :: nat) \<Longrightarrow> c \<noteq> d"
  by auto

lemma hex_lower_one_line: "n < 16 \<Longrightarrow> hex_lower n \<noteq> newline \<and> hex_lower n \<noteq> CHR 0x0D"
proof -
  assume "n < 16"
  then have "of_char (hex_lower n) = (if n < 10 then 48 + n else 87 + n)"
    by (simp add: hex_lower_def)
  then have "of_char (hex_lower n) \<ge> (48 :: nat)" by simp
  then show ?thesis by auto
qed

lemma escape_unit_one_line: "one_line (escape_unit c)"
proof -
  have neq: "c \<noteq> newline" "c \<noteq> CHR 0x0D" if "of_char c \<noteq> (10 :: nat)" "of_char c \<noteq> (13 :: nat)"
    using that by auto
  have slash: "char_of (92 :: nat) \<noteq> newline" "char_of (92 :: nat) \<noteq> CHR 0x0D" by (simp_all add: code_neq)
  have "of_char c < (256 :: nat)" by simp
  then have "of_char c div 16 < (16 :: nat)" "of_char c mod 16 < (16 :: nat)" by linarith+
  note hex = hex_lower_one_line [OF this(1)] hex_lower_one_line [OF this(2)]
  show ?thesis using neq slash hex by (auto simp: escape_unit_def Let_def)
qed

lemma escape_text_one_line: "one_line (escape_text s)"
proof (induction s rule: escape_text.induct)
  case (1 a b c s)
  have "of_char c - 160 < (16 :: nat)" if "of_char c \<in> {168, 169 :: nat}" using that by auto
  then have "hex_lower (of_char c - 160) \<noteq> newline \<and> hex_lower (of_char c - 160) \<noteq> CHR 0x0D"
    if "of_char c \<in> {168, 169 :: nat}" using hex_lower_one_line that by blast
  moreover have "char_of (92 :: nat) \<noteq> newline" "char_of (92 :: nat) \<noteq> CHR 0x0D" by (simp_all add: code_neq)
  ultimately show ?case using 1 escape_unit_one_line by auto
qed (simp_all add: escape_unit_one_line)

lemma digit_one_line: "n < 10 \<Longrightarrow> digit n \<noteq> newline \<and> digit n \<noteq> CHR 0x0D"
proof -
  assume "n < 10"
  then have "of_char (digit n) = 48 + n" by (simp add: digit_def)
  then show ?thesis by auto
qed

lemma digits_one_line: "one_line (digits_of n)"
proof (induction n rule: digits_of.induct)
  case (1 n)
  then show ?case using digit_one_line [of n] digit_one_line [of "n mod 10"]
    by (subst digits_of.simps) auto
qed

lemma join_one_line: "(\<And>p. p \<in> set ps \<Longrightarrow> one_line p) \<Longrightarrow> one_line (join_with (CHR '','') ps)"
  by (induction "CHR '',''" ps rule: join_with.induct) auto

lemma json_text_one_line: "one_line (json_text v)"
proof (induction v rule: json_text.induct)
  case (5 vs)
  then show ?case by (auto intro!: join_one_line)
next
  case (6 ms)
  then show ?case by (auto intro!: join_one_line simp: quoted_def escape_text_one_line)
qed (auto simp: quoted_def escape_text_one_line int_text_def digits_one_line)

lemma frame_data_one_line: "one_line (frame_data d)"
  by (cases d) (simp_all add: frame_data_def json_text_one_line)

section \<open>Parsing what was written\<close>

lemma sse_lines_line: "one_line l \<Longrightarrow> sse_lines cur (l @ newline # s) = (cur @ l) # sse_lines [] s"
proof (induction l arbitrary: cur)
  case (Cons c l)
  then show ?case using Cons.IH [of "cur @ [c]"] by simp
qed simp

lemma sse_lines_frame:
  assumes "one_line (ev_type ev)"
  shows "sse_lines [] (event_frame ev @ s) =
    [''id: '' @ digits_of (unat (ev_id ev)), ''event: '' @ ev_type ev, ''data: '' @ frame_data (ev_data ev), []] @ sse_lines [] s"
proof -
  let ?a = "''id: '' @ digits_of (unat (ev_id ev))" and ?b = "''event: '' @ ev_type ev" and ?c = "''data: '' @ frame_data (ev_data ev)"
  have l: "one_line ?a" "one_line ?b" "one_line ?c" "one_line []"
    using assms by (simp_all add: digits_one_line frame_data_one_line)
  have "event_frame ev @ s = ?a @ newline # ?b @ newline # ?c @ newline # [] @ newline # s"
    by (simp add: event_frame_def)
  then show ?thesis using l by (simp only: sse_lines_line) simp
qed

lemma zero_not_digit: "CHR 0x00 \<notin> set (digits_of n)"
proof (induction n rule: digits_of.induct)
  case (1 n)
  have dz: "digit m \<noteq> CHR 0x00" if "m < 10" for m
  proof -
    have "of_char (digit m) = 48 + m" using that by (simp add: digit_def)
    then show ?thesis by auto
  qed
  have "digit n \<noteq> CHR 0x00 \<or> 10 \<le> n" "digit (n mod 10) \<noteq> CHR 0x00" using dz [of n] dz [of "n mod 10"] by linarith+
  then show ?case using 1 by (subst digits_of.simps) (auto simp: eq_commute [of "CHR 0x00"])
qed

lemma sse_line_field:
  assumes "name \<noteq> []" and "CHR '':'' \<notin> set name"
  shows "sse_line (name @ '': '' @ value) st = sse_field name value st"
proof -
  have "takeWhile (\<lambda>c. c \<noteq> CHR '':'') (name @ '': '' @ value) = name"
    using assms(2) by (subst takeWhile_append2) auto
  moreover have "hd (name @ '': '' @ value) \<noteq> CHR '':''" using assms by (cases name) auto
  ultimately show ?thesis using assms by (simp add: sse_line_def)
qed

text \<open>Between two blocks the parser holds neither a type nor data.\<close>

definition between_blocks :: "sse_state \<Rightarrow> bool" where
  "between_blocks st \<longleftrightarrow> ss_type st = [] \<and> ss_data st = []"

definition dispatched :: "event \<Rightarrow> string \<times> string \<times> string" where
  "dispatched ev = (ev_type ev, frame_data (ev_data ev), digits_of (unat (ev_id ev)))"

lemma fold_frame:
  assumes "between_blocks st" and "ev_type ev \<noteq> []"
  shows "fold sse_line [''id: '' @ digits_of (unat (ev_id ev)), ''event: '' @ ev_type ev, ''data: '' @ frame_data (ev_data ev), []] st
    = st\<lparr>ss_events := ss_events st @ [dispatched ev], ss_last_id := digits_of (unat (ev_id ev))\<rparr>"
proof -
  have "sse_line (''id: '' @ digits_of (unat (ev_id ev))) st = st\<lparr>ss_last_id := digits_of (unat (ev_id ev))\<rparr>"
    using sse_line_field [of "''id''" "digits_of (unat (ev_id ev))" st] by (simp add: sse_field_def zero_not_digit)
  moreover have "sse_line (''event: '' @ t) st' = st'\<lparr>ss_type := t\<rparr>" for t st'
    using sse_line_field [of "''event''" t st'] by (simp add: sse_field_def)
  moreover have "sse_line (''data: '' @ d) st' = st'\<lparr>ss_data := ss_data st' @ d @ [newline]\<rparr>" for d st'
    using sse_line_field [of "''data''" d st'] by (simp add: sse_field_def)
  ultimately show ?thesis
    using assms by (simp add: sse_line_def [of "[]"] sse_dispatch_def between_blocks_def dispatched_def)
qed

definition plain_type :: "event \<Rightarrow> bool" where
  "plain_type ev \<longleftrightarrow> ev_type ev \<noteq> [] \<and> one_line (ev_type ev)"

lemma parse_steps:
  assumes "\<And>ev. ev \<in> set (sent_events steps) \<Longrightarrow> plain_type ev" and "between_blocks st"
  shows "ss_events (fold sse_line (sse_lines [] (concat (map step_text steps))) st) = ss_events st @ map dispatched (sent_events steps)"
  using assms
proof (induction steps arbitrary: st)
  case (Cons s steps)
  show ?case
  proof (cases s)
    case (SendEvent ev)
    then have ev: "ev_type ev \<noteq> []" "one_line (ev_type ev)" using Cons.prems(1) [of ev] by (simp_all add: sent_events_def plain_type_def)
    let ?st = "st\<lparr>ss_events := ss_events st @ [dispatched ev], ss_last_id := digits_of (unat (ev_id ev))\<rparr>"
    have "ss_events (fold sse_line (sse_lines [] (concat (map step_text steps))) ?st) = ss_events ?st @ map dispatched (sent_events steps)"
      by (rule Cons.IH) (use Cons.prems SendEvent in \<open>auto simp: sent_events_def between_blocks_def\<close>)
    moreover have "fold sse_line (sse_lines [] (step_text s @ concat (map step_text steps))) st = fold sse_line (sse_lines [] (concat (map step_text steps))) ?st"
      using SendEvent sse_lines_frame [OF ev(2)] fold_frame [OF Cons.prems(2) ev(1)] by (simp del: fold_simps)
    ultimately show ?thesis using SendEvent by (simp add: sent_events_def)
  next
    case SendHeartbeat
    have "one_line '': heartbeat''" "one_line []" by simp_all
    then have "sse_lines [] ('': heartbeat'' @ newline # [] @ newline # concat (map step_text steps)) =
        '': heartbeat'' # [] # sse_lines [] (concat (map step_text steps))"
      by (simp only: sse_lines_line) simp
    moreover have "sse_line '': heartbeat'' st = st" by (simp add: sse_line_def)
    moreover have "sse_line [] st = st" using Cons.prems(2) by (simp add: sse_line_def sse_dispatch_def between_blocks_def)
    ultimately show ?thesis using SendHeartbeat Cons.IH [OF _ Cons.prems(2)] Cons.prems(1) by (simp add: sent_events_def)
  qed
qed (simp add: sent_events_def)

section \<open>Streams that are cut\<close>

lemma sse_lines_prefix: "\<exists>ls. sse_lines cur (s @ t) = sse_lines cur s @ ls"
proof (induction cur s rule: sse_lines.induct)
  case (2 cur c s)
  have drop: "s \<noteq> [] \<Longrightarrow> drop_lf (s @ t) = drop_lf s @ t" by (cases s) (simp_all add: drop_lf_def)
  show ?case
  proof (cases "c \<noteq> newline \<and> c = CHR 0x0D \<and> s = []")
    case True
    then show ?thesis by (simp add: drop_lf_def)
  next
    case False
    then show ?thesis using 2 drop by (cases "c = newline"; cases "c = CHR 0x0D") auto
  qed
qed simp

lemma sse_line_grows: "\<exists>evs. ss_events (sse_line l st) = ss_events st @ evs"
  by (simp add: sse_line_def sse_dispatch_def sse_field_def Let_def)

lemma fold_grows: "\<exists>evs. ss_events (fold sse_line ls st) = ss_events st @ evs"
proof (induction ls arbitrary: st)
  case (Cons l ls)
  obtain evs where "ss_events (sse_line l st) = ss_events st @ evs" using sse_line_grows by blast
  then show ?case using Cons.IH [of "sse_line l st"] by auto
qed simp

lemma parse_start:
  "fold sse_line (sse_lines [] (stream_text steps)) sse_start =
     fold sse_line (sse_lines [] (concat (map step_text steps))) (sse_start\<lparr>ss_retry := Some ''3000''\<rparr>)"
proof -
  have "one_line ''retry: 3000''" "one_line []" by simp_all
  then have "sse_lines [] (''retry: 3000'' @ newline # [] @ newline # concat (map step_text steps)) =
      ''retry: 3000'' # [] # sse_lines [] (concat (map step_text steps))"
    by (simp only: sse_lines_line) simp
  moreover have "is_digits ''3000''" by (simp add: is_digits_def)
  then have "sse_line ''retry: 3000'' sse_start = sse_start\<lparr>ss_retry := Some ''3000''\<rparr>"
    using sse_line_field [of "''retry''" "''3000''" sse_start] by (simp add: sse_field_def)
  moreover have "sse_line [] (sse_start\<lparr>ss_retry := Some ''3000''\<rparr>) = sse_start\<lparr>ss_retry := Some ''3000''\<rparr>"
    by (simp add: sse_line_def sse_dispatch_def sse_start_def)
  ultimately show ?thesis by (simp add: stream_text_def)
qed

lemma parse_stream:
  assumes "\<And>ev. ev \<in> set (sent_events steps) \<Longrightarrow> plain_type ev"
  shows "ss_events (sse_parse (stream_text steps)) = map dispatched (sent_events steps)"
  unfolding sse_parse_def parse_start
  using parse_steps [OF assms, where st = "sse_start\<lparr>ss_retry := Some ''3000''\<rparr>"]
  by (simp add: between_blocks_def sse_start_def)

section \<open>The page behind the stream\<close>

text \<open>The events of a stream reach the history page in order.\<close>

definition page_receives :: "string \<Rightarrow> operations_page \<Rightarrow> operations_page" where
  "page_receives text p = fold (\<lambda>(t, _, _). operations_step (OperationsServerEvent t)) (ss_events (sse_parse text)) p"

lemma event_refreshes:
  "eh_open (oh_hook p) \<Longrightarrow> operations_step (OperationsServerEvent t) p = (if invalidating t then start_refresh p else p)"
  by (simp add: hook_event_def)

lemma events_refresh:
  "eh_open (oh_hook p) \<Longrightarrow>
   oh_refreshing (fold (\<lambda>(t, _, _). operations_step (OperationsServerEvent t)) evs p) =
     oh_refreshing p + length (filter (\<lambda>(t, _, _). invalidating t) evs)"
proof (induction evs arbitrary: p)
  case (Cons e evs)
  obtain t d i where e: "e = (t, d, i)" using prod_cases3 by blast
  show ?case using Cons.IH [of "start_refresh p"] Cons.IH [of p] Cons.prems
    by (simp add: e event_refreshes start_refresh_def del: operations_step.simps)
qed simp

section \<open>Properties\<close>

text \<open>
  C23. Round trip of the event stream: from the bytes the handler writes, the browser's parser
  dispatches exactly the events that were sent, in order, with their types, data and
  sequence numbers, whatever heartbeats stand between them and whatever characters the data hold;
  and of a stream cut at any byte, a prefix of them.
\<close>

theorem event_stream_round_trip:
  assumes "\<forall>ev \<in> set (sent_events steps). plain_type ev"
  shows "ss_events (sse_parse (stream_text steps)) = map dispatched (sent_events steps) \<and>
    (\<exists>missing. ss_events (sse_parse (take k (stream_text steps))) @ missing = map dispatched (sent_events steps))"
proof -
  have all: "ss_events (sse_parse (stream_text steps)) = map dispatched (sent_events steps)"
    by (rule parse_stream) (use assms in blast)
  obtain ls where "sse_lines [] (stream_text steps) = sse_lines [] (take k (stream_text steps)) @ ls"
    using sse_lines_prefix [of "[]" "take k (stream_text steps)" "drop k (stream_text steps)"] by auto
  then have "\<exists>missing. ss_events (sse_parse (stream_text steps)) = ss_events (sse_parse (take k (stream_text steps))) @ missing"
    using fold_grows by (simp add: sse_parse_def)
  then show ?thesis using all by auto
qed

definition sample_steps :: "stream_step list" where
  "sample_steps = [SendHeartbeat, SendEvent \<lparr>ev_id = 7, ev_type = ''server.updated'',
     ev_data = Some (JObj [(''server_id'', JStr (''a'' @ [CHR 0x0A, CHR 0x22]))])\<rparr>, SendHeartbeat]"

theorem event_stream_round_trip_witness:
  "map fst (ss_events (sse_parse (stream_text sample_steps))) = [''server.updated'']"
proof -
  have "\<forall>ev \<in> set (sent_events sample_steps). plain_type ev"
    by (simp add: sample_steps_def sent_events_def plain_type_def)
  from event_stream_round_trip [OF this] show ?thesis
    by (simp add: sample_steps_def sent_events_def dispatched_def)
qed

text \<open>
  C37. No published change is missed while the page is connected: from the moment a connection
  subscribes, if it is still subscribed and has read its channel empty, the history page has started
  one refresh for each operation and server event published since, and no other.
\<close>

theorem published_changes_refresh_history:
  assumes "broker_run pre (new_broker n) = Some (b, out0)" and "r < length (channels b)" and "buffer_of b r = []"
    and "broker_run ss b = Some (b', out)" and "registered b' r" and "buffer_of b' r = []"
    and "sent_events steps = taken r out" and "\<forall>ev \<in> set (stamped (next_event_id b) ss). plain_type ev"
    and "eh_open (oh_hook p)"
  shows "oh_refreshing (page_receives (stream_text steps) p) =
    oh_refreshing p + length (filter (\<lambda>ev. invalidating (ev_type ev)) (stamped (next_event_id b) ss))"
proof -
  have inv: "broker_inv b" using broker_run_total [OF broker_inv_new, of pre n] assms(1) by simp
  have sent: "sent_events steps = stamped (next_event_id b) ss"
    using run_delivers [OF inv assms(2,4)] assms(3,5,6,7) by auto
  have "ss_events (sse_parse (stream_text steps)) = map dispatched (stamped (next_event_id b) ss)"
    using parse_stream [of steps] assms(8) sent by simp
  then show ?thesis
    using events_refresh [OF assms(9), of "map dispatched (stamped (next_event_id b) ss)"]
    by (simp add: page_receives_def filter_map comp_def dispatched_def)
qed

theorem published_changes_refresh_history_witness:
  "\<exists>b out0 b' out. broker_run [Subscribe] (new_broker 32) = Some (b, out0) \<and>
     broker_run [Publish (sample_event ''server.updated''), Receive 0] b = Some (b', out) \<and>
     oh_refreshing (page_receives (stream_text (map (SendEvent \<circ> snd) out)) (operations_mounted True)) = 2"
proof -
  obtain b out0 where b: "broker_run [Subscribe] (new_broker 32) = Some (b, out0)" and inv: "broker_inv b"
    using broker_run_total [OF broker_inv_new, of "[Subscribe]" 32] by blast
  let ?ss = "[Publish (sample_event ''server.updated''), Receive 0]"
  obtain b' out where b': "broker_run ?ss b = Some (b', out)"
    using broker_run_total [OF inv] by blast
  have facts: "0 < length (channels b)" "buffer_of b 0 = []" "registered b' 0" "buffer_of b' 0 = []"
      "sent_events (map (SendEvent \<circ> snd) out) = taken 0 out"
    using b b' by (auto simp: new_broker_def subscribe_def publish_def receive_def put_key_def registered_def taken_def
        sent_events_def Let_def)
  have st: "stamped (next_event_id b) ?ss = [(sample_event ''server.updated'')\<lparr>ev_id := next_event_id b + 1\<rparr>]" by simp
  have "\<forall>ev \<in> set (stamped (next_event_id b) ?ss). plain_type ev" "eh_open (oh_hook (operations_mounted True))"
    by (simp_all add: st plain_type_def sample_event_def operations_mounted_def start_refresh_def mount_hook_def)
  from published_changes_refresh_history [OF b facts(1,2) b' facts(3,4,5) this]
  have "oh_refreshing (page_receives (stream_text (map (SendEvent \<circ> snd) out)) (operations_mounted True)) = 2"
    unfolding st by (simp add: sample_event_def invalidating_def operations_mounted_def start_refresh_def)
  then show ?thesis using b b' by blast
qed

text \<open>
  A client that falls behind loses the change for good: an event published while its channel is
  full closes the channel without the event; the connection ends and the browser reconnects to a new
  subscription, which starts empty. Unless something else is published the event is in neither stream,
  and the history page, which does not load again when it reconnects, is not refreshed for it.
\<close>

lemma full_channel_loses_change:
  assumes "broker_run pre (new_broker n) = Some (b, out0)" and "r < length (channels b)"
    and "length (buffer_of b r) = buffer_size b" and "publish ev b = Some b1"
    and "broker_run (Subscribe # ss) b1 = Some (b2, out)" and "stamped (next_event_id b1) ss = []"
    and "sent_events steps1 = taken r out" and "sent_events steps2 = taken (length (channels b1)) out"
    and "\<forall>e \<in> set (buffer_of b r). plain_type e" and "eh_open (oh_hook p)"
  shows "taken r out @ buffer_of b2 r = buffer_of b r \<and> taken (length (channels b1)) out = [] \<and>
    oh_refreshing (page_receives (stream_text steps2) (page_receives (stream_text steps1) p)) \<le>
      oh_refreshing p + length (filter (\<lambda>e. invalidating (ev_type e)) (buffer_of b r))"
proof -
  have inv: "broker_inv b" using broker_run_total [OF broker_inv_new, of pre n] assms(1) by simp
  have inv1: "broker_inv b1" using publish_total [OF inv, of ev] assms(4) by auto
  let ?b2 = "fst (subscribe b1)" and ?r2 = "length (channels b1)"
  have eff: "step_effect b (Publish ev) b1 [] r" by (rule publish_effect [OF inv assms(2,4)])
  have "\<not> registered b1 r" using publish_eq [OF inv, of ev] assms(3,4) by (auto simp: registered_def)
  then have r1: "r < ?r2" "\<not> registered b1 r" "buffer_of b1 r = buffer_of b r"
    using eff by (auto simp: step_effect_def taken_def)
  have run2: "broker_run ss ?b2 = Some (b2, out)" using assms(5) by (simp split: option.splits)
  have inv2: "broker_inv ?b2" by (rule subscribe_inv [OF inv1])
  have s2: "r < length (channels ?b2)" "\<not> registered ?b2 r" "buffer_of ?b2 r = buffer_of b r"
      "?r2 < length (channels ?b2)" "buffer_of ?b2 ?r2 = []" "next_event_id ?b2 = next_event_id b1"
    using r1 by (auto simp: subscribe_def Let_def nth_append registered_def set_put_key)
  have old: "taken r out @ buffer_of b2 r = buffer_of b r"
    using run_unregistered [OF inv2 s2(1,2) run2] s2(3) by simp
  have new: "taken ?r2 out = []" using run_delivers [OF inv2 s2(4) run2] s2(5,6) assms(6) by auto
  have "set (taken r out) \<subseteq> set (buffer_of b r)" using old by (metis set_append Un_upper1)
  then have p1: "ss_events (sse_parse (stream_text steps1)) = map dispatched (taken r out)"
    using parse_stream [of steps1] assms(7,9) by auto
  have p2: "ss_events (sse_parse (stream_text steps2)) = []" using parse_stream [of steps2] assms(8) new by simp
  have "length (filter (\<lambda>e. invalidating (ev_type e)) (taken r out)) \<le> length (filter (\<lambda>e. invalidating (ev_type e)) (buffer_of b r))"
    by (subst old [symmetric]) simp
  then show ?thesis
    using old new p1 p2 events_refresh [OF assms(10), of "map dispatched (taken r out)"]
    by (simp add: page_receives_def filter_map comp_def dispatched_def)
qed

theorem full_channel_loses_change_witness:
  "\<exists>b b1 b2 out. broker_run [Subscribe, Publish (sample_event ''server.updated'')] (new_broker 1) = Some (b, []) \<and>
     publish (sample_event ''operation.updated'') b = Some b1 \<and> broker_run [Subscribe, Receive 0, Receive 0, Receive 1] b1 = Some (b2, out) \<and>
     oh_refreshing (page_receives (stream_text (map SendEvent (taken 1 out))) (page_receives (stream_text (map SendEvent (taken 0 out))) (operations_mounted True))) \<le> 2"
proof -
  let ?pre = "[Subscribe, Publish (sample_event ''server.updated'')]"
  obtain b out0 where b: "broker_run ?pre (new_broker 1) = Some (b, out0)" and inv: "broker_inv b"
    using broker_run_total [OF broker_inv_new, of ?pre 1] by blast
  obtain b1 where b1: "publish (sample_event ''operation.updated'') b = Some b1" and inv1: "broker_inv b1"
    using publish_total [OF inv] by blast
  let ?ss = "[Receive 0, Receive 0, Receive 1]"
  obtain b2 out where b2: "broker_run (Subscribe # ?ss) b1 = Some (b2, out)" using broker_run_total [OF inv1] by blast
  have facts: "0 < length (channels b)" "length (buffer_of b 0) = buffer_size b" "out0 = []" "length (channels b1) = 1"
      "\<forall>e \<in> set (buffer_of b 0). plain_type e" "length (filter (\<lambda>e. invalidating (ev_type e)) (buffer_of b 0)) = 1"
    using b b1 by (auto simp: new_broker_def subscribe_def publish_def put_key_def close_channel_def sample_event_def plain_type_def
        invalidating_def Let_def)
  have open_hook: "eh_open (oh_hook (operations_mounted True))" "oh_refreshing (operations_mounted True) = 1"
    by (simp_all add: operations_mounted_def start_refresh_def mount_hook_def)
  have sent: "sent_events (map SendEvent evs) = evs" for evs by (induction evs) (simp_all add: sent_events_def)
  have "oh_refreshing (page_receives (stream_text (map SendEvent (taken 1 out)))
      (page_receives (stream_text (map SendEvent (taken 0 out))) (operations_mounted True))) \<le> 2"
    using conjunct2 [OF conjunct2 [OF full_channel_loses_change [OF b facts(1,2) b1 b2 _ sent _ facts(5) open_hook(1), of "map SendEvent (taken 1 out)"]]]
      facts(4,6) open_hook(2) sent [of "taken 1 out"] by simp
  then show ?thesis using b facts(3) b1 b2 by blast
qed

end
