(* ===== verification/ConnectionService.thy ===== *)
theory ConnectionService imports OpService JobWorker begin

text \<open>
  Provider connections, \<^verbatim>\<open>internal/connections\<close>: the table, the service and the HTTP handlers. Encryption of the credentials
  (\<^verbatim>\<open>internal/secrets\<close>) and the registry of providers are parameters. A JSON document that a client sends is
  kept as the value; absent means that the member is missing.
\<close>

section \<open>The table\<close>

datatype connection_health = HealthUnknown | HealthHealthy | HealthDegraded | HealthOffline

fun connection_health_text :: "connection_health \<Rightarrow> string" where
  "connection_health_text HealthUnknown = ''unknown''"
| "connection_health_text HealthHealthy = ''healthy''"
| "connection_health_text HealthDegraded = ''degraded''"
| "connection_health_text HealthOffline = ''offline''"

record connection =
  cn_id :: string
  cn_name :: string
  cn_type :: string
  cn_endpoint :: string
  cn_settings :: json
  cn_enabled :: bool
  cn_health :: connection_health
  cn_tested :: "time option"
  cn_synced :: "time option"
  cn_error_code :: string
  cn_error_message :: string
  cn_created :: time
  cn_updated :: time

record credential_record =
  crd_ciphertext :: string
  crd_nonce :: string
  crd_version :: nat

record connection_row =
  cr_connection :: connection
  cr_credentials :: credential_record
  cr_deleted :: "time option"

type_synonym connection_table = "connection_row list"

datatype connection_error = ErrConnectionNotFound | ErrInvalidConnection | ErrConnectionDisabled
  | ErrConnectionStore | ErrConnectionCipher | ErrConnectionQueue | ErrProviderConstruction

abbreviation connection_key :: "connection_row \<Rightarrow> string" where
  "connection_key r \<equiv> cn_id (cr_connection r)"

definition active_row :: "string \<Rightarrow> connection_row \<Rightarrow> bool" where
  "active_row i r \<longleftrightarrow> connection_key r = i \<and> cr_deleted r = None"

definition live_connection :: "connection_table \<Rightarrow> string \<Rightarrow> bool" where
  "live_connection tbl i \<longleftrightarrow> list_ex (active_row i) tbl"

definition insert_connection :: "bool \<Rightarrow> connection \<Rightarrow> credential_record \<Rightarrow> connection_table \<Rightarrow> (connection_error + unit) \<times> connection_table" where
  "insert_connection fault c crd tbl =
     (if fault \<or> find_by connection_key (cn_id c) tbl \<noteq> None then (Inl ErrConnectionStore, tbl)
      else (Inr (), tbl @ [\<lparr>cr_connection = c, cr_credentials = crd, cr_deleted = None\<rparr>]))"

definition find_connection :: "bool \<Rightarrow> string \<Rightarrow> connection_table \<Rightarrow> connection_error + connection \<times> credential_record" where
  "find_connection fault i tbl =
     (if fault then Inl ErrConnectionStore
      else (case List.find (active_row i) tbl of
              None \<Rightarrow> Inl ErrConnectionNotFound
            | Some r \<Rightarrow> Inr (cr_connection r, cr_credentials r)))"

text \<open>An \<^verbatim>\<open>UPDATE\<close> of a row that is not deleted, with \<open>requireAffected\<close>.\<close>

definition update_active :: "bool \<Rightarrow> string \<Rightarrow> (connection_row \<Rightarrow> connection_row) \<Rightarrow> connection_table \<Rightarrow> (connection_error + unit) \<times> connection_table" where
  "update_active fault i f tbl =
     (if fault then (Inl ErrConnectionStore, tbl)
      else (if affected (active_row i) tbl = 0 then Inl ErrConnectionNotFound else Inr (), update_where (active_row i) f tbl))"

definition save_connection :: "bool \<Rightarrow> connection \<Rightarrow> credential_record option \<Rightarrow> connection_table \<Rightarrow> (connection_error + unit) \<times> connection_table" where
  "save_connection fault c crd tbl =
     update_active fault (cn_id c)
       (\<lambda>r. r\<lparr>cr_connection := (cr_connection r)\<lparr>cn_name := cn_name c, cn_endpoint := cn_endpoint c, cn_settings := cn_settings c,
                cn_enabled := cn_enabled c, cn_updated := cn_updated c\<rparr>,
              cr_credentials := (case crd of None \<Rightarrow> cr_credentials r | Some x \<Rightarrow> x)\<rparr>) tbl"

definition update_health :: "bool \<Rightarrow> string \<Rightarrow> connection_health \<Rightarrow> string \<Rightarrow> string \<Rightarrow> time \<Rightarrow> connection_table
    \<Rightarrow> (connection_error + unit) \<times> connection_table" where
  "update_health fault i health code message at tbl =
     update_active fault i
       (\<lambda>r. r\<lparr>cr_connection := (cr_connection r)\<lparr>cn_health := health, cn_error_code := code, cn_error_message := message,
                cn_tested := Some at, cn_updated := at\<rparr>\<rparr>) tbl"

definition soft_delete :: "bool \<Rightarrow> string \<Rightarrow> time \<Rightarrow> connection_table \<Rightarrow> (connection_error + unit) \<times> connection_table" where
  "soft_delete fault i at tbl =
     update_active fault i
       (\<lambda>r. r\<lparr>cr_connection := (cr_connection r)\<lparr>cn_enabled := False, cn_updated := at\<rparr>, cr_deleted := Some at\<rparr>) tbl"

definition oldest_first :: "(time \<Rightarrow> time \<Rightarrow> bool) \<Rightarrow> connection \<Rightarrow> connection \<Rightarrow> bool" where
  "oldest_first le a b \<longleftrightarrow>
     le (cn_created a) (cn_created b) \<and> (le (cn_created b) (cn_created a) \<longrightarrow> text_le (cn_id a) (cn_id b))"

definition list_connections :: "bool \<Rightarrow> (time \<Rightarrow> time \<Rightarrow> bool) \<Rightarrow> connection_table \<Rightarrow> connection_error + connection list" where
  "list_connections fault le tbl =
     (if fault then Inl ErrConnectionStore
      else Inr (foldr (insert_sorted (oldest_first le)) (map cr_connection (filter (\<lambda>r. cr_deleted r = None) tbl)) []))"

section \<open>The service\<close>

record connection_config =
  cc_id :: string
  cc_type :: string
  cc_endpoint :: string
  cc_settings :: json
  cc_credentials :: json

record new_connection_input =
  ni_name :: string
  ni_type :: string
  ni_endpoint :: string
  ni_settings :: "json option"
  ni_credentials :: "json option"
  ni_enabled :: bool

text \<open>
  What a call meets: faults of its statements, generated values, the queue, and the outside: whether the
  registry can create the provider, what the provider says to a validation, and the two directions of the cipher.
\<close>

record connection_env =
  nv_find_fault :: bool
  nv_write_fault :: bool
  nv_enqueue_fault :: bool
  nv_id :: string
  nv_now :: time
  nv_queue :: queue_options
  nv_job_id :: string
  nv_job_now :: time
  nv_registry :: "connection_config \<Rightarrow> go_error option"
  nv_validate :: "connection_config \<Rightarrow> go_error + string \<times> string"
  nv_encrypt :: "string \<Rightarrow> string \<Rightarrow> json \<Rightarrow> credential_record option"
  nv_decrypt :: "string \<Rightarrow> string \<Rightarrow> credential_record \<Rightarrow> json option"

record connection_world =
  vw_connections :: connection_table
  vw_jobs :: job_table

definition queue_sync :: "connection_env \<Rightarrow> string \<Rightarrow> connection_world \<Rightarrow> (queue_error + unit) \<times> connection_world" where
  "queue_sync env i w =
     (let (r, jobs) = enqueue_connection_sync (nv_enqueue_fault env) (nv_queue env) (nv_job_id env) (nv_job_now env) i (vw_jobs w)
      in (r, w\<lparr>vw_jobs := jobs\<rparr>))"

text \<open>The end of \<open>Create\<close> and \<open>Update\<close>: an enabled connection is queued for synchronisation.\<close>

definition queue_if_enabled :: "connection_env \<Rightarrow> connection \<Rightarrow> connection_world \<Rightarrow> (connection_error + connection) \<times> connection_world" where
  "queue_if_enabled env c w =
     (if cn_enabled c then
        (case queue_sync env (cn_id c) w of (Inl _, w') \<Rightarrow> (Inl ErrConnectionQueue, w') | (Inr _, w') \<Rightarrow> (Inr c, w'))
      else (Inr c, w))"

text \<open>The configuration the registry gets for a connection, and the connection that \<open>Create\<close> makes of its input.\<close>

definition config_of :: "connection \<Rightarrow> json \<Rightarrow> connection_config" where
  "config_of c credentials = \<lparr>cc_id = cn_id c, cc_type = cn_type c, cc_endpoint = cn_endpoint c, cc_settings = cn_settings c,
     cc_credentials = credentials\<rparr>"

definition new_connection :: "connection_env \<Rightarrow> new_connection_input \<Rightarrow> connection" where
  "new_connection env input =
     \<lparr>cn_id = nv_id env, cn_name = go_trim (ni_name input), cn_type = go_lower (go_trim (ni_type input)),
      cn_endpoint = go_trim (ni_endpoint input),
      cn_settings = (case ni_settings input of None \<Rightarrow> JObj [] | Some v \<Rightarrow> v), cn_enabled = ni_enabled input,
      cn_health = HealthUnknown, cn_tested = None, cn_synced = None, cn_error_code = [], cn_error_message = [],
      cn_created = nv_now env, cn_updated = nv_now env\<rparr>"

definition create_connection :: "connection_env \<Rightarrow> new_connection_input \<Rightarrow> connection_world \<Rightarrow> (connection_error + connection) \<times> connection_world" where
  "create_connection env input w =
     (let c = new_connection env input
      in if cn_name c = [] \<or> length (cn_name c) > 255 \<or> cn_type c = [] then (Inl ErrInvalidConnection, w)
         else (case ni_credentials input of
                 None \<Rightarrow> (Inl ErrInvalidConnection, w)
               | Some credentials \<Rightarrow>
                   (if nv_registry env (config_of c credentials) \<noteq> None then (Inl ErrInvalidConnection, w)
                    else (case nv_encrypt env (cn_id c) (cn_type c) credentials of
                            None \<Rightarrow> (Inl ErrConnectionCipher, w)
                          | Some crd \<Rightarrow>
                              (case insert_connection (nv_write_fault env) c crd (vw_connections w) of
                                 (Inl e, _) \<Rightarrow> (Inl e, w)
                               | (Inr _, tbl) \<Rightarrow> queue_if_enabled env c (w\<lparr>vw_connections := tbl\<rparr>))))))"

text \<open>\<open>replacement\<close>: the credentials that were sent, or none; \<open>Inl\<close> when encrypting fails.\<close>

definition replacement :: "connection_env \<Rightarrow> connection \<Rightarrow> json option \<Rightarrow> unit + credential_record option" where
  "replacement env c sent =
     (case sent of
        None \<Rightarrow> Inr None
      | Some v \<Rightarrow> (case nv_encrypt env (cn_id c) (cn_type c) v of None \<Rightarrow> Inl () | Some crd \<Rightarrow> Inr (Some crd)))"

definition revised :: "connection_env \<Rightarrow> connection \<Rightarrow> new_connection_input \<Rightarrow> json \<Rightarrow> connection" where
  "revised env c input settings =
     c\<lparr>cn_name := go_trim (ni_name input), cn_endpoint := go_trim (ni_endpoint input), cn_settings := settings,
       cn_enabled := ni_enabled input, cn_updated := nv_now env\<rparr>"

definition update_connection :: "connection_env \<Rightarrow> string \<Rightarrow> new_connection_input \<Rightarrow> connection_world \<Rightarrow> (connection_error + connection) \<times> connection_world" where
  "update_connection env i input w =
     (case find_connection (nv_find_fault env) i (vw_connections w) of
        Inl e \<Rightarrow> (Inl e, w)
      | Inr (c, stored) \<Rightarrow>
          (case ni_settings input of
             None \<Rightarrow> (Inl ErrInvalidConnection, w)
           | Some settings \<Rightarrow>
               (let c' = revised env c input settings
                in if cn_name c' = [] \<or> length (cn_name c') > 255 then (Inl ErrInvalidConnection, w)
                   else (case (nv_decrypt env (cn_id c) (cn_type c) stored, replacement env c (ni_credentials input)) of
                           (Some old, Inr crd) \<Rightarrow>
                             (if nv_registry env (config_of c' (case ni_credentials input of None \<Rightarrow> old | Some v \<Rightarrow> v)) \<noteq> None
                              then (Inl ErrInvalidConnection, w)
                              else (case save_connection (nv_write_fault env) c' crd (vw_connections w) of
                                      (Inl e, tbl) \<Rightarrow> (Inl e, w\<lparr>vw_connections := tbl\<rparr>)
                                    | (Inr _, tbl) \<Rightarrow> queue_if_enabled env c' (w\<lparr>vw_connections := tbl\<rparr>)))
                         | _ \<Rightarrow> (Inl ErrConnectionCipher, w)))))"

definition delete_connection :: "connection_env \<Rightarrow> string \<Rightarrow> connection_world \<Rightarrow> (connection_error + unit) \<times> connection_world" where
  "delete_connection env i w =
     (let (r, tbl) = soft_delete (nv_write_fault env) i (nv_now env) (vw_connections w) in (r, w\<lparr>vw_connections := tbl\<rparr>))"

definition request_sync :: "connection_env \<Rightarrow> string \<Rightarrow> connection_world \<Rightarrow> (connection_error + unit) \<times> connection_world" where
  "request_sync env i w =
     (case find_connection (nv_find_fault env) i (vw_connections w) of
        Inl e \<Rightarrow> (Inl e, w)
      | Inr (c, _) \<Rightarrow>
          (if \<not> cn_enabled c then (Inl ErrConnectionDisabled, w)
           else (case queue_sync env i w of (Inl _, w') \<Rightarrow> (Inl ErrConnectionQueue, w') | (Inr _, w') \<Rightarrow> (Inr (), w'))))"

text \<open>The provider's configuration of a stored connection, and the classification of its errors.\<close>

definition stored_config :: "connection_env \<Rightarrow> connection \<Rightarrow> credential_record \<Rightarrow> connection_config option" where
  "stored_config env c crd =
     map_option (config_of c) (nv_decrypt env (cn_id c) (cn_type c) crd)"

definition classify_error :: "string \<Rightarrow> go_error \<Rightarrow> connection_health \<times> string \<times> string" where
  "classify_error otherwise e =
     (case provider_of e of
        None \<Rightarrow> (HealthOffline, error_code_text ErrorProvider, otherwise)
      | Some p \<Rightarrow> (if pe_retryable p then HealthDegraded else HealthOffline, error_code_text (pe_code p), pe_message p))"

record test_result =
  tr_healthy :: bool
  tr_code :: string
  tr_message :: string
  tr_display_name :: string
  tr_version :: string

definition test_connection :: "connection_env \<Rightarrow> string \<Rightarrow> connection_world \<Rightarrow> (connection_error + test_result) \<times> connection_world" where
  "test_connection env i w =
     (case find_connection (nv_find_fault env) i (vw_connections w) of
        Inl e \<Rightarrow> (Inl e, w)
      | Inr (c, crd) \<Rightarrow>
          (case stored_config env c crd of
             None \<Rightarrow> (Inl ErrConnectionCipher, w)
           | Some cfg \<Rightarrow>
               (if nv_registry env cfg \<noteq> None then (Inl ErrProviderConstruction, w)
                else (let (health, code, message, result) =
                            (case nv_validate env cfg of
                               Inr (name, version) \<Rightarrow> (HealthHealthy, [], [],
                                 \<lparr>tr_healthy = True, tr_code = [], tr_message = ''Connection succeeded'', tr_display_name = name, tr_version = version\<rparr>)
                             | Inl e \<Rightarrow> (let (h, code, message) = classify_error ''Provider connection failed'' e
                                        in (h, code, message, \<lparr>tr_healthy = False, tr_code = code, tr_message = message,
                                              tr_display_name = [], tr_version = []\<rparr>)))
                      in case update_health (nv_write_fault env) i health code message (nv_now env) (vw_connections w) of
                           (Inl e, tbl) \<Rightarrow> (Inl e, w\<lparr>vw_connections := tbl\<rparr>)
                         | (Inr _, tbl) \<Rightarrow> (Inr result, w\<lparr>vw_connections := tbl\<rparr>)))))"

section \<open>HTTP\<close>

text \<open>
  \<open>decodeJSON\<close> into the input struct: names are matched without case, \<^verbatim>\<open>null\<close> leaves a string or a flag as it is, the two
  raw members take any document. The body is the one JSON value of at most 64 KiB, \<open>None\<close> otherwise.
\<close>

definition no_input :: new_connection_input where
  "no_input = \<lparr>ni_name = [], ni_type = [], ni_endpoint = [], ni_settings = None, ni_credentials = None, ni_enabled = False\<rparr>"

definition take_member :: "string \<Rightarrow> json \<Rightarrow> new_connection_input \<Rightarrow> new_connection_input option" where
  "take_member k v x =
     (let field = go_lower k;
          text = (\<lambda>upd. case v of JStr s \<Rightarrow> Some (upd s) | JNull \<Rightarrow> Some x | _ \<Rightarrow> None)
      in if field = ''name'' then text (\<lambda>s. x\<lparr>ni_name := s\<rparr>)
         else if field = ''provider_type'' then text (\<lambda>s. x\<lparr>ni_type := s\<rparr>)
         else if field = ''endpoint'' then text (\<lambda>s. x\<lparr>ni_endpoint := s\<rparr>)
         else if field = ''settings'' then Some (x\<lparr>ni_settings := Some v\<rparr>)
         else if field = ''credentials'' then Some (x\<lparr>ni_credentials := Some v\<rparr>)
         else if field = ''enabled'' then (case v of JBool b \<Rightarrow> Some (x\<lparr>ni_enabled := b\<rparr>) | JNull \<Rightarrow> Some x | _ \<Rightarrow> None)
         else None)"

fun take_members :: "(string \<times> json) list \<Rightarrow> new_connection_input \<Rightarrow> new_connection_input option" where
  "take_members [] x = Some x"
| "take_members ((k, v) # ms) x = (case take_member k v x of None \<Rightarrow> None | Some y \<Rightarrow> take_members ms y)"

definition decode_connection_input :: "json option \<Rightarrow> new_connection_input option" where
  "decode_connection_input body =
     (case body of Some (JObj ms) \<Rightarrow> take_members ms no_input | Some JNull \<Rightarrow> Some no_input | _ \<Rightarrow> None)"

definition connection_body :: "connection \<Rightarrow> json" where
  "connection_body c = JObj
     ([(''id'', JStr (cn_id c)), (''name'', JStr (cn_name c)), (''provider_type'', JStr (cn_type c)),
       (''endpoint'', JStr (cn_endpoint c)), (''settings'', cn_settings c), (''enabled'', JBool (cn_enabled c)),
       (''health_status'', JStr (connection_health_text (cn_health c))),
       (''last_tested_at'', optional_time_json (cn_tested c)), (''last_synced_at'', optional_time_json (cn_synced c))] @
      omit_empty ''last_error_code'' (cn_error_code c) @ omit_empty ''last_error_message'' (cn_error_message c) @
      [(''created_at'', time_json (cn_created c)), (''updated_at'', time_json (cn_updated c))])"

fun write_service_error :: "string \<Rightarrow> connection_error \<Rightarrow> http_response" where
  "write_service_error i ErrConnectionNotFound = write_error i 404 ''connection_not_found'' ''Provider connection was not found''"
| "write_service_error i ErrInvalidConnection = write_error i 400 ''invalid_connection'' ''Provider connection settings are invalid''"
| "write_service_error i ErrConnectionDisabled = write_error i 409 ''connection_disabled'' ''Provider connection is disabled''"
| "write_service_error i _ = write_error i 500 ''internal_error'' ''Unable to process provider connection''"

definition invalid_body :: "string \<Rightarrow> http_response" where
  "invalid_body i = write_error i 400 ''invalid_request'' ''Request body is invalid''"

definition connection_answer :: "string \<Rightarrow> nat \<Rightarrow> connection_error + connection \<Rightarrow> http_response" where
  "connection_answer i status r =
     (case r of Inl e \<Rightarrow> write_service_error i e
      | Inr c \<Rightarrow> \<lparr>hr_status = status, hr_body = JObj [(''connection'', connection_body c)]\<rparr>)"

definition create_connection_route :: "string \<Rightarrow> connection_env \<Rightarrow> json option \<Rightarrow> connection_world \<Rightarrow> http_response \<times> connection_world" where
  "create_connection_route i env body w =
     (case decode_connection_input body of
        None \<Rightarrow> (invalid_body i, w)
      | Some input \<Rightarrow> (let (r, w') = create_connection env input w in (connection_answer i 201 r, w')))"

definition update_connection_route :: "string \<Rightarrow> connection_env \<Rightarrow> string \<Rightarrow> json option \<Rightarrow> connection_world \<Rightarrow> http_response \<times> connection_world" where
  "update_connection_route i env target body w =
     (case decode_connection_input body of
        None \<Rightarrow> (invalid_body i, w)
      | Some input \<Rightarrow> (let (r, w') = update_connection env target input w in (connection_answer i 200 r, w')))"

definition delete_connection_route :: "string \<Rightarrow> connection_env \<Rightarrow> string \<Rightarrow> connection_world \<Rightarrow> http_response \<times> connection_world" where
  "delete_connection_route i env target w =
     (case delete_connection env target w of
        (Inl e, w') \<Rightarrow> (write_service_error i e, w')
      | (Inr _, w') \<Rightarrow> (\<lparr>hr_status = 204, hr_body = JNull\<rparr>, w'))"

definition test_result_json :: "test_result \<Rightarrow> json" where
  "test_result_json t = JObj
     ((''healthy'', JBool (tr_healthy t)) # omit_empty ''code'' (tr_code t) @ [(''message'', JStr (tr_message t))] @
      omit_empty ''display_name'' (tr_display_name t) @ omit_empty ''version'' (tr_version t))"

definition test_connection_route :: "string \<Rightarrow> connection_env \<Rightarrow> string \<Rightarrow> connection_world \<Rightarrow> http_response \<times> connection_world" where
  "test_connection_route i env target w =
     (case test_connection env target w of
        (Inl e, w') \<Rightarrow> (write_service_error i e, w')
      | (Inr t, w') \<Rightarrow> (\<lparr>hr_status = 200, hr_body = test_result_json t\<rparr>, w'))"

definition queued_answer :: http_response where
  "queued_answer = \<lparr>hr_status = 202, hr_body = JObj [(''status'', JStr ''queued'')]\<rparr>"

definition sync_connection_route :: "string \<Rightarrow> connection_env \<Rightarrow> string \<Rightarrow> connection_world \<Rightarrow> http_response \<times> connection_world" where
  "sync_connection_route i env target w =
     (case request_sync env target w of (Inl e, w') \<Rightarrow> (write_service_error i e, w') | (Inr _, w') \<Rightarrow> (queued_answer, w'))"

definition list_connections_route :: "string \<Rightarrow> bool \<Rightarrow> (time \<Rightarrow> time \<Rightarrow> bool) \<Rightarrow> connection_world \<Rightarrow> http_response" where
  "list_connections_route i fault le w =
     (case list_connections fault le (vw_connections w) of
        Inl _ \<Rightarrow> write_error i 500 ''internal_error'' ''Unable to list provider connections''
      | Inr cs \<Rightarrow> \<lparr>hr_status = 200, hr_body = JObj [(''connections'', JArr (map connection_body cs))]\<rparr>)"

definition get_connection_route :: "string \<Rightarrow> bool \<Rightarrow> string \<Rightarrow> connection_world \<Rightarrow> http_response" where
  "get_connection_route i fault target w =
     connection_answer i 200 (case find_connection fault target (vw_connections w) of Inl e \<Rightarrow> Inl e | Inr (c, _) \<Rightarrow> Inr c)"

section \<open>Runs\<close>

text \<open>Calls of the service, one after another.\<close>

datatype connection_call = CallCreate connection_env new_connection_input | CallUpdate connection_env string new_connection_input
  | CallDelete connection_env string | CallTest connection_env string | CallSync connection_env string

fun call_step :: "connection_call \<Rightarrow> connection_world \<Rightarrow> connection_world" where
  "call_step (CallCreate env input) w = snd (create_connection env input w)"
| "call_step (CallUpdate env i input) w = snd (update_connection env i input w)"
| "call_step (CallDelete env i) w = snd (delete_connection env i w)"
| "call_step (CallTest env i) w = snd (test_connection env i w)"
| "call_step (CallSync env i) w = snd (request_sync env i w)"

fun call_env :: "connection_call \<Rightarrow> connection_env" where
  "call_env (CallCreate env _) = env"
| "call_env (CallUpdate env _ _) = env"
| "call_env (CallDelete env _) = env"
| "call_env (CallTest env _) = env"
| "call_env (CallSync env _) = env"

definition call_run :: "connection_call list \<Rightarrow> connection_world \<Rightarrow> connection_world" where
  "call_run cs w = fold call_step cs w"

text \<open>The cipher and the registry of the calls, whatever else differs between them.\<close>

definition same_outside :: "connection_env \<Rightarrow> connection_call \<Rightarrow> bool" where
  "same_outside env c \<longleftrightarrow> nv_registry (call_env c) = nv_registry env \<and> nv_encrypt (call_env c) = nv_encrypt env \<and>
     nv_decrypt (call_env c) = nv_decrypt env"

section \<open>The invariant\<close>

definition usable_row :: "connection_env \<Rightarrow> connection_row \<Rightarrow> bool" where
  "usable_row env r \<longleftrightarrow> cn_name (cr_connection r) \<noteq> [] \<and> length (cn_name (cr_connection r)) \<le> 255 \<and>
     (case stored_config env (cr_connection r) (cr_credentials r) of None \<Rightarrow> False | Some cfg \<Rightarrow> nv_registry env cfg = None)"

definition connections_ok :: "connection_env \<Rightarrow> connection_table \<Rightarrow> bool" where
  "connections_ok env tbl \<longleftrightarrow> distinct (map connection_key tbl) \<and> (\<forall>r \<in> set tbl. usable_row env r)"

lemma usable_reader:
  "nv_registry env' = nv_registry env \<Longrightarrow> nv_decrypt env' = nv_decrypt env \<Longrightarrow> usable_row env' = usable_row env"
  by (rule ext) (simp add: usable_row_def stored_config_def split: option.splits)

lemma usable_same: "same_outside env c \<Longrightarrow> usable_row (call_env c) = usable_row env"
  by (rule usable_reader) (simp_all add: same_outside_def)

lemma connections_ok_update:
  assumes "connections_ok env tbl" and "\<And>r. connection_key (f r) = connection_key r"
    and "\<And>r. r \<in> set tbl \<Longrightarrow> usable_row env r \<Longrightarrow> active_row i r \<Longrightarrow> usable_row env (f r)"
  shows "connections_ok env (snd (update_active fault i f tbl))"
proof -
  have "map connection_key (update_where (active_row i) f tbl) = map connection_key tbl"
    using assms(2) by (simp add: map_update_where)
  then show ?thesis using assms(1,3) by (auto simp: connections_ok_def update_active_def set_update_where)
qed

lemma connections_ok_insert:
  assumes "connections_ok env tbl" and "usable_row env \<lparr>cr_connection = c, cr_credentials = crd, cr_deleted = None\<rparr>"
  shows "connections_ok env (snd (insert_connection fault c crd tbl))"
  using assms by (auto simp: connections_ok_def insert_connection_def find_by_None)

lemma queue_keeps [simp]: "vw_connections (snd (queue_if_enabled env c w)) = vw_connections w" "vw_connections (snd (queue_sync env i w)) = vw_connections w"
  by (auto simp: queue_if_enabled_def queue_sync_def split: sum.splits prod.splits)

definition cipher_law :: "connection_env \<Rightarrow> bool" where
  "cipher_law env \<longleftrightarrow> (\<forall>i t v crd. nv_encrypt env i t v = Some crd \<longrightarrow> nv_decrypt env i t crd = Some v)"

lemma create_connection_cases:
  obtains (refused) "snd (create_connection env input w) = w" "\<exists>e. fst (create_connection env input w) = Inl e"
  | (stored) v crd tbl where "ni_credentials input = Some v" "cn_name (new_connection env input) \<noteq> []"
      "length (cn_name (new_connection env input)) \<le> 255" "nv_registry env (config_of (new_connection env input) v) = None"
      "nv_encrypt env (nv_id env) (cn_type (new_connection env input)) v = Some crd"
      "insert_connection (nv_write_fault env) (new_connection env input) crd (vw_connections w) = (Inr (), tbl)"
      "create_connection env input w = queue_if_enabled env (new_connection env input) (w\<lparr>vw_connections := tbl\<rparr>)"
proof -
  define c where "c = new_connection env input"
  have id: "cn_id c = nv_id env" by (simp add: c_def new_connection_def)
  show ?thesis
  proof (cases "\<exists>e. create_connection env input w = (Inl e, w)")
    case True
    then show ?thesis using refused by auto
  next
    case False
    then obtain v crd tbl where "ni_credentials input = Some v" "cn_name c \<noteq> []" "length (cn_name c) \<le> 255"
        "nv_registry env (config_of c v) = None" "nv_encrypt env (cn_id c) (cn_type c) v = Some crd"
        "insert_connection (nv_write_fault env) c crd (vw_connections w) = (Inr (), tbl)"
        "create_connection env input w = queue_if_enabled env c (w\<lparr>vw_connections := tbl\<rparr>)"
      unfolding create_connection_def c_def [symmetric] Let_def by (auto split: option.splits sum.splits prod.splits if_splits)
    then show ?thesis using stored unfolding id unfolding c_def by blast
  qed
qed

lemma update_connection_cases:
  obtains (same) "snd (update_connection env i input w) = w" "\<exists>e. fst (update_connection env i input w) = Inl e"
  | (saved) c stored settings old crd where "find_connection (nv_find_fault env) i (vw_connections w) = Inr (c, stored)"
      "ni_settings input = Some settings" "cn_name (revised env c input settings) \<noteq> []" "length (cn_name (revised env c input settings)) \<le> 255"
      "nv_decrypt env (cn_id c) (cn_type c) stored = Some old" "replacement env c (ni_credentials input) = Inr crd"
      "nv_registry env (config_of (revised env c input settings) (case ni_credentials input of None \<Rightarrow> old | Some x \<Rightarrow> x)) = None"
      "vw_connections (snd (update_connection env i input w)) =
         snd (save_connection (nv_write_fault env) (revised env c input settings) crd (vw_connections w))"
      "update_connection env i input w = (case save_connection (nv_write_fault env) (revised env c input settings) crd (vw_connections w) of
         (Inl e, tbl) \<Rightarrow> (Inl e, w\<lparr>vw_connections := tbl\<rparr>)
       | (Inr _, tbl) \<Rightarrow> queue_if_enabled env (revised env c input settings) (w\<lparr>vw_connections := tbl\<rparr>))"
proof (cases "\<exists>e. update_connection env i input w = (Inl e, w)")
  case True
  then show ?thesis using same by auto
next
  case False
  then obtain c stored settings old crd where u: "find_connection (nv_find_fault env) i (vw_connections w) = Inr (c, stored)"
      "ni_settings input = Some settings" "cn_name (revised env c input settings) \<noteq> []" "length (cn_name (revised env c input settings)) \<le> 255"
      "nv_decrypt env (cn_id c) (cn_type c) stored = Some old" "replacement env c (ni_credentials input) = Inr crd"
      "nv_registry env (config_of (revised env c input settings) (case ni_credentials input of None \<Rightarrow> old | Some x \<Rightarrow> x)) = None"
    unfolding update_connection_def Let_def by (auto split: option.splits sum.splits prod.splits if_splits)
  have eq: "update_connection env i input w = (case save_connection (nv_write_fault env) (revised env c input settings) crd (vw_connections w) of
         (Inl e, tbl) \<Rightarrow> (Inl e, w\<lparr>vw_connections := tbl\<rparr>)
       | (Inr _, tbl) \<Rightarrow> queue_if_enabled env (revised env c input settings) (w\<lparr>vw_connections := tbl\<rparr>))"
    using u by (simp add: update_connection_def Let_def)
  then have "vw_connections (snd (update_connection env i input w)) =
      snd (save_connection (nv_write_fault env) (revised env c input settings) crd (vw_connections w))"
    by (simp split: sum.splits prod.splits)
  then show ?thesis using saved [OF u] eq by blast
qed

lemma test_connection_row:
  "vw_connections (snd (test_connection env i w)) = vw_connections w \<or>
   (\<exists>h code m. vw_connections (snd (test_connection env i w)) = snd (update_health (nv_write_fault env) i h code m (nv_now env) (vw_connections w)))"
  unfolding test_connection_def Let_def
  by (auto split: option.splits sum.splits prod.splits if_splits) (metis snd_conv)+

lemma find_connectionD:
  "find_connection fault i tbl = Inr (c, crd) \<Longrightarrow> \<exists>r \<in> set tbl. active_row i r \<and> cr_connection r = c \<and> cr_credentials r = crd"
  by (auto simp: find_connection_def find_Some_iff split: if_splits option.splits)

lemma usable_iff:
  "usable_row env r \<longleftrightarrow> cn_name (cr_connection r) \<noteq> [] \<and> length (cn_name (cr_connection r)) \<le> 255 \<and>
     (\<exists>v. nv_decrypt env (connection_key r) (cn_type (cr_connection r)) (cr_credentials r) = Some v \<and>
          nv_registry env (config_of (cr_connection r) v) = None)"
  by (auto simp: usable_row_def stored_config_def split: option.splits)

lemma config_of_ignores [simp]:
  "config_of (c\<lparr>cn_health := h, cn_error_code := code, cn_error_message := m, cn_tested := t, cn_updated := u\<rparr>) v = config_of c v"
  "config_of (c\<lparr>cn_enabled := b, cn_updated := u\<rparr>) v = config_of c v"
  "config_of (c\<lparr>cn_name := n, cn_endpoint := e, cn_settings := s, cn_enabled := b, cn_updated := u\<rparr>) v =
     config_of (c\<lparr>cn_endpoint := e, cn_settings := s\<rparr>) v"
  by (simp_all add: config_of_def)

lemma active_unique:
  "distinct (map connection_key tbl) \<Longrightarrow> r \<in> set tbl \<Longrightarrow> r' \<in> set tbl \<Longrightarrow> active_row i r \<Longrightarrow> active_row i r' \<Longrightarrow> r = r'"
  unfolding active_row_def by (metis eq_key_imp_eq_value find_by_unique option.inject)

lemma create_ok:
  assumes "connections_ok env (vw_connections w)" and "cipher_law env"
  shows "connections_ok env (vw_connections (snd (create_connection env input w)))"
proof (cases rule: create_connection_cases [of env input w])
  case (stored v crd tbl)
  have "usable_row env \<lparr>cr_connection = new_connection env input, cr_credentials = crd, cr_deleted = None\<rparr>"
    using stored assms(2) by (auto simp: usable_iff cipher_law_def new_connection_def)
  then show ?thesis using connections_ok_insert [OF assms(1), of _ crd "nv_write_fault env"] stored(6,7) by (metis connection_world.select_convs(1)
        connection_world.surjective connection_world.update_convs(1) queue_keeps(1) snd_conv)
qed (use assms in simp)

lemma update_ok:
  assumes "connections_ok env (vw_connections w)" and "cipher_law env"
  shows "connections_ok env (vw_connections (snd (update_connection env i input w)))"
proof (cases rule: update_connection_cases [of env i input w])
  case (saved c stored settings old crd)
  let ?c = "revised env c input settings"
  obtain r0 where r0: "r0 \<in> set (vw_connections w)" "active_row i r0" "cr_connection r0 = c" "cr_credentials r0 = stored"
    using find_connectionD [OF saved(1)] by blast
  have id: "cn_id ?c = i" using r0 by (simp add: revised_def active_row_def)
  have new: "nv_decrypt env (cn_id c) (cn_type c) (case crd of None \<Rightarrow> stored | Some x \<Rightarrow> x) = Some (case ni_credentials input of None \<Rightarrow> old | Some x \<Rightarrow> x)"
    using saved(5,6) assms(2) by (auto simp: replacement_def cipher_law_def split: option.splits)
  let ?f = "\<lambda>r. r\<lparr>cr_connection := (cr_connection r)\<lparr>cn_name := cn_name ?c, cn_endpoint := cn_endpoint ?c, cn_settings := cn_settings ?c,
      cn_enabled := cn_enabled ?c, cn_updated := cn_updated ?c\<rparr>, cr_credentials := (case crd of None \<Rightarrow> cr_credentials r | Some x \<Rightarrow> x)\<rparr>"
  have "usable_row env (?f r)" if "r \<in> set (vw_connections w)" "active_row i r" for r
  proof -
    have "r = r0" using active_unique that r0 assms(1) by (auto simp: connections_ok_def)
    moreover have "cr_connection (?f r0) = ?c" using r0 by (simp add: revised_def)
    ultimately show ?thesis using saved(3,4,7) new r0 by (auto simp: usable_iff revised_def)
  qed
  then have "connections_ok env (snd (update_active (nv_write_fault env) i ?f (vw_connections w)))"
    by (intro connections_ok_update assms(1)) simp_all
  then show ?thesis using saved(8) id by (simp add: save_connection_def)
qed (use assms in simp)

lemma health_ok: "connections_ok env tbl \<Longrightarrow> connections_ok env (snd (update_health fault i h code m at tbl))"
  unfolding update_health_def by (rule connections_ok_update) (auto simp: usable_iff)

lemma delete_ok: "connections_ok env tbl \<Longrightarrow> connections_ok env (snd (soft_delete fault i at tbl))"
  unfolding soft_delete_def by (rule connections_ok_update) (auto simp: usable_iff)

lemma reading_call_ok:
  assumes "connections_ok env (vw_connections w)" and law: "cipher_law (call_env c)"
    and "nv_registry (call_env c) = nv_registry env" and "nv_decrypt (call_env c) = nv_decrypt env"
  shows "connections_ok env (vw_connections (call_step c w))"
proof -
  have e: "connections_ok (call_env c) = connections_ok env" by (rule ext) (simp add: connections_ok_def usable_reader [OF assms(3,4)])
  show ?thesis
  proof (cases c)
    case (CallCreate env' input)
    then have "connections_ok env' = connections_ok env" "cipher_law env'" using e law by simp_all
    then show ?thesis using create_ok [of env' w input] assms(1) CallCreate by simp
  next
    case (CallUpdate env' i input)
    then have "connections_ok env' = connections_ok env" "cipher_law env'" using e law by simp_all
    then show ?thesis using update_ok [of env' w i input] assms(1) CallUpdate by simp
  next
    case (CallDelete env' i)
    then show ?thesis using delete_ok [OF assms(1), of "nv_write_fault env'" i "nv_now env'"]
      by (auto simp: delete_connection_def Let_def split: prod.splits)
  next
    case (CallTest env' i)
    then show ?thesis using test_connection_row [of env' i w] health_ok assms(1) by auto
  next
    case (CallSync env' i)
    then show ?thesis using assms(1) by (auto simp: request_sync_def split: sum.splits prod.splits) (metis queue_keeps(2) snd_conv)+
  qed
qed

lemma call_ok:
  assumes "connections_ok env (vw_connections w)" and "cipher_law env" and "same_outside env c"
  shows "connections_ok env (vw_connections (call_step c w))"
  using assms by (intro reading_call_ok) (simp_all add: cipher_law_def same_outside_def)

lemma call_run_ok:
  "connections_ok env (vw_connections w) \<Longrightarrow> cipher_law env \<Longrightarrow> list_all (same_outside env) cs \<Longrightarrow>
   connections_ok env (vw_connections (call_run cs w))"
  unfolding call_run_def by (induction cs arbitrary: w) (auto intro: call_ok)

lemma usable_connections_can_be_tested:
  assumes "connections_ok env (vw_connections w)"
  shows "fst (test_connection env i w) \<noteq> Inl ErrConnectionCipher \<and> fst (test_connection env i w) \<noteq> Inl ErrProviderConstruction"
proof -
  have "\<exists>cfg. stored_config env c crd = Some cfg \<and> nv_registry env cfg = None" if found: "find_connection f i (vw_connections w) = Inr (c, crd)" for f i c crd
    using find_connectionD [OF found] assms by (auto simp: connections_ok_def usable_row_def split: option.splits)
  then show ?thesis
    by (fastforce simp: test_connection_def update_health_def update_active_def find_connection_def Let_def
        split: sum.splits prod.splits option.splits if_splits)
qed

definition no_connections :: connection_world where
  "no_connections = \<lparr>vw_connections = [], vw_jobs = []\<rparr>"

text \<open>
  Stored connections can be used. After any calls of the service with one cipher and one registry, ids are unique,
  every row has a name of 1 to 255 bytes, and its stored credentials decrypt to a configuration that the registry accepted: a test
  of any connection never fails because credentials cannot be read or the provider cannot be created.
  (The cipher decrypts what it encrypted for the same id and type.)
\<close>

lemma stored_connections_are_usable:
  assumes "cipher_law env" and "list_all (same_outside env) cs" and "w = call_run cs no_connections" and "same_outside env (CallTest tenv i)"
  shows "distinct (map connection_key (vw_connections w)) \<and> list_all (usable_row env) (vw_connections w) \<and>
    fst (test_connection tenv i w) \<noteq> Inl ErrConnectionCipher \<and> fst (test_connection tenv i w) \<noteq> Inl ErrProviderConstruction"
proof -
  have ok: "connections_ok env (vw_connections w)"
    unfolding assms(3) by (rule call_run_ok [OF _ assms(1,2)]) (simp add: no_connections_def connections_ok_def)
  have "connections_ok tenv (vw_connections w)" using ok usable_same [OF assms(4)] by (simp add: connections_ok_def)
  then show ?thesis using ok usable_connections_can_be_tested by (simp add: connections_ok_def list_all_iff)
qed

definition sample_connection_env :: connection_env where
  "sample_connection_env = \<lparr>nv_find_fault = False, nv_write_fault = False, nv_enqueue_fault = False, nv_id = ''c1'', nv_now = 5,
     nv_queue = \<lparr>queue_max_attempts = 0\<rparr>, nv_job_id = ''j1'', nv_job_now = 5, nv_registry = (\<lambda>cfg. if cc_type cfg = ''mock'' then None else Some (Plain ''unknown'')),
     nv_validate = (\<lambda>cfg. Inr (''Mock'', ''1'')), nv_encrypt = (\<lambda>i t v. case v of JStr s \<Rightarrow> Some \<lparr>crd_ciphertext = s, crd_nonce = i, crd_version = 1\<rparr> | _ \<Rightarrow> None),
     nv_decrypt = (\<lambda>i t crd. Some (JStr (crd_ciphertext crd)))\<rparr>"

definition sample_input :: new_connection_input where
  "sample_input = \<lparr>ni_name = ''lab'', ni_type = ''Mock'', ni_endpoint = [], ni_settings = None, ni_credentials = Some (JStr ''key''), ni_enabled = True\<rparr>"

definition sample_connection :: connection where
  "sample_connection = \<lparr>cn_id = ''c1'', cn_name = ''lab'', cn_type = ''mock'', cn_endpoint = [], cn_settings = JObj [], cn_enabled = True, cn_health = HealthUnknown,
     cn_tested = None, cn_synced = None, cn_error_code = [], cn_error_message = [], cn_created = 5, cn_updated = 5\<rparr>"

lemma sample_cipher: "cipher_law sample_connection_env"
  by (auto simp: cipher_law_def sample_connection_env_def split: json.splits)

lemma sample_new: "new_connection sample_connection_env sample_input = sample_connection"
proof -
  have "go_trim ''lab'' = ''lab''" "go_trim ''Mock'' = ''Mock''" "go_trim [] = []" "go_lower ''Mock'' = ''mock''" by code_simp+
  then show ?thesis by (simp add: new_connection_def sample_connection_env_def sample_input_def sample_connection_def)
qed

definition sample_created :: connection_world where
  "sample_created =
     \<lparr>vw_connections = [\<lparr>cr_connection = sample_connection, cr_credentials = \<lparr>crd_ciphertext = ''key'', crd_nonce = ''c1'', crd_version = 1\<rparr>, cr_deleted = None\<rparr>],
      vw_jobs = [new_job \<lparr>queue_max_attempts = 0\<rparr> ''j1'' KindSyncConnection (JObj [(''connection_id'', JStr ''c1'')]) 5]\<rparr>"

lemma sample_creation: "create_connection sample_connection_env sample_input no_connections = (Inr sample_connection, sample_created)"
  unfolding create_connection_def sample_new Let_def
  by (simp add: sample_connection_def sample_connection_env_def sample_input_def config_of_def
      insert_connection_def no_connections_def queue_if_enabled_def queue_sync_def enqueue_connection_sync_def enqueue_def new_job_def sample_created_def)

theorem stored_connections_are_usable_witness:
  "vw_connections (call_run [CallCreate sample_connection_env sample_input] no_connections) \<noteq> [] \<and>
   list_all (usable_row sample_connection_env) (vw_connections (call_run [CallCreate sample_connection_env sample_input] no_connections)) \<and>
   fst (test_connection sample_connection_env ''c1'' (call_run [CallCreate sample_connection_env sample_input] no_connections)) \<noteq> Inl ErrConnectionCipher"
proof -
  have "list_all (same_outside sample_connection_env) [CallCreate sample_connection_env sample_input]"
    "same_outside sample_connection_env (CallTest sample_connection_env ''c1'')" by (simp_all add: same_outside_def)
  moreover have "vw_connections (call_run [CallCreate sample_connection_env sample_input] no_connections) \<noteq> []"
    by (simp add: call_run_def sample_creation sample_created_def)
  ultimately show ?thesis using stored_connections_are_usable [OF sample_cipher _ refl] by blast
qed

section \<open>Deletion\<close>

definition gone :: "string \<Rightarrow> connection_table \<Rightarrow> bool" where
  "gone i tbl \<longleftrightarrow> find_by connection_key i tbl \<noteq> None \<and> \<not> live_connection tbl i"

definition sync_jobs :: "string \<Rightarrow> job_table \<Rightarrow> job list" where
  "sync_jobs i jobs = filter (\<lambda>j. job_kind j = KindSyncConnection \<and> decode_string_field ''connection_id'' (payload j) = Some i) jobs"

lemma gone_not_found: "gone i tbl \<Longrightarrow> \<exists>e. find_connection f i tbl = Inl e"
  by (auto simp: gone_def live_connection_def find_connection_def list_ex_iff find_Some_iff split: option.splits)

lemma gone_update:
  assumes "gone i tbl" and "\<And>r. connection_key (f r) = connection_key r"
  shows "gone i (snd (update_active fault j f tbl))"
proof -
  have "\<not> active_row i r" if "r \<in> set tbl" for r using assms(1) that by (auto simp: gone_def live_connection_def list_ex_iff)
  then have "\<not> active_row i r" if "r \<in> set (update_where (active_row j) f tbl)" for r
    using that assms(2) by (fastforce simp: set_update_where active_row_def)
  then show ?thesis using assms
    by (auto simp: gone_def live_connection_def list_ex_iff update_active_def find_by_update_where)
qed

lemma sync_jobs_queue:
  assumes "j \<noteq> i"
  shows "sync_jobs i (vw_jobs (snd (queue_sync env j w))) = sync_jobs i (vw_jobs w)"
  using assms by (auto simp: queue_sync_def enqueue_connection_sync_def enqueue_def sync_jobs_def new_job_def Let_def split: sum.splits prod.splits)

lemma sync_jobs_queue_if:
  "cn_id c \<noteq> i \<Longrightarrow> sync_jobs i (vw_jobs (snd (queue_if_enabled env c w))) = sync_jobs i (vw_jobs w)"
  using sync_jobs_queue [of "cn_id c" i env w] by (auto simp: queue_if_enabled_def split: sum.splits prod.splits)

lemma gone_step:
  assumes "gone i (vw_connections w)"
  shows "gone i (vw_connections (call_step c w)) \<and> sync_jobs i (vw_jobs (call_step c w)) = sync_jobs i (vw_jobs w)"
proof (cases c)
  case (CallCreate env input)
  show ?thesis
  proof (cases rule: create_connection_cases [of env input w])
    case (stored v crd tbl)
    let ?c = "new_connection env input"
    have tbl: "tbl = vw_connections w @ [\<lparr>cr_connection = ?c, cr_credentials = crd, cr_deleted = None\<rparr>]" "cn_id ?c \<noteq> i"
      using stored(6) assms by (auto simp: insert_connection_def gone_def split: if_splits)
    then have "gone i tbl" using assms by (auto simp: gone_def live_connection_def active_row_def find_by_append split: option.splits)
    then show ?thesis using CallCreate stored(7) sync_jobs_queue_if [OF tbl(2)] by simp
  qed (use CallCreate assms in simp)
next
  case (CallUpdate env j input)
  show ?thesis
  proof (cases rule: update_connection_cases [of env j input w])
    case (saved c stored settings old crd)
    have "j \<noteq> i" using saved(1) gone_not_found [OF assms, of "nv_find_fault env"] by auto
    moreover have "cn_id c = j" using find_connectionD [OF saved(1)] by (auto simp: active_row_def)
    ultimately have "cn_id (revised env c input settings) \<noteq> i" by (simp add: revised_def)
    note q = sync_jobs_queue_if [OF this]
    have "gone i (snd (save_connection (nv_write_fault env) (revised env c input settings) crd (vw_connections w)))"
      unfolding save_connection_def by (rule gone_update [OF assms]) simp
    moreover have "sync_jobs i (vw_jobs (snd (update_connection env j input w))) = sync_jobs i (vw_jobs w)"
      unfolding saved(9) by (simp add: q split: sum.splits prod.splits)
    ultimately show ?thesis using saved(8) CallUpdate by simp
  qed (use CallUpdate assms in simp)
next
  case (CallDelete env j)
  have "gone i (snd (soft_delete (nv_write_fault env) j (nv_now env) (vw_connections w)))"
    unfolding soft_delete_def by (rule gone_update [OF assms]) simp
  then show ?thesis using CallDelete by (auto simp: delete_connection_def Let_def split: prod.splits)
next
  case (CallTest env j)
  have "gone i (snd (update_health (nv_write_fault env) j h code m (nv_now env) (vw_connections w)))" for h code m
    unfolding update_health_def by (rule gone_update [OF assms]) simp
  moreover have "vw_jobs (snd (test_connection env j w)) = vw_jobs w"
    by (auto simp: test_connection_def Let_def split: sum.splits prod.splits option.splits if_splits)
  ultimately show ?thesis using CallTest test_connection_row [of env j w] assms by auto
next
  case (CallSync env j)
  show ?thesis
  proof (cases "j = i")
    case True
    then show ?thesis using CallSync gone_not_found [OF assms, of "nv_find_fault env"] assms by (auto simp: request_sync_def)
  next
    case False
    have "snd (request_sync env j w) = w \<or> snd (request_sync env j w) = snd (queue_sync env j w)"
      by (auto simp: request_sync_def split: sum.splits prod.splits)
    then show ?thesis using CallSync sync_jobs_queue [OF False, of env w] assms by auto
  qed
qed

lemma gone_run:
  "gone i (vw_connections w) \<Longrightarrow> gone i (vw_connections (call_run cs w)) \<and> sync_jobs i (vw_jobs (call_run cs w)) = sync_jobs i (vw_jobs w)"
  unfolding call_run_def by (induction cs arbitrary: w) (simp_all add: gone_step)

lemma delete_gone:
  assumes "delete_connection env i w = (Inr x, w')"
  shows "gone i (vw_connections w')"
proof -
  have tbl: "vw_connections w' = snd (soft_delete (nv_write_fault env) i (nv_now env) (vw_connections w))"
    and ok: "soft_delete (nv_write_fault env) i (nv_now env) (vw_connections w) = (Inr x, vw_connections w')"
    using assms by (auto simp: delete_connection_def Let_def split: prod.splits)
  then obtain r where r: "r \<in> set (vw_connections w)" "active_row i r"
    by (auto simp: soft_delete_def update_active_def affected_def filter_empty_conv split: if_splits)
  have found: "find_by connection_key i (vw_connections w) \<noteq> None" using r by (auto simp: find_by_None active_row_def)
  let ?f = "\<lambda>r. r\<lparr>cr_connection := (cr_connection r)\<lparr>cn_enabled := False, cn_updated := nv_now env\<rparr>, cr_deleted := Some (nv_now env)\<rparr>"
  have new: "vw_connections w' = update_where (active_row i) ?f (vw_connections w)"
    using ok by (auto simp: soft_delete_def update_active_def split: if_splits)
  have "\<not> active_row i y" if y: "y \<in> set (vw_connections w')" for y
  proof -
    obtain z :: connection_row where z: "y = (if active_row i z then ?f z else z)" using y unfolding new set_update_where by blast
    have "\<not> active_row i (?f z)" by (simp add: active_row_def)
    then show ?thesis using z by (simp split: if_splits)
  qed
  then have "\<not> live_connection (vw_connections w') i" unfolding live_connection_def list_ex_iff by blast
  moreover have "find_by connection_key i (vw_connections w') \<noteq> None"
  proof -
    have "connection_key (?f r) = connection_key r" for r by simp
    then have "map connection_key (update_where (active_row i) ?f (vw_connections w)) = map connection_key (vw_connections w)"
      by (intro map_update_where) blast
    then have "connection_key ` set (vw_connections w') = connection_key ` set (vw_connections w)"
      unfolding new by (metis (no_types) list.set_map)
    then show ?thesis using found unfolding find_by_None by blast
  qed
  ultimately show ?thesis unfolding gone_def by blast
qed

text \<open>
  C22. Deletion is final. Once a connection is deleted, no later calls of the service bring it back or queue another
  synchronisation of it: it is not found by its id, requests to synchronise it fail, and the jobs that
  synchronise it are those queued before.
\<close>

theorem deleted_connection_stays_deleted:
  assumes "delete_connection env i w = (Inr x, w1)" and "w2 = call_run cs w1"
  shows "(\<exists>e. find_connection fault i (vw_connections w2) = Inl e) \<and> sync_jobs i (vw_jobs w2) = sync_jobs i (vw_jobs w1) \<and>
    (\<exists>e. fst (request_sync env2 i w2) = Inl e) \<and> \<not> live_connection (vw_connections w2) i"
proof -
  have g: "gone i (vw_connections w2)" "sync_jobs i (vw_jobs w2) = sync_jobs i (vw_jobs w1)"
    using gone_run [OF delete_gone [OF assms(1)], of cs] assms(2) by simp_all
  obtain e where "find_connection (nv_find_fault env2) i (vw_connections w2) = Inl e" using gone_not_found [OF g(1)] by blast
  then have "fst (request_sync env2 i w2) = Inl e" by (simp add: request_sync_def)
  then show ?thesis using g gone_not_found [OF g(1)] by (auto simp: gone_def)
qed

theorem deleted_connection_stays_deleted_witness:
  "\<exists>w1. delete_connection sample_connection_env ''c1'' sample_created = (Inr (), w1) \<and>
     \<not> live_connection (vw_connections (call_run [CallCreate sample_connection_env sample_input, CallSync sample_connection_env ''c1''] w1)) ''c1''"
proof -
  obtain w1 where d: "delete_connection sample_connection_env ''c1'' sample_created = (Inr (), w1)"
    by (simp add: delete_connection_def soft_delete_def update_active_def sample_created_def sample_connection_env_def sample_connection_def
        active_row_def affected_def Let_def)
  from deleted_connection_stays_deleted [OF d refl] show ?thesis using d by blast
qed

lemma insert_connection_result:
  "insert_connection fault c crd tbl = (r, tbl') \<Longrightarrow>
    r = Inl ErrConnectionStore \<or> r = Inr () \<and> tbl' = tbl @ [\<lparr>cr_connection = c, cr_credentials = crd, cr_deleted = None\<rparr>] \<and>
      \<not> fault \<and> find_by connection_key (cn_id c) tbl = None"
  by (auto simp: insert_connection_def split: if_splits)

lemma queue_sync_failure: "queue_sync env i w = (Inl e, w') \<Longrightarrow> w' = w"
  by (auto simp: queue_sync_def enqueue_connection_sync_def enqueue_def Let_def split: if_splits sum.splits prod.splits)

lemma create_unqueued:
  assumes "create_connection env input w = (Inl ErrConnectionQueue, w')"
  obtains crd where "w' = w\<lparr>vw_connections := vw_connections w @ [\<lparr>cr_connection = new_connection env input, cr_credentials = crd, cr_deleted = None\<rparr>]\<rparr>"
    "ni_enabled input"
proof -
  define c where "c = new_connection env input"
  obtain v crd tbl where ins: "insert_connection (nv_write_fault env) c crd (vw_connections w) = (Inr (), tbl)"
    and q: "queue_if_enabled env c (w\<lparr>vw_connections := tbl\<rparr>) = (Inl ErrConnectionQueue, w')"
    using assms unfolding create_connection_def c_def [symmetric] Let_def
    by (auto split: option.splits sum.splits prod.splits if_splits dest: insert_connection_result)
  have "cn_enabled c" "w' = w\<lparr>vw_connections := tbl\<rparr>"
    using q queue_sync_failure [of env "cn_id c" "w\<lparr>vw_connections := tbl\<rparr>"]
    by (auto simp: queue_if_enabled_def split: if_splits sum.splits prod.splits)
  then show ?thesis using that insert_connection_result [OF ins] by (auto simp: c_def new_connection_def)
qed

text \<open>Creating reads the table only for the id, and the jobs only to queue.\<close>

lemma create_after:
  assumes "create_connection env input w = (Inr c, w1)" and "find_by connection_key (nv_id env) extra = None"
  shows "\<exists>w2. create_connection env input (w\<lparr>vw_connections := vw_connections w @ extra\<rparr>) = (Inr c, w2) \<and> cn_id c = nv_id env \<and>
    (\<exists>crd. vw_connections w2 = vw_connections w @ extra @ [\<lparr>cr_connection = c, cr_credentials = crd, cr_deleted = None\<rparr>])"
proof -
  define c0 where "c0 = new_connection env input"
  have id: "cn_id c0 = nv_id env" by (simp add: c0_def new_connection_def)
  obtain v crd tbl where pre: "ni_credentials input = Some v" "cn_name c0 \<noteq> []" "\<not> 255 < length (cn_name c0)" "cn_type c0 \<noteq> []"
      "nv_registry env (config_of c0 v) = None" "nv_encrypt env (cn_id c0) (cn_type c0) v = Some crd"
    and ins: "insert_connection (nv_write_fault env) c0 crd (vw_connections w) = (Inr (), tbl)"
    and q: "queue_if_enabled env c0 (w\<lparr>vw_connections := tbl\<rparr>) = (Inr c, w1)"
    using assms(1) unfolding create_connection_def c0_def [symmetric] Let_def
    by (auto split: option.splits sum.splits prod.splits if_splits)
  let ?row = "\<lparr>cr_connection = c0, cr_credentials = crd, cr_deleted = None\<rparr>"
  have ins2: "insert_connection (nv_write_fault env) c0 crd (vw_connections w @ extra) = (Inr (), (vw_connections w @ extra) @ [?row])"
    using insert_connection_result [OF ins] assms(2) id by (simp add: insert_connection_def find_by_append)
  have "\<exists>w2. queue_if_enabled env c0 (w\<lparr>vw_connections := (vw_connections w @ extra) @ [?row]\<rparr>) = (Inr c, w2) \<and> c = c0 \<and>
      vw_connections w2 = (vw_connections w @ extra) @ [?row]"
    using q by (auto simp: queue_if_enabled_def queue_sync_def Let_def split: if_splits sum.splits prod.splits)
  then show ?thesis using pre ins2 id unfolding create_connection_def c0_def [symmetric] Let_def by auto
qed

text \<open>
  A creation that fails may have happened. If the connection is stored but its synchronisation cannot be queued, the
  answer is 500 as if nothing had happened, while the connection is active, is listed, and has no job that would ever
  synchronise it; sending the form again stores it a second time.
\<close>

lemma failed_creation_keeps_connection:
  assumes "decode_connection_input body = Some input" and "create_connection env input w = (Inl ErrConnectionQueue, w')"
    and "sync_jobs (nv_id env) (vw_jobs w) = []" and "create_connection env2 input w = (Inr c2, w2)" and "nv_id env2 \<noteq> nv_id env"
  shows "create_connection_route i env body w = (write_service_error i ErrConnectionQueue, w') \<and>
    hr_status (write_service_error i ErrConnectionQueue) = 500 \<and> live_connection (vw_connections w') (nv_id env) \<and>
    sync_jobs (nv_id env) (vw_jobs w') = [] \<and>
    (\<exists>r w3. create_connection_route i env2 body w' = (r, w3) \<and> hr_status r = 201 \<and>
       live_connection (vw_connections w3) (nv_id env) \<and> live_connection (vw_connections w3) (nv_id env2))"
proof -
  obtain crd where w': "w' = w\<lparr>vw_connections := vw_connections w @ [\<lparr>cr_connection = new_connection env input, cr_credentials = crd, cr_deleted = None\<rparr>]\<rparr>"
    by (rule create_unqueued [OF assms(2)])
  have id: "cn_id (new_connection env input) = nv_id env" by (simp add: new_connection_def)
  then have "find_by connection_key (nv_id env2) [\<lparr>cr_connection = new_connection env input, cr_credentials = crd, cr_deleted = None\<rparr>] = None"
    using assms(5) by simp
  from create_after [OF assms(4) this] obtain w3 crd2 where w3: "create_connection env2 input w' = (Inr c2, w3)" "cn_id c2 = nv_id env2"
      "vw_connections w3 = vw_connections w' @ [\<lparr>cr_connection = c2, cr_credentials = crd2, cr_deleted = None\<rparr>]" by (auto simp: w')
  have "create_connection_route i env2 body w' = (\<lparr>hr_status = 201, hr_body = JObj [(''connection'', connection_body c2)]\<rparr>, w3)"
    using assms(1) w3(1) by (simp add: create_connection_route_def connection_answer_def)
  then show ?thesis using assms(1-3) w3(2,3) id
    by (auto simp: create_connection_route_def connection_answer_def write_error_def live_connection_def active_row_def w')
qed

theorem failed_creation_keeps_connection_witness:
  "\<exists>w'. create_connection_route ''r'' (sample_connection_env\<lparr>nv_id := ''c2'', nv_enqueue_fault := True\<rparr>)
       (Some (JObj [(''name'', JStr ''lab''), (''provider_type'', JStr ''Mock''), (''credentials'', JStr ''key''), (''enabled'', JBool True)])) no_connections =
         (write_service_error ''r'' ErrConnectionQueue, w') \<and> live_connection (vw_connections w') ''c2''"
proof -
  let ?env = "sample_connection_env\<lparr>nv_id := ''c2'', nv_enqueue_fault := True\<rparr>"
  let ?body = "Some (JObj [(''name'', JStr ''lab''), (''provider_type'', JStr ''Mock''), (''credentials'', JStr ''key''), (''enabled'', JBool True)])"
  have body: "decode_connection_input ?body = Some sample_input" by code_simp
  have new: "new_connection ?env sample_input = sample_connection\<lparr>cn_id := ''c2''\<rparr>"
    using arg_cong [OF sample_new, of "\<lambda>c. c\<lparr>cn_id := ''c2''\<rparr>"] by (simp add: new_connection_def sample_connection_env_def)
  obtain w' where first: "create_connection ?env sample_input no_connections = (Inl ErrConnectionQueue, w')"
    unfolding create_connection_def new Let_def
    by (simp add: sample_connection_def sample_connection_env_def sample_input_def config_of_def insert_connection_def no_connections_def
        queue_if_enabled_def queue_sync_def enqueue_connection_sync_def enqueue_def)
  have "sync_jobs (nv_id ?env) (vw_jobs no_connections) = []" "nv_id sample_connection_env \<noteq> nv_id ?env"
    by (simp_all add: sync_jobs_def no_connections_def sample_connection_env_def)
  from failed_creation_keeps_connection [OF body first this(1) sample_creation this(2), of "''r''"] show ?thesis by (auto simp: sample_connection_env_def)
qed

end
