(* ===== verification/ProviderRegistry.thy ===== *)
theory ProviderRegistry imports ConnectionService "HOL-Library.Multiset" begin

text \<open>
  The registry of providers, \<^verbatim>\<open>internal/providers/registry.go\<close>, and the list of provider types that
  \<^verbatim>\<open>internal/connections/http.go\<close> makes of it. What a factory makes of a configuration is a parameter. The mutex only
  orders the calls: each is one step.
\<close>

section \<open>The registry\<close>

type_synonym 'p factory = "connection_config \<Rightarrow> go_error + 'p"

type_synonym 'p registry = "(string \<times> 'p factory) list"

datatype registry_error = ErrTypeRequired | ErrProviderAlreadyRegistered

definition register_provider :: "string \<Rightarrow> 'p factory option \<Rightarrow> 'p registry \<Rightarrow> (registry_error + unit) \<times> 'p registry" where
  "register_provider type factory reg =
     (let t = go_trim (go_lower type)
      in case factory of
           None \<Rightarrow> (Inl ErrTypeRequired, reg)
         | Some f \<Rightarrow>
             (if t = [] then (Inl ErrTypeRequired, reg)
              else if map_of reg t \<noteq> None then (Inl ErrProviderAlreadyRegistered, reg)
              else (Inr (), reg @ [(t, f)])))"

definition create_provider :: "'p registry \<Rightarrow> connection_config \<Rightarrow> go_error + 'p" where
  "create_provider reg cfg =
     (let t = go_trim (go_lower (cc_type cfg))
      in case map_of reg t of None \<Rightarrow> Inl (Plain ''unknown provider type'') | Some f \<Rightarrow> f (cfg\<lparr>cc_type := t\<rparr>))"

definition registry_types :: "'p registry \<Rightarrow> string list" where
  "registry_types reg = foldr (insert_sorted text_le) (map fst reg) []"

section \<open>The list of types\<close>

definition known_order :: "string list" where
  "known_order = [''aws'', ''gcp'', ''mock'', ''solusvm2'', ''virtualizor'', ''virtfusion'']"

definition known_rank :: "string \<Rightarrow> nat option" where
  "known_rank t = map_of (zip known_order [0..<6]) t"

definition lists_before :: "string \<Rightarrow> string \<Rightarrow> bool" where
  "lists_before a b =
     (case (known_rank a, known_rank b) of
        (Some m, Some n) \<Rightarrow> m < n
      | (Some _, None) \<Rightarrow> True
      | (None, Some _) \<Rightarrow> False
      | (None, None) \<Rightarrow> text_less a b)"

text \<open>\<^verbatim>\<open>sort.SliceStable\<close>: of two that are not ordered the one that came first stays first.\<close>

definition stable_sort :: "string list \<Rightarrow> string list" where
  "stable_sort ts = foldr (insert_sorted (\<lambda>a b. \<not> lists_before b a)) ts []"

definition upper_byte :: "char \<Rightarrow> char" where
  "upper_byte c = (let n = of_char c :: nat in if 97 \<le> n \<and> n \<le> 122 then char_of (n - 32) else c)"

text \<open>The first byte is cut off before the switch: with an empty type the handler panics, \<open>None\<close>. Types are ASCII.\<close>

fun provider_name :: "string \<Rightarrow> string option" where
  "provider_name [] = None"
| "provider_name (c # cs) = Some
     (if c # cs = ''mock'' then ''Mock Provider''
      else if c # cs = ''aws'' then ''AWS EC2''
      else if c # cs = ''gcp'' then ''Google Cloud Compute Engine''
      else if c # cs = ''solusvm2'' then ''SolusVM 2''
      else if c # cs = ''virtualizor'' then ''Virtualizor''
      else if c # cs = ''virtfusion'' then ''VirtFusion''
      else upper_byte c # cs @ '' Provider'')"

definition provider_type_json :: "string \<Rightarrow> json option" where
  "provider_type_json t = map_option (\<lambda>name. JObj [(''id'', JStr t), (''name'', JStr name)]) (provider_name t)"

definition provider_types_route :: "'p registry \<Rightarrow> http_response option" where
  "provider_types_route reg =
     map_option (\<lambda>vs. \<lparr>hr_status = 200, hr_body = JObj [(''provider_types'', JArr vs)]\<rparr>)
       (those (map provider_type_json (stable_sort (registry_types reg))))"

section \<open>Runs of registrations\<close>

definition register_all :: "(string \<times> 'p factory option) list \<Rightarrow> 'p registry" where
  "register_all calls = fold (\<lambda>(t, f) reg. snd (register_provider t f reg)) calls []"

text \<open>The factory that a run leaves under a type: the first that was given for it.\<close>

definition offered :: "string \<Rightarrow> string \<times> 'p factory option \<Rightarrow> bool" where
  "offered t call \<longleftrightarrow> go_trim (go_lower (fst call)) = t \<and> snd call \<noteq> None"

definition first_offer :: "string \<Rightarrow> (string \<times> 'p factory option) list \<Rightarrow> 'p factory option" where
  "first_offer t calls = (if t = [] then None else case List.find (offered t) calls of None \<Rightarrow> None | Some call \<Rightarrow> snd call)"

lemma register_step:
  "map_of (snd (register_provider type f reg)) t =
     (if map_of reg t \<noteq> None then map_of reg t else if t \<noteq> [] \<and> offered t (type, f) then f else None)"
  by (auto simp: register_provider_def offered_def Let_def map_add_def split: option.splits)

lemma register_distinct:
  "distinct (map fst reg) \<and> [] \<notin> set (map fst reg) \<Longrightarrow>
   distinct (map fst (snd (register_provider type f reg))) \<and> [] \<notin> set (map fst (snd (register_provider type f reg)))"
  by (auto simp: register_provider_def Let_def map_of_eq_None_iff split: option.splits)

lemma register_all_ok: "distinct (map fst (register_all calls)) \<and> [] \<notin> set (map fst (register_all calls))"
proof -
  have "distinct (map fst reg) \<and> [] \<notin> set (map fst reg) \<Longrightarrow>
      distinct (map fst (fold (\<lambda>(t, f) reg. snd (register_provider t f reg)) calls reg)) \<and>
      [] \<notin> set (map fst (fold (\<lambda>(t, f) reg. snd (register_provider t f reg)) calls reg))" for reg :: "'a registry"
  proof (induction calls arbitrary: reg)
    case (Cons call calls)
    obtain t f where call: "call = (t, f)" by (cases call)
    show ?case using Cons.IH [OF register_distinct [OF Cons.prems, of t f]] by (simp add: call)
  qed simp
  then show ?thesis by (simp add: register_all_def)
qed

lemma register_all_map: "map_of (register_all calls) t = first_offer t calls"
proof -
  have "map_of (fold (\<lambda>(t, f) reg. snd (register_provider t f reg)) calls reg) t =
      (case map_of reg t of None \<Rightarrow> first_offer t calls | Some f \<Rightarrow> Some f)" for reg :: "'a registry"
  proof (induction calls arbitrary: reg)
    case (Cons call calls)
    obtain u f where call: "call = (u, f)" by (cases call)
    have step: "map_of (snd (register_provider u f reg)) t =
        (if map_of reg t \<noteq> None then map_of reg t else if t \<noteq> [] \<and> offered t (u, f) then f else None)" by (rule register_step)
    show ?case using Cons.IH [of "snd (register_provider u f reg)"]
      by (auto simp: call step first_offer_def offered_def split: option.splits)
  qed (simp add: first_offer_def split: option.splits)
  then show ?thesis by (simp add: register_all_def)
qed

lemma insert_sorted_mset [simp]: "mset (insert_sorted before x ys) = add_mset x (mset ys)"
  by (induction ys) auto

lemma foldr_insert_mset [simp]: "mset (foldr (insert_sorted before) xs []) = mset xs"
  by (induction xs) auto

text \<open>The insertion sort of the models, for an order that is total and transitive.\<close>

locale sort_order =
  fixes before :: "'a \<Rightarrow> 'a \<Rightarrow> bool"
  assumes before_total: "before a b \<or> before b a"
    and before_trans: "before a b \<Longrightarrow> before b c \<Longrightarrow> before a c"
begin

lemma insert_keeps: "sorted_wrt before ys \<Longrightarrow> sorted_wrt before (insert_sorted before x ys)"
proof (induction ys)
  case (Cons y ys)
  have members: "set (insert_sorted before x ys) = insert x (set ys)"
    by (metis insert_sorted_mset set_mset_add_mset_insert set_mset_mset)
  show ?case using Cons before_total [of x y] before_trans [of x y] by (auto simp: members)
qed simp

lemma sort_sorts: "sorted_wrt before (foldr (insert_sorted before) xs [])"
  by (induction xs) (auto intro: insert_keeps)

end

lemma known_rank_inj: "known_rank a = Some n \<Longrightarrow> known_rank b = Some n \<Longrightarrow> a = b"
proof -
  have "distinct (map snd (zip known_order [0..<6]))" by (simp add: known_order_def)
  then have "inj_on snd (set (zip known_order [0..<6]))" by (simp add: distinct_map)
  then show "known_rank a = Some n \<Longrightarrow> known_rank b = Some n \<Longrightarrow> a = b"
    unfolding known_rank_def by (metis (no_types) inj_onD map_of_SomeD prod.inject snd_conv)
qed

lemma lists_before_total: "a = b \<or> lists_before a b \<or> lists_before b a"
proof (cases "known_rank a")
  case None
  then show ?thesis using text_less_total [of a b] by (cases "known_rank b") (auto simp: lists_before_def)
next
  case (Some m)
  then show ?thesis using known_rank_inj [of a m b] linorder_neq_iff [of m] by (cases "known_rank b") (auto simp: lists_before_def)
qed

lemma lists_before_irrefl [simp]: "\<not> lists_before a a"
  by (simp add: lists_before_def split: option.split)

lemma lists_before_trans: "lists_before a b \<Longrightarrow> lists_before b c \<Longrightarrow> lists_before a c"
  by (auto simp: lists_before_def split: option.splits intro: text_less_trans)

lemma lists_before_asym: "lists_before a b \<Longrightarrow> \<not> lists_before b a"
  using lists_before_trans [of a b a] by auto

interpretation listed: sort_order "\<lambda>a b. \<not> lists_before b a"
proof
  fix a b c :: string
  show "\<not> lists_before b a \<or> \<not> lists_before a b" using lists_before_asym by blast
  show "\<not> lists_before c a" if "\<not> lists_before b a" "\<not> lists_before c b"
  proof
    assume c: "lists_before c a"
    then have "a \<noteq> b" "b \<noteq> c" using that by auto
    then have "lists_before a b" "lists_before b c" using that lists_before_total [of a b] lists_before_total [of b c] by auto
    then have "lists_before a c" by (rule lists_before_trans)
    then show False using c lists_before_asym by blast
  qed
qed

lemma stable_sort_mset: "mset (stable_sort ts) = mset ts"
  by (simp add: stable_sort_def)

lemma sorted_strict: "distinct ts \<Longrightarrow> sorted_wrt (\<lambda>a b. \<not> lists_before b a) ts \<Longrightarrow> sorted_wrt lists_before ts"
proof (induction ts)
  case (Cons t ts)
  have "lists_before t u" if "u \<in> set ts" for u using that Cons.prems lists_before_total [of t u] by auto
  then show ?case using Cons by simp
qed simp

lemma stable_sort_sorted: "distinct ts \<Longrightarrow> sorted_wrt lists_before (stable_sort ts)"
proof -
  assume "distinct ts"
  then have "distinct (stable_sort ts)" using stable_sort_mset [of ts] by (metis distinct_count_atmost_1 mset_eq_setD)
  moreover have "sorted_wrt (\<lambda>a b. \<not> lists_before b a) (stable_sort ts)" unfolding stable_sort_def by (rule listed.sort_sorts)
  ultimately show ?thesis by (rule sorted_strict)
qed

text \<open>
  The list of provider types shows every registered type once. After any registrations the answer is 200, its list holds every type
  under which a factory was registered exactly once, the six known ones first in their fixed order and the others by
  name, and creating a provider of a type, in any case and with spaces around it, calls the factory that was
  registered first for it: a later registration replaces nothing.
\<close>

lemma registered_types_listed_once:
  "(\<exists>ts. provider_types_route (register_all calls) =
       Some \<lparr>hr_status = 200, hr_body = JObj [(''provider_types'', JArr (map (\<lambda>t. the (provider_type_json t)) ts))]\<rparr> \<and>
     set ts = {t. first_offer t calls \<noteq> None} \<and> distinct ts \<and> sorted_wrt lists_before ts) \<and>
   create_provider (register_all calls) cfg =
     (case first_offer (go_trim (go_lower (cc_type cfg))) calls of
        None \<Rightarrow> Inl (Plain ''unknown provider type'')
      | Some f \<Rightarrow> f (cfg\<lparr>cc_type := go_trim (go_lower (cc_type cfg))\<rparr>))"
proof (intro conjI exI [of _ "stable_sort (registry_types (register_all calls))"])
  let ?types = "registry_types (register_all calls)"
  let ?ts = "stable_sort ?types"
  have types: "mset ?types = mset (map fst (register_all calls))" by (simp add: registry_types_def)
  then have "mset ?ts = mset (map fst (register_all calls))" by (simp add: stable_sort_mset)
  then have members: "set ?ts = set (map fst (register_all calls))" and "distinct ?ts"
    using register_all_ok [of calls] by (metis mset_eq_setD, metis mset_eq_imp_distinct_iff)
  then show "distinct ?ts" by simp
  show "set ?ts = {t. first_offer t calls \<noteq> None}"
    unfolding members by (simp add: set_eq_iff register_all_map [symmetric] map_of_eq_None_iff)
  have "distinct ?types" using types register_all_ok [of calls] by (metis mset_eq_imp_distinct_iff)
  then show "sorted_wrt lists_before ?ts" by (rule stable_sort_sorted)
  have named: "\<exists>v. provider_type_json t = Some v" if "t \<in> set ?ts" for t
  proof -
    have "t \<noteq> []" using that register_all_ok [of calls] unfolding members by blast
    then show ?thesis by (cases t) (simp_all add: provider_type_json_def)
  qed
  have "those (map provider_type_json ts) = Some (map (\<lambda>t. the (provider_type_json t)) ts)" if "\<And>t. t \<in> set ts \<Longrightarrow> \<exists>v. provider_type_json t = Some v" for ts
    using that by (induction ts) (auto, fastforce)
  then show "provider_types_route (register_all calls) =
      Some \<lparr>hr_status = 200, hr_body = JObj [(''provider_types'', JArr (map (\<lambda>t. the (provider_type_json t)) ?ts))]\<rparr>"
    using named by (simp add: provider_types_route_def)
  show "create_provider (register_all calls) cfg =
     (case first_offer (go_trim (go_lower (cc_type cfg))) calls of
        None \<Rightarrow> Inl (Plain ''unknown provider type'')
      | Some f \<Rightarrow> f (cfg\<lparr>cc_type := go_trim (go_lower (cc_type cfg))\<rparr>))"
    by (simp add: create_provider_def register_all_map Let_def)
qed

end
