(* ===== verification/InventorySync.thy ===== *)
theory InventorySync imports ConnectionService ConsolePolicy OpExecutor begin

text \<open>
  Synchronising the inventory, \<^verbatim>\<open>internal/inventory\<close>: listing the servers of a connection from its provider, page by page, the
  transaction that replaces what the table shows of the connection, the list of servers, and the HTTP handlers. The
  provider is a parameter: what each of its calls answers. A state of a remote server that is none of the eight
  words is \<open>StateUnknown\<close> from the start. A generated id that is taken counts as a fault of its statement.
\<close>

section \<open>Replacing what is shown of a connection\<close>

definition server_key :: "server \<Rightarrow> string \<times> string \<times> string" where
  "server_key r = (srv_connection r, srv_scope r, srv_external_id r)"

definition hide_servers :: "string \<Rightarrow> time \<Rightarrow> server_table \<Rightarrow> server_table" where
  "hide_servers c at tbl =
     update_where (\<lambda>r. srv_connection r = c \<and> srv_hidden_at r = None) (\<lambda>r. r\<lparr>srv_hidden_at := Some at, srv_updated := at\<rparr>) tbl"

definition overwrite_listed :: "server \<Rightarrow> server \<Rightarrow> server" where
  "overwrite_listed s r =
     r\<lparr>srv_name := srv_name s, srv_state := srv_state s, srv_remote_state := srv_remote_state s, srv_spec := srv_spec s,
       srv_addresses := srv_addresses s, srv_capabilities := srv_capabilities s, srv_portal_url := srv_portal_url s,
       srv_last_seen := srv_last_seen s, srv_last_checked := srv_last_checked s, srv_hidden_at := None, srv_updated := srv_updated s\<rparr>"

definition upsert_server :: "server \<Rightarrow> server_table \<Rightarrow> server_table option" where
  "upsert_server s tbl =
     (if find_by server_key (server_key s) tbl \<noteq> None
      then Some (update_where (\<lambda>r. server_key r = server_key s) (overwrite_listed s) tbl)
      else if find_by srv_id (srv_id s) tbl \<noteq> None then None
      else Some (tbl @ [s\<lparr>srv_hidden_at := None\<rparr>]))"

fun upsert_all :: "string \<Rightarrow> server list \<Rightarrow> server_table \<Rightarrow> server_table option" where
  "upsert_all c [] tbl = Some tbl"
| "upsert_all c (s # ss) tbl =
     (if srv_connection s \<noteq> c \<or> srv_id s = [] \<or> srv_external_id s = [] then None
      else (case upsert_server s tbl of None \<Rightarrow> None | Some tbl' \<Rightarrow> upsert_all c ss tbl'))"

record sync_world =
  iw_connections :: connection_table
  iw_servers :: server_table

definition mark_synced :: "time \<Rightarrow> connection_row \<Rightarrow> connection_row" where
  "mark_synced at r = r\<lparr>cr_connection := (cr_connection r)\<lparr>cn_synced := Some at, cn_health := HealthHealthy, cn_error_code := [],
     cn_error_message := [], cn_updated := at\<rparr>\<rparr>"

text \<open>One transaction: on any error it is rolled back.\<close>

definition apply_complete_sync :: "bool \<Rightarrow> string \<Rightarrow> time \<Rightarrow> server list \<Rightarrow> sync_world \<Rightarrow> go_error option \<times> sync_world" where
  "apply_complete_sync fault c at servers w =
     (case (if fault then None else upsert_all c servers (hide_servers c at (iw_servers w))) of
        None \<Rightarrow> (Some (Plain ''synchronization transaction failed''), w)
      | Some tbl \<Rightarrow>
          (if affected (active_row c) (iw_connections w) = 0 then (Some (Plain ''provider connection not found''), w)
           else (None, \<lparr>iw_connections = update_where (active_row c) (mark_synced at) (iw_connections w), iw_servers = tbl\<rparr>)))"

section \<open>Listing\<close>

record sync_env =
  sy_find_fault :: bool
  sy_apply_fault :: bool
  sy_health_fault :: bool
  sy_now :: time
  sy_failed_at :: time
  sy_id :: "nat \<Rightarrow> string"
  sy_decrypt :: "string \<Rightarrow> string \<Rightarrow> credential_record \<Rightarrow> json option"
  sy_registry :: "connection_config \<Rightarrow> go_error option"
  sy_validate :: "go_error option"
  sy_list :: "nat \<Rightarrow> string option \<Rightarrow> go_error + remote_server list \<times> string option"
  sy_portal :: "server_ref \<Rightarrow> go_error + url option"
  sy_url_text :: "url \<Rightarrow> string"
  sy_drift :: "sync_world \<Rightarrow> sync_world"

definition normalizePortalURL :: "(url \<Rightarrow> string) \<Rightarrow> string \<Rightarrow> url option \<Rightarrow> string option" where
  "normalizePortalURL to_text type target =
     (case target of
        None \<Rightarrow> None
      | Some u \<Rightarrow>
          (if type = ''mock'' \<and> u_scheme u = ''mock+page'' \<and> hostname u = ''portal'' \<and> port_of u = [] \<and> \<not> u_user u \<and>
              u_fragment u = [] \<and> u_raw_query u = [] \<and> (u_path u = [] \<or> u_path u = ''/'')
           then Some ''/api/v1/mock-pages/portal''
           else if u_host u = [] \<or> (u_scheme u \<noteq> ''http'' \<and> u_scheme u \<noteq> ''https'') then None
           else Some (to_text u)))"

definition portal_of :: "sync_env \<Rightarrow> string \<Rightarrow> remote_server \<Rightarrow> go_error + string option" where
  "portal_of env type remote =
     (if \<not> cap_available (has_provider_portal (rs_capabilities remote)) then Inr None
      else (case sy_portal env \<lparr>ref_external_id = rs_external_id remote, ref_scope = rs_scope remote\<rparr> of
              Inl e \<Rightarrow> Inl e
            | Inr target \<Rightarrow>
                (case normalizePortalURL (sy_url_text env) type target of
                   None \<Rightarrow> Inl (Plain ''provider returned an invalid portal URL'')
                 | Some t \<Rightarrow> Inr (Some t))))"

text \<open>\<open>k\<close> counts the servers made so far: the id is the \<open>k\<close>-th that is generated.\<close>

definition normalizeServer :: "sync_env \<Rightarrow> string \<Rightarrow> string \<Rightarrow> nat \<Rightarrow> remote_server \<Rightarrow> go_error + server" where
  "normalizeServer env c type k remote =
     (if rs_external_id remote = [] \<or> rs_name remote = [] then Inl (Plain ''provider returned an invalid server'')
      else (case portal_of env type remote of
              Inl e \<Rightarrow> Inl e
            | Inr portal \<Rightarrow>
                Inr \<lparr>srv_id = sy_id env k, srv_connection = c, srv_external_id = rs_external_id remote, srv_scope = rs_scope remote,
                     srv_name = rs_name remote, srv_state = rs_state remote, srv_remote_state = rs_remote_state remote,
                     srv_spec = rs_spec remote, srv_addresses = rs_addresses remote,
                     srv_capabilities = Some (capabilities_json (rs_capabilities remote)), srv_portal_url = portal,
                     srv_last_seen = sy_now env, srv_last_checked = sy_now env, srv_hidden_at = None,
                     srv_created = sy_now env, srv_updated = sy_now env\<rparr>))"

fun normalize_all :: "sync_env \<Rightarrow> string \<Rightarrow> string \<Rightarrow> nat \<Rightarrow> remote_server list \<Rightarrow> go_error + server list" where
  "normalize_all env c type k [] = Inr []"
| "normalize_all env c type k (r # rs) =
     (case normalizeServer env c type k r of
        Inl e \<Rightarrow> Inl e
      | Inr s \<Rightarrow> (case normalize_all env c type (Suc k) rs of Inl e \<Rightarrow> Inl e | Inr ss \<Rightarrow> Inr (s # ss)))"

definition maximumSyncPages :: nat where
  "maximumSyncPages = 1000"

definition maximumSyncServers :: nat where
  "maximumSyncServers = 10000"

definition provider_failure :: "string \<Rightarrow> go_error" where
  "provider_failure message = Provider \<lparr>pe_code = ErrorProvider, pe_message = message, pe_retryable = False\<rparr>"

text \<open>The loop over the pages; \<open>n\<close> pages may still be asked for, \<open>k\<close> is the number of the page.\<close>

fun list_pages :: "sync_env \<Rightarrow> string \<Rightarrow> string \<Rightarrow> nat \<Rightarrow> nat \<Rightarrow> string option \<Rightarrow> server list \<Rightarrow> go_error + server list" where
  "list_pages env c type 0 k cursor acc = Inl (provider_failure ''provider pagination exceeds 1000 pages'')"
| "list_pages env c type (Suc n) k cursor acc =
     (case sy_list env k cursor of
        Inl e \<Rightarrow> Inl e
      | Inr (remotes, next) \<Rightarrow>
          (if length acc + length remotes > maximumSyncServers then Inl (provider_failure ''provider inventory exceeds 10000 servers'')
           else (case normalize_all env c type (length acc) remotes of
                   Inl e \<Rightarrow> Inl e
                 | Inr ss \<Rightarrow> (case next of None \<Rightarrow> Inr (acc @ ss) | Some v \<Rightarrow> list_pages env c type n (Suc k) (Some v) (acc @ ss)))))"

definition record_failure :: "sync_env \<Rightarrow> string \<Rightarrow> go_error \<Rightarrow> sync_world \<Rightarrow> go_error option \<times> sync_world" where
  "record_failure env i e w =
     (let (health, code, message) = classify_error ''Provider synchronization failed'' e;
          (r, tbl) = update_health (sy_health_fault env) i health code message (sy_failed_at env) (iw_connections w)
      in (Some (case r of Inl _ \<Rightarrow> Joined [e, Plain ''update provider connection health''] | Inr _ \<Rightarrow> e), w\<lparr>iw_connections := tbl\<rparr>))"

fun find_error :: "connection_error \<Rightarrow> go_error" where
  "find_error ErrConnectionNotFound = Plain ''provider connection not found''"
| "find_error _ = Plain ''find provider connection''"

text \<open>What other goroutines do while the provider is asked is \<open>sy_drift\<close>: it happens before anything is written.\<close>

definition sync_connection :: "sync_env \<Rightarrow> string \<Rightarrow> sync_world \<Rightarrow> go_error option \<times> sync_world" where
  "sync_connection env i w =
     (case find_connection (sy_find_fault env) i (iw_connections w) of
        Inl e \<Rightarrow> (Some (find_error e), w)
      | Inr (c, crd) \<Rightarrow>
          (if \<not> cn_enabled c then (Some (Plain ''provider connection is disabled''), w)
           else (case map_option (config_of c) (sy_decrypt env (cn_id c) (cn_type c) crd) of
                   None \<Rightarrow> (Some (Plain ''decrypt provider credentials''), w)
                 | Some cfg \<Rightarrow>
                     (let w1 = sy_drift env w
                      in case sy_registry env cfg of
                           Some e \<Rightarrow> record_failure env i e w1
                         | None \<Rightarrow>
                             (case sy_validate env of
                                Some e \<Rightarrow> record_failure env i e w1
                              | None \<Rightarrow>
                                  (case list_pages env i (cn_type c) maximumSyncPages 0 None [] of
                                     Inl e \<Rightarrow> record_failure env i e w1
                                   | Inr servers \<Rightarrow> apply_complete_sync (sy_apply_fault env) i (sy_now env) servers w1))))))"

section \<open>The list of servers\<close>

text \<open>\<open>like\<close> is the \<^verbatim>\<open>LIKE\<close> of the engine, on the lower-case name and the pattern.\<close>

record server_filter =
  sf_connection :: string
  sf_type :: string
  sf_state :: "server_state option"
  sf_query :: string

definition matches_server :: "(string \<Rightarrow> string \<Rightarrow> bool) \<Rightarrow> connection_table \<Rightarrow> server_filter \<Rightarrow> server \<Rightarrow> bool" where
  "matches_server like conns f r \<longleftrightarrow>
     srv_hidden_at r = None \<and> live_connection conns (srv_connection r) \<and>
     (sf_connection f = [] \<or> srv_connection r = sf_connection f) \<and>
     (sf_type f = [] \<or> list_ex (\<lambda>c. active_row (srv_connection r) c \<and> cn_type (cr_connection c) = sf_type f) conns) \<and>
     (case sf_state f of None \<Rightarrow> True | Some st \<Rightarrow> srv_state r = st) \<and>
     (go_trim (sf_query f) = [] \<or> like (go_lower (srv_name r)) (''%'' @ go_lower (go_trim (sf_query f)) @ ''%''))"

definition by_name :: "server \<Rightarrow> server \<Rightarrow> bool" where
  "by_name a b \<longleftrightarrow> text_less (srv_name a) (srv_name b) \<or> srv_name a = srv_name b \<and> text_le (srv_id a) (srv_id b)"

definition list_servers :: "bool \<Rightarrow> (string \<Rightarrow> string \<Rightarrow> bool) \<Rightarrow> server_filter \<Rightarrow> sync_world \<Rightarrow> inventory_error + server list" where
  "list_servers fault like f w =
     (if fault then Inl ErrInventoryDatabase
      else Inr (foldr (insert_sorted by_name) (filter (matches_server like (iw_connections w) f) (iw_servers w)) []))"

section \<open>What is shown\<close>

text \<open>
  The abstract inventory of a connection: the servers that are shown, by scope and external id, with what the
  provider said of them. Applying a listing replaces it by the listing, the last of equal entries counting.
\<close>

record shown_server =
  sh_name :: string
  sh_state :: server_state
  sh_remote_state :: string
  sh_spec :: json
  sh_addresses :: json
  sh_capabilities :: "json option"
  sh_portal :: "string option"
  sh_seen :: time
  sh_updated :: time

definition shown_of :: "server \<Rightarrow> shown_server" where
  "shown_of r = \<lparr>sh_name = srv_name r, sh_state = srv_state r, sh_remote_state = srv_remote_state r, sh_spec = srv_spec r,
     sh_addresses = srv_addresses r, sh_capabilities = srv_capabilities r, sh_portal = srv_portal_url r, sh_seen = srv_last_seen r,
     sh_updated = srv_updated r\<rparr>"

definition shown :: "string \<Rightarrow> server_table \<Rightarrow> string \<times> string \<Rightarrow> shown_server option" where
  "shown c tbl = (\<lambda>(scope, ext).
     case find_by server_key (c, scope, ext) tbl of
       None \<Rightarrow> None
     | Some r \<Rightarrow> (if srv_hidden_at r = None then Some (shown_of r) else None))"

definition listing :: "server list \<Rightarrow> string \<times> string \<Rightarrow> shown_server option" where
  "listing ss = fold (\<lambda>s m. m((srv_scope s, srv_external_id s) \<mapsto> shown_of s)) ss Map.empty"

text \<open>What a row keeps for good.\<close>

definition identity_of :: "server \<Rightarrow> string \<times> time" where
  "identity_of r = (srv_id r, srv_created r)"

lemma overwrite_key [simp]: "server_key (overwrite_listed s r) = server_key r" "srv_id (overwrite_listed s r) = srv_id r"
    "identity_of (overwrite_listed s r) = identity_of r" "shown_of (overwrite_listed s r) = shown_of s" "srv_hidden_at (overwrite_listed s r) = None"
  by (simp_all add: overwrite_listed_def server_key_def identity_of_def shown_of_def)

lemma find_upsert:
  assumes "upsert_server s tbl = Some tbl'"
  shows "find_by server_key k tbl' =
    (if k = server_key s then Some (case find_by server_key k tbl of None \<Rightarrow> s\<lparr>srv_hidden_at := None\<rparr> | Some r \<Rightarrow> overwrite_listed s r)
     else find_by server_key k tbl)"
proof (cases "find_by server_key (server_key s) tbl")
  case None
  then have "tbl' = tbl @ [s\<lparr>srv_hidden_at := None\<rparr>]" using assms by (auto simp: upsert_server_def split: if_splits)
  then show ?thesis using None by (auto simp: find_by_append server_key_def split: option.splits)
next
  case (Some r)
  then have tbl': "tbl' = update_where (\<lambda>r. server_key r = server_key s) (overwrite_listed s) tbl" using assms by (simp add: upsert_server_def)
  have "find_by server_key k tbl' = map_option (\<lambda>r. if server_key r = server_key s then overwrite_listed s r else r) (find_by server_key k tbl)"
    unfolding tbl' by (rule find_by_update_where) simp
  then show ?thesis using Some find_by_SomeD [of server_key k tbl] by (cases "find_by server_key k tbl") auto
qed

lemma upsert_distinct:
  assumes "upsert_server s tbl = Some tbl'" and "distinct (map server_key tbl)"
  shows "distinct (map server_key tbl')"
proof (cases "find_by server_key (server_key s) tbl")
  case None
  then show ?thesis using assms by (auto simp: upsert_server_def find_by_None server_key_def split: if_splits)
next
  case (Some r)
  then have "tbl' = update_where (\<lambda>r. server_key r = server_key s) (overwrite_listed s) tbl" using assms(1) by (simp add: upsert_server_def)
  then show ?thesis using assms(2) by (simp add: map_update_where)
qed

lemma shown_upsert:
  assumes "upsert_server s tbl = Some tbl'"
  shows "shown c tbl' = (if srv_connection s = c then (shown c tbl)((srv_scope s, srv_external_id s) \<mapsto> shown_of s) else shown c tbl)"
proof -
  have "shown_of (s\<lparr>srv_hidden_at := None\<rparr>) = shown_of s" by (simp add: shown_of_def)
  moreover have "(c, scope, ext) = server_key s \<longleftrightarrow> srv_connection s = c \<and> (scope, ext) = (srv_scope s, srv_external_id s)" for scope ext
    by (auto simp: server_key_def)
  ultimately show ?thesis
    by (auto simp: shown_def find_upsert [OF assms] fun_eq_iff split: option.splits)
qed

lemma upsert_all_shown:
  assumes "upsert_all c ss tbl = Some tbl'"
  shows "shown c tbl' = fold (\<lambda>s m. m((srv_scope s, srv_external_id s) \<mapsto> shown_of s)) ss (shown c tbl) \<and>
    (d \<noteq> c \<longrightarrow> shown d tbl' = shown d tbl)"
  using assms
proof (induction ss arbitrary: tbl)
  case (Cons s ss)
  then obtain tbl1 where t: "srv_connection s = c" "upsert_server s tbl = Some tbl1" "upsert_all c ss tbl1 = Some tbl'"
    by (auto split: if_splits option.splits)
  then show ?case using Cons.IH [OF t(3)] shown_upsert [OF t(2), of c] shown_upsert [OF t(2), of d] by simp
qed simp

text \<open>Rows stay where they are, with their id and the time they were created.\<close>

lemma find_by_identity:
  assumes "upsert_all c ss tbl = Some tbl'" and "find_by server_key k tbl = Some r"
  shows "\<exists>r'. find_by server_key k tbl' = Some r' \<and> identity_of r' = identity_of r"
  using assms
proof (induction ss arbitrary: tbl r)
  case (Cons s ss)
  then obtain tbl1 where t: "upsert_server s tbl = Some tbl1" "upsert_all c ss tbl1 = Some tbl'"
    by (auto split: if_splits option.splits)
  obtain r1 where "find_by server_key k tbl1 = Some r1" "identity_of r1 = identity_of r"
    using find_upsert [OF t(1), of k] Cons.prems(2) by (auto split: if_splits)
  then show ?case using Cons.IH [OF t(2)] by fastforce
qed auto

lemma upsert_all_distinct:
  "upsert_all c ss tbl = Some tbl' \<Longrightarrow> distinct (map server_key tbl) \<Longrightarrow> distinct (map server_key tbl')"
  by (induction ss arbitrary: tbl) (auto split: if_splits option.splits intro: upsert_distinct)

lemma hide_find:
  "find_by server_key k (hide_servers c at tbl) = map_option (\<lambda>r. if srv_connection r = c \<and> srv_hidden_at r = None
     then r\<lparr>srv_hidden_at := Some at, srv_updated := at\<rparr> else r) (find_by server_key k tbl)"
  unfolding hide_servers_def by (rule find_by_update_where) (simp add: server_key_def)

lemma hide_shown: "shown d (hide_servers c at tbl) = (if d = c then Map.empty else shown d tbl)"
proof -
  have "srv_connection r = d" if "find_by server_key (d, scope, ext) tbl = Some r" for r scope ext
    using find_by_SomeD [OF that] by (simp add: server_key_def)
  then show ?thesis by (auto simp: shown_def hide_find fun_eq_iff split: option.splits)
qed

lemma hide_distinct: "distinct (map server_key (hide_servers c at tbl)) = distinct (map server_key tbl)"
  unfolding hide_servers_def by (subst map_update_where) (simp_all add: server_key_def)

lemma apply_completeD:
  assumes "apply_complete_sync fault c at ss w = (None, w')"
  shows "shown c (iw_servers w') = listing ss \<and> (d \<noteq> c \<longrightarrow> shown d (iw_servers w') = shown d (iw_servers w)) \<and>
    (find_by server_key k (iw_servers w) = Some r \<longrightarrow> (\<exists>r'. find_by server_key k (iw_servers w') = Some r' \<and> identity_of r' = identity_of r))"
proof -
  have u: "upsert_all c ss (hide_servers c at (iw_servers w)) = Some (iw_servers w')"
    using assms by (auto simp: apply_complete_sync_def split: option.splits if_splits)
  have "identity_of (r\<lparr>srv_hidden_at := Some at, srv_updated := at\<rparr>) = identity_of r" by (simp add: identity_of_def)
  then show ?thesis using upsert_all_shown [OF u] find_by_identity [OF u, of k] hide_find [of k c at "iw_servers w"]
    by (auto simp: hide_shown listing_def split: if_splits)
qed

section \<open>What the provider announces\<close>

text \<open>The servers of all pages in their order; \<open>None\<close> when a page fails or the pages do not end.\<close>

fun announced :: "sync_env \<Rightarrow> nat \<Rightarrow> nat \<Rightarrow> string option \<Rightarrow> remote_server list option" where
  "announced env 0 k cursor = None"
| "announced env (Suc n) k cursor =
     (case sy_list env k cursor of
        Inl e \<Rightarrow> None
      | Inr (rs, next) \<Rightarrow> (case next of None \<Rightarrow> Some rs | Some v \<Rightarrow> map_option (\<lambda>more. rs @ more) (announced env n (Suc k) (Some v))))"

definition shown_remote :: "sync_env \<Rightarrow> string \<Rightarrow> remote_server \<Rightarrow> shown_server" where
  "shown_remote env type r = \<lparr>sh_name = rs_name r, sh_state = rs_state r, sh_remote_state = rs_remote_state r, sh_spec = rs_spec r,
     sh_addresses = rs_addresses r, sh_capabilities = Some (capabilities_json (rs_capabilities r)),
     sh_portal = (case portal_of env type r of Inl _ \<Rightarrow> None | Inr p \<Rightarrow> p), sh_seen = sy_now env, sh_updated = sy_now env\<rparr>"

definition announced_inventory :: "sync_env \<Rightarrow> string \<Rightarrow> remote_server list \<Rightarrow> string \<times> string \<Rightarrow> shown_server option" where
  "announced_inventory env type rs = fold (\<lambda>r m. m((rs_scope r, rs_external_id r) \<mapsto> shown_remote env type r)) rs Map.empty"

definition made_of :: "sync_env \<Rightarrow> string \<Rightarrow> string \<Rightarrow> remote_server \<Rightarrow> server \<Rightarrow> bool" where
  "made_of env c type r s \<longleftrightarrow> srv_connection s = c \<and> srv_scope s = rs_scope r \<and> srv_external_id s = rs_external_id r \<and>
     shown_of s = shown_remote env type r \<and> srv_hidden_at s = None \<and> rs_external_id r \<noteq> []"

lemma normalize_made: "normalizeServer env c type k r = Inr s \<Longrightarrow> made_of env c type r s"
  by (auto simp: normalizeServer_def made_of_def shown_of_def shown_remote_def split: if_splits sum.splits)

lemma normalize_all_made: "normalize_all env c type k rs = Inr ss \<Longrightarrow> list_all2 (made_of env c type) rs ss"
  by (induction rs arbitrary: k ss) (auto split: sum.splits intro: normalize_made)

lemma list_pages_made:
  assumes "list_pages env c type n k cursor acc = Inr ss"
  shows "\<exists>rs more. announced env n k cursor = Some rs \<and> ss = acc @ more \<and> list_all2 (made_of env c type) rs more \<and>
    length ss \<le> maximumSyncServers"
  using assms
proof (induction n arbitrary: k cursor acc)
  case (Suc n)
  obtain rs following where l: "sy_list env k cursor = Inr (rs, following)" "length acc + length rs \<le> maximumSyncServers"
    using Suc.prems by (auto split: sum.splits prod.splits if_splits)
  obtain new where new: "normalize_all env c type (length acc) rs = Inr new"
    using Suc.prems l by (auto split: sum.splits)
  note made = normalize_all_made [OF new]
  show ?case
  proof (cases following)
    case None
    then show ?thesis using Suc.prems l new made list_all2_lengthD [OF made] by auto
  next
    case (Some v)
    then have "list_pages env c type n (Suc k) (Some v) (acc @ new) = Inr ss" using Suc.prems l new by simp
    from Suc.IH [OF this] obtain rs2 more where "announced env n (Suc k) (Some v) = Some rs2" "ss = (acc @ new) @ more"
        "list_all2 (made_of env c type) rs2 more" "length ss \<le> maximumSyncServers" by blast
    then show ?thesis using Some l made by (auto intro: list_all2_appendI)
  qed
qed simp

lemma listing_made: "list_all2 (made_of env c type) rs ss \<Longrightarrow> listing ss = announced_inventory env type rs"
proof -
  have "list_all2 (made_of env c type) rs ss \<Longrightarrow>
    fold (\<lambda>s m. m((srv_scope s, srv_external_id s) \<mapsto> shown_of s)) ss m =
    fold (\<lambda>r m. m((rs_scope r, rs_external_id r) \<mapsto> shown_remote env type r)) rs m" for m
    by (induction rs ss arbitrary: m rule: list_all2_induct) (simp_all add: made_of_def)
  then show "list_all2 (made_of env c type) rs ss \<Longrightarrow> ?thesis" by (simp add: listing_def announced_inventory_def)
qed

lemma record_failure_servers [simp]: "iw_servers (snd (record_failure env i e w)) = iw_servers w" "fst (record_failure env i e w) \<noteq> None"
  by (auto simp: record_failure_def Let_def split: prod.splits)

lemma sync_connection_cases:
  obtains (early) "\<exists>e. sync_connection env i w = (Some e, w)"
  | (failed) "\<exists>e. sync_connection env i w = record_failure env i e (sy_drift env w)"
  | (listed) c crd ss where "find_connection (sy_find_fault env) i (iw_connections w) = Inr (c, crd)" "cn_enabled c"
      "list_pages env i (cn_type c) maximumSyncPages 0 None [] = Inr ss"
      "sync_connection env i w = apply_complete_sync (sy_apply_fault env) i (sy_now env) ss (sy_drift env w)"
proof -
  have "(\<exists>e. sync_connection env i w = (Some e, w)) \<or> (\<exists>e. sync_connection env i w = record_failure env i e (sy_drift env w)) \<or>
    (\<exists>c crd ss. find_connection (sy_find_fault env) i (iw_connections w) = Inr (c, crd) \<and> cn_enabled c \<and>
      list_pages env i (cn_type c) maximumSyncPages 0 None [] = Inr ss \<and>
      sync_connection env i w = apply_complete_sync (sy_apply_fault env) i (sy_now env) ss (sy_drift env w))"
    unfolding sync_connection_def Let_def by (auto split: sum.splits prod.splits option.splits)
  then show ?thesis using early failed listed by blast
qed

text \<open>
  C4. A synchronisation shows exactly what the provider announced. When it succeeds, what is shown of the connection is the
  concatenation of the pages, the last entry of a scope and external id counting, and at most 10000
  servers; what is shown of other connections is as before, and a server known before keeps its id and the
  time it was created. When it fails, in whatever way, not one server row has changed: a listing that
  breaks off hides nothing.
\<close>

theorem sync_shows_announced_servers:
  assumes "sync_connection env i w = (result, w')"
  shows "(result = None \<longrightarrow>
      (\<exists>c crd rs. find_connection (sy_find_fault env) i (iw_connections w) = Inr (c, crd) \<and> cn_enabled c \<and>
         announced env maximumSyncPages 0 None = Some rs \<and> length rs \<le> 10000 \<and>
         shown i (iw_servers w') = announced_inventory env (cn_type c) rs) \<and>
      (d \<noteq> i \<longrightarrow> shown d (iw_servers w') = shown d (iw_servers (sy_drift env w))) \<and>
      (find_by server_key k (iw_servers (sy_drift env w)) = Some r \<longrightarrow>
         (\<exists>r'. find_by server_key k (iw_servers w') = Some r' \<and> srv_id r' = srv_id r \<and> srv_created r' = srv_created r))) \<and>
    (result \<noteq> None \<longrightarrow> iw_servers w' \<in> {iw_servers w, iw_servers (sy_drift env w)})"
proof (cases rule: sync_connection_cases [of env i w])
  case early
  then show ?thesis using assms by auto
next
  case failed
  then obtain e where "record_failure env i e (sy_drift env w) = (result, w')" using assms by auto
  then have "result \<noteq> None" "iw_servers w' = iw_servers (sy_drift env w)" using record_failure_servers [of env i e "sy_drift env w"] by simp_all
  then show ?thesis by auto
next
  case (listed c crd ss)
  obtain rs where rs: "announced env maximumSyncPages 0 None = Some rs" "list_all2 (made_of env i (cn_type c)) rs ss" "length ss \<le> maximumSyncServers"
    using list_pages_made [OF listed(3)] by auto
  have a: "apply_complete_sync (sy_apply_fault env) i (sy_now env) ss (sy_drift env w) = (result, w')" using assms listed(4) by simp
  show ?thesis
  proof (cases result)
    case None
    note applied = apply_completeD [OF a [unfolded None], of d k r]
    have "length rs \<le> 10000" using rs(3) list_all2_lengthD [OF rs(2)] by (simp add: maximumSyncServers_def)
    then show ?thesis using None applied listed(1,2) rs(1) listing_made [OF rs(2)] by (auto simp: identity_of_def)
  next
    case (Some e)
    then have "w' = sy_drift env w" using a by (auto simp: apply_complete_sync_def split: option.splits if_splits)
    then show ?thesis using Some by simp
  qed
qed

definition lab_remote :: remote_server where
  "lab_remote = \<lparr>rs_external_id = ''i-1'', rs_scope = [], rs_name = ''web'', rs_state = StateStopped, rs_remote_state = ''off'', rs_spec = JObj [],
     rs_addresses = JArr [], rs_capabilities = \<lparr>can_start = no_capability, can_stop = no_capability, can_reboot = no_capability,
       can_embed_console = no_capability, can_open_console_window = no_capability, has_provider_portal = no_capability\<rparr>\<rparr>"

definition sample_sync_env :: sync_env where
  "sample_sync_env = \<lparr>sy_find_fault = False, sy_apply_fault = False, sy_health_fault = False, sy_now = 7, sy_failed_at = 8, sy_id = (\<lambda>k. [char_of (65 + k)]),
     sy_decrypt = (\<lambda>i t crd. Some (JStr (crd_ciphertext crd))), sy_registry = (\<lambda>_. None), sy_validate = None,
     sy_list = (\<lambda>k cursor. if k = 0 then Inr ([lab_remote], None) else Inl (Plain ''no such page'')), sy_portal = (\<lambda>_. Inr None), sy_url_text = u_host,
     sy_drift = id\<rparr>"

definition lab_world :: sync_world where
  "lab_world = \<lparr>iw_connections = vw_connections sample_created, iw_servers = []\<rparr>"

lemma sample_pages: "\<exists>s. list_pages sample_sync_env ''c1'' ''mock'' maximumSyncPages 0 None [] = Inr [s] \<and> made_of sample_sync_env ''c1'' ''mock'' lab_remote s \<and>
    srv_id s = ''A''"
proof -
  have pages: "maximumSyncPages = Suc 999" by (simp add: maximumSyncPages_def)
  obtain s where s: "normalizeServer sample_sync_env ''c1'' ''mock'' 0 lab_remote = Inr s" "srv_id s = ''A''"
    by (simp add: normalizeServer_def portal_of_def lab_remote_def no_capability_def sample_sync_env_def char_of_eq_iff)
  have "sy_list sample_sync_env 0 None = Inr ([lab_remote], None)" by (simp add: sample_sync_env_def)
  then have "list_pages sample_sync_env ''c1'' ''mock'' maximumSyncPages 0 None [] = Inr [s]"
    unfolding pages list_pages.simps using s(1) by (simp add: maximumSyncServers_def)
  then show ?thesis using s normalize_made by blast
qed

lemma sample_sync: "\<exists>w'. sync_connection sample_sync_env ''c1'' lab_world = (None, w') \<and> iw_servers w' \<noteq> []"
proof -
  obtain s where s: "list_pages sample_sync_env ''c1'' ''mock'' maximumSyncPages 0 None [] = Inr [s]" "made_of sample_sync_env ''c1'' ''mock'' lab_remote s" "srv_id s = ''A''"
    using sample_pages by blast
  have found: "find_connection False ''c1'' (iw_connections lab_world) = Inr (sample_connection, \<lparr>crd_ciphertext = ''key'', crd_nonce = ''c1'', crd_version = 1\<rparr>)"
    by (simp add: find_connection_def lab_world_def sample_created_def active_row_def sample_connection_def)
  have "upsert_all ''c1'' [s] (hide_servers ''c1'' 7 []) = Some [s\<lparr>srv_hidden_at := None\<rparr>]"
    using s by (simp add: made_of_def upsert_server_def hide_servers_def)
  then have "apply_complete_sync False ''c1'' 7 [s] lab_world = (None, \<lparr>iw_connections = update_where (active_row ''c1'') (mark_synced 7) (iw_connections lab_world),
      iw_servers = [s\<lparr>srv_hidden_at := None\<rparr>]\<rparr>)"
    by (simp add: apply_complete_sync_def lab_world_def sample_created_def active_row_def sample_connection_def affected_def)
  moreover have "sync_connection sample_sync_env ''c1'' lab_world = apply_complete_sync False ''c1'' 7 [s] lab_world"
  proof -
    have "sy_find_fault sample_sync_env = False" "sy_drift sample_sync_env = id" "sy_now sample_sync_env = 7" "sy_apply_fault sample_sync_env = False"
        "sy_registry sample_sync_env = (\<lambda>_. None)" "sy_validate sample_sync_env = None"
        "sy_decrypt sample_sync_env = (\<lambda>i t crd. Some (JStr (crd_ciphertext crd)))"
        "cn_type sample_connection = ''mock''" "cn_enabled sample_connection"
      by (simp_all add: sample_sync_env_def sample_connection_def)
    then show ?thesis using found s(1) by (simp add: sync_connection_def Let_def)
  qed
  ultimately show ?thesis by simp
qed

theorem sync_shows_announced_servers_witness:
  "\<exists>w' c crd rs. sync_connection sample_sync_env ''c1'' lab_world = (None, w') \<and>
     find_connection False ''c1'' (iw_connections lab_world) = Inr (c, crd) \<and> announced sample_sync_env maximumSyncPages 0 None = Some rs \<and>
     shown ''c1'' (iw_servers w') = announced_inventory sample_sync_env (cn_type c) rs \<and> iw_servers w' \<noteq> []"
proof -
  obtain w' where w': "sync_connection sample_sync_env ''c1'' lab_world = (None, w')" "iw_servers w' \<noteq> []" using sample_sync by blast
  have "sy_find_fault sample_sync_env = False" by (simp add: sample_sync_env_def)
  then show ?thesis using sync_shows_announced_servers [OF w'(1)] w' by fastforce
qed

section \<open>Syncs and power operations\<close>

text \<open>
  C25. A synchronisation turns back newer states. The time of a synchronisation is taken before the provider is asked. When an
  operation stores a newer state of a server in the meantime, a synchronisation that then succeeds overwrites it with
  what it had listed, and the row's times of the last update and the last contact go back.
\<close>

theorem sync_turns_back_newer_state:
  assumes "sync_connection env i w = (None, w')" and "find_by server_key (i, scope, ext) (iw_servers (sy_drift env w)) = Some r"
    and "sy_now env < srv_updated r" and "announced env maximumSyncPages 0 None = Some (rs @ [remote])"
    and "rs_scope remote = scope" and "rs_external_id remote = ext"
  shows "\<exists>r'. find_by server_key (i, scope, ext) (iw_servers w') = Some r' \<and> srv_id r' = srv_id r \<and> srv_hidden_at r' = None \<and>
    srv_state r' = rs_state remote \<and> srv_updated r' < srv_updated r \<and> srv_last_seen r' = sy_now env"
proof (cases rule: sync_connection_cases [of env i w])
  case (listed c crd ss)
  obtain more where "announced env maximumSyncPages 0 None = Some more" "list_all2 (made_of env i (cn_type c)) more ss"
    using list_pages_made [OF listed(3)] by auto
  then have ss: "listing ss = announced_inventory env (cn_type c) (rs @ [remote])" using assms(4) listing_made by auto
  have "apply_complete_sync (sy_apply_fault env) i (sy_now env) ss (sy_drift env w) = (None, w')" using assms(1) listed(4) by simp
  note applied = apply_completeD [OF this, of i "(i, scope, ext)" r]
  have "shown i (iw_servers w') (scope, ext) = Some (shown_remote env (cn_type c) remote)"
    using applied ss assms(5,6) by (simp add: announced_inventory_def)
  then obtain r' where r': "find_by server_key (i, scope, ext) (iw_servers w') = Some r'" "srv_hidden_at r' = None"
      "shown_of r' = shown_remote env (cn_type c) remote" by (auto simp: shown_def split: option.splits if_splits)
  moreover have "srv_id r' = srv_id r" using applied assms(2) r'(1) by (auto simp: identity_of_def)
  ultimately show ?thesis using assms(3) by (simp add: shown_of_def shown_remote_def)
next
  case early
  then show ?thesis using assms(1) by auto
next
  case failed
  then show ?thesis using assms(1) record_failure_servers(2) by (metis fst_conv)
qed

text \<open>A power operation refreshes its server at time 9, between the time 7 of a synchronisation and its end.\<close>

definition race_env :: sync_env where
  "race_env = sample_sync_env\<lparr>sy_drift := (\<lambda>w. w\<lparr>iw_servers :=
     snd (update_remote False ''s1'' (lab_remote\<lparr>rs_state := StateRunning\<rparr>) 9 (iw_servers w))\<rparr>)\<rparr>"

definition lab_row :: server where
  "lab_row = \<lparr>srv_id = ''s1'', srv_connection = ''c1'', srv_external_id = ''i-1'', srv_scope = [], srv_name = ''web'', srv_state = StateStopped,
     srv_remote_state = ''off'', srv_spec = JObj [], srv_addresses = JArr [], srv_capabilities = None, srv_portal_url = None,
     srv_last_seen = 3, srv_last_checked = 3, srv_hidden_at = None, srv_created = 3, srv_updated = 3\<rparr>"

definition race_world :: sync_world where
  "race_world = lab_world\<lparr>iw_servers := [lab_row]\<rparr>"

lemma normalize_drift: "normalizeServer (env\<lparr>sy_drift := d\<rparr>) c type k r = normalizeServer env c type k r"
  by (simp add: normalizeServer_def portal_of_def cong: sum.case_cong)

lemma normalize_all_drift: "normalize_all (env\<lparr>sy_drift := d\<rparr>) c type k rs = normalize_all env c type k rs"
  by (induction rs arbitrary: k) (simp_all only: normalize_all.simps normalize_drift)

lemma list_pages_drift: "list_pages (env\<lparr>sy_drift := d\<rparr>) c type n k cursor acc = list_pages env c type n k cursor acc"
proof (induction n arbitrary: k cursor acc)
  case (Suc n)
  then show ?case by (simp add: normalize_all_drift split: sum.splits option.splits)
qed simp

lemma race_sync: "\<exists>w'. sync_connection race_env ''c1'' race_world = (None, w')"
proof -
  obtain s where s: "list_pages race_env ''c1'' ''mock'' maximumSyncPages 0 None [] = Inr [s]" "made_of sample_sync_env ''c1'' ''mock'' lab_remote s" "srv_id s = ''A''"
    using sample_pages by (auto simp: race_env_def list_pages_drift)
  define w1 where "w1 = sy_drift race_env race_world"
  have w1: "iw_connections w1 = vw_connections sample_created" "iw_servers w1 \<noteq> []" "map server_key (iw_servers w1) = [(''c1'', [], ''i-1'')]"
    by (simp_all add: w1_def race_env_def race_world_def lab_world_def update_remote_def update_where_def lab_row_def visible_row_def overwrite_remote_def server_key_def)
  then obtain r where r: "iw_servers w1 = [r]" "server_key r = (''c1'', [], ''i-1'')" by (cases "iw_servers w1") auto
  then have "find_by server_key (''c1'', [], ''i-1'') (hide_servers ''c1'' 7 (iw_servers w1)) \<noteq> None" by (simp add: hide_find)
  then obtain tbl where "upsert_all ''c1'' [s] (hide_servers ''c1'' 7 (iw_servers w1)) = Some tbl"
    using s(2,3) by (auto simp: made_of_def upsert_server_def server_key_def lab_remote_def)
  moreover have "affected (active_row ''c1'') (vw_connections sample_created) = 1"
    by (simp add: sample_created_def active_row_def sample_connection_def affected_def)
  ultimately have "\<exists>w'. apply_complete_sync False ''c1'' 7 [s] w1 = (None, w')"
    using w1(1) by (simp add: apply_complete_sync_def del: upsert_all.simps)
  moreover have "sync_connection race_env ''c1'' race_world = apply_complete_sync False ''c1'' 7 [s] w1"
  proof -
    have "find_connection False ''c1'' (iw_connections race_world) = Inr (sample_connection, \<lparr>crd_ciphertext = ''key'', crd_nonce = ''c1'', crd_version = 1\<rparr>)"
      by (simp add: find_connection_def race_world_def lab_world_def sample_created_def active_row_def sample_connection_def)
    moreover have "sy_find_fault race_env = False" "sy_now race_env = 7" "sy_apply_fault race_env = False"
        "sy_registry race_env = (\<lambda>_. None)" "sy_validate race_env = None" "sy_decrypt race_env = (\<lambda>i t crd. Some (JStr (crd_ciphertext crd)))"
        "cn_type sample_connection = ''mock''" "cn_enabled sample_connection"
      by (simp_all add: race_env_def sample_sync_env_def sample_connection_def)
    ultimately show ?thesis using s(1) by (simp add: sync_connection_def Let_def w1_def)
  qed
  ultimately show ?thesis by simp
qed

theorem sync_turns_back_newer_state_witness:
  "\<exists>w' r r'. sync_connection race_env ''c1'' race_world = (None, w') \<and>
     find_by server_key (''c1'', [], ''i-1'') (iw_servers (sy_drift race_env race_world)) = Some r \<and> srv_state r = StateRunning \<and>
     find_by server_key (''c1'', [], ''i-1'') (iw_servers w') = Some r' \<and> srv_state r' = StateStopped \<and> srv_updated r' < srv_updated r"
proof -
  obtain w' where w': "sync_connection race_env ''c1'' race_world = (None, w')" using race_sync by blast
  define r where "r = overwrite_remote (lab_remote\<lparr>rs_state := StateRunning\<rparr>) 9 lab_row"
  have r: "find_by server_key (''c1'', [], ''i-1'') (iw_servers (sy_drift race_env race_world)) = Some r"
    by (simp add: r_def race_env_def race_world_def update_remote_def update_where_def lab_row_def visible_row_def overwrite_remote_def server_key_def find_by_def)
  have now: "sy_now race_env < srv_updated r" "srv_state r = StateRunning"
    by (simp_all add: race_env_def sample_sync_env_def r_def overwrite_remote_def)
  have pages: "maximumSyncPages = Suc 999" by (simp add: maximumSyncPages_def)
  have "sy_list race_env 0 None = Inr ([lab_remote], None)" by (simp add: race_env_def sample_sync_env_def)
  then have "announced race_env maximumSyncPages 0 None = Some ([] @ [lab_remote])" unfolding pages announced.simps by simp
  from sync_turns_back_newer_state [OF w' r now(1) this] show ?thesis using w' r now(2) by (auto simp: lab_remote_def)
qed

section \<open>HTTP\<close>

fun state_text :: "server_state \<Rightarrow> string" where
  "state_text StatePending = ''pending''"
| "state_text StateRunning = ''running''"
| "state_text StateStopping = ''stopping''"
| "state_text StateStopped = ''stopped''"
| "state_text StateRebooting = ''rebooting''"
| "state_text StateSuspended = ''suspended''"
| "state_text StateError = ''error''"
| "state_text StateUnknown = ''unknown''"

definition validState :: "string \<Rightarrow> server_state option" where
  "validState s = List.find (\<lambda>x. state_text x = s)
     [StatePending, StateRunning, StateStopping, StateStopped, StateRebooting, StateSuspended, StateError, StateUnknown]"

text \<open>
  \<^verbatim>\<open>json.Marshal\<close> of a server: \<open>None\<close> when the capabilities column does not hold JSON, for then the encoder fails and, the status
  already written, the body stays empty. A response with no body is \<open>None\<close> in the second place.
\<close>

definition server_json :: "server \<Rightarrow> json option" where
  "server_json s = map_option (\<lambda>caps. JObj
     ([(''id'', JStr (srv_id s)), (''connection_id'', JStr (srv_connection s)), (''external_id'', JStr (srv_external_id s)),
       (''scope'', JStr (srv_scope s)), (''name'', JStr (srv_name s)), (''state'', JStr (state_text (srv_state s))),
       (''remote_state'', JStr (srv_remote_state s)), (''spec'', srv_spec s), (''addresses'', srv_addresses s), (''capabilities'', caps)] @
      (case srv_portal_url s of None \<Rightarrow> [] | Some u \<Rightarrow> [(''portal_url'', JStr u)]) @
      [(''last_seen_at'', time_json (srv_last_seen s)), (''last_state_checked_at'', time_json (srv_last_checked s)),
       (''created_at'', time_json (srv_created s)), (''updated_at'', time_json (srv_updated s))])) (srv_capabilities s)"

definition whole_answer :: "http_response \<Rightarrow> nat \<times> json option" where
  "whole_answer r = (hr_status r, Some (hr_body r))"

record list_query =
  lq_connection :: string
  lq_type :: string
  lq_state :: string
  lq_text :: string

definition list_servers_route :: "string \<Rightarrow> bool \<Rightarrow> (string \<Rightarrow> string \<Rightarrow> bool) \<Rightarrow> list_query \<Rightarrow> sync_world \<Rightarrow> nat \<times> json option" where
  "list_servers_route i fault like q w =
     (let st = go_trim (lq_state q)
      in if st \<noteq> [] \<and> validState st = None then whole_answer (write_error i 400 ''invalid_filter'' ''Server state filter is invalid'')
         else (case list_servers fault like \<lparr>sf_connection = go_trim (lq_connection q), sf_type = go_trim (lq_type q),
                 sf_state = (if st = [] then None else validState st), sf_query = go_trim (lq_text q)\<rparr> w of
                 Inl _ \<Rightarrow> whole_answer (write_error i 500 ''internal_error'' ''Unable to list servers'')
               | Inr servers \<Rightarrow> (200, map_option (\<lambda>vs. JObj [(''servers'', JArr vs), (''total'', JNum (int (length servers)))])
                   (those (map server_json servers)))))"

fun find_server_error :: "string \<Rightarrow> inventory_error \<Rightarrow> http_response" where
  "find_server_error i ErrServerNotFound = write_error i 404 ''server_not_found'' ''Server was not found''"
| "find_server_error i ErrInventoryDatabase = write_error i 500 ''internal_error'' ''Unable to load server''"

definition get_server_route :: "string \<Rightarrow> bool \<Rightarrow> string \<Rightarrow> sync_world \<Rightarrow> nat \<times> json option" where
  "get_server_route i fault target w =
     (case find_server fault (live_connection (iw_connections w)) target (iw_servers w) of
        Inl e \<Rightarrow> whole_answer (find_server_error i e)
      | Inr s \<Rightarrow> (200, map_option (\<lambda>v. JObj [(''server'', v)]) (server_json s)))"

text \<open>The refresh of a server asks for a synchronisation of its whole connection.\<close>

definition refresh_server_route :: "string \<Rightarrow> bool \<Rightarrow> connection_env \<Rightarrow> string \<Rightarrow> server_table \<Rightarrow> connection_world \<Rightarrow> http_response \<times> connection_world" where
  "refresh_server_route i fault env target servers w =
     (case find_server fault (live_connection (vw_connections w)) target servers of
        Inl e \<Rightarrow> (find_server_error i e, w)
      | Inr s \<Rightarrow>
          (case request_sync env (srv_connection s) w of
             (Inl _, w') \<Rightarrow> (write_error i 500 ''sync_failed'' ''Unable to queue server refresh'', w')
           | (Inr _, w') \<Rightarrow> (queued_answer, w')))"

section \<open>From the request to the job\<close>

lemma dispatch_sync:
  assumes "job_kind j = KindSyncConnection" and "payload j = Some (JObj [(''connection_id'', JStr i)])" and "i \<noteq> []"
  shows "dispatch sync env j (tbl, x) = (fst (sync i x), (tbl, snd (sync i x)))"
  using assms by (simp add: dispatch_def Let_def split: prod.split)

lemma queue_sync_result:
  assumes "queue_sync env i w = (r, w')"
  shows "(case r of Inl _ \<Rightarrow> w' = w
    | Inr _ \<Rightarrow> i \<noteq> [] \<and> w' = w\<lparr>vw_jobs := vw_jobs w @
        [new_job (nv_queue env) (nv_job_id env) KindSyncConnection (JObj [(''connection_id'', JStr i)]) (nv_job_now env)]\<rparr>)"
  using assms by (auto simp: queue_sync_def enqueue_connection_sync_def enqueue_def new_job_def Let_def split: if_splits sum.splits prod.splits)

text \<open>
  C15. A refresh ends in one synchronisation. The answer is 202, 404 or 500. With 202 the server is shown, its connection exists and
  is enabled, and one job has been queued, due now, which, whenever a worker gets it, calls the
  synchronisation of that connection exactly once and nothing else. With any other answer nothing has changed;
  a server whose connection is disabled answers 500.
\<close>

theorem refresh_queues_one_sync:
  assumes "refresh_server_route i fault env target servers w = (r, w')"
  shows "(hr_status r = 202 \<longrightarrow>
      (\<exists>s c crd j. find_server fault (live_connection (vw_connections w)) target servers = Inr s \<and>
         find_connection (nv_find_fault env) (srv_connection s) (vw_connections w) = Inr (c, crd) \<and> cn_enabled c \<and>
         w' = w\<lparr>vw_jobs := vw_jobs w @ [j]\<rparr> \<and> job_status j = JobQueued \<and> available_at j = nv_job_now env \<and>
         (\<forall>sync xenv leased tbl x. job_kind leased = job_kind j \<and> payload leased = payload j \<longrightarrow>
            dispatch sync xenv leased (tbl, x) = (fst (sync (srv_connection s) x), (tbl, snd (sync (srv_connection s) x)))))) \<and>
    (hr_status r \<noteq> 202 \<longrightarrow> w' = w \<and> hr_status r \<in> {404, 500}) \<and>
    (find_server fault (live_connection (vw_connections w)) target servers = Inr s \<and>
       find_connection (nv_find_fault env) (srv_connection s) (vw_connections w) = Inr (c, crd) \<and> \<not> cn_enabled c \<longrightarrow> hr_status r = 500)"
proof (cases "find_server fault (live_connection (vw_connections w)) target servers")
  case (Inl e)
  then show ?thesis using assms by (cases e) (auto simp: refresh_server_route_def write_error_def)
next
  case (Inr found)
  show ?thesis
  proof (cases "find_connection (nv_find_fault env) (srv_connection found) (vw_connections w)")
    case (Inl e)
    then show ?thesis using Inr assms by (auto simp: refresh_server_route_def request_sync_def write_error_def)
  next
    case conn: (Inr p)
    obtain c' crd' where p: "p = (c', crd')" by (cases p)
    obtain q w2 where q: "queue_sync env (srv_connection found) w = (q, w2)" by fastforce
    note queued = queue_sync_result [OF q]
    show ?thesis
    proof (cases "cn_enabled c' \<and> (\<exists>u. q = Inr u)")
      case True
      then have "r = queued_answer" "w' = w2" using Inr conn p q assms by (auto simp: refresh_server_route_def request_sync_def)
      then show ?thesis using True queued Inr conn p by (auto simp: queued_answer_def new_job_def intro!: dispatch_sync)
    next
      case False
      then have "r = write_error i 500 ''sync_failed'' ''Unable to queue server refresh'' \<and> w' = w"
        using Inr conn p q queued assms by (cases q) (auto simp: refresh_server_route_def request_sync_def split: if_splits)
      then show ?thesis by (simp add: write_error_def)
    qed
  qed
qed

theorem refresh_queues_one_sync_witness:
  "\<exists>w'. refresh_server_route ''r'' False (sample_connection_env\<lparr>nv_job_id := ''j2''\<rparr>) ''s1'' [lab_row] sample_created = (queued_answer, w') \<and>
     length (vw_jobs w') = 2"
proof -
  let ?env = "sample_connection_env\<lparr>nv_job_id := ''j2''\<rparr>"
  obtain r w' where w': "refresh_server_route ''r'' False ?env ''s1'' [lab_row] sample_created = (r, w')" by fastforce
  have r: "r = queued_answer" using w'
    by (auto simp: refresh_server_route_def find_server_def lab_row_def live_connection_def sample_created_def active_row_def sample_connection_def
        request_sync_def find_connection_def sample_connection_env_def queue_sync_def enqueue_connection_sync_def enqueue_def new_job_def)
  then have "hr_status r = 202" by (simp add: queued_answer_def)
  then obtain j where "w' = sample_created\<lparr>vw_jobs := vw_jobs sample_created @ [j]\<rparr>" using refresh_queues_one_sync [OF w'] by blast
  then have "length (vw_jobs w') = 2" by (simp add: sample_created_def)
  then show ?thesis using w' r by blast
qed

end
