(* ===== verification/WireTypes.thy ===== *)
theory WireTypes imports ConsoleSessions InventorySync begin

text \<open>
  The types the web client gives to the answers of the server, \<^verbatim>\<open>web/src/*/types.ts\<close>, as predicates of JSON values, and that the
  documents the backend writes have them. An object type allows more members than it names; an optional
  member may be missing but, when it is there, has the type, so that \<^verbatim>\<open>null\<close> is not a string.
\<close>

section \<open>Types\<close>

datatype ts_type = TsString | TsNumber | TsBoolean | TsNull | TsLiteral string | TsUnion "ts_type list"
  | TsArray ts_type | TsRecord | TsObject "(string \<times> bool \<times> ts_type) list"

text \<open>The flag of a member says that it is optional. \<open>TsRecord\<close> is an object with any members.\<close>

fun conforms :: "ts_type \<Rightarrow> json \<Rightarrow> bool"
  and conforms_some :: "ts_type list \<Rightarrow> json \<Rightarrow> bool"
  and members_conform :: "(string \<times> bool \<times> ts_type) list \<Rightarrow> (string \<times> json) list \<Rightarrow> bool" where
  "conforms TsString v = (case v of JStr _ \<Rightarrow> True | _ \<Rightarrow> False)"
| "conforms TsNumber v = (case v of JNum _ \<Rightarrow> True | _ \<Rightarrow> False)"
| "conforms TsBoolean v = (case v of JBool _ \<Rightarrow> True | _ \<Rightarrow> False)"
| "conforms TsNull v = (v = JNull)"
| "conforms (TsLiteral s) v = (v = JStr s)"
| "conforms (TsUnion ts) v = conforms_some ts v"
| "conforms (TsArray t) v = (case v of JArr vs \<Rightarrow> list_all (conforms t) vs | _ \<Rightarrow> False)"
| "conforms TsRecord v = (case v of JObj _ \<Rightarrow> True | _ \<Rightarrow> False)"
| "conforms (TsObject ms) v = (case v of JObj vs \<Rightarrow> members_conform ms vs | _ \<Rightarrow> False)"
| "conforms_some [] v = False"
| "conforms_some (t # ts) v = (conforms t v \<or> conforms_some ts v)"
| "members_conform [] vs = True"
| "members_conform ((name, optional, t) # ms) vs =
     ((case map_of (rev vs) name of None \<Rightarrow> optional | Some v \<Rightarrow> conforms t v) \<and> members_conform ms vs)"

definition nullable_string :: ts_type where
  "nullable_string = TsUnion [TsString, TsNull]"

definition power_action_type :: ts_type where
  "power_action_type = TsUnion [TsLiteral ''start'', TsLiteral ''stop'', TsLiteral ''reboot'']"

definition operation_status_type :: ts_type where
  "operation_status_type = TsUnion [TsLiteral ''queued'', TsLiteral ''running'', TsLiteral ''verifying'', TsLiteral ''succeeded'',
     TsLiteral ''failed'', TsLiteral ''timed_out'', TsLiteral ''cancelled'']"

definition operation_type :: ts_type where
  "operation_type = TsObject
     [(''id'', False, TsString), (''server_id'', False, TsString), (''connection_id'', False, TsString),
      (''action'', False, power_action_type), (''status'', False, operation_status_type),
      (''provider_request_id'', True, TsString), (''error_code'', True, TsString), (''error_message'', True, TsString),
      (''queued_at'', False, TsString), (''started_at'', False, nullable_string), (''finished_at'', False, nullable_string),
      (''updated_at'', False, TsString)]"

definition provider_connection_type :: ts_type where
  "provider_connection_type = TsObject
     [(''id'', False, TsString), (''name'', False, TsString), (''provider_type'', False, TsString), (''endpoint'', False, TsString),
      (''settings'', False, TsRecord), (''enabled'', False, TsBoolean),
      (''health_status'', False, TsUnion [TsLiteral ''unknown'', TsLiteral ''healthy'', TsLiteral ''degraded'', TsLiteral ''offline'']),
      (''last_tested_at'', False, nullable_string), (''last_synced_at'', False, nullable_string),
      (''last_error_code'', True, TsString), (''last_error_message'', True, TsString),
      (''created_at'', False, TsString), (''updated_at'', False, TsString)]"

definition console_session_type :: ts_type where
  "console_session_type = TsObject
     [(''session_id'', False, TsString), (''ticket'', False, TsString), (''expires_at'', False, TsString),
      (''protocol'', True, TsUnion [TsLiteral ''terminal'', TsLiteral ''rfb'']),
      (''credentials'', True, TsObject [(''password'', True, TsString)])]"

definition capability_type :: ts_type where
  "capability_type = TsObject [(''available'', True, TsBoolean), (''reason'', True, TsString)]"

definition server_capabilities_type :: ts_type where
  "server_capabilities_type = TsObject
     [(''can_start'', True, capability_type), (''can_stop'', True, capability_type), (''can_reboot'', True, capability_type),
      (''can_embed_console'', True, capability_type), (''can_open_console_window'', True, capability_type),
      (''has_provider_portal'', True, capability_type)]"

definition spec_type :: ts_type where
  "spec_type = TsObject [(''cpu'', True, TsNumber), (''memory_mb'', True, TsNumber)]"

definition addresses_type :: ts_type where
  "addresses_type = TsArray (TsObject [(''type'', True, TsString), (''address'', False, TsString)])"

definition server_type :: ts_type where
  "server_type = TsObject
     [(''id'', False, TsString), (''connection_id'', False, TsString), (''external_id'', False, TsString), (''scope'', False, TsString),
      (''name'', False, TsString), (''state'', False, TsString), (''remote_state'', False, TsString), (''spec'', False, spec_type),
      (''addresses'', False, addresses_type), (''capabilities'', False, server_capabilities_type), (''portal_url'', True, TsString),
      (''last_seen_at'', False, TsString), (''last_state_checked_at'', False, TsString), (''created_at'', False, TsString),
      (''updated_at'', False, TsString)]"

section \<open>Documents of the backend\<close>

lemma nullable_time [simp]: "conforms nullable_string (optional_time_json t)"
  by (simp add: nullable_string_def optional_time_json_def time_json_def split: option.split)

lemma op_status_conforms [simp]: "conforms operation_status_type (JStr (op_status_text st))"
  by (cases st) (simp_all add: operation_status_type_def)

lemma operation_conforms: "conforms operation_type (operation_json op) = conforms power_action_type (JStr (action_text (op_action op)))"
  unfolding operation_type_def operation_json_def omit_empty_def time_json_def
  by (cases "op_request_id op = []"; cases "op_error_code op = []"; cases "op_error_message op = []") simp_all

lemma health_conforms [simp]: "connection_health_text h \<in> {''unknown'', ''healthy'', ''degraded'', ''offline''}"
  by (cases h) simp_all

lemma connection_conforms: "conforms provider_connection_type (connection_body c) = conforms TsRecord (cn_settings c)"
  unfolding provider_connection_type_def connection_body_def omit_empty_def time_json_def
  using health_conforms [of "cn_health c"] by (cases "cn_error_code c = []"; cases "cn_error_message c = []") simp_all

lemma ticket_conforms: "conforms console_session_type (session_ticket_json t) = (st_protocol t \<in> {''terminal'', ''rfb''})"
  by (cases "st_password t") (simp_all add: console_session_type_def session_ticket_json_def time_json_def)

lemma capability_conforms: "conforms capability_type (capability_json c)"
  by (simp add: capability_type_def capability_json_def)

lemma capabilities_conform: "conforms server_capabilities_type (capabilities_json c)"
  by (simp add: server_capabilities_type_def capabilities_json_def capability_conforms)

lemma server_conforms:
  assumes "srv_capabilities s = Some caps"
  shows "\<exists>v. server_json s = Some v \<and> conforms server_type v =
    (conforms spec_type (srv_spec s) \<and> conforms addresses_type (srv_addresses s) \<and> conforms server_capabilities_type caps)"
  using assms by (cases "srv_portal_url s") (simp_all add: server_type_def server_json_def time_json_def)

section \<open>What the tables hold\<close>

text \<open>The operation tables that requests and transitions lead to.\<close>

inductive op_history :: "op_table \<Rightarrow> bool" where
  no_history: "op_history []"
| requested: "op_history (ow_ops w) \<Longrightarrow> request_power env q servers w = (res, w') \<Longrightarrow> op_history (ow_ops w')"
| transitioned: "op_history tbl \<Longrightarrow> transition fault now i n ch tbl = (r, tbl') \<Longrightarrow> op_history tbl'"

definition actions_valid :: "op_table \<Rightarrow> bool" where
  "actions_valid tbl \<longleftrightarrow> (\<forall>r \<in> set tbl. valid_action (op_action (row_op r)))"

lemma transition_actions:
  assumes "actions_valid tbl"
  shows "actions_valid (snd (transition fault now i n ch tbl))"
proof (cases "find_by row_id i tbl")
  case None
  then show ?thesis using assms by (simp add: transition_def)
next
  case (Some r)
  then have "valid_action (op_action (row_op r))" using assms find_by_SomeD [OF Some] by (simp add: actions_valid_def)
  then have "valid_action (op_action (apply_change now n ch (row_op r)))" by (simp add: apply_change_def Let_def)
  then have "actions_valid (update_where hit (\<lambda>_. \<lparr>row_op = apply_change now n ch (row_op r), active_marker = b\<rparr>) tbl)" for hit b
    using assms by (auto simp: actions_valid_def set_update_where)
  then show ?thesis using Some assms by (simp add: transition_def Let_def)
qed

lemma create_actions:
  assumes "create_queued fault fk op tbl = (res, tbl')" and "actions_valid tbl" and "valid_action (op_action op)"
  shows "actions_valid tbl'"
  using assms by (auto simp: create_queued_def actions_valid_def Let_def split: option.splits if_splits)

lemma start_actions:
  assumes "actions_valid (ow_ops w)"
  shows "actions_valid (ow_ops (snd (start_operation env q op w)))"
  using assms transition_actions
  by (auto simp: start_operation_def mark_failed_def publish_operation_def Let_def split: sum.splits prod.splits bool.splits)

lemma request_actions:
  assumes "actions_valid (ow_ops w)"
  shows "actions_valid (ow_ops (snd (request_power env q servers w)))"
proof -
  have "actions_valid tbl" if "valid_action (rq_action q)" "create_queued f fk (new_operation env q k srv) (ow_ops w) = (res, tbl)" for f fk k srv res tbl
    using create_actions [OF that(2) assms] that(1) by (simp add: new_operation_def)
  then show ?thesis using assms start_actions [of "w\<lparr>ow_ops := _\<rparr>"]
    by (auto simp: request_power_def Let_def split: sum.splits prod.splits option.splits bool.splits)
qed

lemma history_actions: "op_history tbl \<Longrightarrow> actions_valid tbl"
proof (induction rule: op_history.induct)
  case (requested w env q servers res w')
  then show ?case using request_actions [of w env q servers] by simp
next
  case (transitioned tbl fault now i n ch r tbl')
  then show ?case using transition_actions [of tbl fault now i n ch] by simp
qed (simp add: actions_valid_def)

lemma valid_action_conforms: "valid_action a \<Longrightarrow> conforms power_action_type (JStr (action_text a))"
  by (cases a) (simp_all add: power_action_type_def valid_action_def)

lemma insert_sorted_set: "set (insert_sorted before x ys) = insert x (set ys)"
  by (induction ys) auto

lemma foldr_sorted_set: "set (foldr (insert_sorted before) xs []) = set xs"
  by (induction xs) (simp_all add: insert_sorted_set)

lemma listed_operations:
  assumes "list_operations f le flt tbl = Inr ops" and "op \<in> set ops"
  shows "\<exists>r \<in> set tbl. op = row_op r"
proof -
  have "op \<in> set (filter (matches_filter flt) (map row_op tbl))"
    using assms by (auto simp: list_operations_def foldr_sorted_set split: if_splits)
  then show ?thesis by auto
qed

text \<open>What a synchronisation leaves of a server that is shown was said by the provider.\<close>

lemma announced_member:
  assumes "announced_inventory env type rs k = Some s"
  shows "\<exists>r \<in> set rs. s = shown_remote env type r"
proof -
  have "fold (\<lambda>r m. m((rs_scope r, rs_external_id r) \<mapsto> shown_remote env type r)) rs m k = Some s \<Longrightarrow>
      m k = Some s \<or> (\<exists>r \<in> set rs. s = shown_remote env type r)" for m
  proof (induction rs arbitrary: m)
    case (Cons r rs)
    then show ?case using Cons.IH [of "m((rs_scope r, rs_external_id r) \<mapsto> shown_remote env type r)"] by (auto split: if_splits)
  qed simp
  then show ?thesis using assms by (fastforce simp: announced_inventory_def)
qed

lemma synced_row:
  assumes "sync_connection env i w = (None, w')" and "find_by server_key (i, scope, ext) (iw_servers w') = Some r" and "srv_hidden_at r = None"
  shows "\<exists>type remote. shown_of r = shown_remote env type remote"
proof (cases rule: sync_connection_cases [of env i w])
  case early
  then show ?thesis using assms(1) by auto
next
  case failed
  then show ?thesis using assms(1) record_failure_servers(2) by (metis fst_conv)
next
  case (listed c crd ss)
  obtain rs where rs: "list_all2 (made_of env i (cn_type c)) rs ss" using list_pages_made [OF listed(3)] by auto
  have "apply_complete_sync (sy_apply_fault env) i (sy_now env) ss (sy_drift env w) = (None, w')" using assms(1) listed(4) by simp
  then have "shown i (iw_servers w') = announced_inventory env (cn_type c) rs" using apply_completeD listing_made [OF rs] by simp
  moreover have "shown i (iw_servers w') (scope, ext) = Some (shown_of r)" using assms(2,3) by (simp add: shown_def)
  ultimately show ?thesis using announced_member by (metis (no_types))
qed

section \<open>Properties\<close>

text \<open>
  C18. The client's types hold of what the server answers. Every operation that requests and transitions put into the table, found by
  its id or listed, is an \<open>Operation\<close>; a server that a synchronisation leaves shown is a \<open>Server\<close> exactly when the provider's own
  specification and addresses have the types the client gives them; a connection is a \<open>ProviderConnection\<close> exactly when its
  settings are an object, and a ticket a \<open>ConsoleSession\<close> exactly when its protocol is one of the two.
\<close>

theorem answers_have_client_types:
  assumes "op_history tbl" and "sync_connection env i w = (None, w')"
    and "find_by server_key (i, scope, ext) (iw_servers w') = Some s" and "srv_hidden_at s = None"
  shows "(find_operation f k tbl = Inr op \<longrightarrow> conforms operation_type (operation_json op)) \<and>
    (list_operations f le flt tbl = Inr ops \<longrightarrow> list_all (\<lambda>x. conforms operation_type (operation_json x)) ops) \<and>
    (\<exists>v. server_json s = Some v \<and> conforms server_type v = (conforms spec_type (srv_spec s) \<and> conforms addresses_type (srv_addresses s))) \<and>
    conforms provider_connection_type (connection_body c) = conforms TsRecord (cn_settings c) \<and>
    conforms console_session_type (session_ticket_json t) = (st_protocol t \<in> {''terminal'', ''rfb''})"
proof -
  note valid = history_actions [OF assms(1), unfolded actions_valid_def]
  have row: "conforms operation_type (operation_json (row_op r))" if "r \<in> set tbl" for r
    using that valid by (simp add: operation_conforms valid_action_conforms)
  have found: "conforms operation_type (operation_json op)" if hit: "find_operation f k tbl = Inr op"
  proof -
    obtain r where "find_by row_id k tbl = Some r" "op = row_op r"
      using hit by (auto simp: find_operation_def split: if_splits option.splits)
    then show ?thesis using row find_by_SomeD [of row_id k tbl r] by blast
  qed
  have listed: "list_all (\<lambda>x. conforms operation_type (operation_json x)) ops" if hits: "list_operations f le flt tbl = Inr ops"
    unfolding list_all_iff
  proof
    fix x
    assume "x \<in> set ops"
    then obtain r where "r \<in> set tbl" "x = row_op r" using listed_operations [OF hits] by blast
    then show "conforms operation_type (operation_json x)" using row by blast
  qed
  obtain type remote where "shown_of s = shown_remote env type remote" using synced_row [OF assms(2-4)] by blast
  then have "srv_capabilities s = Some (capabilities_json (rs_capabilities remote))" by (simp add: shown_of_def shown_remote_def)
  note server = server_conforms [OF this, unfolded eqTrueI [OF capabilities_conform] simp_thms]
  show ?thesis by (intro conjI impI; (erule found | erule listed | rule server connection_conforms ticket_conforms))
qed

lemma sample_synced_row:
  "\<exists>w' s. sync_connection sample_sync_env ''c1'' lab_world = (None, w') \<and> find_by server_key (''c1'', [], ''i-1'') (iw_servers w') = Some s \<and>
     srv_hidden_at s = None"
proof -
  obtain w' where w': "sync_connection sample_sync_env ''c1'' lab_world = (None, w')" using sample_sync by blast
  obtain v where pages: "list_pages sample_sync_env ''c1'' ''mock'' maximumSyncPages 0 None [] = Inr [v]" "made_of sample_sync_env ''c1'' ''mock'' lab_remote v"
    using sample_pages by blast
  show ?thesis
  proof (cases rule: sync_connection_cases [of sample_sync_env "''c1''" lab_world])
    case early
    then show ?thesis using w' by auto
  next
    case failed
    then show ?thesis using w' record_failure_servers(2) by (metis fst_conv)
  next
    case (listed c crd ss)
    have "cn_type c = ''mock''" using listed(1)
      by (auto simp: sample_sync_env_def find_connection_def lab_world_def sample_created_def active_row_def sample_connection_def)
    then have "ss = [v]" using listed(3) pages(1) by simp
    then have "shown ''c1'' (iw_servers w') = listing [v]" using apply_completeD w' listed(4) by metis
    then have "shown ''c1'' (iw_servers w') ([], ''i-1'') \<noteq> None" using pages(2) by (simp add: listing_def made_of_def lab_remote_def)
    then show ?thesis using w' by (auto simp: shown_def split: option.splits if_splits)
  qed
qed

lemma sample_first_row: "ow_ops sample_world = [\<lparr>row_op = sample_started, active_marker = True\<rparr>]"
proof -
  have "go_trim '' s1'' = ''s1''" "go_trim ''k1'' = ''k1''" by code_simp+
  moreover have "decode_capabilities (srv_capabilities sample_srv) = Some sample_capabilities"
    by (simp add: sample_srv_def decode_capabilities_def capabilities_json_def member_or_null_def)
  ultimately show ?thesis
    by (simp add: sample_world_def request_power_def start_request_def sample_env_def valid_action_def find_by_idempotency_key_def empty_world_def
        find_server_def sample_srv_def sample_capabilities_def create_queued_def insert_allowed_def new_operation_def sample_started_def
        start_operation_def enqueue_power_operation_def enqueue_def append_audit_entry_def publish_operation_def Let_def)
qed

lemma sample_stored_operation: "find_operation False (op_id sample_started) (ow_ops sample_world) = Inr sample_started"
proof -
  have "ow_ops sample_world = [\<lparr>row_op = sample_started, active_marker = True\<rparr>]"
    using sample_first_row by simp
  then show ?thesis by (simp add: find_operation_def)
qed

theorem answers_have_client_types_witness:
  "\<exists>w' s. sync_connection sample_sync_env ''c1'' lab_world = (None, w') \<and> find_by server_key (''c1'', [], ''i-1'') (iw_servers w') = Some s \<and>
     (\<exists>v. server_json s = Some v \<and> conforms server_type v = (conforms spec_type (srv_spec s) \<and> conforms addresses_type (srv_addresses s))) \<and>
     find_operation False (op_id sample_started) (ow_ops sample_world) = Inr sample_started \<and>
     conforms operation_type (operation_json sample_started)"
proof -
  have "op_history (ow_ops sample_world)"
    by (rule op_history.requested [OF _ sample_request_done]) (simp add: empty_world_def op_history.no_history)
  moreover obtain w' s where s: "sync_connection sample_sync_env ''c1'' lab_world = (None, w')"
      "find_by server_key (''c1'', [], ''i-1'') (iw_servers w') = Some s" "srv_hidden_at s = None"
    using sample_synced_row by blast
  moreover have op: "find_operation False (op_id sample_started) (ow_ops sample_world) = Inr sample_started"
    by (rule sample_stored_operation)
  ultimately show ?thesis using answers_have_client_types [of "ow_ops sample_world" sample_sync_env "''c1''" lab_world w' "[]" "''i-1''" s False
    "op_id sample_started" sample_started] by blast
qed

end
