(* ===== verification/TimeText.thy ===== *)
theory TimeText imports PasswordHash begin

text \<open>
  Reading stored times back: \<^verbatim>\<open>parseTime\<close> and \<^verbatim>\<open>parseDatabaseTime\<close> of the repositories. A text that \<^verbatim>\<open>RFC3339Nano\<close> writes
  for a time from 1970 to 9999 is read field by field; what the parser makes of any other text (an offset, the
  two \<^verbatim>\<open>DATETIME\<close> layouts, nonsense) is the parameter \<open>other\<close>.
\<close>

definition days_from :: "nat \<Rightarrow> nat \<Rightarrow> nat \<Rightarrow> nat" where
  "days_from y m d = sum_list (map year_length [1970 ..< y]) + sum_list (take (m - 1) (month_lengths y)) + (d - 1)"

definition fraction_value :: "string \<Rightarrow> nat" where
  "fraction_value s =
     (if s \<noteq> [] \<and> hd s = CHR ''.'' then decimal_value (take 9 (takeWhile ascii_digit (tl s) @ replicate 9 (digit 0))) else 0)"

definition stamp_value :: "string \<Rightarrow> time" where
  "stamp_value s =
     (let field = (\<lambda>n w. decimal_value (take w (drop n s)))
      in (days_from (field 0 4) (field 5 2) (field 8 2) * 86400 + field 11 2 * 3600 + field 14 2 * 60 + field 17 2) * second +
         fraction_value (drop 19 s))"

definition parse_stored_time :: "(string \<Rightarrow> time option) \<Rightarrow> string \<Rightarrow> time option" where
  "parse_stored_time other s =
     (let t = stamp_value s in if four_digit_year t \<and> rfc3339nano t = s then Some t else other s)"

section \<open>Decimals\<close>

lemma decimal_value_snoc [simp]: "decimal_value (s @ [c]) = decimal_value s * 10 + (byte_of c - 48)"
  by (simp add: decimal_value_def)

lemma digit_code_mod [simp]: "byte_of (digit (n mod 10)) = 48 + n mod 10"
  by (rule digit_code) simp

lemma decimal_value_decimal [simp]: "decimal_value (decimal w n) = n mod 10 ^ w"
proof (induction w arbitrary: n)
  case (Suc w)
  have "n mod 10 ^ Suc w = 10 * (n div 10 mod 10 ^ w) + n mod 10" by (simp add: mod_mult2_eq)
  then show ?case using Suc by simp
qed (simp add: decimal_value_def)

lemma decimal_digits: "c \<in> set (decimal w n) \<Longrightarrow> ascii_digit c"
  by (induction w arbitrary: n) (auto simp: ascii_digit_def)

lemma strip_zeros_pad: "\<exists>k. s = strip_zeros s @ replicate k (digit 0)"
proof -
  have "\<exists>k. takeWhile (\<lambda>c. c = digit 0) (rev s) = replicate k (digit 0)"
    by (metis (mono_tags, lifting) replicate_length_same set_takeWhileD)
  then obtain k where "takeWhile (\<lambda>c. c = digit 0) (rev s) = replicate k (digit 0)" by blast
  then have "rev s = replicate k (digit 0) @ dropWhile (\<lambda>c. c = digit 0) (rev s)" by (metis takeWhile_dropWhile_id)
  then have "s = strip_zeros s @ replicate k (digit 0)" by (metis rev_append rev_replicate rev_rev_ident strip_zeros_def)
  then show ?thesis ..
qed

lemma fraction_value_fraction:
  assumes "ns < second"
  shows "fraction_value (fraction ns @ ''Z'') = ns"
proof (cases "ns = 0")
  case True
  then show ?thesis by (simp add: fraction_def fraction_value_def)
next
  case False
  obtain k where k: "decimal 9 ns = strip_zeros (decimal 9 ns) @ replicate k (digit 0)" using strip_zeros_pad by blast
  let ?ds = "strip_zeros (decimal 9 ns)"
  have "c \<in> set (decimal 9 ns)" if "c \<in> set ?ds" for c using that by (subst k) simp
  then have "\<forall>c \<in> set ?ds. ascii_digit c" using decimal_digits by blast
  moreover have "\<not> ascii_digit CHR ''Z''" by (simp add: ascii_digit_def)
  ultimately have digits: "takeWhile ascii_digit (?ds @ ''Z'') = ?ds" by (simp add: takeWhile_append2)
  have len: "length ?ds + k = 9" using arg_cong [OF k, of length] by simp
  then have "take 9 (?ds @ replicate 9 (digit 0)) = ?ds @ replicate k (digit 0)" by (simp add: take_replicate)
  then have "take 9 (?ds @ replicate 9 (digit 0)) = decimal 9 ns" using k by simp
  then have "decimal_value (take 9 (?ds @ replicate 9 (digit 0))) = ns" using assms by (simp add: second_def)
  then show ?thesis using False digits by (simp add: fraction_def fraction_value_def)
qed

section \<open>Dates\<close>

lemma civil_year_days:
  "civil_year y d = (y', doy) \<Longrightarrow> d = sum_list (map year_length [y ..< y']) + doy \<and> y \<le> y'"
proof (induction y d rule: civil_year.induct)
  case (1 y d)
  show ?case
  proof (cases "d < year_length y")
    case True
    then show ?thesis using 1(2) by (simp add: civil_year.simps [of y d])
  next
    case False
    then have "civil_year (Suc y) (d - year_length y) = (y', doy)" using 1(2) by (simp add: civil_year.simps [of y d])
    from 1(1) [OF False this] have "d - year_length y = sum_list (map year_length [Suc y ..< y']) + doy" "Suc y \<le> y'" by simp_all
    moreover have "[y ..< y'] = y # [Suc y ..< y']" using \<open>Suc y \<le> y'\<close> by (simp add: upt_conv_Cons)
    ultimately show ?thesis using False by simp
  qed
qed

lemma civil_month_days:
  "civil_month m ls d = (m', d') \<Longrightarrow> d < sum_list ls \<Longrightarrow> d = sum_list (take (m' - m) ls) + (d' - 1) \<and> m \<le> m' \<and> 0 < d'"
proof (induction m ls d rule: civil_month.induct)
  case (2 m l ls d)
  show ?case
  proof (cases "d < l")
    case True
    then show ?thesis using 2(2) by auto
  next
    case False
    then have "civil_month (Suc m) ls (d - l) = (m', d')" "d - l < sum_list ls" using 2(2,3) by simp_all
    from 2(1) [OF False this] have "d - l = sum_list (take (m' - Suc m) ls) + (d' - 1)" "Suc m \<le> m'" "0 < d'" by simp_all
    moreover have "take (m' - m) (l # ls) = l # take (m' - Suc m) ls" using \<open>Suc m \<le> m'\<close> by (simp add: Suc_diff_le take_Cons')
    ultimately show ?thesis using False by simp
  qed
qed simp

lemma clock_fields: "r div 3600 * 3600 + r div 60 mod 60 * 60 + r mod 60 = (r :: nat)"
proof -
  have "r div 3600 = r div 60 div 60" by (simp add: div_mult2_eq [symmetric])
  moreover have "r div 60 div 60 * 60 + r div 60 mod 60 = r div 60" "r div 60 * 60 + r mod 60 = r" by simp_all
  ultimately show ?thesis by linarith
qed

lemma stamp_value_format:
  assumes "y < 10000" and "m < 100" and "d < 100" and "h < 100" and "mi < 100" and "s < 100"
  shows "stamp_value (decimal 4 y @ ''-'' @ decimal 2 m @ ''-'' @ decimal 2 d @ ''T'' @ decimal 2 h @ '':'' @ decimal 2 mi @ '':'' @ decimal 2 s @ rest) =
    (days_from y m d * 86400 + h * 3600 + mi * 60 + s) * second + fraction_value rest"
  using assms by (simp add: stamp_value_def Let_def)

lemma stamp_value_rfc3339nano:
  assumes "four_digit_year t"
  shows "stamp_value (rfc3339nano t) = t"
proof -
  let ?secs = "t div second" and ?r = "t div second mod 86400"
  obtain y doy where y: "civil_year 1970 (?secs div 86400) = (y, doy)" by (cases "civil_year 1970 (?secs div 86400)")
  obtain m d where m: "civil_month 1 (month_lengths y) doy = (m, d)" by (cases "civil_month 1 (month_lengths y) doy")
  have doy: "doy < sum_list (month_lengths y)" using civil_year_bound [of 1970 "?secs div 86400"] by (simp add: y month_lengths_sum)
  have "y < 10000" using assms by (simp add: four_digit_year_def y)
  moreover have "m < 100" "d < 100"
    using civil_month_le [of 1 "month_lengths y" doy] civil_month_day [OF doy month_lengths_le, of 1] by (simp_all add: m [simplified] length_month_lengths)
  moreover have "?r div 3600 < 100" "?r div 60 mod 60 < 100" "?r mod 60 < 100" by simp_all
  ultimately have "stamp_value (rfc3339nano t) =
      (days_from y m d * 86400 + ?r div 3600 * 3600 + ?r div 60 mod 60 * 60 + ?r mod 60) * second + fraction_value (fraction (t mod second) @ ''Z'')"
    using stamp_value_format [of y m d "?r div 3600" "?r div 60 mod 60" "?r mod 60" "fraction (t mod second) @ ''Z''"]
    by (simp add: rfc3339nano_def civil_prefix_def Let_def y m [simplified])
  also have "fraction_value (fraction (t mod second) @ ''Z'') = t mod second" by (rule fraction_value_fraction) (simp add: second_def)
  also have "days_from y m d = ?secs div 86400"
    using civil_year_days [OF y] civil_month_days [OF m doy] by (simp add: days_from_def)
  also have "?secs div 86400 * 86400 + ?r div 3600 * 3600 + ?r div 60 mod 60 * 60 + ?r mod 60 = ?secs"
  proof -
    have "?r div 3600 * 3600 + ?r div 60 mod 60 * 60 + ?r mod 60 = ?r"
      by (rule clock_fields)
    then show ?thesis using div_mult_mod_eq [of ?secs 86400] by linarith
  qed
  finally show ?thesis by simp
qed

lemma parse_stored_time_rfc [simp]: "four_digit_year t \<Longrightarrow> parse_stored_time other (rfc3339nano t) = Some t"
  by (simp add: parse_stored_time_def stamp_value_rfc3339nano)

text \<open>
  A stored time reads back. On SQLite every repository writes a time as \<^verbatim>\<open>RFC3339Nano\<close> text and parses the text when it scans
  the row: for every time from 1970 to the end of the year 9999 the result is that time, to the
  nanosecond, whatever the parser does with other texts; and two different times have different texts.
\<close>

lemma stored_time_reads_back:
  assumes "four_digit_year t"
  shows "parse_stored_time other (rfc3339nano t) = Some t \<and> (four_digit_year u \<and> rfc3339nano u = rfc3339nano t \<longrightarrow> u = t)"
  using assms stamp_value_rfc3339nano [of t] stamp_value_rfc3339nano [of u] by (auto simp: parse_stored_time_def)

theorem stored_time_reads_back_witness:
  "four_digit_year 90061500000000 \<and> parse_stored_time (\<lambda>_. None) (rfc3339nano 90061500000000) = Some 90061500000000"
proof -
  have "civil_year 1970 1 = (1970, 1)" by (subst civil_year.simps) (simp add: year_length_def)
  then have year: "four_digit_year 90061500000000" by (simp add: four_digit_year_def second_def)
  then show ?thesis using stored_time_reads_back [OF year] by simp
qed

end
