(* ===== verification/BackupArchive.thy ===== *)
theory BackupArchive imports TimeText begin

text \<open>
  The logical archive of a backup: \<^verbatim>\<open>internal/backup/archive.go\<close> and \<^verbatim>\<open>snapshot.go\<close>. A database is its tables with their rows of
  driver values; export turns a value into text and restore turns it back, by the kind of its column. A Go
  map is an association list. Parameters are what the JSON validator says of a text, what the time parser makes of texts
  other than those \<^verbatim>\<open>RFC3339Nano\<close> writes, how \<^verbatim>\<open>fmt\<close> prints a time, and which insertions the database refuses.
\<close>

section \<open>Archives\<close>

datatype archive_error = ErrBackupNotFound | ErrInvalidBackup | ErrInvalidManifest | ErrActiveWork | ErrChecksumMismatch | ErrBackupOther

record table_data =
  td_columns :: "string list"
  td_rows :: "string option list list"

record archive =
  ar_format :: int
  ar_application :: string
  ar_created :: "time option"
  ar_source :: string
  ar_manifest :: "(string \<times> int) list option"
  ar_tables :: "(string \<times> table_data) list option"

fun dialect_text :: "dialect \<Rightarrow> string" where
  "dialect_text SQLite = ''sqlite''"
| "dialect_text MySQL = ''mysql''"

definition currentFormatVersion :: int where
  "currentFormatVersion = 1"

text \<open>The zero time is \<open>None\<close>, a nil map too.\<close>

definition validateEnvelopeManifest :: "archive \<Rightarrow> bool" where
  "validateEnvelopeManifest a =
     (ar_format a = currentFormatVersion \<and> ar_created a \<noteq> None \<and> ar_source a \<in> {''sqlite'', ''mysql''} \<and>
      (case (ar_manifest a, ar_tables a) of
         (Some m, Some ts) \<Rightarrow>
           length m = length ts \<and>
           list_all (\<lambda>(name, count).
             case map_of ts name of
               None \<Rightarrow> False
             | Some t \<Rightarrow> count = int (length (td_rows t)) \<and> td_columns t \<noteq> [] \<and>
                 list_all (\<lambda>row. length row = length (td_columns t)) (td_rows t)) m
       | _ \<Rightarrow> False))"

section \<open>The schema\<close>

datatype column_kind = KindText | KindJSON | KindBinary | KindInteger | KindBoolean | KindTime

type_synonym table_schema = "string \<times> (column_kind \<times> string) list"

definition logicalSchema :: "table_schema list" where
  "logicalSchema =
    [(''users'', [(KindInteger, ''singleton_key''), (KindText, ''id''), (KindText, ''username''), (KindText, ''normalized_username''),
       (KindText, ''password_hash''), (KindTime, ''initialized_at''), (KindTime, ''created_at''), (KindTime, ''updated_at''),
       (KindTime, ''last_login_at'')]),
     (''sessions'', [(KindBinary, ''token_hash''), (KindBinary, ''csrf_hash''), (KindText, ''user_id''), (KindTime, ''expires_at''),
       (KindTime, ''absolute_expires_at''), (KindTime, ''last_seen_at''), (KindTime, ''created_at'')]),
     (''provider_connections'', [(KindText, ''id''), (KindText, ''name''), (KindText, ''provider_type''), (KindText, ''endpoint''),
       (KindJSON, ''settings_json''), (KindBinary, ''credentials_ciphertext''), (KindBinary, ''credentials_nonce''),
       (KindInteger, ''credentials_key_version''), (KindBoolean, ''enabled''), (KindText, ''health_status''), (KindTime, ''last_tested_at''),
       (KindTime, ''last_synced_at''), (KindText, ''last_error_code''), (KindText, ''last_error_message''), (KindTime, ''created_at''),
       (KindTime, ''updated_at''), (KindTime, ''deleted_at'')]),
     (''servers'', [(KindText, ''id''), (KindText, ''connection_id''), (KindText, ''external_id''), (KindText, ''scope''), (KindText, ''name''),
       (KindText, ''normalized_state''), (KindText, ''remote_state''), (KindJSON, ''spec_json''), (KindJSON, ''addresses_json''),
       (KindJSON, ''capabilities_json''), (KindText, ''portal_url''), (KindTime, ''last_seen_at''), (KindTime, ''last_state_checked_at''),
       (KindTime, ''hidden_at''), (KindTime, ''created_at''), (KindTime, ''updated_at'')]),
     (''jobs'', [(KindText, ''id''), (KindText, ''kind''), (KindJSON, ''payload_json''), (KindText, ''status''), (KindInteger, ''attempts''),
       (KindInteger, ''max_attempts''), (KindTime, ''available_at''), (KindText, ''lease_owner''), (KindTime, ''lease_expires_at''),
       (KindText, ''last_error''), (KindTime, ''created_at''), (KindTime, ''updated_at'')]),
     (''operations'', [(KindText, ''id''), (KindText, ''server_id''), (KindText, ''connection_id''), (KindText, ''action''), (KindText, ''status''),
       (KindText, ''idempotency_key''), (KindText, ''active_marker''), (KindText, ''provider_request_id''), (KindText, ''error_code''),
       (KindText, ''error_message''), (KindTime, ''queued_at''), (KindTime, ''started_at''), (KindTime, ''finished_at''), (KindTime, ''updated_at'')]),
     (''audit_logs'', [(KindText, ''id''), (KindText, ''event_type''), (KindText, ''target_type''), (KindText, ''target_id''), (KindText, ''request_id''),
       (KindText, ''source_ip''), (KindJSON, ''metadata_json''), (KindTime, ''created_at'')]),
     (''console_sessions'', [(KindText, ''id''), (KindText, ''server_id''), (KindText, ''mode''), (KindBinary, ''ticket_hash''), (KindTime, ''expires_at''),
       (KindTime, ''opened_at''), (KindTime, ''closed_at''), (KindText, ''result''), (KindTime, ''created_at'')]),
     (''settings'', [(KindText, ''setting_key''), (KindJSON, ''value_json''), (KindTime, ''updated_at'')])]"

definition columnNames :: "table_schema \<Rightarrow> string list" where
  "columnNames schema = map snd (snd schema)"

definition clear_order :: "string list" where
  "clear_order = [''console_sessions'', ''operations'', ''servers'', ''sessions'', ''jobs'', ''audit_logs'', ''settings'',
     ''provider_connections'', ''users'']"

section \<open>Cells\<close>

datatype cell = CellNull | CellBytes string | CellText string | CellInt int | CellBool bool | CellTime time

record text_env =
  te_json_valid :: "string \<Rightarrow> bool"
  te_rfc_other :: "string \<Rightarrow> time option"
  te_datetime :: "string \<Rightarrow> time option"
  te_sprint_time :: "time \<Rightarrow> string"

definition format_int :: "int \<Rightarrow> string" where
  "format_int i = (if i < 0 then CHR ''-'' # digits_of (nat (- i)) else digits_of (nat i))"

text \<open>\<^verbatim>\<open>strconv.ParseInt(s, 10, 64)\<close> and \<^verbatim>\<open>ParseBool\<close>.\<close>

definition parse_int :: "string \<Rightarrow> int option" where
  "parse_int s =
     (let signed = (s \<noteq> [] \<and> hd s \<in> {CHR ''-'', CHR ''+''});
          ds = (if signed then tl s else s);
          v = int (decimal_value ds);
          minus = (signed \<and> hd s = CHR ''-'')
      in if ds = [] \<or> \<not> list_all ascii_digit ds \<or> (if minus then v > 2 ^ 63 else v \<ge> 2 ^ 63) then None
         else Some (if minus then - v else v))"

definition parse_bool :: "string \<Rightarrow> bool option" where
  "parse_bool s =
     (if s \<in> {''1'', ''t'', ''T'', ''TRUE'', ''true'', ''True''} then Some True
      else if s \<in> {''0'', ''f'', ''F'', ''FALSE'', ''false'', ''False''} then Some False else None)"

text \<open>\<^verbatim>\<open>base64.StdEncoding\<close>: padded to a multiple of four; decoding skips line ends and wants the padding.\<close>

definition base64_padded :: "string \<Rightarrow> string" where
  "base64_padded s = (let b = base64_encode std_alphabet s in b @ replicate ((4 - length b mod 4) mod 4) (CHR ''=''))"

definition base64_unpadded :: "string \<Rightarrow> string option" where
  "base64_unpadded s =
     (let t = filter (\<lambda>c. c \<noteq> CHR 0x0A \<and> c \<noteq> CHR 0x0D) s;
          body = takeWhile (\<lambda>c. c \<noteq> CHR ''='') t
      in if t = body @ replicate ((4 - length body mod 4) mod 4) (CHR ''='') then base64_decode std_alphabet body else None)"

fun scalarString :: "text_env \<Rightarrow> cell \<Rightarrow> string" where
  "scalarString env (CellBytes s) = s"
| "scalarString env (CellText s) = s"
| "scalarString env (CellInt i) = format_int i"
| "scalarString env (CellBool b) = (if b then ''true'' else ''false'')"
| "scalarString env (CellTime t) = te_sprint_time env t"
| "scalarString env CellNull = ''<nil>''"

definition valueTime :: "text_env \<Rightarrow> cell \<Rightarrow> time option" where
  "valueTime env v =
     (case v of
        CellTime t \<Rightarrow> Some t
      | _ \<Rightarrow> parse_stored_time (\<lambda>s. case te_rfc_other env s of None \<Rightarrow> te_datetime env s | Some t \<Rightarrow> Some t) (scalarString env v))"

text \<open>\<open>None\<close> is an error, \<open>Some None\<close> the missing value.\<close>

definition normalizeCell :: "text_env \<Rightarrow> column_kind \<Rightarrow> cell \<Rightarrow> string option option" where
  "normalizeCell env kind v =
     (if v = CellNull then Some None
      else (let s = scalarString env v
            in case kind of
                 KindBinary \<Rightarrow> (case v of CellBytes b \<Rightarrow> Some (Some (base64_padded b)) | _ \<Rightarrow> None)
               | KindInteger \<Rightarrow> (if parse_int s = None then None else Some (Some s))
               | KindBoolean \<Rightarrow> (if s \<in> {''0'', ''1'', ''true'', ''false''} then Some (Some s) else None)
               | KindTime \<Rightarrow> map_option (\<lambda>t. Some (rfc3339nano t)) (valueTime env v)
               | KindJSON \<Rightarrow> (if te_json_valid env s then Some (Some s) else None)
               | KindText \<Rightarrow> Some (Some s)))"

definition restoreCell :: "text_env \<Rightarrow> dialect \<Rightarrow> column_kind \<Rightarrow> string option \<Rightarrow> cell option" where
  "restoreCell env dialect kind value =
     (case value of
        None \<Rightarrow> Some CellNull
      | Some s \<Rightarrow>
          (case kind of
             KindBinary \<Rightarrow> map_option CellBytes (base64_unpadded s)
           | KindInteger \<Rightarrow> map_option CellInt (parse_int s)
           | KindBoolean \<Rightarrow>
               (case parse_bool s of
                  Some b \<Rightarrow> Some (CellBool b)
                | None \<Rightarrow> (case parse_int s of Some i \<Rightarrow> (if i = 0 \<or> i = 1 then Some (CellBool (i = 1)) else None) | None \<Rightarrow> None))
           | KindTime \<Rightarrow>
               map_option (\<lambda>t. if dialect = MySQL then CellTime t else CellText (rfc3339nano t)) (parse_stored_time (te_rfc_other env) s)
           | KindJSON \<Rightarrow> (if te_json_valid env s then Some (CellText s) else None)
           | KindText \<Rightarrow> Some (CellText s)))"

section \<open>Snapshots\<close>

type_synonym database = "(string \<times> cell list list) list"

text \<open>
  \<open>sn_accepts\<close> is what the database says to an insertion, with its constraints; \<open>sn_export_fault\<close> and \<open>sn_restore_fault\<close> stand for
  a transaction that does not begin or commit, or a statement that fails otherwise.
\<close>

record snapshot_env =
  sn_text :: text_env
  sn_dialect :: dialect
  sn_application :: string
  sn_now :: time
  sn_export_fault :: bool
  sn_restore_fault :: bool
  sn_accepts :: "string \<Rightarrow> database \<Rightarrow> cell list \<Rightarrow> bool"

definition export_row :: "text_env \<Rightarrow> table_schema \<Rightarrow> cell list \<Rightarrow> string option list option" where
  "export_row env schema row = those (map2 (\<lambda>col v. normalizeCell env (fst col) v) (snd schema) row)"

definition exportTable :: "text_env \<Rightarrow> database \<Rightarrow> table_schema \<Rightarrow> table_data option" where
  "exportTable env db schema =
     (case map_of db (fst schema) of
        None \<Rightarrow> None
      | Some rows \<Rightarrow> map_option (\<lambda>rs. \<lparr>td_columns = columnNames schema, td_rows = rs\<rparr>) (those (map (export_row env schema) rows)))"

definition export_snapshot :: "snapshot_env \<Rightarrow> database \<Rightarrow> archive option" where
  "export_snapshot env db =
     (if sn_export_fault env then None
      else map_option (\<lambda>ts. \<lparr>ar_format = currentFormatVersion, ar_application = sn_application env, ar_created = Some (sn_now env),
             ar_source = dialect_text (sn_dialect env),
             ar_manifest = Some (map2 (\<lambda>schema t. (fst schema, int (length (td_rows t)))) logicalSchema ts),
             ar_tables = Some (map2 (\<lambda>schema t. (fst schema, t)) logicalSchema ts)\<rparr>)
           (those (map (exportTable (sn_text env) db) logicalSchema)))"

definition validateLogicalArchive :: "text_env \<Rightarrow> archive \<Rightarrow> bool" where
  "validateLogicalArchive env a =
     (validateEnvelopeManifest a \<and>
      (case (ar_manifest a, ar_tables a) of
         (Some m, Some ts) \<Rightarrow>
           length ts = length logicalSchema \<and>
           list_all (\<lambda>schema.
             case map_of ts (fst schema) of
               None \<Rightarrow> False
             | Some t \<Rightarrow>
                 (case map_of m (fst schema) of None \<Rightarrow> 0 | Some n \<Rightarrow> n) = int (length (td_rows t)) \<and> td_columns t = columnNames schema \<and>
                 list_all (\<lambda>row. list_all2 (\<lambda>col value. restoreCell env SQLite (fst col) value \<noteq> None) (snd schema) row) (td_rows t))
             logicalSchema
       | _ \<Rightarrow> False))"

definition on_table :: "string \<Rightarrow> (cell list list \<Rightarrow> cell list list) \<Rightarrow> database \<Rightarrow> database" where
  "on_table name f db = map (\<lambda>(n, rows). (n, if n = name then f rows else rows)) db"

definition restore_row :: "text_env \<Rightarrow> dialect \<Rightarrow> table_schema \<Rightarrow> string option list \<Rightarrow> cell list option" where
  "restore_row env d schema row = those (map2 (\<lambda>col value. restoreCell env d (fst col) value) (snd schema) row)"

fun insert_rows :: "snapshot_env \<Rightarrow> table_schema \<Rightarrow> string option list list \<Rightarrow> database \<Rightarrow> database option" where
  "insert_rows env schema [] db = Some db"
| "insert_rows env schema (row # rows) db =
     (case restore_row (sn_text env) (sn_dialect env) schema row of
        None \<Rightarrow> None
      | Some r \<Rightarrow>
          (if map_of db (fst schema) = None \<or> \<not> sn_accepts env (fst schema) db r then None
           else insert_rows env schema rows (on_table (fst schema) (\<lambda>rs. rs @ [r]) db)))"

fun restore_tables :: "snapshot_env \<Rightarrow> (string \<times> table_data) list \<Rightarrow> table_schema list \<Rightarrow> database \<Rightarrow> database option" where
  "restore_tables env ts [] db = Some db"
| "restore_tables env ts (schema # schemas) db =
     (case insert_rows env schema (case map_of ts (fst schema) of None \<Rightarrow> [] | Some t \<Rightarrow> td_rows t) db of
        None \<Rightarrow> None
      | Some db' \<Rightarrow> restore_tables env ts schemas db')"

text \<open>One transaction; on any error it is rolled back.\<close>

definition restore_snapshot :: "snapshot_env \<Rightarrow> archive \<Rightarrow> database \<Rightarrow> archive_error option \<times> database" where
  "restore_snapshot env a db =
     (if \<not> validateLogicalArchive (sn_text env) a then (Some ErrInvalidManifest, db)
      else if sn_restore_fault env \<or> list_ex (\<lambda>name. map_of db name = None) clear_order then (Some ErrBackupOther, db)
      else (case restore_tables env (case ar_tables a of None \<Rightarrow> [] | Some ts \<Rightarrow> ts) logicalSchema
                   (fold (\<lambda>name. on_table name (\<lambda>_. [])) clear_order db) of
              None \<Rightarrow> (Some ErrBackupOther, db)
            | Some db' \<Rightarrow> (None, db')))"

section \<open>Cells there and back\<close>

lemma byte_of_digit [simp]: "n < 10 \<Longrightarrow> byte_of (digit n) - 48 = n" "n < 10 \<Longrightarrow> ascii_digit (digit n)"
  by (simp_all add: ascii_digit_def digit_code)

lemma digits_of_value: "decimal_value (digits_of n) = n \<and> list_all ascii_digit (digits_of n) \<and> digits_of n \<noteq> []"
proof (induction n rule: digits_of.induct)
  case (1 n)
  show ?case
  proof (cases "n < 10")
    case True
    then show ?thesis by (simp add: digits_of.simps [of n] decimal_value_def)
  next
    case False
    then show ?thesis using 1 by (simp add: digits_of.simps [of n])
  qed
qed

lemma digits_of_unsigned: "hd (digits_of n) \<notin> {CHR ''-'', CHR ''+''}"
proof -
  have "ascii_digit (hd (digits_of n))" using digits_of_value [of n] by (cases "digits_of n") auto
  then show ?thesis by (auto simp: ascii_digit_def)
qed

lemma parse_format_int:
  assumes "- (2 ^ 63) \<le> i" and "i < 2 ^ 63"
  shows "parse_int (format_int i) = Some i"
proof (cases "i < 0")
  case True
  then show ?thesis using assms(1) digits_of_value [of "nat (- i)"] by (simp add: parse_int_def format_int_def Let_def)
next
  case False
  have "\<not> (digits_of (nat i) \<noteq> [] \<and> hd (digits_of (nat i)) \<in> {CHR ''-'', CHR ''+''})" using digits_of_unsigned by blast
  then show ?thesis using False assms(2) digits_of_value [of "nat i"] by (auto simp: parse_int_def format_int_def Let_def)
qed

lemma parse_int_range: "parse_int s = Some i \<Longrightarrow> - (2 ^ 63) \<le> i \<and> i < 2 ^ 63"
  by (auto simp: parse_int_def Let_def split: if_splits)

lemma std_no_padding: "CHR ''='' \<notin> set (base64_encode std_alphabet s)" "CHR 0x0A \<notin> set (base64_encode std_alphabet s)" "CHR 0x0D \<notin> set (base64_encode std_alphabet s)"
proof -
  have "list_all (\<lambda>n. std_alphabet n \<notin> {CHR ''='', CHR 0x0A, CHR 0x0D}) [0 ..< 64]" by code_simp
  then have "std_alphabet n \<notin> {CHR ''='', CHR 0x0A, CHR 0x0D}" if "n < 64" for n using that by (simp add: list_all_iff)
  then show "CHR ''='' \<notin> set (base64_encode std_alphabet s)" "CHR 0x0A \<notin> set (base64_encode std_alphabet s)" "CHR 0x0D \<notin> set (base64_encode std_alphabet s)"
    using sextets_less [of _ s] by (fastforce simp: base64_encode_def)+
qed

lemma padded_round_trip [simp]: "base64_unpadded (base64_padded s) = Some s"
proof -
  let ?b = "base64_encode std_alphabet s" and ?p = "replicate ((4 - length (base64_encode std_alphabet s) mod 4) mod 4) (CHR ''='')"
  have "filter (\<lambda>c. c \<noteq> CHR 0x0A \<and> c \<noteq> CHR 0x0D) (?b @ ?p) = ?b @ ?p"
    using std_no_padding [of s] by (auto simp: filter_id_conv)
  moreover have "takeWhile (\<lambda>c. c \<noteq> CHR ''='') (?b @ ?p) = ?b"
    using std_no_padding(1) [of s] by (subst takeWhile_append2) (auto simp: takeWhile_eq_Nil_iff)
  ultimately show ?thesis by (simp add: base64_unpadded_def base64_padded_def Let_def)
qed

text \<open>
  What the engine keeps of a value. A time that is bound as a time, as restoring on MySQL does, goes into a
  \<^verbatim>\<open>DATETIME(6)\<close> column of \<^verbatim>\<open>migrations.go\<close>, which holds whole microseconds and rounds to the nearest; a text is kept as
  it is.
\<close>

definition kept_time :: "time \<Rightarrow> time" where
  "kept_time t = (t + 500) div 1000 * 1000"

definition kept_cell :: "dialect \<Rightarrow> cell \<Rightarrow> cell" where
  "kept_cell d v = (case v of CellTime t \<Rightarrow> CellTime (if d = MySQL then kept_time t else t) | _ \<Rightarrow> v)"

lemma kept_time_facts: "kept_time t \<le> t + 500" "t < kept_time t + 500" "kept_time (kept_time t) = kept_time t" "kept_time (1000 * n) = 1000 * n"
proof -
  have t: "(t + 500) div 1000 * 1000 + (t + 500) mod 1000 = t + 500" "(t + 500) mod 1000 < 1000" by (rule div_mult_mod_eq) simp
  then show "kept_time t \<le> t + 500" "t < kept_time t + 500" unfolding kept_time_def by linarith+
  have "(m * 1000 + 500) div 1000 = (m :: nat)" for m by presburger
  then show "kept_time (kept_time t) = kept_time t" "kept_time (1000 * n) = 1000 * n"
    unfolding kept_time_def by (simp_all add: mult.commute)
qed

lemma kept_cell_again [simp]: "kept_cell d (kept_cell d v) = kept_cell d v"
  by (cases v) (simp_all add: kept_cell_def kept_time_facts)

lemma kept_cell_simps [simp]: "kept_cell SQLite v = v" "kept_cell d (CellText s) = CellText s" "kept_cell d (CellBytes s) = CellBytes s"
  "kept_cell d (CellInt i) = CellInt i" "kept_cell d (CellBool b) = CellBool b" "kept_cell d CellNull = CellNull"
  "kept_cell MySQL (CellTime t) = CellTime (kept_time t)"
  by (cases v) (simp_all add: kept_cell_def)

text \<open>
  What a driver may give back for a value it was given: what the engine keeps of it, a text as bytes, a flag as 0 or 1,
  a time for the text of a time. A time that is rounded beyond the year 9999 does not fit the column.
\<close>

definition reads_back :: "dialect \<Rightarrow> column_kind \<Rightarrow> cell \<Rightarrow> cell \<Rightarrow> bool" where
  "reads_back d kind v v' \<longleftrightarrow>
     (case (v, v') of
        (CellText s, CellBytes s') \<Rightarrow> kind \<noteq> KindBinary \<and> s' = s
      | (CellBool b, CellInt i) \<Rightarrow> kind = KindBoolean \<and> i = (if b then 1 else 0)
      | (CellText s, CellTime t) \<Rightarrow> kind = KindTime \<and> four_digit_year t \<and> s = rfc3339nano t
      | (CellTime t, CellTime t') \<Rightarrow> CellTime t' = kept_cell d (CellTime t) \<and> four_digit_year t'
      | _ \<Rightarrow> v' = v)"

text \<open>Times that leave the four digits of the year are out of scope, however they are written.\<close>

definition time_law :: "text_env \<Rightarrow> bool" where
  "time_law env \<longleftrightarrow> (\<forall>s t. te_rfc_other env s = Some t \<or> te_datetime env s = Some t \<longrightarrow> four_digit_year t)"

lemma parse_stored_four_digit: "(\<And>t. other s = Some t \<Longrightarrow> four_digit_year t) \<Longrightarrow> parse_stored_time other s = Some t \<Longrightarrow> four_digit_year t"
  by (auto simp: parse_stored_time_def Let_def split: if_splits)

lemma valueTime_four_digit:
  assumes "time_law env" and "valueTime env v = Some t" and "\<And>u. v = CellTime u \<Longrightarrow> four_digit_year u"
  shows "four_digit_year t"
proof (cases "\<exists>u. v = CellTime u")
  case True
  then show ?thesis using assms by (auto simp: valueTime_def)
next
  case False
  then have "parse_stored_time (\<lambda>s. case te_rfc_other env s of None \<Rightarrow> te_datetime env s | Some t \<Rightarrow> Some t) (scalarString env v) = Some t"
    using assms(2) by (cases v) (simp_all add: valueTime_def)
  then show ?thesis using assms(1) by (auto simp: time_law_def split: option.splits intro: parse_stored_four_digit [rotated])
qed

lemma valueTime_stored [simp]:
  "four_digit_year t \<Longrightarrow> valueTime env (CellText (rfc3339nano t)) = Some t"
  "four_digit_year t \<Longrightarrow> valueTime env (CellBytes (rfc3339nano t)) = Some t"
  "valueTime env (CellTime t) = Some t"
  by (simp_all add: valueTime_def)

lemma normalized_restores:
  assumes "normalizeCell env kind v = Some s" and "time_law env" and "\<And>u. v = CellTime u \<Longrightarrow> four_digit_year u"
  shows "\<exists>w. restoreCell env d kind s = Some w"
proof (cases kind)
  case KindTime
  then show ?thesis using assms valueTime_four_digit [OF assms(2) _ assms(3), of v]
    by (auto simp: normalizeCell_def restoreCell_def Let_def split: if_splits)
next
  case KindBinary
  then show ?thesis using assms(1) by (auto simp: normalizeCell_def restoreCell_def split: if_splits cell.splits)
next
  case KindBoolean
  have "parse_bool ''0'' = Some False" "parse_bool ''1'' = Some True" "parse_bool ''true'' = Some True" "parse_bool ''false'' = Some False"
    by (simp_all add: parse_bool_def)
  then show ?thesis using assms(1) KindBoolean by (auto simp: normalizeCell_def restoreCell_def Let_def split: if_splits)
qed (use assms(1) in \<open>auto simp: normalizeCell_def restoreCell_def Let_def split: if_splits\<close>)

lemma cell_round_trip:
  assumes "restoreCell env d kind s = Some v" and "reads_back d kind v v'" and "time_law env"
  shows "\<exists>s'. normalizeCell env kind v' = Some s' \<and> restoreCell env d kind s' = Some (kept_cell d v)"
proof (cases s)
  case None
  then have "v = CellNull" using assms(1) by (simp add: restoreCell_def)
  then have "v' = CellNull" using assms(2) by (cases v') (auto simp: reads_back_def)
  then show ?thesis using \<open>v = CellNull\<close> by (simp add: normalizeCell_def restoreCell_def)
next
  case (Some x)
  show ?thesis
  proof (cases kind)
    case KindBinary
    then obtain b where "v = CellBytes b" using assms(1) Some by (auto simp: restoreCell_def)
    moreover have "v' = v" using assms(2) KindBinary calculation by (cases v') (auto simp: reads_back_def)
    ultimately show ?thesis using KindBinary by (simp add: normalizeCell_def restoreCell_def)
  next
    case KindInteger
    then obtain i where "v = CellInt i" "parse_int x = Some i" using assms(1) Some by (auto simp: restoreCell_def)
    moreover have "v' = v" using assms(2) KindInteger calculation(1) by (cases v') (auto simp: reads_back_def)
    ultimately show ?thesis using KindInteger parse_int_range [of x i] parse_format_int [of i] by (simp add: normalizeCell_def restoreCell_def)
  next
    case KindBoolean
    then obtain b where b: "v = CellBool b" using assms(1) Some by (auto simp: restoreCell_def split: option.splits if_splits)
    have "format_int 0 = ''0''" "format_int 1 = ''1''" by (simp_all add: format_int_def digits_of.simps digit_def char_of_eq_iff)
    moreover have "v' = CellBool b \<or> v' = CellInt (if b then 1 else 0)" using assms(2) KindBoolean b by (cases v') (auto simp: reads_back_def)
    moreover have "parse_bool ''0'' = Some False" "parse_bool ''1'' = Some True" "parse_bool ''true'' = Some True" "parse_bool ''false'' = Some False"
      by (simp_all add: parse_bool_def)
    ultimately show ?thesis using KindBoolean b by (cases b) (auto simp: normalizeCell_def restoreCell_def)
  next
    case KindTime
    then obtain t where t: "parse_stored_time (te_rfc_other env) x = Some t" "v = (if d = MySQL then CellTime t else CellText (rfc3339nano t))"
      using assms(1) Some by (auto simp: restoreCell_def)
    have four: "four_digit_year t" using assms(3) t(1) by (auto simp: time_law_def intro: parse_stored_four_digit [rotated])
    show ?thesis
    proof (cases d)
      case SQLite
      have "v' \<in> {CellText (rfc3339nano t), CellBytes (rfc3339nano t)} \<or> (\<exists>u. v' = CellTime u \<and> four_digit_year u \<and> rfc3339nano t = rfc3339nano u)"
        using assms(2) KindTime t(2) SQLite by (cases v') (auto simp: reads_back_def split: if_splits)
      moreover have "rfc3339nano t = rfc3339nano u \<Longrightarrow> four_digit_year u \<Longrightarrow> u = t" for u using four stamp_value_rfc3339nano by metis
      ultimately have "valueTime env v' = Some t \<and> v' \<noteq> CellNull" using four by auto
      then show ?thesis using KindTime t(2) SQLite four by (simp add: normalizeCell_def restoreCell_def Let_def)
    next
      case MySQL
      then have "v' = CellTime (kept_time t) \<and> four_digit_year (kept_time t)"
        using assms(2) KindTime t(2) by (cases v') (auto simp: reads_back_def)
      then show ?thesis using KindTime t(2) MySQL by (simp add: normalizeCell_def restoreCell_def Let_def)
    qed
  next
    case KindJSON
    then have "v = CellText x" "te_json_valid env x" using assms(1) Some by (auto simp: restoreCell_def split: if_splits)
    moreover from this have "v' = CellText x \<or> v' = CellBytes x" using assms(2) KindJSON by (cases v') (auto simp: reads_back_def)
    ultimately show ?thesis using KindJSON by (auto simp: normalizeCell_def restoreCell_def Let_def)
  next
    case KindText
    then have "v = CellText x" using assms(1) Some by (auto simp: restoreCell_def)
    moreover from this have "v' = CellText x \<or> v' = CellBytes x" using assms(2) KindText by (cases v') (auto simp: reads_back_def)
    ultimately show ?thesis using KindText by (auto simp: normalizeCell_def restoreCell_def Let_def)
  qed
qed

section \<open>Tables there and back\<close>

definition archived_rows :: "text_env \<Rightarrow> dialect \<Rightarrow> archive \<Rightarrow> table_schema \<Rightarrow> cell list list option" where
  "archived_rows env d a schema =
     (case ar_tables a of
        None \<Rightarrow> None
      | Some ts \<Rightarrow> (case map_of ts (fst schema) of None \<Rightarrow> None | Some t \<Rightarrow> those (map (restore_row env d schema) (td_rows t))))"

lemma those_Some: "those (map f xs) = Some ys \<longleftrightarrow> list_all2 (\<lambda>x y. f x = Some y) xs ys"
proof (induction xs arbitrary: ys)
  case Nil
  then show ?case by auto
next
  case (Cons x xs)
  then show ?case by (cases "f x"; cases ys; cases "those (map f xs)") auto
qed

lemma those_map2: "those (map2 f xs ys) = Some zs \<longleftrightarrow> list_all2 (\<lambda>p z. f (fst p) (snd p) = Some z) (zip xs ys) zs"
  by (simp add: those_Some split_def)

lemma map_of_on_table: "map_of (on_table n f db) k = map_option (\<lambda>rows. if k = n then f rows else rows) (map_of db k)"
  by (induction db) (auto simp: on_table_def)

lemma map_option_keeps [simp]: "map_option (\<lambda>old. if P then old @ [] else old) x = x" "map_option (If False y) x = x"
  by (cases x; simp)+

lemma insert_rows_result:
  "insert_rows env schema rows db = Some db' \<Longrightarrow>
   \<exists>rs. those (map (restore_row (sn_text env) (sn_dialect env) schema) rows) = Some rs \<and>
     (\<forall>k. map_of db' k = map_option (\<lambda>old. if k = fst schema then old @ rs else old) (map_of db k))"
proof (induction rows arbitrary: db)
  case Nil
  then show ?case by (simp del: append_Nil2)
next
  case (Cons row rows)
  then obtain r where r: "restore_row (sn_text env) (sn_dialect env) schema row = Some r"
      "insert_rows env schema rows (on_table (fst schema) (\<lambda>rs. rs @ [r]) db) = Some db'"
    by (auto split: option.splits if_splits)
  from Cons.IH [OF r(2)] obtain rs where "those (map (restore_row (sn_text env) (sn_dialect env) schema) rows) = Some rs"
      "\<forall>k. map_of db' k = map_option (\<lambda>old. if k = fst schema then old @ rs else old) (map_of (on_table (fst schema) (\<lambda>rs. rs @ [r]) db) k)" by blast
  moreover have "map_option (\<lambda>old. if k = fst schema then old @ rs else old) (map_of (on_table (fst schema) (\<lambda>rs. rs @ [r]) db) k) =
      map_option (\<lambda>old. if k = fst schema then old @ r # rs else old) (map_of db k)" for k
    by (cases "map_of db k") (simp_all add: map_of_on_table)
  ultimately show ?case using r(1) by simp
qed

lemma restore_tables_result:
  "restore_tables env ts schemas db = Some db' \<Longrightarrow> distinct (map fst schemas) \<Longrightarrow>
   (\<forall>schema \<in> set schemas. \<exists>rs. those (map (restore_row (sn_text env) (sn_dialect env) schema)
        (case map_of ts (fst schema) of None \<Rightarrow> [] | Some t \<Rightarrow> td_rows t)) = Some rs \<and>
      map_of db' (fst schema) = map_option (\<lambda>old. old @ rs) (map_of db (fst schema))) \<and>
   (\<forall>k. k \<notin> fst ` set schemas \<longrightarrow> map_of db' k = map_of db k)"
proof (induction schemas arbitrary: db)
  case (Cons schema schemas)
  let ?rows = "case map_of ts (fst schema) of None \<Rightarrow> [] | Some t \<Rightarrow> td_rows t"
  obtain db1 where db1: "insert_rows env schema ?rows db = Some db1" "restore_tables env ts schemas db1 = Some db'"
    using Cons.prems(1) by (auto split: option.splits)
  obtain rs where rs: "those (map (restore_row (sn_text env) (sn_dialect env) schema) ?rows) = Some rs"
      "\<forall>k. map_of db1 k = map_option (\<lambda>old. if k = fst schema then old @ rs else old) (map_of db k)"
    using insert_rows_result [OF db1(1)] by blast
  have other: "map_of db1 k = map_of db k" if "k \<noteq> fst schema" for k using rs(2) that by (simp add: option.map_ident)
  from Cons.IH [OF db1(2)] Cons.prems(2) have rest:
    "\<forall>s \<in> set schemas. \<exists>rs. those (map (restore_row (sn_text env) (sn_dialect env) s) (case map_of ts (fst s) of None \<Rightarrow> [] | Some t \<Rightarrow> td_rows t)) = Some rs \<and>
      map_of db' (fst s) = map_option (\<lambda>old. old @ rs) (map_of db1 (fst s))"
    "\<forall>k. k \<notin> fst ` set schemas \<longrightarrow> map_of db' k = map_of db1 k" by simp_all
  have "fst s \<noteq> fst schema" if "s \<in> set schemas" for s using that Cons.prems(2) by (metis distinct.simps(2) image_eqI list.map(2) list.set_map)
  then have "map_of db1 (fst s) = map_of db (fst s)" if "s \<in> set schemas" for s using that other by blast
  moreover have "map_of db' (fst schema) = map_of db1 (fst schema)" using rest(2) Cons.prems(2) by simp
  ultimately show ?case using rest rs other by auto
qed simp

lemma schema_names: "distinct (map fst logicalSchema)" "set clear_order = fst ` set logicalSchema" "logicalSchema \<noteq> []"
  by (simp_all add: logicalSchema_def clear_order_def) auto

lemma cleared: "map_of (fold (\<lambda>name. on_table name (\<lambda>_. [])) names db) k = map_option (\<lambda>rows. if k \<in> set names then [] else rows) (map_of db k)"
proof (induction names arbitrary: db)
  case (Cons n names)
  then show ?case by (cases "map_of db k") (simp_all add: map_of_on_table)
qed simp

lemma restore_snapshot_result:
  assumes "restore_snapshot env a db = (None, db')"
  shows "validateLogicalArchive (sn_text env) a \<and>
    (\<forall>schema \<in> set logicalSchema. \<exists>rs. archived_rows (sn_text env) (sn_dialect env) a schema = Some rs \<and> map_of db' (fst schema) = Some rs) \<and>
    (\<forall>k. k \<notin> fst ` set logicalSchema \<longrightarrow> map_of db' k = map_of db k)"
proof -
  have valid: "validateLogicalArchive (sn_text env) a" and tables: "\<And>n. n \<in> set clear_order \<Longrightarrow> map_of db n \<noteq> None"
    and run: "restore_tables env (case ar_tables a of None \<Rightarrow> [] | Some ts \<Rightarrow> ts) logicalSchema (fold (\<lambda>name. on_table name (\<lambda>_. [])) clear_order db) = Some db'"
    using assms by (auto simp: restore_snapshot_def list_ex_iff split: if_splits option.splits)
  obtain m ts where ts: "ar_tables a = Some ts" "ar_manifest a = Some m" "\<forall>schema \<in> set logicalSchema. map_of ts (fst schema) \<noteq> None"
    using valid by (fastforce simp: validateLogicalArchive_def list_all_iff split: option.splits)
  note result = restore_tables_result [OF run schema_names(1)]
  have "\<exists>rs. archived_rows (sn_text env) (sn_dialect env) a schema = Some rs \<and> map_of db' (fst schema) = Some rs" if "schema \<in> set logicalSchema" for schema
  proof -
    obtain t where t: "map_of ts (fst schema) = Some t" using ts(3) \<open>schema \<in> set logicalSchema\<close> by blast
    obtain rs where rs: "those (map (restore_row (sn_text env) (sn_dialect env) schema) (td_rows t)) = Some rs"
        "map_of db' (fst schema) = map_option (\<lambda>old. old @ rs) (map_of (fold (\<lambda>name. on_table name (\<lambda>_. [])) clear_order db) (fst schema))"
      using result \<open>schema \<in> set logicalSchema\<close> t ts(1) by fastforce
    have "fst schema \<in> set clear_order" using \<open>schema \<in> set logicalSchema\<close> schema_names(2) by simp
    then have "map_of db' (fst schema) = Some rs" using rs(2) tables by (auto simp: cleared)
    then show ?thesis using rs(1) t ts(1) by (simp add: archived_rows_def)
  qed
  moreover have "map_of db' k = map_of db k" if "k \<notin> fst ` set logicalSchema" for k
    using result that by (simp add: cleared schema_names(2) option.map_ident)
  ultimately show ?thesis using valid by blast
qed

text \<open>A row a driver gives for a row it was given, and the tables as they are read.\<close>

definition row_reads_back :: "dialect \<Rightarrow> table_schema \<Rightarrow> cell list \<Rightarrow> cell list \<Rightarrow> bool" where
  "row_reads_back d schema row row' \<longleftrightarrow>
     length row = length (snd schema) \<and> length row' = length (snd schema) \<and>
     (\<forall>n < length row. reads_back d (fst (snd schema ! n)) (row ! n) (row' ! n))"

definition tables_read_back :: "dialect \<Rightarrow> database \<Rightarrow> database \<Rightarrow> bool" where
  "tables_read_back d db db' \<longleftrightarrow>
     (\<forall>schema \<in> set logicalSchema. \<exists>rows rows'. map_of db (fst schema) = Some rows \<and> map_of db' (fst schema) = Some rows' \<and>
        list_all2 (row_reads_back d schema) rows rows')"

lemma restore_row_nth:
  "restore_row env d schema srow = Some row \<longleftrightarrow>
     length row = min (length (snd schema)) (length srow) \<and>
     (\<forall>n < length row. restoreCell env d (fst (snd schema ! n)) (srow ! n) = Some (row ! n))"
  by (auto simp: restore_row_def those_map2 list_all2_conv_all_nth simp del: min_less_iff_conj)

lemma export_row_nth:
  "export_row env schema row = Some srow \<longleftrightarrow>
     length srow = min (length (snd schema)) (length row) \<and>
     (\<forall>n < length srow. normalizeCell env (fst (snd schema ! n)) (row ! n) = Some (srow ! n))"
  by (auto simp: export_row_def those_map2 list_all2_conv_all_nth simp del: min_less_iff_conj)

definition kept_row :: "dialect \<Rightarrow> cell list \<Rightarrow> cell list" where
  "kept_row d row = map (kept_cell d) row"

lemma kept_row_simps [simp]: "kept_row d (kept_row d row) = kept_row d row" "kept_row SQLite row = row"
  by (simp_all add: kept_row_def map_idI)

lemma row_round_trip:
  assumes "restore_row env d schema srow = Some row" and "row_reads_back d schema row row'" and "time_law env"
  shows "\<exists>srow'. export_row env schema row' = Some srow' \<and> restore_row env d schema srow' = Some (kept_row d row) \<and> length srow' = length (snd schema)"
proof -
  let ?kind = "\<lambda>n. fst (snd schema ! n)"
  have len: "length row = length (snd schema)" "length row' = length (snd schema)" using assms(2) by (simp_all add: row_reads_back_def)
  have "\<exists>s'. normalizeCell env (?kind n) (row' ! n) = Some s' \<and> restoreCell env d (?kind n) s' = Some (kept_cell d (row ! n))" if "n < length (snd schema)" for n
  proof (rule cell_round_trip [OF _ _ assms(3)])
    show "restoreCell env d (?kind n) (srow ! n) = Some (row ! n)" using assms(1) that len by (simp add: restore_row_nth)
    show "reads_back d (?kind n) (row ! n) (row' ! n)" using assms(2) that len by (simp add: row_reads_back_def)
  qed
  then obtain g where g: "\<And>n. n < length (snd schema) \<Longrightarrow>
      normalizeCell env (?kind n) (row' ! n) = Some (g n) \<and> restoreCell env d (?kind n) (g n) = Some (kept_cell d (row ! n))" by metis
  let ?srow = "map g [0 ..< length (snd schema)]"
  have "export_row env schema row' = Some ?srow" using g len by (simp add: export_row_nth)
  moreover have "restore_row env d schema ?srow = Some (kept_row d row)" using g len by (simp add: restore_row_nth kept_row_def)
  ultimately show ?thesis by auto
qed

lemma rows_round_trip:
  assumes "those (map (restore_row env d schema) srows) = Some rows" and "list_all2 (row_reads_back d schema) rows rows'" and "time_law env"
  shows "\<exists>srows'. those (map (export_row env schema) rows') = Some srows' \<and> those (map (restore_row env d schema) srows') = Some (map (kept_row d) rows) \<and>
    list_all (\<lambda>r. length r = length (snd schema)) srows'"
proof -
  have "list_all2 (\<lambda>x y. restore_row env d schema x = Some y) srows rows" using assms(1) by (simp add: those_Some)
  then show ?thesis using assms(2)
  proof (induction srows rows arbitrary: rows' rule: list_all2_induct)
    case (Cons srow srows row rows)
    then obtain row' more where rows': "rows' = row' # more" "row_reads_back d schema row row'" "list_all2 (row_reads_back d schema) rows more"
      by (cases rows') auto
    obtain srows' where "those (map (export_row env schema) more) = Some srows'" "those (map (restore_row env d schema) srows') = Some (map (kept_row d) rows)"
        "list_all (\<lambda>r. length r = length (snd schema)) srows'" using Cons.IH [OF rows'(3)] by blast
    moreover obtain srow' where "export_row env schema row' = Some srow'" "restore_row env d schema srow' = Some (kept_row d row)" "length srow' = length (snd schema)"
      using row_round_trip [OF Cons.hyps(1) rows'(2) assms(3)] by blast
    ultimately show ?case using rows'(1) by (intro exI [of _ "srow' # srows'"]) simp
  qed simp
qed

lemma dialects_agree: "(restoreCell env d kind s = None) = (restoreCell env d' kind s = None)"
  by (auto simp: restoreCell_def split: option.splits column_kind.splits if_splits)

lemma map_of_map2: "distinct (map fst schemas) \<Longrightarrow> length ts = length schemas \<Longrightarrow> n < length schemas \<Longrightarrow>
    map_of (map2 (\<lambda>schema t. (fst schema, h t)) schemas ts) (fst (schemas ! n)) = Some (h (ts ! n))"
proof (induction schemas arbitrary: ts n)
  case (Cons s schemas)
  obtain t ts' where ts: "ts = t # ts'" using Cons.prems(2) by (cases ts) auto
  show ?case
  proof (cases n)
    case (Suc k)
    then have "fst (schemas ! k) \<noteq> fst s" using Cons.prems(1,3) by (metis Suc_less_eq distinct.simps(2) image_eqI length_Cons list.set_map list.simps(9) nth_mem)
    then show ?thesis using Suc Cons ts by simp
  qed (simp add: ts)
qed simp

text \<open>An archive whose tables all restore is valid.\<close>

lemma exported_archive:
  assumes "those (map (exportTable tenv db) logicalSchema) = Some ts" and "\<not> sn_export_fault env" and "sn_text env = tenv"
    and cells: "\<And>schema t. schema \<in> set logicalSchema \<Longrightarrow> exportTable tenv db schema = Some t \<Longrightarrow>
      list_all (\<lambda>row. length row = length (snd schema) \<and> restore_row tenv SQLite schema row \<noteq> None) (td_rows t)"
  shows "\<exists>a. export_snapshot env db = Some a \<and> validateLogicalArchive tenv a \<and>
    (\<forall>schema \<in> set logicalSchema. \<exists>t. exportTable tenv db schema = Some t \<and>
       archived_rows tenv d a schema = those (map (restore_row tenv d schema) (td_rows t)))"
proof -
  let ?m = "map2 (\<lambda>schema t. (fst schema, int (length (td_rows t)))) logicalSchema ts"
  let ?t = "map2 (\<lambda>schema t. (fst schema, t)) logicalSchema ts"
  have all: "list_all2 (\<lambda>schema t. exportTable tenv db schema = Some t) logicalSchema ts" using assms(1) by (simp add: those_Some)
  then have len: "length ts = length logicalSchema" by (simp add: list_all2_lengthD)
  have nth: "exportTable tenv db (logicalSchema ! n) = Some (ts ! n)" if "n < length logicalSchema" for n
    using all that by (simp add: list_all2_conv_all_nth)
  have at_m: "map_of ?m (fst (logicalSchema ! n)) = Some (int (length (td_rows (ts ! n))))" if "n < length logicalSchema" for n
    by (rule map_of_map2 [OF schema_names(1) len that])
  have at_t: "map_of ?t (fst (logicalSchema ! n)) = Some (ts ! n)" if "n < length logicalSchema" for n
    by (rule map_of_map2 [OF schema_names(1) len that])
  have columns: "td_columns t = columnNames schema" if "exportTable tenv db schema = Some t" for schema t
    using that by (auto simp: exportTable_def split: option.splits)
  have nonempty: "columnNames schema \<noteq> []" if "schema \<in> set logicalSchema" for schema
  proof -
    have "list_all (\<lambda>schema. columnNames schema \<noteq> []) logicalSchema" by (simp add: logicalSchema_def columnNames_def)
    then show ?thesis using that by (simp add: list_all_iff)
  qed
  let ?a = "\<lparr>ar_format = currentFormatVersion, ar_application = sn_application env, ar_created = Some (sn_now env),
      ar_source = dialect_text (sn_dialect env), ar_manifest = Some ?m, ar_tables = Some ?t\<rparr>"
  have a: "export_snapshot env db = Some ?a" using assms(1-3) by (simp add: export_snapshot_def)
  have wide: "length row = length (snd schema)" "restore_row tenv SQLite schema row \<noteq> None"
    if "schema \<in> set logicalSchema" "exportTable tenv db schema = Some t" "row \<in> set (td_rows t)" for schema t row
    using cells [OF that(1,2)] that(3) by (auto simp: list_all_iff)
  have envelope: "validateEnvelopeManifest ?a"
  proof -
    have entry: "case map_of ?t name of None \<Rightarrow> False | Some t \<Rightarrow> count = int (length (td_rows t)) \<and> td_columns t \<noteq> [] \<and> list_all (\<lambda>row. length row = length (td_columns t)) (td_rows t)"
      if hit: "(name, count) \<in> set ?m" for name count
    proof -
      obtain n where n: "n < length logicalSchema" "name = fst (logicalSchema ! n)" "count = int (length (td_rows (ts ! n)))"
        using hit len by (auto simp: set_zip)
      have s: "logicalSchema ! n \<in> set logicalSchema" using n(1) by simp
      have "length row = length (td_columns (ts ! n))" if "row \<in> set (td_rows (ts ! n))" for row
        using wide(1) [OF s nth [OF n(1)] that] columns [OF nth [OF n(1)]] by (simp add: columnNames_def)
      then show ?thesis using n at_t [OF n(1)] columns [OF nth [OF n(1)]] nonempty [OF s] by (simp add: list_all_iff)
    qed
    have "list_all (\<lambda>(name, count). case map_of ?t name of None \<Rightarrow> False
        | Some t \<Rightarrow> count = int (length (td_rows t)) \<and> td_columns t \<noteq> [] \<and> list_all (\<lambda>row. length row = length (td_columns t)) (td_rows t)) ?m"
      unfolding list_all_iff by (intro ballI, clarify, rule entry [unfolded list_all_iff])
    then show ?thesis using len by (cases "sn_dialect env") (simp_all add: validateEnvelopeManifest_def)
  qed
  have rows: "list_all2 (\<lambda>col value. restoreCell tenv SQLite (fst col) value \<noteq> None) (snd schema) row"
    if "length row = length (snd schema)" "restore_row tenv SQLite schema row \<noteq> None" for schema row
    using that by (auto simp: restore_row_nth list_all2_conv_all_nth)
  have "validateLogicalArchive tenv ?a"
  proof -
    have "case map_of ?t (fst schema) of None \<Rightarrow> False | Some t \<Rightarrow>
        (case map_of ?m (fst schema) of None \<Rightarrow> 0 | Some n \<Rightarrow> n) = int (length (td_rows t)) \<and> td_columns t = columnNames schema \<and>
        list_all (\<lambda>row. list_all2 (\<lambda>col value. restoreCell tenv SQLite (fst col) value \<noteq> None) (snd schema) row) (td_rows t)"
      if inside: "schema \<in> set logicalSchema" for schema
    proof -
      obtain n where n: "n < length logicalSchema" "schema = logicalSchema ! n" using inside by (metis in_set_conv_nth)
      have "list_all2 (\<lambda>col value. restoreCell tenv SQLite (fst col) value \<noteq> None) (snd schema) row" if "row \<in> set (td_rows (ts ! n))" for row
        using rows wide [OF _ nth [OF n(1)] that] n by simp
      then show ?thesis using at_t [OF n(1)] at_m [OF n(1)] columns [OF nth [OF n(1)]] n(2) by (simp add: list_all_iff)
    qed
    then show ?thesis using envelope len by (simp add: validateLogicalArchive_def list_all_iff)
  qed
  moreover have "\<exists>t. exportTable tenv db schema = Some t \<and> archived_rows tenv d ?a schema = those (map (restore_row tenv d schema) (td_rows t))"
    if inside: "schema \<in> set logicalSchema" for schema
  proof -
    obtain n where n: "n < length logicalSchema" "schema = logicalSchema ! n" using inside by (metis in_set_conv_nth)
    then show ?thesis using nth [OF n(1)] at_t [OF n(1)] by (simp add: archived_rows_def)
  qed
  ultimately show ?thesis using a by blast
qed

lemma those_all: "(\<And>x. x \<in> set xs \<Longrightarrow> f x \<noteq> None) \<Longrightarrow> \<exists>ys. those (map f xs) = Some ys"
  by (induction xs) (auto, fastforce)

lemma restore_row_dialect: "(restore_row env d schema srow = None) = (restore_row env d' schema srow = None)"
proof -
  have "restore_row env d schema srow \<noteq> None \<Longrightarrow> restore_row env d' schema srow \<noteq> None" for d d'
  proof -
    assume "restore_row env d schema srow \<noteq> None"
    then obtain row where row: "restore_row env d schema srow = Some row" by blast
    have cell: "restoreCell env d' (fst (snd schema ! n)) (srow ! n) \<noteq> None" if "n < min (length (snd schema)) (length srow)" for n
    proof -
      have "restoreCell env d (fst (snd schema ! n)) (srow ! n) \<noteq> None" using row that by (simp add: restore_row_nth del: min_less_iff_conj)
      then show ?thesis by (subst dialects_agree [of env d' _ _ d])
    qed
    define g where "g n = the (restoreCell env d' (fst (snd schema ! n)) (srow ! n))" for n
    have "restore_row env d' schema srow = Some (map g [0 ..< min (length (snd schema)) (length srow)])"
      using cell by (fastforce simp: restore_row_nth g_def)
    then show ?thesis by simp
  qed
  then show ?thesis by blast
qed

text \<open>A valid archive restores into a database with the tables, unless the database refuses a row or fails.\<close>

lemma insert_rows_total:
  assumes "\<forall>row \<in> set rows. restore_row (sn_text env) (sn_dialect env) schema row \<noteq> None" and "map_of db (fst schema) \<noteq> None"
    and "sn_accepts env = (\<lambda>_ _ _. True)"
  shows "\<exists>db'. insert_rows env schema rows db = Some db'"
  using assms(1,2)
proof (induction rows arbitrary: db)
  case (Cons row rows)
  then obtain r where r: "restore_row (sn_text env) (sn_dialect env) schema row = Some r" by auto
  have "map_of (on_table (fst schema) (\<lambda>rs. rs @ [r]) db) (fst schema) \<noteq> None" using Cons.prems(2) by (simp add: map_of_on_table)
  from Cons.IH [OF _ this] Cons.prems show ?case using assms(3) r by simp
qed simp

lemma restore_tables_total:
  assumes "\<forall>schema \<in> set schemas. map_of db (fst schema) \<noteq> None \<and>
      (\<forall>row \<in> set (case map_of ts (fst schema) of None \<Rightarrow> [] | Some t \<Rightarrow> td_rows t). restore_row (sn_text env) (sn_dialect env) schema row \<noteq> None)"
    and "sn_accepts env = (\<lambda>_ _ _. True)"
  shows "\<exists>db'. restore_tables env ts schemas db = Some db'"
  using assms(1)
proof (induction schemas arbitrary: db)
  case (Cons schema schemas)
  let ?rows = "case map_of ts (fst schema) of None \<Rightarrow> [] | Some t \<Rightarrow> td_rows t"
  obtain db1 where db1: "insert_rows env schema ?rows db = Some db1"
    using insert_rows_total [OF _ _ assms(2), of ?rows schema db] Cons.prems by auto
  have "map_of db1 k = None \<longleftrightarrow> map_of db k = None" for k using insert_rows_result [OF db1] by auto
  then obtain db' where "restore_tables env ts schemas db1 = Some db'" using Cons.IH [of db1] Cons.prems by auto
  then show ?case using db1 by simp
qed simp

lemma valid_archive_restores:
  assumes "validateLogicalArchive (sn_text env) a" and "\<not> sn_restore_fault env" and "sn_accepts env = (\<lambda>_ _ _. True)"
    and "\<And>name. name \<in> set clear_order \<Longrightarrow> map_of db name \<noteq> None"
  shows "\<exists>db'. restore_snapshot env a db = (None, db')"
proof -
  obtain m ts where ts: "ar_tables a = Some ts" "ar_manifest a = Some m"
    and rows: "\<forall>schema \<in> set logicalSchema. \<exists>t. map_of ts (fst schema) = Some t \<and>
      (\<forall>row \<in> set (td_rows t). list_all2 (\<lambda>col value. restoreCell (sn_text env) SQLite (fst col) value \<noteq> None) (snd schema) row)"
    using assms(1) by (fastforce simp: validateLogicalArchive_def list_all_iff split: option.splits)
  let ?db = "fold (\<lambda>name. on_table name (\<lambda>_. [])) clear_order db"
  have row: "restore_row (sn_text env) (sn_dialect env) schema row \<noteq> None"
    if cells: "list_all2 (\<lambda>col value. restoreCell (sn_text env) SQLite (fst col) value \<noteq> None) (snd schema) row" for schema row
  proof -
    have "restore_row (sn_text env) SQLite schema row = Some (map (\<lambda>n. the (restoreCell (sn_text env) SQLite (fst (snd schema ! n)) (row ! n))) [0 ..< length row])"
      using cells by (auto simp: restore_row_nth list_all2_conv_all_nth)
    then show ?thesis using restore_row_dialect [of "sn_text env" "sn_dialect env" schema row SQLite] by simp
  qed
  have "map_of ?db (fst schema) \<noteq> None" if "schema \<in> set logicalSchema" for schema
    using that assms(4) [of "fst schema"] schema_names(2) by (simp add: cleared)
  then obtain db' where "restore_tables env ts logicalSchema ?db = Some db'"
    using restore_tables_total [OF _ assms(3), of logicalSchema ?db ts] rows row by fastforce
  moreover have "\<not> list_ex (\<lambda>name. map_of db name = None) clear_order" using assms(4) by (simp add: list_ex_iff)
  ultimately show ?thesis using assms(1,2) ts(1) by (simp add: restore_snapshot_def)
qed

section \<open>Properties\<close>

text \<open>
  C17. A restored database exports unchanged, up to what its columns can hold. After a restore, whatever form the driver gives the
  values back in (text as bytes, flags as numbers, times for their text), the export succeeds, its archive is
  valid, and table by table it stands for the rows of the restored archive: exactly on SQLite, and on MySQL with
  every time rounded to the microsecond of its \<^verbatim>\<open>DATETIME(6)\<close> column, since restoring hands the nanoseconds over. What is kept
  of a row is kept again, so backing up and restoring any number of times loses nothing more.
\<close>

theorem restored_database_exports_unchanged:
  assumes "restore_snapshot env a db = (None, db1)" and "tables_read_back (sn_dialect env) db1 db2" and "time_law (sn_text env)"
    and "sn_text xenv = sn_text env" and "\<not> sn_export_fault xenv"
  shows "\<exists>a'. export_snapshot xenv db2 = Some a' \<and> validateLogicalArchive (sn_text env) a' \<and>
    (\<forall>schema \<in> set logicalSchema. \<exists>rows. map_of db1 (fst schema) = Some rows \<and>
       archived_rows (sn_text env) (sn_dialect env) a schema = Some rows \<and>
       archived_rows (sn_text env) (sn_dialect env) a' schema = Some (map (kept_row (sn_dialect env)) rows) \<and>
       (\<forall>row \<in> set rows. kept_row (sn_dialect env) (kept_row (sn_dialect env) row) = kept_row (sn_dialect env) row \<and>
          (sn_dialect env = SQLite \<longrightarrow> kept_row (sn_dialect env) row = row)))"
proof -
  let ?env = "sn_text env" and ?d = "sn_dialect env"
  note restored = restore_snapshot_result [OF assms(1)]
  have table: "\<exists>t. exportTable ?env db2 schema = Some t \<and> those (map (restore_row ?env ?d schema) (td_rows t)) = map_option (map (kept_row ?d)) (map_of db1 (fst schema)) \<and>
      list_all (\<lambda>r. length r = length (snd schema)) (td_rows t)" if inside: "schema \<in> set logicalSchema" for schema
  proof -
    obtain rows rows' where rows: "map_of db1 (fst schema) = Some rows" "map_of db2 (fst schema) = Some rows'" "list_all2 (row_reads_back ?d schema) rows rows'"
      using assms(2) inside by (auto simp: tables_read_back_def)
    obtain ts t where "ar_tables a = Some ts" "map_of ts (fst schema) = Some t" "those (map (restore_row ?env ?d schema) (td_rows t)) = Some rows"
      using restored inside rows(1) by (fastforce simp: archived_rows_def split: option.splits)
    then obtain srows' where "those (map (export_row ?env schema) rows') = Some srows'" "those (map (restore_row ?env ?d schema) srows') = Some (map (kept_row ?d) rows)"
        "list_all (\<lambda>r. length r = length (snd schema)) srows'" using rows_round_trip [OF _ rows(3) assms(3)] by blast
    then show ?thesis using rows by (simp add: exportTable_def)
  qed
  then obtain ts where ts: "those (map (exportTable ?env db2) logicalSchema) = Some ts" using those_all [of logicalSchema "exportTable ?env db2"] by fastforce
  have cells: "list_all (\<lambda>row. length row = length (snd schema) \<and> restore_row ?env SQLite schema row \<noteq> None) (td_rows t)"
    if inside: "schema \<in> set logicalSchema" and exported: "exportTable ?env db2 schema = Some t" for schema t
  proof -
    obtain rows where "those (map (restore_row ?env ?d schema) (td_rows t)) = Some rows" "list_all (\<lambda>r. length r = length (snd schema)) (td_rows t)"
      using table [OF inside] exported restored inside by fastforce
    then show ?thesis using restore_row_dialect [of ?env SQLite schema _ ?d] by (auto simp: those_Some list_all_iff list_all2_conv_all_nth in_set_conv_nth)
  qed
  obtain a' where a': "export_snapshot xenv db2 = Some a'" "validateLogicalArchive ?env a'"
      "\<forall>schema \<in> set logicalSchema. \<exists>t. exportTable ?env db2 schema = Some t \<and> archived_rows ?env ?d a' schema = those (map (restore_row ?env ?d schema) (td_rows t))"
    using exported_archive [OF ts assms(5,4) cells, of ?d] by blast
  have "\<exists>rows. map_of db1 (fst schema) = Some rows \<and> archived_rows ?env ?d a schema = Some rows \<and>
      archived_rows ?env ?d a' schema = Some (map (kept_row ?d) rows)" if inside: "schema \<in> set logicalSchema" for schema
  proof -
    obtain rows where "map_of db1 (fst schema) = Some rows" "archived_rows ?env ?d a schema = Some rows"
      using restored inside by fastforce
    moreover from this have "archived_rows ?env ?d a' schema = Some (map (kept_row ?d) rows)"
      using a'(3) table [OF inside] inside by fastforce
    ultimately show ?thesis by blast
  qed
  moreover have "kept_row ?d (kept_row ?d row) = kept_row ?d row \<and> (?d = SQLite \<longrightarrow> kept_row ?d row = row)" for row by simp
  ultimately show ?thesis using a'(1,2) by (intro exI [of _ a']) blast
qed

definition sample_text_env :: text_env where
  "sample_text_env = \<lparr>te_json_valid = (\<lambda>_. True), te_rfc_other = (\<lambda>_. None), te_datetime = (\<lambda>_. None), te_sprint_time = rfc3339nano\<rparr>"

definition sample_snapshot_env :: snapshot_env where
  "sample_snapshot_env = \<lparr>sn_text = sample_text_env, sn_dialect = SQLite, sn_application = ''1.0'', sn_now = 5, sn_export_fault = False,
     sn_restore_fault = False, sn_accepts = (\<lambda>_ _ _. True)\<rparr>"

definition empty_database :: database where
  "empty_database = map (\<lambda>schema. (fst schema, [])) logicalSchema"

definition theme_row :: "cell list" where
  "theme_row = [CellText ''theme'', CellText ''1'', CellNull]"

definition sample_database :: database where
  "sample_database = on_table ''settings'' (\<lambda>rows. rows @ [theme_row]) empty_database"

definition sample_archive :: archive where
  "sample_archive = (case export_snapshot sample_snapshot_env sample_database of Some a \<Rightarrow> a | None \<Rightarrow> undefined)"

text \<open>
  A connection in an archive, and what a driver gives back after it was restored: texts as bytes, the flag as 1, and the time it was
  created at, 1567 ns after the epoch, on MySQL rounded to 2000 ns.
\<close>

definition home_columns :: table_schema where
  "home_columns = logicalSchema ! 2"

definition home_archived :: "string option list" where
  "home_archived = [Some ''c1'', Some ''home'', Some ''mock'', Some ''https://h'', Some ''{}'', Some ''YWI='', Some ''bg=='', Some ''1'', Some ''true'',
     Some ''unknown'', None, None, None, None, Some (rfc3339nano 1567), Some (rfc3339nano 1567), None]"

definition home_restored :: "dialect \<Rightarrow> cell list" where
  "home_restored d =
     (let at = (if d = MySQL then CellTime 1567 else CellText (rfc3339nano 1567))
      in [CellText ''c1'', CellText ''home'', CellText ''mock'', CellText ''https://h'', CellText ''{}'', CellBytes ''ab'', CellBytes ''n'', CellInt 1,
          CellBool True, CellText ''unknown'', CellNull, CellNull, CellNull, CellNull, at, at, CellNull])"

definition home_read :: "dialect \<Rightarrow> cell list" where
  "home_read d =
     (let at = CellTime (if d = MySQL then 2000 else 1567)
      in [CellBytes ''c1'', CellBytes ''home'', CellBytes ''mock'', CellBytes ''https://h'', CellBytes ''{}'', CellBytes ''ab'', CellBytes ''n'', CellInt 1,
          CellInt 1, CellBytes ''unknown'', CellNull, CellNull, CellNull, CellNull, at, at, CellNull])"

definition home_rows :: "'a \<Rightarrow> table_schema \<Rightarrow> 'a list" where
  "home_rows row schema = (if fst schema = ''provider_connections'' then [row] else [])"

definition home_database :: "cell list \<Rightarrow> database" where
  "home_database row = map (\<lambda>schema. (fst schema, home_rows row schema)) logicalSchema"

definition home_archive :: archive where
  "home_archive = \<lparr>ar_format = 1, ar_application = ''1.0'', ar_created = Some 5, ar_source = ''sqlite'',
     ar_manifest = Some (map (\<lambda>schema. (fst schema, int (length (home_rows home_archived schema)))) logicalSchema),
     ar_tables = Some (map (\<lambda>schema. (fst schema, \<lparr>td_columns = columnNames schema, td_rows = home_rows home_archived schema\<rparr>)) logicalSchema)\<rparr>"

lemma home_years: "four_digit_year 1567" "four_digit_year 2000" "kept_time 1567 = 2000"
proof -
  have "civil_year 1970 0 = (1970, 0)" by (subst civil_year.simps) (simp add: year_length_def)
  then show "four_digit_year 1567" "four_digit_year 2000" by (simp_all add: four_digit_year_def second_def)
qed (simp add: kept_time_def)

lemma home_row_restores: "restore_row sample_text_env d home_columns home_archived = Some (home_restored d)"
proof -
  have "base64_unpadded ''YWI='' = Some ''ab''" "base64_unpadded ''bg=='' = Some ''n''" "parse_int ''1'' = Some 1" "parse_bool ''true'' = Some True"
    by code_simp+
  then show ?thesis using home_years
    by (simp add: restore_row_def home_columns_def logicalSchema_def home_archived_def home_restored_def restoreCell_def sample_text_env_def Let_def)
qed

lemma home_tables: "fst home_columns = ''provider_connections''" "length (snd home_columns) = 17" "home_columns \<in> set logicalSchema"
  by (simp_all add: home_columns_def logicalSchema_def)

lemma home_rows_simps: "schema \<in> set logicalSchema \<Longrightarrow> home_rows row schema = (if schema = home_columns then [row] else [])"
proof -
  assume "schema \<in> set logicalSchema"
  then have "fst schema = ''provider_connections'' \<longleftrightarrow> schema = home_columns"
    using schema_names(1) home_tables(1,3) by (metis distinct_map inj_onD)
  then show ?thesis by (simp add: home_rows_def)
qed

lemma map_of_schemas: "schema \<in> set logicalSchema \<Longrightarrow> map_of (map (\<lambda>s. (fst s, h s)) logicalSchema) (fst schema) = Some (h schema)"
  using schema_names(1) by (force simp: map_of_eq_Some_iff comp_def)

lemma home_archive_valid: "validateLogicalArchive sample_text_env home_archive"
proof -
  have cells: "list_all2 (\<lambda>col value. restoreCell sample_text_env SQLite (fst col) value \<noteq> None) (snd home_columns) home_archived"
    using home_row_restores [of SQLite] home_tables(2)
    by (auto simp: restore_row_nth list_all2_conv_all_nth home_archived_def home_restored_def Let_def)
  have "length home_archived = length (columnNames home_columns)" by (simp add: home_archived_def columnNames_def home_tables(2))
  moreover have "columnNames schema \<noteq> []" if "schema \<in> set logicalSchema" for schema
  proof -
    have "list_all (\<lambda>schema. columnNames schema \<noteq> []) logicalSchema" by (simp add: logicalSchema_def columnNames_def)
    then show ?thesis using that by (simp add: list_all_iff)
  qed
  ultimately have "validateEnvelopeManifest home_archive"
    by (auto simp: validateEnvelopeManifest_def home_archive_def currentFormatVersion_def list_all_iff map_of_schemas home_rows_simps)
  then show ?thesis using cells
    by (auto simp: validateLogicalArchive_def home_archive_def list_all_iff map_of_schemas home_rows_simps)
qed

lemma home_archived_rows: "schema \<in> set logicalSchema \<Longrightarrow> archived_rows sample_text_env d home_archive schema = Some (home_rows (home_restored d) schema)"
  using home_row_restores [of d] by (simp add: archived_rows_def home_archive_def map_of_schemas home_rows_simps)

lemma home_reads_back: "row_reads_back d home_columns (home_restored d) (home_read d)"
proof -
  let ?r = "\<lambda>(kind, v, v'). reads_back d kind v v'"
  have "list_all ?r (zip (map fst (snd home_columns)) (zip (home_restored d) (home_read d)))"
    using home_years by (simp add: home_columns_def logicalSchema_def home_restored_def home_read_def reads_back_def Let_def)
  moreover have len: "length (home_restored d) = 17" "length (home_read d) = 17" by (simp_all add: home_restored_def home_read_def Let_def)
  ultimately show ?thesis using home_tables(2) by (simp add: row_reads_back_def list_all_length)
qed

definition home_env :: "dialect \<Rightarrow> snapshot_env" where
  "home_env d = sample_snapshot_env\<lparr>sn_dialect := d\<rparr>"

lemma home_env_fields [simp]: "sn_text (home_env d) = sample_text_env" "sn_dialect (home_env d) = d" "\<not> sn_export_fault (home_env d)"
  "\<not> sn_restore_fault (home_env d)" "sn_accepts (home_env d) = (\<lambda>_ _ _. True)"
  by (simp_all add: home_env_def sample_snapshot_env_def)

theorem restored_database_exports_unchanged_witness:
  "\<forall>d. \<exists>db1 a'. restore_snapshot (home_env d) home_archive empty_database = (None, db1) \<and>
     export_snapshot (home_env d) (home_database (home_read d)) = Some a' \<and>
     archived_rows sample_text_env d home_archive home_columns = Some [home_restored d] \<and>
     archived_rows sample_text_env d a' home_columns = Some [kept_row d (home_restored d)] \<and>
     kept_row MySQL (home_restored MySQL) ! 14 = CellTime 2000"
proof
  fix d
  have exists: "map_of empty_database name \<noteq> None" if "name \<in> set clear_order" for name
    using that by (simp add: empty_database_def map_of_eq_None_iff schema_names(2) image_image)
  obtain db1 where db1: "restore_snapshot (home_env d) home_archive empty_database = (None, db1)"
    using valid_archive_restores [of "home_env d" home_archive empty_database] exists home_archive_valid by auto
  note restored = restore_snapshot_result [OF db1]
  have "map_of db1 (fst schema) = Some (home_rows (home_restored d) schema)" if "schema \<in> set logicalSchema" for schema
    using restored that home_archived_rows [OF that, of d] by fastforce
  then have read: "tables_read_back (sn_dialect (home_env d)) db1 (home_database (home_read d))"
    using home_reads_back [of d] by (simp add: tables_read_back_def home_database_def map_of_schemas home_rows_simps)
  have law: "time_law (sn_text (home_env d))" by (simp add: time_law_def sample_text_env_def)
  obtain a' where a': "export_snapshot (home_env d) (home_database (home_read d)) = Some a'"
      "archived_rows sample_text_env d a' home_columns = Some (map (kept_row d) (the (archived_rows sample_text_env d home_archive home_columns)))"
    using restored_database_exports_unchanged [OF db1 read law, of "home_env d"] home_tables(3) by fastforce
  have "archived_rows sample_text_env d home_archive home_columns = Some [home_restored d]"
    using home_archived_rows [OF home_tables(3)] home_tables(3) by (simp add: home_rows_simps)
  moreover have "kept_row MySQL (home_restored MySQL) ! 14 = CellTime 2000"
    by (simp add: kept_row_def home_restored_def home_years Let_def)
  ultimately show "\<exists>db1 a'. restore_snapshot (home_env d) home_archive empty_database = (None, db1) \<and>
     export_snapshot (home_env d) (home_database (home_read d)) = Some a' \<and>
     archived_rows sample_text_env d home_archive home_columns = Some [home_restored d] \<and>
     archived_rows sample_text_env d a' home_columns = Some [kept_row d (home_restored d)] \<and>
     kept_row MySQL (home_restored MySQL) ! 14 = CellTime 2000" using db1 a' by auto
qed

end
