(* ===== verification/BackupService.thy ===== *)
theory BackupService imports BackupArchive OpService ConsolePolicy begin

text \<open>
  Encrypted backups: \<^verbatim>\<open>envelope.go\<close>, \<^verbatim>\<open>service.go\<close>, \<^verbatim>\<open>sql_repository.go\<close>, \<^verbatim>\<open>activity.go\<close> and \<^verbatim>\<open>http.go\<close> of \<^verbatim>\<open>internal/backup\<close>.
  scrypt, AES-GCM, SHA-256, the JSON texts and the file system's refusals are parameters. A file is written under another name and
  renamed, so it is there as a whole or not at all. The mutex of the service makes create and restore atomic; only
  the check for active work comes before it.
\<close>

section \<open>The envelope\<close>

record envelope =
  ev_magic :: string
  ev_version :: int
  ev_kdf :: string
  ev_n :: int
  ev_r :: int
  ev_p :: int
  ev_salt :: string
  ev_nonce :: string
  ev_ciphertext :: string

text \<open>
  \<open>sl_envelope_of\<close> decodes the one JSON value of a text, with no unknown member and nothing behind it. \<open>sl_key\<close> is scrypt with
  the fixed cost parameters, the only ones that are accepted.
\<close>

record seal_env =
  sl_salt :: "string option"
  sl_nonce :: "string option"
  sl_key :: "string \<Rightarrow> string \<Rightarrow> string option"
  sl_encrypt :: "string \<Rightarrow> string \<Rightarrow> string \<Rightarrow> string \<Rightarrow> string"
  sl_decrypt :: "string \<Rightarrow> string \<Rightarrow> string \<Rightarrow> string \<Rightarrow> string option"
  sl_marshal :: "archive \<Rightarrow> string option"
  sl_unmarshal :: "string \<Rightarrow> archive option"
  sl_envelope_text :: "envelope \<Rightarrow> string"
  sl_envelope_of :: "string \<Rightarrow> envelope option"

definition associated_data :: string where
  "associated_data = ''SCPB:1''"

definition sealed_envelope :: "string \<Rightarrow> string \<Rightarrow> string \<Rightarrow> envelope" where
  "sealed_envelope salt nonce ciphertext =
     \<lparr>ev_magic = ''SCPB'', ev_version = currentFormatVersion, ev_kdf = ''scrypt'', ev_n = 32768, ev_r = 8, ev_p = 1, ev_salt = salt,
      ev_nonce = nonce, ev_ciphertext = ciphertext\<rparr>"

definition seal_archive :: "seal_env \<Rightarrow> archive \<Rightarrow> string \<Rightarrow> archive_error + string" where
  "seal_archive env a passphrase =
     (if \<not> validateEnvelopeManifest a then Inl ErrInvalidManifest
      else if length passphrase < 12 \<or> length passphrase > 1024 then Inl ErrInvalidBackup
      else (case (sl_marshal env a, sl_salt env) of
              (Some plaintext, Some salt) \<Rightarrow>
                (case (sl_key env passphrase salt, sl_nonce env) of
                   (Some key, Some nonce) \<Rightarrow>
                     Inr (sl_envelope_text env (sealed_envelope salt nonce (sl_encrypt env key nonce plaintext associated_data)))
                 | _ \<Rightarrow> Inl ErrBackupOther)
            | _ \<Rightarrow> Inl ErrBackupOther))"

definition maximum_backup :: nat where
  "maximum_backup = 512 * 1024 * 1024"

definition envelope_accepted :: "envelope \<Rightarrow> bool" where
  "envelope_accepted e \<longleftrightarrow>
     ev_magic e = ''SCPB'' \<and> ev_version e = currentFormatVersion \<and> ev_kdf e = ''scrypt'' \<and> ev_n e = 32768 \<and> ev_r e = 8 \<and> ev_p e = 1 \<and>
     length (ev_salt e) = 16 \<and> length (ev_nonce e) = 12 \<and> 16 \<le> length (ev_ciphertext e)"

definition open_archive :: "seal_env \<Rightarrow> string \<Rightarrow> string \<Rightarrow> archive_error + archive" where
  "open_archive env data passphrase =
     (if passphrase = [] \<or> data = [] \<or> length data > maximum_backup then Inl ErrInvalidBackup
      else (case sl_envelope_of env data of
              None \<Rightarrow> Inl ErrInvalidBackup
            | Some e \<Rightarrow>
                (if \<not> envelope_accepted e then Inl ErrInvalidBackup
                 else (case sl_key env passphrase (ev_salt e) of
                         None \<Rightarrow> Inl ErrInvalidBackup
                       | Some key \<Rightarrow>
                           (case sl_decrypt env key (ev_nonce e) (ev_ciphertext e) associated_data of
                              None \<Rightarrow> Inl ErrInvalidBackup
                            | Some plaintext \<Rightarrow>
                                (case sl_unmarshal env plaintext of
                                   None \<Rightarrow> Inl ErrInvalidBackup
                                 | Some a \<Rightarrow> (if validateEnvelopeManifest a then Inr a else Inl ErrInvalidManifest)))))))"

section \<open>The table of backups\<close>

datatype archive_kind = KindManual | KindSafety

fun archive_kind_text :: "archive_kind \<Rightarrow> string" where
  "archive_kind_text KindManual = ''manual''"
| "archive_kind_text KindSafety = ''safety''"

datatype archive_status = StatusReady | StatusUnusable

record metadata =
  bm_id :: string
  bm_filename :: string
  bm_size :: nat
  bm_sha :: string
  bm_format :: int
  bm_kind :: archive_kind
  bm_status :: archive_status
  bm_manifest :: json
  bm_created :: time

definition insert_metadata :: "bool \<Rightarrow> metadata \<Rightarrow> metadata list \<Rightarrow> metadata list option" where
  "insert_metadata fault m tbl =
     (if fault \<or> find_by bm_id (bm_id m) tbl \<noteq> None \<or> find_by bm_filename (bm_filename m) tbl \<noteq> None then None else Some (tbl @ [m]))"

definition find_metadata :: "bool \<Rightarrow> string \<Rightarrow> metadata list \<Rightarrow> archive_error + metadata" where
  "find_metadata fault i tbl =
     (if fault then Inl ErrBackupOther else (case find_by bm_id i tbl of None \<Rightarrow> Inl ErrBackupNotFound | Some m \<Rightarrow> Inr m))"

definition newest_backup_first :: "(time \<Rightarrow> time \<Rightarrow> bool) \<Rightarrow> metadata \<Rightarrow> metadata \<Rightarrow> bool" where
  "newest_backup_first le a b \<longleftrightarrow>
     le (bm_created b) (bm_created a) \<and> (le (bm_created a) (bm_created b) \<longrightarrow> text_le (bm_id b) (bm_id a))"

definition list_metadata :: "bool \<Rightarrow> (time \<Rightarrow> time \<Rightarrow> bool) \<Rightarrow> metadata list \<Rightarrow> archive_error + metadata list" where
  "list_metadata fault le tbl =
     (if fault then Inl ErrBackupOther else Inr (foldr (insert_sorted (newest_backup_first le)) tbl []))"

section \<open>The service\<close>

record backup_world =
  bw_db :: database
  bw_backups :: "metadata list"
  bw_files :: "(string \<times> string) list"

text \<open>What a call meets; \<open>bv_sha\<close> gives the hexadecimal SHA-256 and \<open>bv_json_text\<close> the text of a JSON document.\<close>

record backup_env =
  bv_snapshot :: snapshot_env
  bv_seal :: seal_env
  bv_id :: string
  bv_now :: time
  bv_write_fault :: bool
  bv_insert_fault :: bool
  bv_find_fault :: bool
  bv_read_fault :: bool
  bv_audit_fault :: bool
  bv_audit_id :: string
  bv_audit_now :: time
  bv_sha :: "string \<Rightarrow> string"
  bv_json_text :: "json \<Rightarrow> string"

definition compact_stamp :: "time \<Rightarrow> string" where
  "compact_stamp t = filter (\<lambda>c. c \<noteq> CHR ''-'' \<and> c \<noteq> CHR '':'') (civil_prefix (t div second)) @ ''Z''"

definition backup_filename :: "time \<Rightarrow> string \<Rightarrow> string" where
  "backup_filename at i = ''controlpanel-'' @ compact_stamp at @ ''-'' @ i @ ''.scpb''"

text \<open>\<^verbatim>\<open>json.Marshal\<close> of a map writes its members by name.\<close>

definition manifest_json :: "archive \<Rightarrow> json" where
  "manifest_json a =
     (case ar_manifest a of
        None \<Rightarrow> JNull
      | Some m \<Rightarrow> JObj (foldr (insert_sorted (\<lambda>x y. text_le (fst x) (fst y))) (map (\<lambda>(name, n). (name, JNum n)) m) []))"

text \<open>\<open>Append\<close> of the audit log, as a row of \<^verbatim>\<open>audit_logs\<close>.\<close>

definition audit_row :: "backup_env \<Rightarrow> audit_entry \<Rightarrow> cell list" where
  "audit_row env e =
     [CellText (ae_id e), CellText (ae_event_type e), CellText (ae_target_type e), CellText (ae_target e), CellText (ae_request_id e),
      CellText (ae_source_ip e), CellText (bv_json_text env (ae_metadata e)),
      (if sn_dialect (bv_snapshot env) = MySQL then CellTime (ae_created e) else CellText (rfc3339nano (ae_created e)))]"

definition append_backup_audit :: "backup_env \<Rightarrow> string \<Rightarrow> string \<Rightarrow> string \<times> string \<Rightarrow> json \<Rightarrow> backup_world \<Rightarrow> bool \<times> backup_world" where
  "append_backup_audit env event target origin detail w =
     (let row = audit_row env \<lparr>ae_id = bv_audit_id env, ae_event_type = event, ae_target_type = ''backup'', ae_target = target,
            ae_request_id = fst origin, ae_source_ip = snd origin, ae_metadata = detail, ae_created = bv_audit_now env\<rparr>
      in if bv_audit_fault env \<or> \<not> sn_accepts (bv_snapshot env) ''audit_logs'' (bw_db w) row then (False, w)
         else (True, w\<lparr>bw_db := on_table ''audit_logs'' (\<lambda>rows. rows @ [row]) (bw_db w)\<rparr>))"

definition new_metadata :: "backup_env \<Rightarrow> archive_kind \<Rightarrow> archive \<Rightarrow> string \<Rightarrow> metadata" where
  "new_metadata env kind a data =
     \<lparr>bm_id = bv_id env, bm_filename = backup_filename (bv_now env) (bv_id env), bm_size = length data, bm_sha = bv_sha env data,
      bm_format = ar_format a, bm_kind = kind, bm_status = StatusReady, bm_manifest = manifest_json a, bm_created = bv_now env\<rparr>"

text \<open>\<open>origin\<close>: the id of the request and the address it came from.\<close>

definition createLocked :: "backup_env \<Rightarrow> string \<Rightarrow> archive_kind \<Rightarrow> string \<times> string \<Rightarrow> backup_world \<Rightarrow> (archive_error + metadata) \<times> backup_world" where
  "createLocked env passphrase kind origin w =
     (case export_snapshot (bv_snapshot env) (bw_db w) of
        None \<Rightarrow> (Inl ErrBackupOther, w)
      | Some a \<Rightarrow>
          (case seal_archive (bv_seal env) a passphrase of
             Inl e \<Rightarrow> (Inl e, w)
           | Inr data \<Rightarrow>
               (let m = new_metadata env kind a data
                in if bv_write_fault env then (Inl ErrBackupOther, w)
                   else (let w1 = w\<lparr>bw_files := put_key (bm_filename m) data (bw_files w)\<rparr>
                         in case insert_metadata (bv_insert_fault env) m (bw_backups w1) of
                              None \<Rightarrow> (Inl ErrBackupOther, w1\<lparr>bw_files := delete_key (bm_filename m) (bw_files w1)\<rparr>)
                            | Some tbl \<Rightarrow>
                                (let (ok, w2) = append_backup_audit env ''backup_created'' (bm_id m) origin
                                       (JObj [(''format_version'', JNum (ar_format a)), (''kind'', JStr (archive_kind_text kind))])
                                       (w1\<lparr>bw_backups := tbl\<rparr>)
                                 in (if ok then Inr m else Inl ErrBackupOther, w2))))))"

definition ends_with :: "string \<Rightarrow> string \<Rightarrow> bool" where
  "ends_with s suffix \<longleftrightarrow> length suffix \<le> length s \<and> drop (length s - length suffix) s = suffix"

text \<open>\<^verbatim>\<open>filepath.Base(f) = f\<close> of a name with the suffix: it has no slash.\<close>

definition readVerified :: "backup_env \<Rightarrow> string \<Rightarrow> backup_world \<Rightarrow> archive_error + metadata \<times> string" where
  "readVerified env i w =
     (case find_metadata (bv_find_fault env) i (bw_backups w) of
        Inl e \<Rightarrow> Inl e
      | Inr m \<Rightarrow>
          (if CHR ''/'' \<in> set (bm_filename m) \<or> \<not> ends_with (bm_filename m) ''.scpb'' then Inl ErrInvalidBackup
           else (case map_of (bw_files w) (bm_filename m) of
                   None \<Rightarrow> Inl ErrBackupOther
                 | Some data \<Rightarrow>
                     (if bv_read_fault env \<or> length data > maximum_backup then Inl ErrInvalidBackup
                      else if go_lower (bv_sha env data) \<noteq> go_lower (bm_sha m) \<or> length data \<noteq> bm_size m then Inl ErrChecksumMismatch
                      else Inr (m, data)))))"

definition download_archive :: "backup_env \<Rightarrow> string \<Rightarrow> backup_world \<Rightarrow> archive_error + string \<times> string" where
  "download_archive env i w =
     (case readVerified env i w of Inl e \<Rightarrow> Inl e | Inr (m, data) \<Rightarrow> Inr (data, bm_filename m))"

text \<open>The archive of a stored backup that \<open>Validate\<close> and \<open>Restore\<close> go on with.\<close>

definition verified_archive :: "backup_env \<Rightarrow> string \<Rightarrow> string \<Rightarrow> backup_world \<Rightarrow> archive_error + archive" where
  "verified_archive env i passphrase w =
     (case readVerified env i w of
        Inl e \<Rightarrow> Inl e
      | Inr (m, data) \<Rightarrow>
          (case open_archive (bv_seal env) data passphrase of
             Inl e \<Rightarrow> Inl e
           | Inr a \<Rightarrow> (if validateLogicalArchive (sn_text (bv_snapshot env)) a then Inr a else Inl ErrInvalidManifest)))"

record validation =
  vd_format :: int
  vd_application :: string
  vd_created :: "time option"
  vd_manifest :: "(string \<times> int) list option"

definition validate_backup :: "backup_env \<Rightarrow> string \<Rightarrow> string \<Rightarrow> backup_world \<Rightarrow> archive_error + validation" where
  "validate_backup env i passphrase w =
     (case verified_archive env i passphrase w of
        Inl e \<Rightarrow> Inl e
      | Inr a \<Rightarrow> Inr \<lparr>vd_format = ar_format a, vd_application = ar_application a, vd_created = ar_created a, vd_manifest = ar_manifest a\<rparr>)"

section \<open>Restoring\<close>

text \<open>A text, in either form a driver has for it.\<close>

definition status_cells :: "string list \<Rightarrow> cell list" where
  "status_cells texts = map CellText texts @ map CellBytes texts"

definition column_value :: "table_schema \<Rightarrow> string \<Rightarrow> cell list \<Rightarrow> cell option" where
  "column_value schema column row = map_of (zip (columnNames schema) row) column"

definition count_status :: "database \<Rightarrow> table_schema \<Rightarrow> string list \<Rightarrow> nat" where
  "count_status db schema texts =
     length (filter (\<lambda>row. case column_value schema ''status'' row of None \<Rightarrow> False | Some v \<Rightarrow> v \<in> set (status_cells texts))
       (case map_of db (fst schema) of None \<Rightarrow> [] | Some rows \<Rightarrow> rows))"

definition jobs_schema :: table_schema where
  "jobs_schema = logicalSchema ! 4"

definition operations_schema :: table_schema where
  "operations_schema = logicalSchema ! 5"

definition has_active_work :: "database \<Rightarrow> bool" where
  "has_active_work db \<longleftrightarrow>
     0 < count_status db operations_schema [''queued'', ''running'', ''verifying''] + count_status db jobs_schema [''queued'', ''running'']"

text \<open>
  \<open>rv_meanwhile\<close> is what other goroutines do to the database between the check and the lock. The safety backup and the restore
  append one audit entry each; the fields \<open>rv_audit\<close> are of the second.
\<close>

record restore_env =
  rv_env :: backup_env
  rv_activity_fault :: bool
  rv_meanwhile :: "database \<Rightarrow> database"
  rv_audit_env :: backup_env

definition restore_backup :: "restore_env \<Rightarrow> string \<Rightarrow> string \<Rightarrow> string \<times> string \<Rightarrow> backup_world \<Rightarrow> archive_error option \<times> backup_world" where
  "restore_backup r i passphrase origin w =
     (if rv_activity_fault r then (Some ErrBackupOther, w)
      else if has_active_work (bw_db w) then (Some ErrActiveWork, w)
      else
        (let env = rv_env r;
             w1 = w\<lparr>bw_db := rv_meanwhile r (bw_db w)\<rparr>
         in case verified_archive env i passphrase w1 of
              Inl e \<Rightarrow> (Some e, w1)
            | Inr a \<Rightarrow>
                (case createLocked env passphrase KindSafety origin w1 of
                   (Inl e, w2) \<Rightarrow> (Some e, w2)
                 | (Inr _, w2) \<Rightarrow>
                     (case restore_snapshot (bv_snapshot env) a (bw_db w2) of
                        (Some e, _) \<Rightarrow> (Some e, w2)
                      | (None, db) \<Rightarrow>
                          (let (ok, w3) = append_backup_audit (rv_audit_env r) ''backup_restored'' i origin
                                 (JObj [(''format_version'', JNum (ar_format a))]) (w2\<lparr>bw_db := db\<rparr>)
                           in (if ok then None else Some ErrBackupOther, w3))))))"

section \<open>HTTP\<close>

definition metadata_json :: "metadata \<Rightarrow> json" where
  "metadata_json m = JObj
     [(''id'', JStr (bm_id m)), (''filename'', JStr (bm_filename m)), (''size_bytes'', JNum (int (bm_size m))), (''sha256'', JStr (bm_sha m)),
      (''format_version'', JNum (bm_format m)), (''kind'', JStr (archive_kind_text (bm_kind m))),
      (''status'', JStr (case bm_status m of StatusReady \<Rightarrow> ''ready'' | StatusUnusable \<Rightarrow> ''failed'')),
      (''manifest'', bm_manifest m), (''created_at'', time_json (bm_created m))]"

fun write_backup_error :: "string \<Rightarrow> archive_error \<Rightarrow> http_response" where
  "write_backup_error i ErrBackupNotFound = write_error i 404 ''backup_not_found'' ''Backup was not found''"
| "write_backup_error i ErrActiveWork = write_error i 409 ''active_work'' ''Wait for active operations and jobs before restoring''"
| "write_backup_error i ErrInvalidBackup = write_error i 422 ''backup_invalid'' ''Backup validation failed''"
| "write_backup_error i ErrInvalidManifest = write_error i 422 ''backup_invalid'' ''Backup validation failed''"
| "write_backup_error i ErrChecksumMismatch = write_error i 422 ''backup_invalid'' ''Backup validation failed''"
| "write_backup_error i ErrBackupOther = write_error i 500 ''internal_error'' ''Unable to process backup''"

text \<open>
  The body: its first JSON value, when there is one within 4096 bytes, and whether anything follows it. Names are matched
  without case and \<^verbatim>\<open>null\<close> leaves a member as it is.
\<close>

fun take_passphrase :: "(string \<times> json) list \<Rightarrow> string \<times> string \<Rightarrow> (string \<times> string) option" where
  "take_passphrase [] x = Some x"
| "take_passphrase ((k, v) # ms) (p, i) =
     (if go_lower k = ''passphrase'' then (case v of JStr s \<Rightarrow> take_passphrase ms (s, i) | JNull \<Rightarrow> take_passphrase ms (p, i) | _ \<Rightarrow> None)
      else if go_lower k = ''backup_id'' then (case v of JStr s \<Rightarrow> take_passphrase ms (p, s) | JNull \<Rightarrow> take_passphrase ms (p, i) | _ \<Rightarrow> None)
      else None)"

definition decodePassphrase :: "string \<Rightarrow> (json \<times> bool) option \<Rightarrow> http_response + string \<times> string" where
  "decodePassphrase i body =
     (case (case body of Some (JObj ms, _) \<Rightarrow> take_passphrase ms ([], []) | Some (JNull, _) \<Rightarrow> Some ([], []) | _ \<Rightarrow> None) of
        None \<Rightarrow> Inl (write_error i 400 ''invalid_request'' ''A backup passphrase of at least 12 characters is required'')
      | Some (p, target) \<Rightarrow>
          (if length p < 12 \<or> length p > 1024
           then Inl (write_error i 400 ''invalid_request'' ''A backup passphrase of at least 12 characters is required'')
           else if snd (the body) then Inl (write_error i 400 ''invalid_request'' ''Request body is invalid'')
           else Inr (p, target)))"

definition backupRequestID :: "string \<Rightarrow> string \<Rightarrow> string" where
  "backupRequestID fresh header = (let v = go_trim header in if v = [] \<or> length v > 255 then fresh else v)"

definition backupSourceIP :: "string \<Rightarrow> string" where
  "backupSourceIP address = (case split_host_port address of Some (h, p) \<Rightarrow> h | None \<Rightarrow> address)"

definition list_backups_route :: "string \<Rightarrow> bool \<Rightarrow> (time \<Rightarrow> time \<Rightarrow> bool) \<Rightarrow> backup_world \<Rightarrow> http_response" where
  "list_backups_route i fault le w =
     (case list_metadata fault le (bw_backups w) of
        Inl e \<Rightarrow> write_backup_error i e
      | Inr ms \<Rightarrow> \<lparr>hr_status = 200, hr_body = JObj [(''backups'', JArr (map metadata_json ms)), (''total'', JNum (int (length ms)))]\<rparr>)"

record backup_request =
  bq_body :: "(json \<times> bool) option"
  bq_request_id :: string
  bq_remote :: string

definition origin_of :: "string \<Rightarrow> backup_request \<Rightarrow> string \<times> string" where
  "origin_of fresh q = (backupRequestID fresh (bq_request_id q), backupSourceIP (bq_remote q))"

definition create_backup_route :: "string \<Rightarrow> string \<Rightarrow> backup_env \<Rightarrow> backup_request \<Rightarrow> backup_world \<Rightarrow> http_response \<times> backup_world" where
  "create_backup_route i fresh env q w =
     (case decodePassphrase i (bq_body q) of
        Inl r \<Rightarrow> (r, w)
      | Inr (p, _) \<Rightarrow>
          (case createLocked env p KindManual (origin_of fresh q) w of
             (Inl e, w') \<Rightarrow> (write_backup_error i e, w')
           | (Inr m, w') \<Rightarrow> (\<lparr>hr_status = 201, hr_body = JObj [(''backup'', metadata_json m)]\<rparr>, w')))"

text \<open>The download: an error, or the file with its name.\<close>

definition download_archive_route :: "string \<Rightarrow> backup_env \<Rightarrow> string \<Rightarrow> backup_world \<Rightarrow> http_response + string \<times> string" where
  "download_archive_route i env target w =
     (case download_archive env target w of Inl e \<Rightarrow> Inl (write_backup_error i e) | Inr file \<Rightarrow> Inr file)"

definition validation_json :: "validation \<Rightarrow> json" where
  "validation_json v = JObj
     [(''format_version'', JNum (vd_format v)), (''application_version'', JStr (vd_application v)),
      (''created_at'', optional_time_json (vd_created v)),
      (''manifest'', (case vd_manifest v of None \<Rightarrow> JNull
         | Some m \<Rightarrow> JObj (foldr (insert_sorted (\<lambda>x y. text_le (fst x) (fst y))) (map (\<lambda>(name, n). (name, JNum n)) m) [])))]"

definition validate_backup_route :: "string \<Rightarrow> backup_env \<Rightarrow> backup_request \<Rightarrow> backup_world \<Rightarrow> http_response" where
  "validate_backup_route i env q w =
     (case decodePassphrase i (bq_body q) of
        Inl r \<Rightarrow> r
      | Inr (p, target) \<Rightarrow>
          (case validate_backup env (go_trim target) p w of
             Inl e \<Rightarrow> write_backup_error i e
           | Inr v \<Rightarrow> \<lparr>hr_status = 200, hr_body = JObj [(''validation'', validation_json v)]\<rparr>))"

definition restore_backup_route :: "string \<Rightarrow> string \<Rightarrow> restore_env \<Rightarrow> string \<Rightarrow> backup_request \<Rightarrow> backup_world \<Rightarrow> http_response \<times> backup_world" where
  "restore_backup_route i fresh r target q w =
     (case decodePassphrase i (bq_body q) of
        Inl answer \<Rightarrow> (answer, w)
      | Inr (p, _) \<Rightarrow>
          (case restore_backup r target p (origin_of fresh q) w of
             (Some e, w') \<Rightarrow> (write_backup_error i e, w')
           | (None, w') \<Rightarrow> (\<lparr>hr_status = 200, hr_body = JObj [(''status'', JStr ''restored'')]\<rparr>, w')))"

section \<open>Files and rows of a backup\<close>

text \<open>A backup is kept: its row and its file are there.\<close>

definition keeps_backup :: "metadata \<Rightarrow> string \<Rightarrow> backup_world \<Rightarrow> bool" where
  "keeps_backup m data w \<longleftrightarrow> find_by bm_id (bm_id m) (bw_backups w) = Some m \<and> map_of (bw_files w) (bm_filename m) = Some data"

lemma append_backup_audit_keeps [simp]:
  assumes "append_backup_audit env event target origin detail w = (ok, w')"
  shows "bw_backups w' = bw_backups w" "bw_files w' = bw_files w" "keeps_backup m data w' = keeps_backup m data w"
  using assms by (auto simp: append_backup_audit_def keeps_backup_def Let_def split: if_splits)

text \<open>Names of backups with different ids are different.\<close>

lemma compact_stamp_length [simp]: "length (compact_stamp t) = 16"
proof -
  have "filter (\<lambda>c. c \<noteq> CHR ''-'' \<and> c \<noteq> CHR '':'') (decimal w n) = decimal w n" for w n
    using decimal_digits [of _ w n] by (fastforce simp: filter_id_conv ascii_digit_def)
  then show ?thesis by (simp add: compact_stamp_def civil_prefix_def Let_def split_def)
qed

lemma backup_filename_inj: "backup_filename t i = backup_filename u j \<Longrightarrow> i = j"
  using append_eq_append_conv [of "compact_stamp t" "compact_stamp u"] by (simp add: backup_filename_def)

lemma filename_shape: "ends_with (backup_filename t i) ''.scpb''" "CHR ''/'' \<notin> set i \<Longrightarrow> CHR ''/'' \<notin> set (backup_filename t i)"
proof -
  have "ends_with (s @ suffix) suffix" for s suffix by (simp add: ends_with_def)
  from this [of "''controlpanel-'' @ compact_stamp t @ ''-'' @ i" "''.scpb''"]
  show "ends_with (backup_filename t i) ''.scpb''" by (simp add: backup_filename_def)
  have "CHR ''/'' \<notin> set (decimal w n)" for w n using decimal_digits [of "CHR ''/''" w n] by (auto simp: ascii_digit_def)
  then have "CHR ''/'' \<notin> set (compact_stamp t)" by (auto simp: compact_stamp_def civil_prefix_def Let_def split_def)
  then show "CHR ''/'' \<notin> set i \<Longrightarrow> CHR ''/'' \<notin> set (backup_filename t i)" by (simp add: backup_filename_def)
qed

lemma createLocked_cases:
  obtains (early) e where "createLocked env p kind origin w = (Inl e, w)"
  | (undone) data where "createLocked env p kind origin w = (Inl ErrBackupOther,
        w\<lparr>bw_files := delete_key (backup_filename (bv_now env) (bv_id env)) (put_key (backup_filename (bv_now env) (bv_id env)) data (bw_files w))\<rparr>)"
  | (stored) a data m ok w' where "export_snapshot (bv_snapshot env) (bw_db w) = Some a" "seal_archive (bv_seal env) a p = Inr data"
      "m = new_metadata env kind a data" "find_by bm_id (bm_id m) (bw_backups w) = None" "find_by bm_filename (bm_filename m) (bw_backups w) = None"
      "append_backup_audit env ''backup_created'' (bm_id m) origin (JObj [(''format_version'', JNum (ar_format a)), (''kind'', JStr (archive_kind_text kind))])
         (w\<lparr>bw_files := put_key (bm_filename m) data (bw_files w), bw_backups := bw_backups w @ [m]\<rparr>) = (ok, w')"
      "createLocked env p kind origin w = (if ok then Inr m else Inl ErrBackupOther, w')"
proof -
  have name: "bm_filename (new_metadata env kind a data) = backup_filename (bv_now env) (bv_id env)" for a data by (simp add: new_metadata_def)
  show ?thesis
  proof (cases "export_snapshot (bv_snapshot env) (bw_db w)")
    case None
    then show ?thesis by (intro early) (simp add: createLocked_def)
  next
    case exported: (Some a)
    show ?thesis
    proof (cases "seal_archive (bv_seal env) a p")
      case (Inl e)
      then show ?thesis using exported by (intro early) (simp add: createLocked_def)
    next
      case sealed: (Inr data)
      let ?m = "new_metadata env kind a data"
      show ?thesis
      proof (cases "bv_write_fault env \<or> insert_metadata (bv_insert_fault env) ?m (bw_backups w) = None")
        case True
        then show ?thesis using exported sealed
          by (cases "bv_write_fault env") (auto simp: createLocked_def Let_def name intro: early undone)
      next
        case False
        then obtain tbl where tbl: "insert_metadata (bv_insert_fault env) ?m (bw_backups w) = Some tbl" by blast
        then have fresh: "tbl = bw_backups w @ [?m]" "find_by bm_id (bm_id ?m) (bw_backups w) = None" "find_by bm_filename (bm_filename ?m) (bw_backups w) = None"
          by (auto simp: insert_metadata_def split: if_splits)
        obtain ok w' where audit: "append_backup_audit env ''backup_created'' (bm_id ?m) origin
            (JObj [(''format_version'', JNum (ar_format a)), (''kind'', JStr (archive_kind_text kind))])
            (w\<lparr>bw_files := put_key (bm_filename ?m) data (bw_files w), bw_backups := bw_backups w @ [?m]\<rparr>) = (ok, w')" by fastforce
        then have "createLocked env p kind origin w = (if ok then Inr ?m else Inl ErrBackupOther, w')"
          using exported sealed False tbl fresh(1) by (simp add: createLocked_def Let_def)
        then show ?thesis using exported sealed fresh(2,3) audit by (intro stored) simp_all
      qed
    qed
  qed
qed

text \<open>Later calls, and that they leave the rows and files of earlier backups alone.\<close>

datatype backup_call = CallCreateBackup backup_env string archive_kind "string \<times> string"
  | CallRestoreBackup restore_env string string "string \<times> string"

fun backup_call_step :: "backup_call \<Rightarrow> backup_world \<Rightarrow> backup_world" where
  "backup_call_step (CallCreateBackup env p kind origin) w = snd (createLocked env p kind origin w)"
| "backup_call_step (CallRestoreBackup r i p origin) w = snd (restore_backup r i p origin w)"

fun fresh_id :: "backup_call \<Rightarrow> string" where
  "fresh_id (CallCreateBackup env p kind origin) = bv_id env"
| "fresh_id (CallRestoreBackup r i p origin) = bv_id (rv_env r)"

lemma find_by_snoc: "find_by key k xs = Some x \<Longrightarrow> find_by key k (xs @ ys) = Some x"
  by (simp add: find_by_append)

lemma createLocked_keeps:
  assumes "keeps_backup m data w" and "bm_filename m = backup_filename t (bm_id m)" and "bv_id env \<noteq> bm_id m"
  shows "keeps_backup m data (snd (createLocked env p kind origin w))"
proof (cases rule: createLocked_cases [of env p kind origin w])
  case (early e)
  then show ?thesis using assms(1) by simp
next
  case (undone d)
  have "backup_filename (bv_now env) (bv_id env) \<noteq> bm_filename m" using assms(2,3) backup_filename_inj by metis
  then show ?thesis using assms(1) undone by (auto simp: keeps_backup_def map_of_delete_key map_of_put_key)
next
  case (stored a d n ok w')
  have "bm_filename n \<noteq> bm_filename m" using assms(2,3) backup_filename_inj stored(3) by (metis metadata.select_convs(2) new_metadata_def)
  moreover have "snd (createLocked env p kind origin w) = w'" using stored(7) by simp
  ultimately show ?thesis using assms(1) append_backup_audit_keeps(3) [OF stored(6)]
    by (simp add: keeps_backup_def map_of_put_key find_by_snoc)
qed

lemma restore_backup_keeps:
  assumes "keeps_backup m data w" and "bm_filename m = backup_filename t (bm_id m)" and "bv_id (rv_env r) \<noteq> bm_id m"
  shows "keeps_backup m data (snd (restore_backup r i p origin w))"
proof -
  let ?w1 = "w\<lparr>bw_db := rv_meanwhile r (bw_db w)\<rparr>"
  have w1: "keeps_backup m data ?w1" using assms(1) by (simp add: keeps_backup_def)
  have created: "keeps_backup m data w2" if "createLocked (rv_env r) p KindSafety origin ?w1 = (q, w2)" for q w2
    using createLocked_keeps [OF w1 assms(2,3), of p KindSafety origin] that by simp
  have restored: "keeps_backup m data w3" if "append_backup_audit e s i origin d (w2\<lparr>bw_db := db\<rparr>) = (ok, w3)" "keeps_backup m data w2" for e s d w2 db ok w3
    using append_backup_audit_keeps(3) [OF that(1)] that(2) by (simp add: keeps_backup_def)
  show ?thesis using assms(1) w1 created restored
    by (fastforce simp: restore_backup_def Let_def split: sum.splits prod.splits option.splits)
qed

lemma calls_keep:
  assumes "list_all (\<lambda>c. fresh_id c \<noteq> bm_id m) calls" and "keeps_backup m data w" and "bm_filename m = backup_filename t (bm_id m)"
  shows "keeps_backup m data (fold backup_call_step calls w)"
  using assms
proof (induction calls arbitrary: w)
  case (Cons c calls)
  have "keeps_backup m data (backup_call_step c w)"
    using Cons.prems by (cases c) (auto intro: createLocked_keeps restore_backup_keeps)
  then show ?case using Cons by simp
qed simp

section \<open>What a restore leaves\<close>

definition log_rows :: "cell list list \<Rightarrow> database \<Rightarrow> database" where
  "log_rows rows db = on_table ''audit_logs'' (\<lambda>old. old @ rows) db"

text \<open>Every table of the schema holds what the archive has for it, and every other table is as it was.\<close>

definition holds_archive :: "snapshot_env \<Rightarrow> archive \<Rightarrow> database \<Rightarrow> database \<Rightarrow> bool" where
  "holds_archive env a before db \<longleftrightarrow>
     (\<forall>schema \<in> set logicalSchema. \<exists>rows. archived_rows (sn_text env) (sn_dialect env) a schema = Some rows \<and> map_of db (fst schema) = Some rows) \<and>
     (\<forall>k. k \<notin> fst ` set logicalSchema \<longrightarrow> map_of db k = map_of before k)"

text \<open>A backup of a database, made with a passphrase, and nothing else in the table of backups.\<close>

definition safety_backup :: "backup_env \<Rightarrow> string \<Rightarrow> database \<Rightarrow> backup_world \<Rightarrow> backup_world \<Rightarrow> bool" where
  "safety_backup env p db w w' \<longleftrightarrow>
     (\<exists>m a data. bw_backups w' = bw_backups w @ [m] \<and> bm_kind m = KindSafety \<and> export_snapshot (bv_snapshot env) db = Some a \<and>
        seal_archive (bv_seal env) a p = Inr data \<and> map_of (bw_files w') (bm_filename m) = Some data)"

lemma log_no_rows [simp]: "log_rows [] db = db"
  by (simp add: log_rows_def on_table_def case_prod_unfold cong: map_cong)

lemma unlogged: "\<exists>rows. length rows \<le> 1 \<and> db = log_rows rows db"
  by (intro exI [of _ "[]"]) simp

lemma append_backup_audit_db:
  assumes "append_backup_audit env event target origin detail w = (ok, w')"
  shows "\<exists>rows. length rows = (if ok then 1 else 0) \<and> bw_db w' = log_rows rows (bw_db w)"
proof -
  define row where "row = audit_row env \<lparr>ae_id = bv_audit_id env, ae_event_type = event, ae_target_type = ''backup'', ae_target = target,
      ae_request_id = fst origin, ae_source_ip = snd origin, ae_metadata = detail, ae_created = bv_audit_now env\<rparr>"
  show ?thesis using assms
    by (intro exI [of _ "if ok then [row] else []"]) (auto simp: append_backup_audit_def row_def [symmetric] Let_def log_rows_def [of "[row]"] split: if_splits)
qed

lemma createLocked_db:
  assumes "createLocked env p kind origin w = (q, w')"
  shows "\<exists>rows. length rows \<le> 1 \<and> bw_db w' = log_rows rows (bw_db w)"
proof (cases rule: createLocked_cases [of env p kind origin w])
  case (stored a data m ok w1)
  obtain rows where "length rows = (if ok then 1 else 0)" "bw_db w1 = log_rows rows (bw_db w)"
    using append_backup_audit_db [OF stored(6)] by auto
  moreover have "w1 = w'" using stored(7) assms by simp
  ultimately show ?thesis by (intro exI [of _ rows]) simp
qed (use assms unlogged [of "bw_db w"] in auto)

lemma createLocked_succeeds:
  assumes "export_snapshot (bv_snapshot env) (bw_db w) = Some a" and "seal_archive (bv_seal env) a p = Inr data"
    and "\<not> bv_write_fault env" and "\<not> bv_insert_fault env" and "\<not> bv_audit_fault env" and "\<And>table db row. sn_accepts (bv_snapshot env) table db row"
    and "find_by bm_id (bv_id env) (bw_backups w) = None" and "find_by bm_filename (backup_filename (bv_now env) (bv_id env)) (bw_backups w) = None"
  shows "\<exists>w' rows. createLocked env p kind origin w = (Inr (new_metadata env kind a data), w') \<and> bw_db w' = log_rows rows (bw_db w)"
proof -
  let ?m = "new_metadata env kind a data"
  have "insert_metadata (bv_insert_fault env) ?m (bw_backups w) = Some (bw_backups w @ [?m])"
    using assms(4,7,8) by (simp add: insert_metadata_def new_metadata_def)
  moreover have "fst (append_backup_audit env e t origin d v)" for e t d v by (simp add: append_backup_audit_def assms(5,6) Let_def)
  ultimately have "createLocked env p kind origin w = (Inr ?m, snd (createLocked env p kind origin w))"
    using assms(1-3) by (simp add: createLocked_def Let_def split_def)
  then show ?thesis using createLocked_db [of env p kind origin w] by (metis surj_pair)
qed

lemma createLocked_safety:
  assumes "createLocked env p KindSafety origin w = (Inr m, w')"
  shows "safety_backup env p (bw_db w) w w'"
proof (cases rule: createLocked_cases [of env p KindSafety origin w])
  case (stored a data n ok w1)
  then have same: "n = m" "w1 = w'" using assms by (auto split: if_splits)
  have "bw_backups w' = bw_backups w @ [m]" "map_of (bw_files w') (bm_filename m) = Some data"
    using append_backup_audit_keeps(1,2) [OF stored(6)] by (simp_all add: same map_of_put_key)
  moreover have "bm_kind m = KindSafety" using stored(3) same by (simp add: new_metadata_def)
  ultimately show ?thesis using stored(1,2) by (auto simp: safety_backup_def)
qed (use assms in simp_all)

lemma restored_world:
  assumes "restore_backup r i p origin w = (res, w')"
    and "\<not> (res \<noteq> None \<and> (\<exists>rows db. length rows \<le> 1 \<and> db \<in> {bw_db w, rv_meanwhile r (bw_db w)} \<and> bw_db w' = log_rows rows db))"
  shows "\<exists>a m w2 db ok. \<not> has_active_work (bw_db w) \<and> verified_archive (rv_env r) i p (w\<lparr>bw_db := rv_meanwhile r (bw_db w)\<rparr>) = Inr a \<and>
    createLocked (rv_env r) p KindSafety origin (w\<lparr>bw_db := rv_meanwhile r (bw_db w)\<rparr>) = (Inr m, w2) \<and>
    restore_snapshot (bv_snapshot (rv_env r)) a (bw_db w2) = (None, db) \<and>
    append_backup_audit (rv_audit_env r) ''backup_restored'' i origin (JObj [(''format_version'', JNum (ar_format a))]) (w2\<lparr>bw_db := db\<rparr>) = (ok, w') \<and>
    res = (if ok then None else Some ErrBackupOther)"
proof -
  let ?w1 = "w\<lparr>bw_db := rv_meanwhile r (bw_db w)\<rparr>"
  have early: "w' \<noteq> w" if "res \<noteq> None" using assms(2) that unlogged [of "bw_db w"] by blast
  have checked: "bw_db w' \<noteq> rv_meanwhile r (bw_db w)" if "res \<noteq> None" using assms(2) that unlogged [of "bw_db w'"] by auto
  have made: "w' \<noteq> w2" if "res \<noteq> None" "createLocked (rv_env r) p KindSafety origin ?w1 = (q, w2)" for q w2
    using assms(2) that createLocked_db [OF that(2)] by auto
  show ?thesis using assms(1) early checked made
    by (fastforce simp: restore_backup_def Let_def split: if_splits sum.splits prod.splits option.splits)
qed

text \<open>The rows an archive stands for.\<close>

definition archived_database :: "snapshot_env \<Rightarrow> archive \<Rightarrow> database" where
  "archived_database env a =
     map (\<lambda>schema. (fst schema, case archived_rows (sn_text env) (sn_dialect env) a schema of None \<Rightarrow> [] | Some rows \<Rightarrow> rows)) logicalSchema"

lemma audited_table: "''audit_logs'' \<in> fst ` set logicalSchema" "''audit_logs'' \<noteq> fst jobs_schema" "''audit_logs'' \<noteq> fst operations_schema"
  "jobs_schema \<in> set logicalSchema" "operations_schema \<in> set logicalSchema"
  by code_simp+

lemma active_work_cong:
  assumes "map_of db (fst jobs_schema) = map_of db' (fst jobs_schema)" and "map_of db (fst operations_schema) = map_of db' (fst operations_schema)"
  shows "has_active_work db = has_active_work db'"
  by (simp add: has_active_work_def count_status_def assms)

lemma active_work_logged: "has_active_work (log_rows rows db) = has_active_work db"
  using audited_table(2,3) by (intro active_work_cong) (auto simp: log_rows_def map_of_on_table option.map_ident)

lemma map_of_archived:
  assumes "schema \<in> set logicalSchema"
  shows "map_of (archived_database env a) (fst schema) = Some (case archived_rows (sn_text env) (sn_dialect env) a schema of None \<Rightarrow> [] | Some rows \<Rightarrow> rows)"
proof -
  have "map fst (archived_database env a) = map fst logicalSchema" by (simp add: archived_database_def)
  then have "distinct (map fst (archived_database env a))" using schema_names(1) by metis
  then show ?thesis by (rule map_of_is_SomeI) (use assms in \<open>auto simp: archived_database_def\<close>)
qed

section \<open>Properties\<close>

text \<open>Documented behaviour of AES-GCM, the random source and the JSON text of an envelope.\<close>

definition seal_law :: "seal_env \<Rightarrow> bool" where
  "seal_law env \<longleftrightarrow>
     (\<forall>key nonce plain ad. sl_decrypt env key nonce (sl_encrypt env key nonce plain ad) ad = Some plain \<and> 16 \<le> length (sl_encrypt env key nonce plain ad)) \<and>
     (\<forall>salt. sl_salt env = Some salt \<longrightarrow> length salt = 16) \<and> (\<forall>nonce. sl_nonce env = Some nonce \<longrightarrow> length nonce = 12) \<and>
     (\<forall>salt nonce ct. length salt = 16 \<and> length nonce = 12 \<longrightarrow>
        sl_envelope_of env (sl_envelope_text env (sealed_envelope salt nonce ct)) = Some (sealed_envelope salt nonce ct) \<and>
        sl_envelope_text env (sealed_envelope salt nonce ct) \<noteq> [])"

text \<open>The archive comes back from its JSON text: so it does when every text in it is UTF-8.\<close>

definition survives_json :: "seal_env \<Rightarrow> archive \<Rightarrow> bool" where
  "survives_json env a \<longleftrightarrow> (\<forall>plain. sl_marshal env a = Some plain \<longrightarrow> sl_unmarshal env plain = Some a)"

text \<open>Tables as the schema describes them, with times of four-digit years.\<close>

definition well_shaped :: "database \<Rightarrow> bool" where
  "well_shaped db \<longleftrightarrow>
     (\<forall>schema \<in> set logicalSchema. \<forall>rows. map_of db (fst schema) = Some rows \<longrightarrow>
        (\<forall>row \<in> set rows. length row = length (snd schema) \<and> (\<forall>t. CellTime t \<in> set row \<longrightarrow> four_digit_year t)))"

text \<open>A later call reads with the same cryptography.\<close>

definition same_reader :: "backup_env \<Rightarrow> backup_env \<Rightarrow> bool" where
  "same_reader env env2 \<longleftrightarrow>
     bv_sha env2 = bv_sha env \<and> sn_text (bv_snapshot env2) = sn_text (bv_snapshot env) \<and> \<not> bv_find_fault env2 \<and> \<not> bv_read_fault env2 \<and>
     sl_key (bv_seal env2) = sl_key (bv_seal env) \<and> sl_decrypt (bv_seal env2) = sl_decrypt (bv_seal env) \<and>
     sl_unmarshal (bv_seal env2) = sl_unmarshal (bv_seal env) \<and> sl_envelope_of (bv_seal env2) = sl_envelope_of (bv_seal env)"

lemma open_archive_cong:
  assumes "sl_key env2 = sl_key env" and "sl_decrypt env2 = sl_decrypt env" and "sl_unmarshal env2 = sl_unmarshal env" and "sl_envelope_of env2 = sl_envelope_of env"
  shows "open_archive env2 data p = open_archive env data p"
  unfolding open_archive_def assms by (rule refl)

lemma sealed_opens:
  assumes "seal_archive env a p = Inr data" and "seal_law env" and "survives_json env a" and "length data \<le> maximum_backup"
  shows "open_archive env data p = Inr a \<and> 12 \<le> length p"
proof -
  obtain plain salt key nonce where parts: "sl_marshal env a = Some plain" "sl_salt env = Some salt" "sl_key env p salt = Some key" "sl_nonce env = Some nonce"
    and valid: "validateEnvelopeManifest a" "12 \<le> length p"
    and data: "data = sl_envelope_text env (sealed_envelope salt nonce (sl_encrypt env key nonce plain associated_data))"
    using assms(1) by (auto simp: seal_archive_def split: if_splits option.splits)
  have "length salt = 16" "length nonce = 12" using assms(2) parts by (simp_all add: seal_law_def)
  then have "sl_envelope_of env data = Some (sealed_envelope salt nonce (sl_encrypt env key nonce plain associated_data))" "data \<noteq> []"
    using assms(2) by (simp_all add: seal_law_def data)
  moreover have "envelope_accepted (sealed_envelope salt nonce (sl_encrypt env key nonce plain associated_data))"
    using assms(2) \<open>length salt = 16\<close> \<open>length nonce = 12\<close> by (simp add: envelope_accepted_def sealed_envelope_def seal_law_def)
  moreover have "p \<noteq> []" using valid(2) by auto
  moreover have "sl_decrypt env key nonce (sl_encrypt env key nonce plain associated_data) associated_data = Some plain" using assms(2) by (simp add: seal_law_def)
  ultimately show ?thesis using parts valid assms(3,4) by (simp add: open_archive_def survives_json_def sealed_envelope_def)
qed

lemma exported_rows_restore:
  assumes "exportTable tenv db schema = Some t" and "schema \<in> set logicalSchema" and "well_shaped db" and "time_law tenv"
  shows "list_all (\<lambda>row. length row = length (snd schema) \<and> restore_row tenv SQLite schema row \<noteq> None) (td_rows t)"
proof -
  obtain rows where rows: "map_of db (fst schema) = Some rows" "those (map (export_row tenv schema) rows) = Some (td_rows t)"
    using assms(1) by (auto simp: exportTable_def split: option.splits)
  have one: "length srow = length (snd schema) \<and> restore_row tenv SQLite schema srow \<noteq> None" if srow: "export_row tenv schema row = Some srow" and inside: "row \<in> set rows" for row srow
  proof -
    have wide: "length row = length (snd schema)" and times: "\<And>u. CellTime u \<in> set row \<Longrightarrow> four_digit_year u"
      using assms(2,3) rows(1) inside by (auto simp: well_shaped_def)
    have len: "length srow = length (snd schema)" using srow wide by (simp add: export_row_nth)
    have "\<exists>v. restoreCell tenv SQLite (fst (snd schema ! n)) (srow ! n) = Some v" if "n < length (snd schema)" for n
    proof (rule normalized_restores [OF _ assms(4)])
      show "normalizeCell tenv (fst (snd schema ! n)) (row ! n) = Some (srow ! n)" using srow that len by (simp add: export_row_nth)
      show "four_digit_year u" if "row ! n = CellTime u" for u using times that \<open>n < length (snd schema)\<close> wide by (metis nth_mem)
    qed
    then have "restore_row tenv SQLite schema srow = Some (map (\<lambda>n. the (restoreCell tenv SQLite (fst (snd schema ! n)) (srow ! n))) [0 ..< length (snd schema)])"
      using len by (fastforce simp: restore_row_nth)
    then show ?thesis using len by simp
  qed
  have "list_all2 (\<lambda>x y. export_row tenv schema x = Some y) rows (td_rows t)" using rows(2) by (simp add: those_Some)
  then show ?thesis using one by (fastforce simp: list_all_iff list_all2_conv_all_nth in_set_conv_nth)
qed

lemma export_validates:
  assumes "export_snapshot env db = Some a" and "well_shaped db" and "time_law (sn_text env)"
  shows "validateLogicalArchive (sn_text env) a"
proof -
  obtain ts where ts: "those (map (exportTable (sn_text env) db) logicalSchema) = Some ts" "\<not> sn_export_fault env"
    using assms(1) by (auto simp: export_snapshot_def split: if_splits)
  then show ?thesis using exported_archive [OF ts refl exported_rows_restore [OF _ _ assms(2,3)]] assms(1) by auto
qed

text \<open>
  C13. A backup that was reported as created can be downloaded and restored from. Whatever backups and restores follow, with other
  ids and successful or not, reading it with its passphrase gives the file that was written and the
  archive that was exported, and the archive passes the validation that a restore makes, unless the file is
  above 512 MiB.
\<close>

theorem created_backup_opens:
  assumes "createLocked env p kind origin w = (Inr m, w')" and "export_snapshot (bv_snapshot env) (bw_db w) = Some a"
    and "seal_law (bv_seal env)" and "survives_json (bv_seal env) a" and "well_shaped (bw_db w)" and "time_law (sn_text (bv_snapshot env))"
    and "CHR ''/'' \<notin> set (bv_id env)" and "bm_size m \<le> maximum_backup"
    and "list_all (\<lambda>c. fresh_id c \<noteq> bm_id m) calls" and "same_reader env env2"
  shows "\<exists>data. seal_archive (bv_seal env) a p = Inr data \<and>
    download_archive env2 (bm_id m) (fold backup_call_step calls w') = Inr (data, bm_filename m) \<and>
    verified_archive env2 (bm_id m) p (fold backup_call_step calls w') = Inr a"
proof (cases rule: createLocked_cases [of env p kind origin w])
  case (stored a' data n ok w1)
  then have same: "a' = a" "n = m" "w1 = w'" "ok" using assms(1,2) by (auto split: if_splits)
  note m = stored(3) [unfolded same]
  have kept: "keeps_backup m data w'"
    using append_backup_audit_keeps(3) [OF stored(6)] stored(4) by (simp add: same keeps_backup_def find_by_append map_of_put_key)
  have name: "bm_filename m = backup_filename (bv_now env) (bm_id m)" using m by (simp add: new_metadata_def)
  have facts: "find_by bm_id (bm_id m) (bw_backups (fold backup_call_step calls w')) = Some m" "map_of (bw_files (fold backup_call_step calls w')) (bm_filename m) = Some data"
    using calls_keep [OF assms(9) kept name] by (simp_all add: keeps_backup_def)
  have fields: "bm_size m = length data" "bm_sha m = bv_sha env data" "bm_id m = bv_id env" using m by (simp_all add: new_metadata_def)
  have read: "readVerified env2 (bm_id m) (fold backup_call_step calls w') = Inr (m, data)"
    using facts fields filename_shape(1) [of "bv_now env" "bv_id env"] filename_shape(2) [of "bv_id env" "bv_now env"] name assms(7,8,10) by (simp add: readVerified_def find_metadata_def same_reader_def)
  have "open_archive (bv_seal env) data p = Inr a"
    using sealed_opens [OF _ assms(3,4)] stored(2) fields(1) assms(8) same by simp
  then have "open_archive (bv_seal env2) data p = Inr a" using assms(10) open_archive_cong [of "bv_seal env2" "bv_seal env"] by (simp add: same_reader_def)
  then show ?thesis using read export_validates [OF assms(2,5,6)] stored(2) same assms(10)
    by (simp add: download_archive_def verified_archive_def same_reader_def)
qed (use assms(1) in simp_all)

definition sample_seal_env :: seal_env where
  "sample_seal_env = \<lparr>sl_salt = Some (replicate 16 (CHR ''s'')), sl_nonce = Some (replicate 12 (CHR ''n'')), sl_key = (\<lambda>p s. Some (p @ s)),
     sl_encrypt = (\<lambda>k n x ad. replicate 16 (CHR ''t'') @ x), sl_decrypt = (\<lambda>k n x ad. Some (drop 16 x)), sl_marshal = (\<lambda>_. Some ''{}''),
     sl_unmarshal = (\<lambda>_. Some sample_archive), sl_envelope_text = (\<lambda>e. CHR ''{'' # ev_salt e @ ev_nonce e @ ev_ciphertext e),
     sl_envelope_of = (\<lambda>s. Some \<lparr>ev_magic = ''SCPB'', ev_version = 1, ev_kdf = ''scrypt'', ev_n = 32768, ev_r = 8, ev_p = 1,
        ev_salt = take 16 (tl s), ev_nonce = take 12 (drop 17 s), ev_ciphertext = drop 29 s\<rparr>)\<rparr>"

definition sample_backup_env :: backup_env where
  "sample_backup_env = \<lparr>bv_snapshot = sample_snapshot_env, bv_seal = sample_seal_env, bv_id = ''b1'', bv_now = 5, bv_write_fault = False,
     bv_insert_fault = False, bv_find_fault = False, bv_read_fault = False, bv_audit_fault = False, bv_audit_id = ''a1'', bv_audit_now = 6,
     bv_sha = id, bv_json_text = (\<lambda>_. ''{}'')\<rparr>"

definition empty_backup_world :: backup_world where
  "empty_backup_world = \<lparr>bw_db = sample_database, bw_backups = [], bw_files = []\<rparr>"

lemma sample_export: "export_snapshot sample_snapshot_env sample_database = Some sample_archive"
  by code_simp

lemma sample_seal_law: "seal_law sample_seal_env"
  by (simp add: seal_law_def sample_seal_env_def sealed_envelope_def currentFormatVersion_def)

lemma sample_sealed: "\<exists>data. seal_archive sample_seal_env sample_archive ''correct horse'' = Inr data \<and> length data = 47"
proof -
  have "validateEnvelopeManifest sample_archive" by code_simp
  then show ?thesis by (simp add: seal_archive_def sample_seal_env_def sealed_envelope_def)
qed

lemma sample_backup_env_fields:
  "bv_snapshot sample_backup_env = sample_snapshot_env" "bv_seal sample_backup_env = sample_seal_env" "bv_id sample_backup_env = ''b1''"
  "\<not> bv_write_fault sample_backup_env" "\<not> bv_insert_fault sample_backup_env" "\<not> bv_audit_fault sample_backup_env"
  "sn_text sample_snapshot_env = sample_text_env" "sn_accepts sample_snapshot_env table db row"
  by (simp_all add: sample_backup_env_def sample_snapshot_env_def)

lemma sample_created_backup: "\<exists>m w'. createLocked sample_backup_env ''correct horse'' KindManual (''r'', ''ip'') empty_backup_world = (Inr m, w') \<and> bm_size m = 47 \<and> bm_id m = ''b1''"
proof -
  obtain data where data: "seal_archive sample_seal_env sample_archive ''correct horse'' = Inr data" "length data = 47" using sample_sealed by blast
  have "bm_size (new_metadata sample_backup_env k sample_archive data) = 47" "bm_id (new_metadata sample_backup_env k sample_archive data) = ''b1''" for k
    by (simp_all add: new_metadata_def data(2) sample_backup_env_fields)
  then show ?thesis
    using createLocked_succeeds [of sample_backup_env empty_backup_world sample_archive "''correct horse''" data KindManual "(''r'', ''ip'')"] data(1)
    by (auto simp: sample_backup_env_fields empty_backup_world_def sample_export)
qed

lemma sample_shape: "well_shaped sample_database"
proof -
  have "list_all (\<lambda>s. case map_of sample_database (fst s) of None \<Rightarrow> True | Some rows \<Rightarrow>
      list_all (\<lambda>row. length row = length (snd s) \<and> list_all (\<lambda>c. case c of CellTime _ \<Rightarrow> False | _ \<Rightarrow> True) row) rows) logicalSchema" by code_simp
  then show ?thesis by (fastforce simp: well_shaped_def list_all_iff split: option.splits)
qed

theorem created_backup_opens_witness:
  "\<exists>m w' data. createLocked sample_backup_env ''correct horse'' KindManual (''r'', ''ip'') empty_backup_world = (Inr m, w') \<and>
     download_archive sample_backup_env ''b1'' (fold backup_call_step [CallCreateBackup (sample_backup_env\<lparr>bv_id := ''b2''\<rparr>) ''another secret'' KindManual (''r'', ''ip'')] w') = Inr (data, bm_filename m) \<and>
     verified_archive sample_backup_env ''b1'' ''correct horse'' w' = Inr sample_archive"
proof -
  obtain m w' where m: "createLocked sample_backup_env ''correct horse'' KindManual (''r'', ''ip'') empty_backup_world = (Inr m, w')" "bm_size m = 47" "bm_id m = ''b1''"
    using sample_created_backup by blast
  have env: "bv_snapshot sample_backup_env = sample_snapshot_env" "bv_seal sample_backup_env = sample_seal_env" "bv_id sample_backup_env = ''b1''"
    "sn_text sample_snapshot_env = sample_text_env" by (simp_all add: sample_backup_env_def sample_snapshot_env_def)
  have "export_snapshot (bv_snapshot sample_backup_env) (bw_db empty_backup_world) = Some sample_archive" by (simp add: env empty_backup_world_def sample_export)
  moreover have "survives_json (bv_seal sample_backup_env) sample_archive" by (simp add: survives_json_def env sample_seal_env_def)
  moreover have "well_shaped (bw_db empty_backup_world)" by (simp add: empty_backup_world_def sample_shape)
  moreover have "time_law (sn_text (bv_snapshot sample_backup_env))" by (simp add: time_law_def env sample_text_env_def)
  moreover have "bm_size m \<le> maximum_backup" by (simp add: m(2) maximum_backup_def)
  moreover have "same_reader sample_backup_env sample_backup_env" by (simp add: same_reader_def sample_backup_env_def)
  ultimately have opens: "list_all (\<lambda>c. fresh_id c \<noteq> bm_id m) calls \<Longrightarrow> \<exists>data. seal_archive sample_seal_env sample_archive ''correct horse'' = Inr data \<and>
      download_archive sample_backup_env (bm_id m) (fold backup_call_step calls w') = Inr (data, bm_filename m) \<and>
      verified_archive sample_backup_env (bm_id m) ''correct horse'' (fold backup_call_step calls w') = Inr sample_archive" for calls
    using created_backup_opens [OF m(1), of sample_archive calls sample_backup_env] sample_seal_law by (simp add: env)
  show ?thesis using opens [of "[CallCreateBackup (sample_backup_env\<lparr>bv_id := ''b2''\<rparr>) ''another secret'' KindManual (''r'', ''ip'')]"] opens [of "[]"] m
    by auto
qed

text \<open>
  C8. A restore is all or nothing. Either it is refused, and the database is as it was, but for one entry in the audit log when
  the safety backup was already made. Or the archive of the backup was opened and accepted, a safety backup of the database as it was is stored under
  the same passphrase, and every table holds exactly the rows of the archive; then one entry more in
  the audit log says so, or, if that entry could not be written, the answer is an error although the restore stands.
\<close>

theorem restore_is_all_or_nothing:
  "case restore_backup r i p origin w of (res, w') \<Rightarrow>
     (res \<noteq> None \<and> (\<exists>rows db. length rows \<le> 1 \<and> db \<in> {bw_db w, rv_meanwhile r (bw_db w)} \<and> bw_db w' = log_rows rows db)) \<or>
     (\<exists>a db rows. \<not> has_active_work (bw_db w) \<and> verified_archive (rv_env r) i p (w\<lparr>bw_db := rv_meanwhile r (bw_db w)\<rparr>) = Inr a \<and>
        safety_backup (rv_env r) p (rv_meanwhile r (bw_db w)) w w' \<and>
        holds_archive (bv_snapshot (rv_env r)) a (rv_meanwhile r (bw_db w)) db \<and>
        bw_db w' = log_rows rows db \<and> length rows = (if res = None then 1 else 0))"
proof -
  obtain res w' where run: "restore_backup r i p origin w = (res, w')" by fastforce
  show ?thesis
  proof (cases "res \<noteq> None \<and> (\<exists>rows db. length rows \<le> 1 \<and> db \<in> {bw_db w, rv_meanwhile r (bw_db w)} \<and> bw_db w' = log_rows rows db)")
    case False
    let ?env = "rv_env r" and ?w1 = "w\<lparr>bw_db := rv_meanwhile r (bw_db w)\<rparr>"
    obtain a m w2 db ok where parts: "\<not> has_active_work (bw_db w)" "verified_archive ?env i p ?w1 = Inr a"
        "createLocked ?env p KindSafety origin ?w1 = (Inr m, w2)" "restore_snapshot (bv_snapshot ?env) a (bw_db w2) = (None, db)"
        "append_backup_audit (rv_audit_env r) ''backup_restored'' i origin (JObj [(''format_version'', JNum (ar_format a))]) (w2\<lparr>bw_db := db\<rparr>) = (ok, w')"
        "res = (if ok then None else Some ErrBackupOther)" using restored_world [OF run False] by blast
    have "safety_backup ?env p (bw_db ?w1) ?w1 w2" by (rule createLocked_safety [OF parts(3)])
    then have "safety_backup ?env p (rv_meanwhile r (bw_db w)) w w'"
      using append_backup_audit_keeps(1,2) [OF parts(5)] by (simp add: safety_backup_def)
    moreover obtain logged where "bw_db w2 = log_rows logged (rv_meanwhile r (bw_db w))" using createLocked_db [OF parts(3)] by auto
    then have "map_of (bw_db w2) k = map_of (rv_meanwhile r (bw_db w)) k" if "k \<notin> fst ` set logicalSchema" for k
    proof -
      have "k \<noteq> ''audit_logs''" using that audited_table(1) by blast
      then show ?thesis using \<open>bw_db w2 = _\<close> by (simp add: log_rows_def map_of_on_table option.map_ident)
    qed
    then have "holds_archive (bv_snapshot ?env) a (rv_meanwhile r (bw_db w)) db"
      using restore_snapshot_result [OF parts(4)] by (simp add: holds_archive_def)
    moreover obtain rows where "length rows = (if ok then 1 else 0)" "bw_db w' = log_rows rows db" using append_backup_audit_db [OF parts(5)] by auto
    ultimately show ?thesis using parts(1,2,6) unfolding run prod.case by (intro disjI2 exI [of _ a] exI [of _ db] exI [of _ rows]) simp
  qed (use run in auto)
qed

text \<open>
  C26. The check for active work does not reach into the archive. After a successful restore there is active work exactly if the archive has
  it: a backup that was made while an operation or a job was queued or running brings it back, and it runs again.
\<close>

theorem restore_brings_back_active_work:
  assumes "restore_backup r i p origin w = (None, w')"
  shows "\<not> has_active_work (bw_db w) \<and>
    (\<exists>a. verified_archive (rv_env r) i p (w\<lparr>bw_db := rv_meanwhile r (bw_db w)\<rparr>) = Inr a \<and>
       has_active_work (bw_db w') = has_active_work (archived_database (bv_snapshot (rv_env r)) a))"
proof -
  let ?env = "rv_env r" and ?w1 = "w\<lparr>bw_db := rv_meanwhile r (bw_db w)\<rparr>"
  obtain a m w2 db where parts: "\<not> has_active_work (bw_db w)" "verified_archive ?env i p ?w1 = Inr a" "restore_snapshot (bv_snapshot ?env) a (bw_db w2) = (None, db)"
      "append_backup_audit (rv_audit_env r) ''backup_restored'' i origin (JObj [(''format_version'', JNum (ar_format a))]) (w2\<lparr>bw_db := db\<rparr>) = (True, w')"
    using restored_world [OF assms] by (auto split: if_splits)
  obtain rows where "bw_db w' = log_rows rows db" using append_backup_audit_db [OF parts(4)] by auto
  then have "has_active_work (bw_db w') = has_active_work db" by (simp add: active_work_logged)
  also have "\<dots> = has_active_work (archived_database (bv_snapshot ?env) a)"
    using restore_snapshot_result [OF parts(3)] audited_table(4,5) by (intro active_work_cong) (fastforce simp: map_of_archived)+
  finally show ?thesis using parts(1,2) by blast
qed

definition queued_job_row :: "cell list" where
  "queued_job_row = [CellText ''j1'', CellText ''inventory_sync'', CellText ''{}'', CellText ''queued'', CellInt 0, CellInt 3, CellNull,
     CellNull, CellNull, CellText '''', CellNull, CellNull]"

definition queued_archive :: archive where
  "queued_archive = (case export_snapshot sample_snapshot_env (on_table ''jobs'' (\<lambda>_. [queued_job_row]) empty_database) of Some a \<Rightarrow> a | None \<Rightarrow> sample_archive)"

definition queued_restore_env :: restore_env where
  "queued_restore_env =
     (let env = sample_backup_env\<lparr>bv_seal := sample_seal_env\<lparr>sl_unmarshal := \<lambda>_. Some queued_archive\<rparr>, bv_id := ''s1''\<rparr>
      in \<lparr>rv_env = env, rv_activity_fault = False, rv_meanwhile = id, rv_audit_env = env\<rparr>)"

definition queued_world :: backup_world where
  "queued_world = \<lparr>bw_db = empty_database,
     bw_backups = [\<lparr>bm_id = ''b1'', bm_filename = ''b1.scpb'', bm_size = 45, bm_sha = replicate 45 (CHR ''x''), bm_format = 1, bm_kind = KindManual,
        bm_status = StatusReady, bm_manifest = JNull, bm_created = 5\<rparr>], bw_files = [(''b1.scpb'', replicate 45 (CHR ''x''))]\<rparr>"

lemma queued_archive_accepted: "validateLogicalArchive sample_text_env queued_archive" "validateEnvelopeManifest queued_archive"
  "has_active_work (archived_database sample_snapshot_env queued_archive)" "\<not> has_active_work empty_database"
  "export_snapshot sample_snapshot_env empty_database \<noteq> None" "fst (restore_snapshot sample_snapshot_env queued_archive empty_database) = None"
  by code_simp+

lemma clear_logged: "fold (\<lambda>name. on_table name (\<lambda>_. [])) clear_order (log_rows rows db) = fold (\<lambda>name. on_table name (\<lambda>_. [])) clear_order db"
proof -
  have "fold (\<lambda>name. on_table name (\<lambda>_. [])) names d = map (\<lambda>(k, v). (k, if k \<in> set names then [] else v)) d" for names d
    by (induction names arbitrary: d) (auto simp: on_table_def)
  moreover have "''audit_logs'' \<in> set clear_order" using audited_table(1) schema_names(2) by simp
  ultimately show ?thesis by (auto simp: log_rows_def on_table_def)
qed

lemma restore_logged: "restore_snapshot env a (log_rows rows db) = (let (e, d) = restore_snapshot env a db in (e, if e = None then d else log_rows rows db))"
proof -
  have "map_of (log_rows rows db) k = None \<longleftrightarrow> map_of db k = None" for k by (simp add: log_rows_def map_of_on_table)
  then show ?thesis by (simp add: restore_snapshot_def clear_logged Let_def split: option.split)
qed

lemma queued_archive_opens: "verified_archive (rv_env queued_restore_env) ''b1'' ''correct horse'' queued_world = Inr queued_archive"
proof -
  have "45 \<le> maximum_backup" by (simp add: maximum_backup_def)
  then have "open_archive (bv_seal (rv_env queued_restore_env)) (replicate 45 (CHR ''x'')) ''correct horse'' = Inr queued_archive"
    using queued_archive_accepted(2)
    by (simp add: open_archive_def queued_restore_env_def sample_seal_env_def envelope_accepted_def currentFormatVersion_def Let_def)
  moreover have "readVerified (rv_env queued_restore_env) ''b1'' queued_world = Inr (hd (bw_backups queued_world), replicate 45 (CHR ''x''))"
    using \<open>45 \<le> maximum_backup\<close>
    by (simp add: readVerified_def find_metadata_def queued_restore_env_def sample_backup_env_def queued_world_def ends_with_def Let_def)
  ultimately show ?thesis using queued_archive_accepted(1)
    by (simp add: verified_archive_def queued_restore_env_def sample_backup_env_fields Let_def)
qed

lemma sealed_sample:
  assumes "export_snapshot sample_snapshot_env empty_database = Some a"
  shows "\<exists>data. seal_archive (bv_seal (rv_env queued_restore_env)) a ''correct horse'' = Inr data"
proof -
  have "case export_snapshot sample_snapshot_env empty_database of None \<Rightarrow> False | Some a \<Rightarrow> validateEnvelopeManifest a" by code_simp
  then show ?thesis using assms by (simp add: seal_archive_def queued_restore_env_def sample_seal_env_def Let_def)
qed

theorem restore_brings_back_active_work_witness:
  "\<exists>w'. restore_backup queued_restore_env ''b1'' ''correct horse'' (''r'', ''ip'') queued_world = (None, w') \<and>
     \<not> has_active_work (bw_db queued_world) \<and> has_active_work (bw_db w')"
proof -
  let ?env = "rv_env queued_restore_env"
  have env: "bv_snapshot ?env = sample_snapshot_env" "bv_id ?env = ''s1''" "rv_audit_env queued_restore_env = ?env" "\<not> bv_write_fault ?env"
    "\<not> bv_insert_fault ?env" "\<not> bv_audit_fault ?env" "\<not> rv_activity_fault queued_restore_env" "rv_meanwhile queued_restore_env = id"
    "sl_salt (bv_seal ?env) \<noteq> None" by (simp_all add: queued_restore_env_def sample_backup_env_fields sample_seal_env_def Let_def)
  have world: "bw_db queued_world = empty_database" "find_by bm_id ''s1'' (bw_backups queued_world) = None" by (simp_all add: queued_world_def)
  have fresh: "find_by bm_filename (backup_filename t i) (bw_backups queued_world) = None" for t i by (simp add: queued_world_def backup_filename_def)
  obtain a where a: "export_snapshot sample_snapshot_env empty_database = Some a" using queued_archive_accepted(5) by blast
  then obtain data where data: "seal_archive (bv_seal ?env) a ''correct horse'' = Inr data" using sealed_sample by blast
  obtain m w2 rows where made: "createLocked ?env ''correct horse'' KindSafety (''r'', ''ip'') queued_world = (Inr m, w2)" "bw_db w2 = log_rows rows empty_database"
    using createLocked_succeeds [of ?env queued_world a "''correct horse''" data KindSafety "(''r'', ''ip'')"] a data env world fresh
    by (auto simp: sample_backup_env_fields)
  obtain db where db: "restore_snapshot (bv_snapshot ?env) queued_archive (bw_db w2) = (None, db)"
    using queued_archive_accepted(6) by (cases "restore_snapshot sample_snapshot_env queued_archive empty_database") (simp add: made(2) restore_logged env(1) Let_def)
  have logged: "fst (append_backup_audit ?env e t origin d w)" for e t origin d w by (simp add: append_backup_audit_def env(1,6) sample_backup_env_fields Let_def)
  have unchanged: "queued_world\<lparr>bw_db := empty_database\<rparr> = queued_world" by (simp add: queued_world_def)
  have "fst (restore_backup queued_restore_env ''b1'' ''correct horse'' (''r'', ''ip'') queued_world) = None"
    using queued_archive_opens made(1) db logged queued_archive_accepted(4) by (simp add: restore_backup_def env(3,7,8) world(1) unchanged Let_def split_def)
  then obtain w' where run: "restore_backup queued_restore_env ''b1'' ''correct horse'' (''r'', ''ip'') queued_world = (None, w')" by (metis prod.collapse)
  then show ?thesis using restore_brings_back_active_work [OF run] queued_archive_opens queued_archive_accepted(3)
    by (auto simp: env(1,8) world(1) unchanged)
qed

text \<open>
  A backup above 512 MiB is reported as ready and can never be read. Nothing limits the size when it is made, and from then on every
  download, validation and restore of it is refused as invalid, whatever other backups and restores do.
\<close>

lemma oversized_backup_never_opens:
  assumes "createLocked env p kind origin w = (Inr m, w')" and "maximum_backup < bm_size m" and "list_all (\<lambda>c. fresh_id c \<noteq> bm_id m) calls"
    and "\<not> bv_find_fault env2"
  shows "bm_status m = StatusReady \<and> download_archive env2 (bm_id m) (fold backup_call_step calls w') = Inl ErrInvalidBackup \<and>
    validate_backup env2 (bm_id m) q (fold backup_call_step calls w') = Inl ErrInvalidBackup"
proof (cases rule: createLocked_cases [of env p kind origin w])
  case (stored a data n ok w1)
  then have same: "n = m" "w1 = w'" "ok" using assms(1) by (auto split: if_splits)
  note m = stored(3) [unfolded same]
  have kept: "keeps_backup m data w'"
    using append_backup_audit_keeps(3) [OF stored(6)] stored(4) by (simp add: same keeps_backup_def find_by_append map_of_put_key)
  have "bm_filename m = backup_filename (bv_now env) (bm_id m)" using m by (simp add: new_metadata_def)
  then have "keeps_backup m data (fold backup_call_step calls w')" by (rule calls_keep [OF assms(3) kept])
  then have "readVerified env2 (bm_id m) (fold backup_call_step calls w') = Inl ErrInvalidBackup"
    using assms(2,4) m by (simp add: keeps_backup_def readVerified_def find_metadata_def new_metadata_def)
  then show ?thesis using m by (simp add: download_archive_def validate_backup_def verified_archive_def new_metadata_def)
qed (use assms(1) in simp_all)

definition large_backup_env :: backup_env where
  "large_backup_env = sample_backup_env\<lparr>bv_seal := sample_seal_env\<lparr>sl_envelope_text := \<lambda>_. replicate (Suc maximum_backup) (CHR ''x'')\<rparr>\<rparr>"

theorem oversized_backup_never_opens_witness:
  "\<exists>m w'. createLocked large_backup_env ''correct horse'' KindManual (''r'', ''ip'') empty_backup_world = (Inr m, w') \<and> bm_status m = StatusReady \<and>
     download_archive large_backup_env ''b1'' w' = Inl ErrInvalidBackup"
proof -
  have "validateEnvelopeManifest sample_archive" by code_simp
  then have "seal_archive (bv_seal large_backup_env) sample_archive ''correct horse'' = Inr (replicate (Suc maximum_backup) (CHR ''x''))"
    by (simp add: seal_archive_def large_backup_env_def sample_seal_env_def)
  then obtain w' where made: "createLocked large_backup_env ''correct horse'' KindManual (''r'', ''ip'') empty_backup_world =
      (Inr (new_metadata large_backup_env KindManual sample_archive (replicate (Suc maximum_backup) (CHR ''x''))), w')"
    using createLocked_succeeds [of large_backup_env empty_backup_world sample_archive "''correct horse''" "replicate (Suc maximum_backup) (CHR ''x'')" KindManual "(''r'', ''ip'')"]
    by (auto simp: large_backup_env_def sample_backup_env_fields empty_backup_world_def sample_export)
  show ?thesis using made oversized_backup_never_opens [OF made, of "[]" large_backup_env "''correct horse''"]
    by (simp add: new_metadata_def large_backup_env_def sample_backup_env_def)
qed

end
