(* ===== verification/CredentialKeys.thy ===== *)
theory CredentialKeys imports ConnectionService BackupArchive begin

text \<open>
  The keys that provider credentials are stored under: \<^verbatim>\<open>loadCredentialKeys\<close> of \<^verbatim>\<open>internal/config\<close> reads them
  from the environment, \<^verbatim>\<open>CredentialCipher\<close> of \<^verbatim>\<open>internal/secrets\<close> encrypts and decrypts with them, and
  the connections service keeps what it encrypted. A Go map is an association list with one entry for each key. AES-GCM is a
  parameter with its documented behaviour as a law.
\<close>

section \<open>Keys from the environment\<close>

datatype key_error = KeysRequired | ActiveVersionInvalid | KeyEntryMalformed | KeyVersionInvalid | KeyVersionDuplicated int
  | KeyTextInvalid int | ActiveKeyMissing

text \<open>\<^verbatim>\<open>base64.StdEncoding.Strict()\<close>: the bits that pad the last sextet are zero, so encoding gives the text back.\<close>

definition base64_strict :: "string \<Rightarrow> string option" where
  "base64_strict s =
     (case base64_unpadded s of
        None \<Rightarrow> None
      | Some b \<Rightarrow> (if base64_padded b = filter (\<lambda>c. c \<noteq> CHR 0x0A \<and> c \<noteq> CHR 0x0D) s then Some b else None))"

fun load_key_entries :: "string list \<Rightarrow> (int \<times> string) list \<Rightarrow> key_error + (int \<times> string) list" where
  "load_key_entries [] keys = Inr keys"
| "load_key_entries (raw # entries) keys =
     (let entry = go_trim raw; version_text = takeWhile (\<lambda>c. c \<noteq> CHR '':'') entry; encoded = drop (Suc (length version_text)) entry
      in if CHR '':'' \<notin> set entry then Inl KeyEntryMalformed
         else (case parse_int (go_trim version_text) of
                 None \<Rightarrow> Inl KeyVersionInvalid
               | Some v \<Rightarrow>
                   (if v < 1 then Inl KeyVersionInvalid
                    else if map_of keys v \<noteq> None then Inl (KeyVersionDuplicated v)
                    else (case base64_strict (go_trim encoded) of
                            None \<Rightarrow> Inl (KeyTextInvalid v)
                          | Some key \<Rightarrow>
                              (if length key \<noteq> 32 then Inl (KeyTextInvalid v) else load_key_entries entries (keys @ [(v, key)]))))))"

text \<open>The arguments are the values of \<^verbatim>\<open>CREDENTIAL_KEYS\<close> and \<^verbatim>\<open>CREDENTIAL_ACTIVE_KEY_VERSION\<close>, empty when they are not set.\<close>

definition loadCredentialKeys :: "string \<Rightarrow> string \<Rightarrow> key_error + (int \<times> string) list \<times> int" where
  "loadCredentialKeys keys_value active_value =
     (let raw_keys = go_trim keys_value
      in if raw_keys = [] then Inl KeysRequired
         else (case parse_int (go_trim active_value) of
                 None \<Rightarrow> Inl ActiveVersionInvalid
               | Some active \<Rightarrow>
                   (if active < 1 then Inl ActiveVersionInvalid
                    else (case load_key_entries (split_on (CHR '','') raw_keys) [] of
                            Inl e \<Rightarrow> Inl e
                          | Inr keys \<Rightarrow> (if map_of keys active = None then Inl ActiveKeyMissing else Inr (keys, active))))))"

section \<open>The cipher\<close>

record key_ring =
  kr_keys :: "(int \<times> string) list"
  kr_active :: int

datatype secret_error = ErrDecryptCredentials | ErrUnknownKeyVersion int | SecretInputMissing | SecretKeyInvalid | SecretNonceFailed

definition newCredentialCipher :: "(int \<times> string) list \<Rightarrow> int \<Rightarrow> key_ring option" where
  "newCredentialCipher keys active =
     (if keys = [] \<or> list_ex (\<lambda>(v, key). v < 1 \<or> length key \<noteq> 32) keys \<or> map_of keys active = None then None
      else Some \<lparr>kr_keys = keys, kr_active = active\<rparr>)"

text \<open>\<^verbatim>\<open>cipher.AEAD\<close>: sealing and opening with a key and a nonce, over additional data.\<close>

record gcm =
  gcm_seal :: "string \<Rightarrow> string \<Rightarrow> string \<Rightarrow> string \<Rightarrow> string"
  gcm_open :: "string \<Rightarrow> string \<Rightarrow> string \<Rightarrow> string \<Rightarrow> string option"

text \<open>\<^verbatim>\<open>aes.NewCipher\<close> wants a key of 16, 24 or 32 bytes.\<close>

definition newGCM :: "string option \<Rightarrow> string option" where
  "newGCM key = (case key of None \<Rightarrow> None | Some k \<Rightarrow> (if length k \<in> {16, 24, 32} then Some k else None))"

definition additionalData :: "string \<Rightarrow> string \<Rightarrow> int \<Rightarrow> string" where
  "additionalData i provider_type version =
     ''controlpanel:credentials:v'' @ format_int version @ CHR 0x00 # provider_type @ CHR 0x00 # i"

definition encrypt_credentials :: "gcm \<Rightarrow> string option \<Rightarrow> key_ring \<Rightarrow> string \<Rightarrow> string \<Rightarrow> string \<Rightarrow> secret_error + credential_record" where
  "encrypt_credentials g random ring i provider_type plaintext =
     (if i = [] \<or> provider_type = [] then Inl SecretInputMissing
      else (case newGCM (map_of (kr_keys ring) (kr_active ring)) of
              None \<Rightarrow> Inl SecretKeyInvalid
            | Some key \<Rightarrow>
                (case random of
                   None \<Rightarrow> Inl SecretNonceFailed
                 | Some nonce \<Rightarrow>
                     Inr \<lparr>crd_ciphertext = gcm_seal g key nonce plaintext (additionalData i provider_type (kr_active ring)),
                          crd_nonce = nonce, crd_version = nat (kr_active ring)\<rparr>)))"

definition decrypt_credentials :: "gcm \<Rightarrow> key_ring \<Rightarrow> string \<Rightarrow> string \<Rightarrow> credential_record \<Rightarrow> secret_error + string" where
  "decrypt_credentials g ring i provider_type crd =
     (let version = int (crd_version crd)
      in case map_of (kr_keys ring) version of
           None \<Rightarrow> Inl (ErrUnknownKeyVersion version)
         | Some k \<Rightarrow>
             (case newGCM (Some k) of
                None \<Rightarrow> Inl ErrDecryptCredentials
              | Some key \<Rightarrow>
                  (if length (crd_nonce crd) \<noteq> 12 then Inl ErrDecryptCredentials
                   else (case gcm_open g key (crd_nonce crd) (crd_ciphertext crd) (additionalData i provider_type version) of
                           None \<Rightarrow> Inl ErrDecryptCredentials
                         | Some plaintext \<Rightarrow> Inr plaintext))))"

text \<open>
  The cipher as the connections service calls it. What it encrypts is the raw text of the credentials: \<open>text_of\<close> is the text a
  document is sent as (none if it is never sent) and \<open>json_of\<close> the document of a text.
\<close>

definition sealing :: "gcm \<Rightarrow> (json \<Rightarrow> string option) \<Rightarrow> string option \<Rightarrow> key_ring \<Rightarrow> string \<Rightarrow> string \<Rightarrow> json \<Rightarrow> credential_record option" where
  "sealing g text_of random ring i provider_type v =
     (case text_of v of
        None \<Rightarrow> None
      | Some plaintext \<Rightarrow>
          (case encrypt_credentials g random ring i provider_type plaintext of Inl _ \<Rightarrow> None | Inr crd \<Rightarrow> Some crd))"

definition unsealing :: "gcm \<Rightarrow> (string \<Rightarrow> json option) \<Rightarrow> key_ring \<Rightarrow> string \<Rightarrow> string \<Rightarrow> credential_record \<Rightarrow> json option" where
  "unsealing g json_of ring i provider_type crd =
     (case decrypt_credentials g ring i provider_type crd of Inl _ \<Rightarrow> None | Inr plaintext \<Rightarrow> json_of plaintext)"

section \<open>Keys that are used and kept\<close>

definition gcm_law :: "gcm \<Rightarrow> bool" where
  "gcm_law g \<longleftrightarrow> (\<forall>key nonce plain ad. gcm_open g key nonce (gcm_seal g key nonce plain ad) ad = Some plain)"

definition ring_ok :: "key_ring \<Rightarrow> bool" where
  "ring_ok ring \<longleftrightarrow> (\<exists>keys active. newCredentialCipher keys active = Some ring)"

lemma ring_okD:
  assumes "ring_ok ring"
  shows "\<exists>key. map_of (kr_keys ring) (kr_active ring) = Some key \<and> 1 \<le> kr_active ring \<and> newGCM (Some key) = Some key"
proof -
  have keys: "list_all (\<lambda>(v, key). 1 \<le> v \<and> length key = 32) (kr_keys ring)" and "map_of (kr_keys ring) (kr_active ring) \<noteq> None"
    using assms by (fastforce simp: ring_ok_def newCredentialCipher_def list_ex_iff list_all_iff case_prod_unfold split: if_splits)+
  then obtain key where key: "map_of (kr_keys ring) (kr_active ring) = Some key" by blast
  then have "(kr_active ring, key) \<in> set (kr_keys ring)" by (rule map_of_SomeD)
  then show ?thesis using keys key by (auto simp: list_all_iff newGCM_def)
qed

text \<open>A later ring has the keys of an earlier one, and any of its keys may be the active one.\<close>

definition keeps_keys :: "key_ring \<Rightarrow> key_ring \<Rightarrow> bool" where
  "keeps_keys old new \<longleftrightarrow> (\<forall>v key. map_of (kr_keys old) v = Some key \<longrightarrow> map_of (kr_keys new) v = Some key)"

lemma keeps_keys_refl [simp]: "keeps_keys ring ring"
  by (simp add: keeps_keys_def)

lemma decrypt_keeps:
  assumes "keeps_keys old new" and "decrypt_credentials g old i t crd = Inr plain"
  shows "decrypt_credentials g new i t crd = Inr plain"
proof -
  obtain k where k: "map_of (kr_keys old) (int (crd_version crd)) = Some k" using assms(2) by (auto simp: decrypt_credentials_def Let_def split: option.splits)
  then have "map_of (kr_keys new) (int (crd_version crd)) = Some k" using assms(1) by (simp add: keeps_keys_def)
  then show ?thesis using assms(2) k by (simp add: decrypt_credentials_def Let_def)
qed

lemma encrypted_decrypts:
  assumes "encrypt_credentials g random ring i t plain = Inr crd" and "gcm_law g" and "ring_ok ring" and "\<And>nonce. random = Some nonce \<Longrightarrow> length nonce = 12"
  shows "decrypt_credentials g ring i t crd = Inr plain"
proof -
  obtain key where key: "map_of (kr_keys ring) (kr_active ring) = Some key" "1 \<le> kr_active ring" "newGCM (Some key) = Some key"
    using ring_okD [OF assms(3)] by blast
  obtain nonce where nonce: "random = Some nonce" and
      crd: "crd = \<lparr>crd_ciphertext = gcm_seal g key nonce plain (additionalData i t (kr_active ring)), crd_nonce = nonce, crd_version = nat (kr_active ring)\<rparr>"
    using assms(1) key by (auto simp: encrypt_credentials_def split: if_splits option.splits)
  have "gcm_open g key nonce (gcm_seal g key nonce plain ad) ad = Some plain" for ad using assms(2) by (simp add: gcm_law_def)
  then show ?thesis using key assms(4) [OF nonce] by (simp add: decrypt_credentials_def crd Let_def)
qed


text \<open>The calls of one process: they share the keys, the registry and the cryptography; a nonce has twelve bytes.\<close>

definition calls_with :: "gcm \<Rightarrow> (json \<Rightarrow> string option) \<Rightarrow> (string \<Rightarrow> json option) \<Rightarrow> (connection_config \<Rightarrow> go_error option) \<Rightarrow> key_ring \<Rightarrow> connection_call \<Rightarrow> bool" where
  "calls_with g text_of json_of registry ring c \<longleftrightarrow>
     nv_registry (call_env c) = registry \<and> nv_decrypt (call_env c) = unsealing g json_of ring \<and>
     (\<exists>random. (\<forall>nonce. random = Some nonce \<longrightarrow> length nonce = 12) \<and> nv_encrypt (call_env c) = sealing g text_of random ring)"

definition run_processes :: "(key_ring \<times> connection_call list) list \<Rightarrow> connection_world \<Rightarrow> connection_world" where
  "run_processes epochs w = fold (\<lambda>(ring, calls). call_run calls) epochs w"

lemma ring_cipher_law:
  assumes "calls_with g text_of json_of registry ring c" and "gcm_law g" and "ring_ok ring" and "\<forall>v s. text_of v = Some s \<longrightarrow> json_of s = Some v"
  shows "cipher_law (call_env c)"
proof -
  obtain random where random: "\<forall>nonce. random = Some nonce \<longrightarrow> length nonce = 12" "nv_encrypt (call_env c) = sealing g text_of random ring"
    "nv_decrypt (call_env c) = unsealing g json_of ring" using assms(1) by (auto simp: calls_with_def)
  have "unsealing g json_of ring i t crd = Some v" if sealed: "sealing g text_of random ring i t v = Some crd" for i t v crd
  proof -
    obtain s where s: "text_of v = Some s" "encrypt_credentials g random ring i t s = Inr crd" using sealed by (auto simp: sealing_def split: option.splits sum.splits)
    then show ?thesis using encrypted_decrypts [OF s(2) assms(2,3)] random(1) assms(4) by (simp add: unsealing_def)
  qed
  then show ?thesis by (simp add: cipher_law_def random)
qed

lemma epoch_ok:
  assumes "connections_ok env (vw_connections w)" and "list_all (calls_with g text_of json_of (nv_registry env) ring) calls"
    and "nv_decrypt env = unsealing g json_of ring" and "gcm_law g" and "ring_ok ring" and "\<forall>v s. text_of v = Some s \<longrightarrow> json_of s = Some v"
  shows "connections_ok env (vw_connections (call_run calls w))"
  using assms(1,2)
proof (induction calls arbitrary: w)
  case (Cons c calls)
  have "connections_ok env (vw_connections (call_step c w))"
    using Cons.prems assms(3-6) ring_cipher_law [of g text_of json_of "nv_registry env" ring c]
    by (intro reading_call_ok) (simp_all add: calls_with_def)
  then show ?case using Cons by (simp add: call_run_def)
qed (simp add: call_run_def)

lemma rotation_ok:
  assumes "connections_ok (env\<lparr>nv_decrypt := unsealing g json_of old\<rparr>) tbl" and "keeps_keys old new"
  shows "connections_ok (env\<lparr>nv_decrypt := unsealing g json_of new\<rparr>) tbl"
proof -
  have "unsealing g json_of new i t crd = Some v" if "unsealing g json_of old i t crd = Some v" for i t crd v
    using that decrypt_keeps [OF assms(2)] by (auto simp: unsealing_def split: sum.splits)
  then show ?thesis using assms(1) by (fastforce simp: connections_ok_def usable_iff)
qed

lemma processes_ok:
  assumes "connections_ok (env\<lparr>nv_decrypt := unsealing g json_of old\<rparr>) (vw_connections w)"
    and "sorted_wrt keeps_keys (old # map fst epochs @ [ring])"
    and "list_all (\<lambda>(r, calls). ring_ok r \<and> list_all (calls_with g text_of json_of (nv_registry env) r) calls) epochs"
    and "gcm_law g" and "\<forall>v s. text_of v = Some s \<longrightarrow> json_of s = Some v"
  shows "connections_ok (env\<lparr>nv_decrypt := unsealing g json_of ring\<rparr>) (vw_connections (run_processes epochs w))"
  using assms(1-3)
proof (induction epochs arbitrary: w old)
  case Nil
  then show ?case using rotation_ok by (simp add: run_processes_def)
next
  case (Cons epoch epochs)
  obtain r calls where epoch: "epoch = (r, calls)" by fastforce
  have kept: "keeps_keys old r" and later: "sorted_wrt keeps_keys (r # map fst epochs @ [ring])" using Cons.prems(2) by (simp_all add: epoch)
  have ring: "ring_ok r" and calls: "list_all (calls_with g text_of json_of (nv_registry env) r) calls"
    and rest: "list_all (\<lambda>(r, calls). ring_ok r \<and> list_all (calls_with g text_of json_of (nv_registry env) r) calls) epochs"
    using Cons.prems(3) by (simp_all add: epoch)
  let ?env = "env\<lparr>nv_decrypt := unsealing g json_of r\<rparr>"
  have fields: "nv_registry ?env = nv_registry env" "nv_decrypt ?env = unsealing g json_of r" by simp_all
  have "connections_ok ?env (vw_connections w)" by (rule rotation_ok [OF Cons.prems(1) kept])
  then have "connections_ok ?env (vw_connections (call_run calls w))"
    by (rule epoch_ok [OF _ _ fields(2) assms(4) ring assms(5)]) (unfold fields(1), rule calls)
  then have "connections_ok (env\<lparr>nv_decrypt := unsealing g json_of ring\<rparr>) (vw_connections (run_processes epochs (call_run calls w)))"
    by (rule Cons.IH [OF _ later rest])
  then show ?case by (simp add: run_processes_def epoch)
qed

text \<open>
  C11. Credentials survive the rotation of keys. Whatever the service is asked, over any number of processes, each with a valid set of keys that has
  all keys of the ones before it and any of them active, every stored connection can be used with the keys of the last: ids are
  unique, each row decrypts to a configuration the registry accepted, and testing a connection never fails because of them.
\<close>

theorem credentials_survive_key_rotation:
  assumes "gcm_law g" and "\<forall>v s. text_of v = Some s \<longrightarrow> json_of s = Some v" and "sorted_wrt keeps_keys (map fst epochs @ [ring])"
    and "list_all (\<lambda>(r, calls). ring_ok r \<and> list_all (calls_with g text_of json_of registry r) calls) epochs"
    and "calls_with g text_of json_of registry ring (CallTest env i)" and "w = run_processes epochs no_connections"
  shows "distinct (map connection_key (vw_connections w)) \<and> list_all (usable_row env) (vw_connections w) \<and>
    fst (test_connection env i w) \<noteq> Inl ErrConnectionCipher \<and> fst (test_connection env i w) \<noteq> Inl ErrProviderConstruction"
proof -
  have registry: "registry = nv_registry env" and env: "env\<lparr>nv_decrypt := unsealing g json_of ring\<rparr> = env" using assms(5) by (simp_all add: calls_with_def)
  have none: "connections_ok e (vw_connections no_connections)" for e by (simp add: no_connections_def connections_ok_def)
  have "connections_ok (env\<lparr>nv_decrypt := unsealing g json_of ring\<rparr>) (vw_connections w)"
    unfolding assms(6)
    by (rule processes_ok [where old = "\<lparr>kr_keys = [], kr_active = 0\<rparr>", OF none _ assms(4) [unfolded registry] assms(1,2)]) (use assms(3) in \<open>simp add: keeps_keys_def\<close>)
  then have "connections_ok env (vw_connections w)" by (simp only: env)
  then show ?thesis using usable_connections_can_be_tested by (simp add: connections_ok_def list_all_iff)
qed

text \<open>
  The credentials of a connection whose key is gone cannot be replaced. An update decrypts the stored credentials before it looks at the new
  ones, so every update is refused and changes nothing, whatever credentials it brings; a test fails too.
\<close>

lemma lost_key_blocks_update:
  assumes "find_connection False i (vw_connections w) = Inr (c, crd)" and "map_of (kr_keys ring) (int (crd_version crd)) = None"
    and "nv_decrypt env = unsealing g json_of ring" and "\<not> nv_find_fault env"
  shows "(\<exists>e. update_connection env i input w = (Inl e, w)) \<and> test_connection env i w = (Inl ErrConnectionCipher, w)"
proof -
  have "nv_decrypt env j t crd = None" for j t by (simp add: assms(2,3) unsealing_def decrypt_credentials_def Let_def)
  then show ?thesis using assms(1,4)
    by (simp add: update_connection_def test_connection_def stored_config_def Let_def split: option.split)
qed

text \<open>Opening with other additional data fails.\<close>

definition gcm_binding :: "gcm \<Rightarrow> bool" where
  "gcm_binding g \<longleftrightarrow> (\<forall>key nonce plain ad ad'. ad' \<noteq> ad \<longrightarrow> gcm_open g key nonce (gcm_seal g key nonce plain ad) ad' = None)"

lemma additionalData_inj:
  assumes "additionalData i t v = additionalData i' t' v" and "CHR 0x00 \<notin> set t" and "CHR 0x00 \<notin> set t'"
  shows "i = i' \<and> t = t'"
proof -
  have "t @ CHR 0x00 # i = t' @ CHR 0x00 # i'" using assms(1) by (simp add: additionalData_def)
  then have "takeWhile (\<lambda>c. c \<noteq> CHR 0x00) (t @ CHR 0x00 # i) = takeWhile (\<lambda>c. c \<noteq> CHR 0x00) (t' @ CHR 0x00 # i')" by simp
  then have "t = t'" using assms(2,3) by (subst (asm) (1 2) takeWhile_append2) (auto simp del: takeWhile_append2)
  then show ?thesis using \<open>t @ CHR 0x00 # i = t' @ CHR 0x00 # i'\<close> by simp
qed

text \<open>
  C12. Stored credentials are bound to their connection. What was encrypted for one connection cannot be decrypted as the
  credentials of another one, or of another type of provider, with these keys or with any that were rotated in later (names of types have no zero byte).
\<close>

theorem credentials_are_bound_to_connection:
  assumes "encrypt_credentials g (Some nonce) ring i t plain = Inr crd" and "gcm_binding g" and "ring_ok ring" and "keeps_keys ring new"
    and "(i', t') \<noteq> (i, t)" and "CHR 0x00 \<notin> set t" and "CHR 0x00 \<notin> set t'"
  shows "decrypt_credentials g new i' t' crd = Inl ErrDecryptCredentials"
proof -
  obtain key where key: "map_of (kr_keys ring) (kr_active ring) = Some key" "1 \<le> kr_active ring" "newGCM (Some key) = Some key"
    using ring_okD [OF assms(3)] by blast
  then have crd: "crd = \<lparr>crd_ciphertext = gcm_seal g key nonce plain (additionalData i t (kr_active ring)), crd_nonce = nonce, crd_version = nat (kr_active ring)\<rparr>"
    using assms(1) by (auto simp: encrypt_credentials_def split: if_splits)
  have "map_of (kr_keys new) (kr_active ring) = Some key" using assms(4) key(1) by (simp add: keeps_keys_def)
  moreover have "additionalData i' t' (kr_active ring) \<noteq> additionalData i t (kr_active ring)" using additionalData_inj assms(5-7) by blast
  ultimately show ?thesis using assms(2) key by (simp add: decrypt_credentials_def crd gcm_binding_def Let_def)
qed


section \<open>The text of the keys\<close>

definition key_entry :: "int \<times> string \<Rightarrow> string" where
  "key_entry e = format_int (fst e) @ CHR '':'' # base64_padded (snd e)"

definition keys_text :: "(int \<times> string) list \<Rightarrow> string" where
  "keys_text keys = join_with (CHR '','') (map key_entry keys)"

lemma plain_trim: "(\<And>c. c \<in> set s \<Longrightarrow> \<not> go_space c) \<Longrightarrow> go_trim s = s"
  by (rule trim_by_trimmed) (auto simp: trimmed_by_def)

lemma base64_plain: "c \<in> set (base64_padded s) \<Longrightarrow> c \<noteq> CHR '','' \<and> \<not> go_space c"
proof -
  have "list_all (\<lambda>n. std_alphabet n \<noteq> CHR '','' \<and> \<not> go_space (std_alphabet n)) [0 ..< 64]" by code_simp
  then have "std_alphabet n \<noteq> CHR '','' \<and> \<not> go_space (std_alphabet n)" if "n < 64" for n using that by (simp add: list_all_iff)
  then have "c \<noteq> CHR '','' \<and> \<not> go_space c" if "c \<in> set (base64_encode std_alphabet s)" for c
    using that sextets_less [of _ s] by (auto simp: base64_encode_def)
  moreover have "\<not> go_space CHR ''=''" by (simp add: go_space_def)
  ultimately show "c \<in> set (base64_padded s) \<Longrightarrow> c \<noteq> CHR '','' \<and> \<not> go_space c" by (auto simp: base64_padded_def Let_def)
qed

lemma format_int_plain: "0 \<le> v \<Longrightarrow> c \<in> set (format_int v) \<Longrightarrow> ascii_digit c"
  using digits_of_value [of "nat v"] by (auto simp: format_int_def list_all_iff)

lemma ascii_digit_plain: "ascii_digit c \<Longrightarrow> c \<noteq> CHR '','' \<and> c \<noteq> CHR '':'' \<and> \<not> go_space c"
  by (auto simp: ascii_digit_def go_space_def)

lemma strict_round_trip [simp]: "base64_strict (base64_padded s) = Some s"
proof -
  have "\<not> go_space c \<Longrightarrow> c \<noteq> CHR 0x0A \<and> c \<noteq> CHR 0x0D" for c by (auto simp: go_space_def)
  then have "filter (\<lambda>c. c \<noteq> CHR 0x0A \<and> c \<noteq> CHR 0x0D) (base64_padded s) = base64_padded s"
    using base64_plain [of _ s] by (auto simp: filter_id_conv)
  then show ?thesis by (simp add: base64_strict_def)
qed

lemma key_entry_plain:
  assumes "1 \<le> fst e" and "c \<in> set (key_entry e)"
  shows "c \<noteq> CHR '','' \<and> \<not> go_space c"
  using assms base64_plain [of c "snd e"] format_int_plain [of "fst e" c] ascii_digit_plain [of c]
  by (auto simp: key_entry_def go_space_def)

lemma key_entries_load:
  assumes "list_all (\<lambda>(v, key). 1 \<le> v \<and> v < 2 ^ 63 \<and> length key = 32) keys" and "distinct (map fst (loaded @ keys))"
  shows "load_key_entries (map key_entry keys) loaded = Inr (loaded @ keys)"
  using assms
proof (induction keys arbitrary: loaded)
  case (Cons e keys)
  obtain v key where e: "e = (v, key)" by fastforce
  have v: "1 \<le> v" "v < 2 ^ 63" "length key = 32" using Cons.prems(1) by (simp_all add: e)
  have trim: "go_trim (key_entry e) = key_entry e" using key_entry_plain [of e] v(1) by (intro plain_trim) (simp add: e)
  have digits: "\<forall>c \<in> set (format_int v). ascii_digit c" using format_int_plain [of v] v(1) by auto
  then have no_colon: "\<forall>c \<in> set (format_int v). c \<noteq> CHR '':''" using ascii_digit_plain by blast
  have version: "takeWhile (\<lambda>c. c \<noteq> CHR '':'') (key_entry e) = format_int v" using no_colon by (simp add: key_entry_def e takeWhile_append2)
  have encoded: "drop (Suc (length (format_int v))) (key_entry e) = base64_padded key" by (simp add: key_entry_def e)
  have trims: "go_trim (format_int v) = format_int v" "go_trim (base64_padded key) = base64_padded key"
    by (rule plain_trim, use digits ascii_digit_plain base64_plain in blast)+
  have fresh: "map_of loaded v = None" using Cons.prems(2) by (auto simp: e map_of_eq_None_iff)
  have colon: "CHR '':'' \<in> set (key_entry e)" by (simp add: key_entry_def)
  have "load_key_entries (map key_entry (e # keys)) loaded = load_key_entries (map key_entry keys) (loaded @ [(v, key)])"
    using v fresh colon by (simp add: trim version encoded trims parse_format_int Let_def)
  also have "\<dots> = Inr ((loaded @ [(v, key)]) @ keys)" using Cons.prems by (intro Cons.IH) (simp_all add: e)
  finally show ?case by (simp add: e)
qed simp

text \<open>
  A set of keys written as text is read back. Any keys of 32 bytes with distinct positive versions, one of them active, written as
  \<^verbatim>\<open>version:base64\<close> entries with commas, are loaded as they are, and the cipher accepts them.
\<close>

lemma written_keys_are_loaded:
  assumes "list_all (\<lambda>(v, key). 1 \<le> v \<and> v < 2 ^ 63 \<and> length key = 32) keys" and "distinct (map fst keys)" and "active \<in> fst ` set keys"
  shows "loadCredentialKeys (keys_text keys) (format_int active) = Inr (keys, active) \<and> newCredentialCipher keys active \<noteq> None"
proof -
  have versions: "\<And>e. e \<in> set keys \<Longrightarrow> 1 \<le> fst e" using assms(1) by (auto simp: list_all_iff)
  have active: "1 \<le> active" "active < 2 ^ 63" "map_of keys active \<noteq> None" using assms(1,3) by (auto simp: list_all_iff map_of_eq_None_iff)
  have "keys \<noteq> []" using assms(3) by auto
  have entries: "\<forall>e \<in> set keys. \<forall>c \<in> set (key_entry e). c \<noteq> CHR '','' \<and> \<not> go_space c" using key_entry_plain versions by blast
  then have no_comma: "\<forall>e \<in> set keys. CHR '','' \<notin> set (key_entry e)" by blast
  have comma: "\<not> go_space CHR '',''" by (simp add: go_space_def)
  then have split: "split_on (CHR '','') (keys_text keys) = map key_entry keys"
    unfolding keys_text_def using no_comma \<open>keys \<noteq> []\<close> by (intro split_join) simp_all
  have join_set: "c \<in> set (join_with x ps) \<Longrightarrow> c = x \<or> (\<exists>p \<in> set ps. c \<in> set p)" for c x ps
    by (induction x ps rule: join_with.induct) auto
  have trim: "go_trim (keys_text keys) = keys_text keys"
  proof (rule plain_trim)
    show "\<not> go_space c" if "c \<in> set (keys_text keys)" for c
      using join_set [OF that [unfolded keys_text_def]] entries comma by auto
  qed
  have "go_trim (format_int active) = format_int active" using format_int_plain [of active] active(1) ascii_digit_plain by (intro plain_trim) auto
  moreover have "keys_text keys \<noteq> []" using split \<open>keys \<noteq> []\<close> by (cases keys) (auto simp: key_entry_def)
  moreover have "load_key_entries (map key_entry keys) [] = Inr keys" using key_entries_load [OF assms(1), of "[]"] assms(2) by simp
  ultimately have "loadCredentialKeys (keys_text keys) (format_int active) = Inr (keys, active)"
    using active trim split by (simp add: loadCredentialKeys_def parse_format_int Let_def)
  moreover have "newCredentialCipher keys active \<noteq> None"
    using assms(1) active(3) \<open>keys \<noteq> []\<close> by (auto simp: newCredentialCipher_def list_ex_iff list_all_iff)
  ultimately show ?thesis by blast
qed

text \<open>Whatever the configuration accepts makes a cipher: the checks of the two agree.\<close>

lemma load_key_entries_ok:
  "load_key_entries entries keys = Inr loaded \<Longrightarrow> list_all (\<lambda>(v, key). 1 \<le> v \<and> length key = 32) keys \<Longrightarrow>
   list_all (\<lambda>(v, key). 1 \<le> v \<and> length key = 32) loaded"
  by (induction entries keys rule: load_key_entries.induct) (auto simp: Let_def split: if_splits option.splits)

lemma loaded_keys_make_a_cipher:
  assumes "loadCredentialKeys keys_value active_value = Inr (keys, active)"
  shows "ring_ok \<lparr>kr_keys = keys, kr_active = active\<rparr>"
proof -
  have "load_key_entries (split_on (CHR '','') (go_trim keys_value)) [] = Inr keys" "map_of keys active \<noteq> None"
    using assms by (auto simp: loadCredentialKeys_def Let_def split: if_splits option.splits sum.splits)
  then have "newCredentialCipher keys active = Some \<lparr>kr_keys = keys, kr_active = active\<rparr>"
    using load_key_entries_ok by (fastforce simp: newCredentialCipher_def list_ex_iff list_all_iff)
  then show ?thesis by (auto simp: ring_ok_def)
qed


section \<open>Samples\<close>

text \<open>A toy AEAD that writes the additional data in front, with its length.\<close>

definition sample_gcm :: gcm where
  "sample_gcm = \<lparr>gcm_seal = (\<lambda>key nonce plain ad. replicate (length ad) (CHR ''1'') @ CHR ''0'' # ad @ plain),
     gcm_open = (\<lambda>key nonce ct ad. let n = length (takeWhile (\<lambda>c. c = CHR ''1'') ct); rest = drop (Suc n) ct
        in if take n rest = ad then Some (drop n rest) else None)\<rparr>"

lemma sample_gcm_opens [simp]:
  "gcm_open sample_gcm key nonce (gcm_seal sample_gcm key nonce plain ad) ad' = (if ad = ad' then Some plain else None)"
proof -
  have "takeWhile (\<lambda>c. c = CHR ''1'') (replicate (length ad) (CHR ''1'') @ CHR ''0'' # ad @ plain) = replicate (length ad) (CHR ''1'')"
    by (subst takeWhile_append2) simp_all
  then show ?thesis by (cases "ad = ad'") (simp_all add: sample_gcm_def Let_def)
qed

definition sample_key :: "char \<Rightarrow> string" where
  "sample_key c = replicate 32 c"

definition first_ring :: key_ring where
  "first_ring = \<lparr>kr_keys = [(1, sample_key (CHR ''a''))], kr_active = 1\<rparr>"

definition rotated_ring :: key_ring where
  "rotated_ring = \<lparr>kr_keys = [(1, sample_key (CHR ''a'')), (2, sample_key (CHR ''b''))], kr_active = 2\<rparr>"

definition replaced_ring :: key_ring where
  "replaced_ring = \<lparr>kr_keys = [(2, sample_key (CHR ''b''))], kr_active = 2\<rparr>"

fun sample_text_of :: "json \<Rightarrow> string option" where
  "sample_text_of (JStr s) = Some s"
| "sample_text_of _ = None"

definition keyed_env :: "key_ring \<Rightarrow> connection_env" where
  "keyed_env ring = sample_connection_env\<lparr>nv_encrypt := sealing sample_gcm sample_text_of (Some (replicate 12 (CHR ''n''))) ring,
     nv_decrypt := unsealing sample_gcm (\<lambda>s. Some (JStr s)) ring\<rparr>"

lemma sample_laws: "gcm_law sample_gcm" "gcm_binding sample_gcm" "ring_ok first_ring" "\<forall>v s. sample_text_of v = Some s \<longrightarrow> Some (JStr s) = Some v"
  "keeps_keys first_ring rotated_ring"
proof -
  show "ring_ok first_ring" unfolding ring_ok_def
    by (intro exI [of _ "[(1, sample_key (CHR ''a''))]"] exI [of _ 1]) (simp add: newCredentialCipher_def first_ring_def sample_key_def)
  show "\<forall>v s. sample_text_of v = Some s \<longrightarrow> Some (JStr s) = Some v" by (intro allI, rename_tac v s, case_tac v) simp_all
qed (simp_all add: gcm_law_def gcm_binding_def keeps_keys_def first_ring_def rotated_ring_def)

lemma keyed_calls: "call_env c = keyed_env ring \<Longrightarrow> calls_with sample_gcm sample_text_of (\<lambda>s. Some (JStr s)) (nv_registry sample_connection_env) ring c"
  by (auto simp: calls_with_def keyed_env_def intro!: exI [of _ "Some (replicate 12 (CHR ''n''))"])

lemma keyed_creation:
  "\<exists>crd. vw_connections (snd (create_connection (keyed_env first_ring) sample_input no_connections)) =
     [\<lparr>cr_connection = sample_connection, cr_credentials = crd, cr_deleted = None\<rparr>] \<and> crd_version crd = 1"
proof -
  have new: "new_connection (keyed_env first_ring) sample_input = sample_connection"
    using sample_new by (simp add: new_connection_def keyed_env_def)
  have key: "newGCM (map_of (kr_keys first_ring) 1) = Some (sample_key (CHR ''a''))" "kr_active first_ring = 1"
    by (simp_all add: newGCM_def first_ring_def sample_key_def)
  show ?thesis
    unfolding create_connection_def new Let_def
    by (simp add: sample_connection_def keyed_env_def sample_connection_env_def sample_input_def config_of_def sealing_def encrypt_credentials_def key
        insert_connection_def no_connections_def)
qed

theorem credentials_survive_key_rotation_witness:
  "vw_connections (run_processes [(first_ring, [CallCreate (keyed_env first_ring) sample_input])] no_connections) \<noteq> [] \<and>
   list_all (usable_row (keyed_env rotated_ring)) (vw_connections (run_processes [(first_ring, [CallCreate (keyed_env first_ring) sample_input])] no_connections))"
proof -
  let ?epochs = "[(first_ring, [CallCreate (keyed_env first_ring) sample_input])]"
  have "vw_connections (run_processes ?epochs no_connections) \<noteq> []"
    using keyed_creation by (auto simp: run_processes_def call_run_def)
  moreover have "list_all (\<lambda>(r, calls). ring_ok r \<and> list_all (calls_with sample_gcm sample_text_of (\<lambda>s. Some (JStr s)) (nv_registry sample_connection_env) r) calls) ?epochs"
    using sample_laws(3) keyed_calls by simp
  moreover have "sorted_wrt keeps_keys (map fst ?epochs @ [rotated_ring])" using sample_laws(5) by simp
  ultimately show ?thesis
    using credentials_survive_key_rotation [OF sample_laws(1,4) _ _ keyed_calls refl, of ?epochs rotated_ring "keyed_env rotated_ring" "''c1''"] by simp
qed

theorem lost_key_blocks_update_witness:
  "\<exists>crd. let w = no_connections\<lparr>vw_connections := [\<lparr>cr_connection = sample_connection, cr_credentials = crd, cr_deleted = None\<rparr>]\<rparr>
     in crd_version crd = 1 \<and> (\<exists>e. update_connection (keyed_env replaced_ring) ''c1'' sample_input w = (Inl e, w)) \<and>
        test_connection (keyed_env replaced_ring) ''c1'' w = (Inl ErrConnectionCipher, w)"
proof -
  obtain crd :: credential_record where "crd_version crd = 1" using keyed_creation by blast
  let ?w = "no_connections\<lparr>vw_connections := [\<lparr>cr_connection = sample_connection, cr_credentials = crd, cr_deleted = None\<rparr>]\<rparr>"
  have "find_connection False ''c1'' (vw_connections ?w) = Inr (sample_connection, crd)"
    by (simp add: find_connection_def active_row_def sample_connection_def)
  moreover have "map_of (kr_keys replaced_ring) (int (crd_version crd)) = None" by (simp add: \<open>crd_version crd = 1\<close> replaced_ring_def)
  ultimately show ?thesis
    using lost_key_blocks_update [of "''c1''" ?w sample_connection crd replaced_ring "keyed_env replaced_ring" sample_gcm "\<lambda>s. Some (JStr s)" sample_input] \<open>crd_version crd = 1\<close>
    by (intro exI [of _ crd]) (simp add: keyed_env_def sample_connection_env_def Let_def)
qed

theorem credentials_are_bound_to_connection_witness:
  "\<exists>crd. encrypt_credentials sample_gcm (Some (replicate 12 (CHR ''n''))) first_ring ''c1'' ''mock'' ''key'' = Inr crd \<and>
     decrypt_credentials sample_gcm rotated_ring ''c2'' ''mock'' crd = Inl ErrDecryptCredentials"
proof -
  have key: "newGCM (map_of (kr_keys first_ring) 1) = Some (sample_key (CHR ''a''))" "kr_active first_ring = 1"
    by (simp_all add: newGCM_def first_ring_def sample_key_def)
  obtain crd where crd: "encrypt_credentials sample_gcm (Some (replicate 12 (CHR ''n''))) first_ring ''c1'' ''mock'' ''key'' = Inr crd"
    by (simp add: encrypt_credentials_def key)
  show ?thesis using crd credentials_are_bound_to_connection [OF crd sample_laws(2,3,5), of "''c2''" "''mock''"] by simp
qed

theorem written_keys_are_loaded_witness:
  "loadCredentialKeys (keys_text (kr_keys rotated_ring)) (format_int 2) = Inr (kr_keys rotated_ring, 2)"
  using written_keys_are_loaded [of "kr_keys rotated_ring" 2] by (simp add: rotated_ring_def sample_key_def)

end
