(* ===== verification/WebAuth.thy ===== *)
theory WebAuth imports WebClient begin

text \<open>
  Signing in: \<^verbatim>\<open>web/src/auth/AuthContext.tsx\<close> (bootstrap, \<^verbatim>\<open>initialize\<close>, \<^verbatim>\<open>login\<close>, \<^verbatim>\<open>logout\<close>),
  the forms of \<^verbatim>\<open>LoginPage.tsx\<close> and \<^verbatim>\<open>SetupPage.tsx\<close>, and the page \<^verbatim>\<open>app/App.tsx\<close> chooses.
  A request that is awaited is a task in flight; the event that settles it may come in any order
  with the user's actions, so a run is any sequence of events. Texts shown to the user are
  constructors.
\<close>

section \<open>State\<close>

datatype auth_state = AuthLoading | SetupRequired | Unauthenticated | Authenticated "json option"

datatype auth_task = TaskSetupStatus | TaskMe | TaskLogin | TaskInitialize | TaskLogout

datatype form_error = WrongCredentials | PasswordsDiffer | CannotCreateAdministrator

record web_session =
  ws_auth :: auth_state
  ws_client :: client
  ws_active :: bool
  ws_tasks :: "(auth_task \<times> fetch_request option) list"
  ws_pending :: bool
  ws_error :: "form_error option"

text \<open>Truthiness of a member that may be missing.\<close>

fun truthy :: "json option \<Rightarrow> bool" where
  "truthy None = False"
| "truthy (Some JNull) = False"
| "truthy (Some (JBool b)) = b"
| "truthy (Some (JNum n)) = (n \<noteq> 0)"
| "truthy (Some (JStr s)) = (s \<noteq> [])"
| "truthy (Some _) = True"

fun same_page :: "auth_state \<Rightarrow> auth_state \<Rightarrow> bool" where
  "same_page AuthLoading AuthLoading = True"
| "same_page SetupRequired SetupRequired = True"
| "same_page Unauthenticated Unauthenticated = True"
| "same_page (Authenticated _) (Authenticated _) = True"
| "same_page _ _ = False"

text \<open>\<^verbatim>\<open>setState\<close> of the provider: when another page is mounted, its form starts afresh; after unmounting it has no effect.\<close>

definition set_auth :: "auth_state \<Rightarrow> web_session \<Rightarrow> web_session" where
  "set_auth a st =
     (if \<not> ws_active st then st
      else if same_page (ws_auth st) a then st\<lparr>ws_auth := a\<rparr>
      else st\<lparr>ws_auth := a, ws_pending := False, ws_error := None\<rparr>)"

definition start_task :: "auth_task \<Rightarrow> string \<Rightarrow> request_init \<Rightarrow> web_session \<Rightarrow> web_session" where
  "start_task t path init st =
     st\<lparr>ws_tasks := ws_tasks st @ [(t, build_request (ws_client st) path init)]\<rparr>"

section \<open>The provider\<close>

definition initial_session :: "string \<Rightarrow> web_session" where
  "initial_session cookie = start_task TaskSetupStatus ''/setup/status'' no_init
     \<lparr>ws_auth = AuthLoading, ws_client = \<lparr>csrf_token = None, document_cookie = cookie\<rparr>, ws_active = True,
      ws_tasks = [], ws_pending = False, ws_error = None\<rparr>"

definition credentials_init :: "string \<Rightarrow> string \<Rightarrow> request_init" where
  "credentials_init username password = no_init\<lparr>in_method := Some ''POST'',
     in_body := Some (JObj [(''username'', JStr username), (''password'', JStr password)])\<rparr>"

definition call_initialize :: "string \<Rightarrow> string \<Rightarrow> web_session \<Rightarrow> web_session" where
  "call_initialize username password = start_task TaskInitialize ''/setup/initialize'' (credentials_init username password)"

definition call_login :: "string \<Rightarrow> string \<Rightarrow> web_session \<Rightarrow> web_session" where
  "call_login username password = start_task TaskLogin ''/auth/login'' (credentials_init username password)"

definition call_logout :: "web_session \<Rightarrow> web_session" where
  "call_logout = start_task TaskLogout ''/auth/logout'' (no_init\<lparr>in_method := Some ''POST''\<rparr>)"

text \<open>
  \<^verbatim>\<open>setCSRFToken(readCSRFCookie())\<close> and then \<^verbatim>\<open>setState\<close> with \<^verbatim>\<open>response.user\<close>, each of which may
  throw; the flag tells that one did.
\<close>

definition accept_user :: "api_outcome \<Rightarrow> web_session \<Rightarrow> bool \<times> web_session" where
  "accept_user out st =
     (case readCSRFCookie (document_cookie (ws_client st)) of
        None \<Rightarrow> (True, st)
      | Some token \<Rightarrow>
          (let st' = st\<lparr>ws_client := setCSRFToken token (ws_client st)\<rparr>
           in (case out of
                 ApiValue v \<Rightarrow> (if v = JNull then (True, st')
                               else (False, set_auth (Authenticated (json_member ''user'' v)) st'))
               | _ \<Rightarrow> (True, st'))))"

definition rejected :: "api_outcome \<Rightarrow> bool" where
  "rejected out \<longleftrightarrow> (case out of ApiRequestError _ \<Rightarrow> True | ApiThrown \<Rightarrow> True | _ \<Rightarrow> False)"

text \<open>The rest of \<^verbatim>\<open>bootstrap\<close> after \<^verbatim>\<open>/setup/status\<close>, and after \<^verbatim>\<open>/auth/me\<close>.\<close>

definition after_setup_status :: "api_outcome \<Rightarrow> web_session \<Rightarrow> web_session" where
  "after_setup_status out st =
     (if \<not> ws_active st then st
      else (case out of
              ApiValue v \<Rightarrow>
                (if v = JNull then set_auth Unauthenticated st
                 else if truthy (json_member ''requires_setup'' v) then set_auth SetupRequired st
                 else start_task TaskMe ''/auth/me'' no_init st)
            | _ \<Rightarrow> set_auth Unauthenticated st))"

definition after_me :: "api_outcome \<Rightarrow> web_session \<Rightarrow> web_session" where
  "after_me out st =
     (if \<not> ws_active st then st
      else if rejected out then set_auth Unauthenticated st
      else (let (threw, st') = accept_user out st in if threw then set_auth Unauthenticated st' else st'))"

definition form_failed :: "form_error \<Rightarrow> web_session \<Rightarrow> web_session" where
  "form_failed e st = st\<lparr>ws_error := Some e, ws_pending := False\<rparr>"

text \<open>\<^verbatim>\<open>login\<close> and \<^verbatim>\<open>initialize\<close> with the \<^verbatim>\<open>catch\<close> and \<^verbatim>\<open>finally\<close> of the form that awaits them.\<close>

definition after_credentials :: "form_error \<Rightarrow> api_outcome \<Rightarrow> web_session \<Rightarrow> web_session" where
  "after_credentials e out st =
     (if rejected out then form_failed e st
      else (let (threw, st') = accept_user out st in if threw then form_failed e st' else st'))"

definition after_logout :: "api_outcome \<Rightarrow> web_session \<Rightarrow> web_session" where
  "after_logout out st =
     (if rejected out then st
      else set_auth Unauthenticated (st\<lparr>ws_client := setCSRFToken None (ws_client st)\<rparr>))"

fun resume :: "auth_task \<Rightarrow> api_outcome \<Rightarrow> web_session \<Rightarrow> web_session" where
  "resume TaskSetupStatus out st = after_setup_status out st"
| "resume TaskMe out st = after_me out st"
| "resume TaskLogin out st = after_credentials WrongCredentials out st"
| "resume TaskInitialize out st = after_credentials CannotCreateAdministrator out st"
| "resume TaskLogout out st = after_logout out st"

section \<open>The forms\<close>

definition submit_login :: "string \<Rightarrow> string \<Rightarrow> web_session \<Rightarrow> web_session" where
  "submit_login username password st =
     call_login username password (st\<lparr>ws_pending := True, ws_error := None\<rparr>)"

definition submit_setup :: "string \<Rightarrow> string \<Rightarrow> string \<Rightarrow> web_session \<Rightarrow> web_session" where
  "submit_setup username password confirmation st =
     (if password \<noteq> confirmation then st\<lparr>ws_error := Some PasswordsDiffer\<rparr>
      else call_initialize (js_trim username) password (st\<lparr>ws_pending := True, ws_error := None\<rparr>))"

text \<open>What the browser checks before it submits a form: the attributes of its inputs.\<close>

definition login_inputs_valid :: "string \<Rightarrow> string \<Rightarrow> bool" where
  "login_inputs_valid username password \<longleftrightarrow> username \<noteq> [] \<and> password \<noteq> []"

definition setup_inputs_valid :: "string \<Rightarrow> string \<Rightarrow> string \<Rightarrow> bool" where
  "setup_inputs_valid username password confirmation \<longleftrightarrow>
     username \<noteq> [] \<and> length username \<le> 255 \<and> 12 \<le> length password \<and> 12 \<le> length confirmation"

section \<open>The page\<close>

datatype app_page = LoadingScreen | SetupForm | LoginForm | PopoutPage | ShellPage "json option"

definition app_page :: "string \<Rightarrow> auth_state \<Rightarrow> app_page" where
  "app_page pathname a =
     (case a of
        AuthLoading \<Rightarrow> LoadingScreen
      | SetupRequired \<Rightarrow> SetupForm
      | Unauthenticated \<Rightarrow> LoginForm
      | Authenticated user \<Rightarrow> (if pathname = ''/console-popout'' then PopoutPage else ShellPage user))"

text \<open>The button of a form: disabled while its request is pending.\<close>

definition form_enabled :: "web_session \<Rightarrow> bool" where
  "form_enabled st \<longleftrightarrow> \<not> ws_pending st"

section \<open>Runs\<close>

datatype auth_event =
    SubmitLogin string string
  | SubmitSetup string string string
  | ClickLogout
  | Settle nat fetch_result
  | CookieSet string
  | Unmounted

definition settle :: "nat \<Rightarrow> fetch_result \<Rightarrow> web_session \<Rightarrow> web_session" where
  "settle i r st =
     (let (t, req) = ws_tasks st ! i;
          st1 = st\<lparr>ws_tasks := take i (ws_tasks st) @ drop (Suc i) (ws_tasks st)\<rparr>;
          (out, c) = (case req of None \<Rightarrow> (ApiThrown, ws_client st) | Some _ \<Rightarrow> finish_request r (ws_client st))
      in resume t out (st1\<lparr>ws_client := c\<rparr>))"

text \<open>An event the page does not offer in a state leaves it as it is.\<close>

fun auth_event_step :: "auth_event \<Rightarrow> web_session \<Rightarrow> web_session" where
  "auth_event_step (SubmitLogin u p) st =
     (if ws_active st \<and> app_page '''' (ws_auth st) = LoginForm \<and> form_enabled st \<and> login_inputs_valid u p
      then submit_login u p st else st)"
| "auth_event_step (SubmitSetup u p c) st =
     (if ws_active st \<and> app_page '''' (ws_auth st) = SetupForm \<and> form_enabled st \<and> setup_inputs_valid u p c
      then submit_setup u p c st else st)"
| "auth_event_step ClickLogout st =
     (case ws_auth st of Authenticated _ \<Rightarrow> (if ws_active st then call_logout st else st) | _ \<Rightarrow> st)"
| "auth_event_step (Settle i r) st = (if i < length (ws_tasks st) then settle i r st else st)"
| "auth_event_step (CookieSet s) st = st\<lparr>ws_client := (ws_client st)\<lparr>document_cookie := s\<rparr>\<rparr>"
| "auth_event_step Unmounted st = st\<lparr>ws_active := False\<rparr>"

definition auth_run :: "auth_event list \<Rightarrow> web_session \<Rightarrow> web_session" where
  "auth_run evs st = fold auth_event_step evs st"

section \<open>Invariant\<close>

definition boot_task :: "auth_task \<Rightarrow> bool" where
  "boot_task t \<longleftrightarrow> t = TaskSetupStatus \<or> t = TaskMe"

definition form_task :: "auth_task \<Rightarrow> bool" where
  "form_task t \<longleftrightarrow> t = TaskLogin \<or> t = TaskInitialize"

definition tasks_in_flight :: "(auth_task \<Rightarrow> bool) \<Rightarrow> web_session \<Rightarrow> nat" where
  "tasks_in_flight P st = length (filter P (map fst (ws_tasks st)))"

definition auth_inv :: "web_session \<Rightarrow> bool" where
  "auth_inv st \<longleftrightarrow> ws_active st \<longrightarrow>
     tasks_in_flight boot_task st = (if ws_auth st = AuthLoading then 1 else 0) \<and>
     tasks_in_flight form_task st = (if ws_pending st then 1 else 0) \<and>
     (ws_auth st = AuthLoading \<or> ws_auth st = SetupRequired \<longrightarrow> tasks_in_flight (\<lambda>t. t = TaskLogout) st = 0) \<and>
     (ws_pending st \<longrightarrow> ws_auth st = SetupRequired \<or> ws_auth st = Unauthenticated)"

lemma set_auth_fields [simp]:
  "ws_tasks (set_auth a st) = ws_tasks st" "ws_active (set_auth a st) = ws_active st"
  "ws_client (set_auth a st) = ws_client st"
  "ws_auth (set_auth a st) = (if ws_active st then a else ws_auth st)"
  "ws_pending (set_auth a st) = (if ws_active st \<and> \<not> same_page (ws_auth st) a then False else ws_pending st)"
  by (simp_all add: set_auth_def)

lemma start_task_fields [simp]:
  "ws_auth (start_task t p i st) = ws_auth st" "ws_active (start_task t p i st) = ws_active st"
  "ws_pending (start_task t p i st) = ws_pending st" "ws_client (start_task t p i st) = ws_client st"
  "tasks_in_flight P (start_task t p i st) = tasks_in_flight P st + (if P t then 1 else 0)"
  by (simp_all add: start_task_def tasks_in_flight_def)

lemma in_flight_set_auth [simp]: "tasks_in_flight P (set_auth a st) = tasks_in_flight P st"
  by (simp add: tasks_in_flight_def)

lemma same_page_iff: "same_page a b \<longleftrightarrow> a = b \<or> (\<exists>u v. a = Authenticated u \<and> b = Authenticated v)"
  by (cases a; cases b) auto

lemma accept_user_cases:
  obtains (threw) t where "accept_user out st = (True, st\<lparr>ws_client := (ws_client st)\<lparr>csrf_token := t\<rparr>\<rparr>)"
  | (accepted) t v where "out = ApiValue v" "v \<noteq> JNull" "readCSRFCookie (document_cookie (ws_client st)) = Some t"
      "accept_user out st =
       (False, set_auth (Authenticated (json_member ''user'' v)) (st\<lparr>ws_client := (ws_client st)\<lparr>csrf_token := t\<rparr>\<rparr>))"
proof (cases "readCSRFCookie (document_cookie (ws_client st))")
  case None
  then have "accept_user out st = (True, st\<lparr>ws_client := (ws_client st)\<lparr>csrf_token := csrf_token (ws_client st)\<rparr>\<rparr>)"
    by (simp add: accept_user_def)
  then show ?thesis by (rule threw)
next
  case (Some t)
  show ?thesis
    using threw [of t] accepted [OF _ _ Some]
    by (cases out; cases "out = ApiValue JNull") (simp_all add: accept_user_def Some setCSRFToken_def Let_def)
qed

text \<open>
  Taking a task out of the list of those in flight: the counts of the state \<open>settle\<close> resumes.
\<close>

lemma in_flight_remove:
  assumes "i < length (ws_tasks st)"
  shows "tasks_in_flight P st =
    tasks_in_flight P (st\<lparr>ws_tasks := take i (ws_tasks st) @ drop (Suc i) (ws_tasks st)\<rparr>) + (if P (fst (ws_tasks st ! i)) then 1 else 0)"
proof -
  have "ws_tasks st = take i (ws_tasks st) @ ws_tasks st ! i # drop (Suc i) (ws_tasks st)"
    by (rule id_take_nth_drop [OF assms])
  then have "map fst (ws_tasks st) = map fst (take i (ws_tasks st)) @ fst (ws_tasks st ! i) # map fst (drop (Suc i) (ws_tasks st))"
    by (metis list.simps(9) map_append)
  then show ?thesis by (simp add: tasks_in_flight_def)
qed

text \<open>The counts before a settled task \<open>t\<close> is resumed, in terms of the state it resumes.\<close>

definition resume_inv :: "auth_task \<Rightarrow> web_session \<Rightarrow> bool" where
  "resume_inv t st \<longleftrightarrow> ws_active st \<longrightarrow>
     tasks_in_flight boot_task st + (if boot_task t then 1 else 0) = (if ws_auth st = AuthLoading then 1 else 0) \<and>
     tasks_in_flight form_task st + (if form_task t then 1 else 0) = (if ws_pending st then 1 else 0) \<and>
     (ws_auth st = AuthLoading \<or> ws_auth st = SetupRequired \<longrightarrow>
        tasks_in_flight (\<lambda>t. t = TaskLogout) st + (if t = TaskLogout then 1 else 0) = 0) \<and>
     (ws_pending st \<longrightarrow> ws_auth st = SetupRequired \<or> ws_auth st = Unauthenticated)"

lemma in_flight_update [simp]:
  "tasks_in_flight P (st\<lparr>ws_client := c\<rparr>) = tasks_in_flight P st"
  "tasks_in_flight P (st\<lparr>ws_pending := b\<rparr>) = tasks_in_flight P st"
  "tasks_in_flight P (st\<lparr>ws_error := e\<rparr>) = tasks_in_flight P st"
  "tasks_in_flight P (st\<lparr>ws_active := b\<rparr>) = tasks_in_flight P st"
  by (simp_all add: tasks_in_flight_def)

lemma resume_boot:
  assumes "boot_task t" and "resume_inv t st" shows "auth_inv (resume t out st)"
proof (cases "ws_active st")
  case True
  have h: "ws_auth st = AuthLoading" "tasks_in_flight boot_task st = 0" "tasks_in_flight form_task st = 0"
    "\<not> ws_pending st" "tasks_in_flight (\<lambda>t. t = TaskLogout) st = 0"
    using assms True by (auto simp: resume_inv_def boot_task_def form_task_def split: if_splits)
  have set: "auth_inv (set_auth a st)" if "a \<noteq> AuthLoading" for a
    using h True that by (simp add: auth_inv_def)
  consider "t = TaskSetupStatus" | "t = TaskMe" using assms(1) by (auto simp: boot_task_def)
  then show ?thesis
  proof cases
    case 1
    have start: "auth_inv (start_task TaskMe p i st)" for p i
      using h True by (simp add: auth_inv_def boot_task_def form_task_def)
    show ?thesis using 1 True set start
      by (auto simp: after_setup_status_def split: api_outcome.split)
  next
    case 2
    have set': "auth_inv (set_auth a (st\<lparr>ws_client := c\<rparr>))" if "a \<noteq> AuthLoading" for a c
      using h True that by (simp add: auth_inv_def)
    show ?thesis
    proof (cases "rejected out")
      case True
      then show ?thesis using 2 \<open>ws_active st\<close> set by (simp add: after_me_def)
    next
      case False
      then show ?thesis
        using 2 True set' by (cases rule: accept_user_cases [of out st]) (simp_all add: after_me_def)
    qed
  qed
qed (use assms in \<open>auto simp: boot_task_def auth_inv_def after_setup_status_def after_me_def\<close>)

lemma resume_form:
  assumes "form_task t" and "resume_inv t st" shows "auth_inv (resume t out st)"
proof -
  have "\<exists>e. resume t out st = after_credentials e out st" using assms(1) by (auto simp: form_task_def)
  then obtain e where e: "resume t out st = after_credentials e out st" by blast
  have nb: "\<not> boot_task t" using assms(1) by (auto simp: boot_task_def form_task_def)
  have h: "ws_active st \<Longrightarrow> tasks_in_flight boot_task st = (if ws_auth st = AuthLoading then 1 else 0) \<and>
      tasks_in_flight form_task st = 0 \<and> ws_pending st \<and> (ws_auth st = SetupRequired \<or> ws_auth st = Unauthenticated) \<and>
      (ws_auth st = SetupRequired \<longrightarrow> tasks_in_flight (\<lambda>t. t = TaskLogout) st = 0)"
    using assms nb by (auto simp: resume_inv_def split: if_splits)
  have failed: "auth_inv (form_failed e (st\<lparr>ws_client := c\<rparr>))" for c
    using h by (auto simp: auth_inv_def form_failed_def)
  have failed': "auth_inv (form_failed e st)" using h by (auto simp: auth_inv_def form_failed_def)
  have ok: "auth_inv (set_auth (Authenticated u) (st\<lparr>ws_client := c\<rparr>))" for u c
    using h by (auto simp: auth_inv_def same_page_iff)
  show ?thesis
  proof (cases "rejected out")
    case False
    then show ?thesis
      unfolding e using failed ok by (cases rule: accept_user_cases [of out st]) (simp_all add: after_credentials_def)
  qed (simp add: e after_credentials_def failed')
qed

lemma resume_logout:
  assumes "resume_inv TaskLogout st" shows "auth_inv (resume TaskLogout out st)"
proof -
  have h: "ws_active st \<Longrightarrow> ws_auth st \<noteq> AuthLoading \<and> ws_auth st \<noteq> SetupRequired \<and> tasks_in_flight boot_task st = 0 \<and>
     tasks_in_flight form_task st = (if ws_pending st then 1 else 0) \<and> (ws_pending st \<longrightarrow> ws_auth st = Unauthenticated)"
    using assms by (auto simp: resume_inv_def boot_task_def form_task_def split: if_splits)
  show ?thesis using h by (auto simp: after_logout_def auth_inv_def same_page_iff)
qed

lemma settle_inv:
  assumes "auth_inv st" and "i < length (ws_tasks st)" shows "auth_inv (settle i r st)"
proof -
  obtain t req where t: "ws_tasks st ! i = (t, req)" by fastforce
  let ?st1 = "st\<lparr>ws_tasks := take i (ws_tasks st) @ drop (Suc i) (ws_tasks st)\<rparr>"
  have counts: "tasks_in_flight P st = tasks_in_flight P ?st1 + (if P t then 1 else 0)" for P
    using in_flight_remove [OF assms(2)] t by simp
  have res: "resume_inv t (?st1\<lparr>ws_client := c\<rparr>)" for c
    using assms(1) counts by (auto simp: auth_inv_def resume_inv_def)
  have "auth_inv (resume t out (?st1\<lparr>ws_client := c\<rparr>))" for out c
    using resume_boot [OF _ res] resume_form [OF _ res] resume_logout res
    by (cases t) (auto simp only: boot_task_def form_task_def)
  then show ?thesis by (simp add: settle_def t Let_def split: prod.split)
qed

lemma submit_inv:
  assumes "auth_inv st" "ws_active st" "\<not> ws_pending st" "ws_auth st = SetupRequired \<or> ws_auth st = Unauthenticated" "form_task t"
  shows "auth_inv (start_task t p i (st\<lparr>ws_pending := True, ws_error := None\<rparr>))"
  using assms by (auto simp: auth_inv_def boot_task_def form_task_def)

lemma page_forms: "app_page p a = LoginForm \<longleftrightarrow> a = Unauthenticated" "app_page p a = SetupForm \<longleftrightarrow> a = SetupRequired"
  by (cases a; simp add: app_page_def)+

lemma auth_step_inv: "auth_inv st \<Longrightarrow> auth_inv (auth_event_step ev st)"
proof (cases ev)
  case (SubmitLogin u p)
  assume "auth_inv st"
  then show ?thesis
    using SubmitLogin submit_inv [of st TaskLogin] by (simp add: page_forms form_enabled_def submit_login_def call_login_def form_task_def)
next
  case (SubmitSetup u p c)
  assume "auth_inv st"
  then show ?thesis
    using SubmitSetup submit_inv [of st TaskInitialize]
    by (simp add: page_forms form_enabled_def submit_setup_def call_initialize_def form_task_def auth_inv_def)
next
  case ClickLogout
  assume "auth_inv st"
  then show ?thesis
    using ClickLogout by (auto simp: call_logout_def auth_inv_def boot_task_def form_task_def split: auth_state.split)
next
  case (Settle i r)
  assume "auth_inv st"
  then show ?thesis using Settle settle_inv by simp
qed (simp_all add: auth_inv_def)

lemma initial_inv: "auth_inv (initial_session cookie)"
  by (simp add: auth_inv_def initial_session_def boot_task_def form_task_def) (simp add: tasks_in_flight_def)

lemma auth_run_inv: "auth_inv st \<Longrightarrow> auth_inv (auth_run evs st)"
  unfolding auth_run_def by (induction evs arbitrary: st) (simp_all add: auth_step_inv)

section \<open>Properties\<close>

text \<open>
  C20. Whatever the user does and in whatever order requests settle, while the application is
  mounted the loading screen is shown exactly as long as a bootstrap request is in flight (so
  any answer to it, an error included, leads to a form or the shell), at most one request with
  credentials is in flight, and the form's button is disabled exactly while one is.
\<close>

theorem loading_and_pending_track_requests:
  assumes "auth_run evs (initial_session cookie) = st" and "ws_active st"
  shows "(app_page path (ws_auth st) = LoadingScreen \<longleftrightarrow> (\<exists>t \<in> set (map fst (ws_tasks st)). t = TaskSetupStatus \<or> t = TaskMe)) \<and>
    length (filter (\<lambda>t. t = TaskLogin \<or> t = TaskInitialize) (map fst (ws_tasks st))) = (if form_enabled st then 0 else 1)"
proof -
  have inv: "auth_inv st" using auth_run_inv [OF initial_inv] assms(1) by blast
  have loading: "app_page path (ws_auth st) = LoadingScreen \<longleftrightarrow> ws_auth st = AuthLoading"
    by (cases "ws_auth st") (simp_all add: app_page_def)
  have "length (filter boot_task (map fst (ws_tasks st))) = (if ws_auth st = AuthLoading then 1 else 0)"
    using inv assms(2) by (simp add: auth_inv_def tasks_in_flight_def)
  then have "ws_auth st = AuthLoading \<longleftrightarrow> filter boot_task (map fst (ws_tasks st)) \<noteq> []"
    by (metis length_0_conv zero_neq_one)
  then have "ws_auth st = AuthLoading \<longleftrightarrow> (\<exists>t \<in> set (map fst (ws_tasks st)). boot_task t)"
    by (simp add: filter_empty_conv)
  moreover have "length (filter form_task (map fst (ws_tasks st))) = (if ws_pending st then 1 else 0)"
    using inv assms(2) by (simp add: auth_inv_def tasks_in_flight_def)
  ultimately show ?thesis
    using loading by (simp add: boot_task_def form_task_def [abs_def] form_enabled_def)
qed

definition sample_answers :: "auth_event list" where
  "sample_answers = [Settle 0 (Response 200 (Some (JObj [(''requires_setup'', JBool False)]))),
     Settle 0 (Response 401 None), SubmitLogin ''admin'' ''secret'', SubmitLogin ''admin'' ''again'']"

theorem loading_and_pending_track_requests_witness:
  "length (filter (\<lambda>t. t = TaskLogin \<or> t = TaskInitialize) (map fst (ws_tasks (auth_run sample_answers (initial_session ''''))))) = 1"
proof -
  have a: "ws_active (auth_run sample_answers (initial_session ''''))" by code_simp
  have p: "\<not> form_enabled (auth_run sample_answers (initial_session ''''))" by code_simp
  show ?thesis
    using loading_and_pending_track_requests [OF refl a, of "[]"] p by simp
qed

lemma authenticated_step:
  assumes "ws_auth (auth_event_step ev st) = Authenticated u" and "ws_auth st \<noteq> Authenticated u"
  shows "\<exists>i s v. ev = Settle i (Response s (Some v)) \<and> response_ok s \<and> v \<noteq> JNull \<and> u = json_member ''user'' v"
proof (cases ev)
  case (Settle i r)
  obtain t req where t: "ws_tasks st ! i = (t, req)" by fastforce
  define st1 where "st1 c = st\<lparr>ws_tasks := take i (ws_tasks st) @ drop (Suc i) (ws_tasks st), ws_client := c\<rparr>" for c
  have keep: "ws_auth (st1 c) = ws_auth st" for c by (simp add: st1_def)
  define outc where "outc = (case req of None \<Rightarrow> (ApiThrown, ws_client st) | Some _ \<Rightarrow> finish_request r (ws_client st))"
  have value_of: "\<exists>s. r = Response s (Some v) \<and> response_ok s" if "fst outc = ApiValue v" for v
    using that by (auto simp: outc_def finish_request_def split: option.splits fetch_result.splits if_splits)
  have step: "ws_auth (resume t (fst outc) (st1 (snd outc))) = Authenticated u"
    using assms Settle by (auto simp: settle_def t st1_def outc_def Let_def split: if_splits prod.splits)
  have accept: "\<exists>v. fst outc = ApiValue v \<and> v \<noteq> JNull \<and> u = json_member ''user'' v"
    if "ws_auth (snd (accept_user (fst outc) (st1 (snd outc)))) = Authenticated u"
    using that assms(2) keep
    by (cases rule: accept_user_cases [of "fst outc" "st1 (snd outc)"]) (auto split: if_splits)
  have "\<exists>v. fst outc = ApiValue v \<and> v \<noteq> JNull \<and> u = json_member ''user'' v"
    using step accept assms(2) keep
    by (cases t) (auto simp: after_setup_status_def after_me_def after_credentials_def after_logout_def form_failed_def
        Let_def split: if_splits api_outcome.splits prod.splits)
  then show ?thesis using value_of Settle by blast
qed (use assms in \<open>auto simp: submit_login_def submit_setup_def call_login_def call_initialize_def call_logout_def
      split: if_splits auth_state.splits\<close>)

lemma authenticated_run:
  "ws_auth (auth_run evs st) = Authenticated u \<Longrightarrow> ws_auth st = Authenticated u \<or>
    (\<exists>i s v. Settle i (Response s (Some v)) \<in> set evs \<and> response_ok s \<and> v \<noteq> JNull \<and> u = json_member ''user'' v)"
  unfolding auth_run_def
proof (induction evs arbitrary: st)
  case (Cons ev evs)
  then show ?case using Cons.IH [of "auth_event_step ev st"] authenticated_step [of ev st u] by fastforce
qed simp

text \<open>
  The application shows a signed-in page only for a user that a successful response of the
  server named: no sequence of clicks, failed requests, malformed answers or cookies leads there.
\<close>

lemma signed_in_user_named_by_server:
  assumes "app_page path (ws_auth (auth_run evs (initial_session cookie))) = ShellPage u"
  shows "\<exists>i s v. Settle i (Response s (Some v)) \<in> set evs \<and> response_ok s \<and> v \<noteq> JNull \<and> u = json_member ''user'' v"
  using assms authenticated_run [of evs "initial_session cookie" u]
  by (auto simp: app_page_def initial_session_def split: auth_state.splits if_splits)

definition sample_login :: "auth_event list" where
  "sample_login = [Settle 0 (Response 200 (Some (JObj []))), Settle 0 NetworkFailure, SubmitLogin ''admin'' ''secret'',
     CookieSet ''controlpanel_csrf=t1'', Settle 0 (Response 200 (Some (JObj [(''user'', JObj [(''username'', JStr ''admin'')])])))]"

theorem signed_in_user_named_by_server_witness:
  "app_page ''/'' (ws_auth (auth_run sample_login (initial_session ''''))) = ShellPage (Some (JObj [(''username'', JStr ''admin'')])) \<and>
   (\<exists>i s v. Settle i (Response s (Some v)) \<in> set sample_login \<and> response_ok s \<and> json_member ''user'' v = Some (JObj [(''username'', JStr ''admin'')]))"
proof -
  have page: "app_page ''/'' (ws_auth (auth_run sample_login (initial_session ''''))) = ShellPage (Some (JObj [(''username'', JStr ''admin'')]))"
    by code_simp
  show ?thesis
    using page signed_in_user_named_by_server [OF page] by metis
qed

text \<open>
  Logging out with an expired session does not leave the signed-in page: the 401 answer
  rejects the call, the token is forgotten but the state stays authenticated, and the next
  attempt goes out without a token.
\<close>

lemma expired_logout_keeps_signed_in_page:
  assumes "ws_auth st = Authenticated u" and "ws_active st" and "ws_tasks st = []" and "csrf_token (ws_client st) = None \<or> header_value (the (csrf_token (ws_client st))) \<noteq> None"
    and "auth_run [ClickLogout, Settle 0 (Response 401 body), ClickLogout] st = st'"
  shows "ws_auth st' = Authenticated u \<and>
    (\<exists>req. ws_tasks st' = [(TaskLogout, Some req)] \<and> f_method req = ''POST'' \<and> get_header ''X-CSRF-Token'' (f_headers req) = None)"
proof -
  have "\<exists>req. build_request (ws_client st) ''/auth/logout'' (no_init\<lparr>in_method := Some ''POST''\<rparr>) = Some req"
    using assms(4) by (auto simp: build_request_def Let_def split: option.split list.split)
  then show ?thesis
    using assms(1-3,5)
    by (auto simp: auth_run_def call_logout_def start_task_def settle_def after_logout_def rejected_def finish_request_def
        response_ok_def setCSRFToken_def build_request_def request_method_def no_init_def Let_def)
qed

theorem expired_logout_keeps_signed_in_page_witness:
  "ws_auth (auth_run [ClickLogout, Settle 0 (Response 401 None), ClickLogout] (auth_run sample_login (initial_session '''')))
    = Authenticated (Some (JObj [(''username'', JStr ''admin'')]))"
proof -
  define st where "st = auth_run sample_login (initial_session '''')"
  have "ws_auth st = Authenticated (Some (JObj [(''username'', JStr ''admin'')]))" "ws_active st" "ws_tasks st = []"
    "csrf_token (ws_client st) = Some (points ''t1'')"
    unfolding st_def by code_simp+
  moreover have "header_value (points ''t1'') \<noteq> None" by code_simp
  ultimately show ?thesis
    unfolding st_def [symmetric] using expired_logout_keeps_signed_in_page [OF _ _ _ _ refl] by simp
qed

section \<open>What the forms show\<close>

text \<open>\<^verbatim>\<open>useAuth\<close>: the value of the context, or the error it throws outside of the provider.\<close>

definition useAuth :: "'v option \<Rightarrow> string + 'v" where
  "useAuth context = (case context of None \<Rightarrow> Inl ''useAuth must be used inside AuthProvider'' | Some v \<Rightarrow> Inr v)"

text \<open>
  The inputs of a form in their order with the attributes the browser checks, the alert above the
  button, and the button. Labels of buttons are constructors.
\<close>

record form_input =
  fi_name :: string
  fi_secret :: bool
  fi_autocomplete :: string
  fi_min :: nat
  fi_max :: "nat option"

datatype button_label = SignIn | SigningIn | CreateAdministrator | CreatingAdministrator

record credentials_form =
  cf_inputs :: "form_input list"
  cf_alert :: "form_error option"
  cf_disabled :: bool
  cf_label :: button_label

definition login_form :: "web_session \<Rightarrow> credentials_form" where
  "login_form st =
     \<lparr>cf_inputs = [\<lparr>fi_name = ''username'', fi_secret = False, fi_autocomplete = ''username'', fi_min = 1, fi_max = None\<rparr>,
        \<lparr>fi_name = ''password'', fi_secret = True, fi_autocomplete = ''current-password'', fi_min = 1, fi_max = None\<rparr>],
      cf_alert = ws_error st, cf_disabled = ws_pending st, cf_label = (if ws_pending st then SigningIn else SignIn)\<rparr>"

definition setup_form :: "web_session \<Rightarrow> credentials_form" where
  "setup_form st =
     \<lparr>cf_inputs = [\<lparr>fi_name = ''username'', fi_secret = False, fi_autocomplete = ''username'', fi_min = 1, fi_max = Some 255\<rparr>,
        \<lparr>fi_name = ''password'', fi_secret = True, fi_autocomplete = ''new-password'', fi_min = 12, fi_max = None\<rparr>,
        \<lparr>fi_name = ''confirmation'', fi_secret = True, fi_autocomplete = ''new-password'', fi_min = 12, fi_max = None\<rparr>],
      cf_alert = ws_error st, cf_disabled = ws_pending st, cf_label = (if ws_pending st then CreatingAdministrator else CreateAdministrator)\<rparr>"

text \<open>The browser submits a form when every value has an allowed length and the button is enabled.\<close>

definition submits :: "credentials_form \<Rightarrow> string list \<Rightarrow> bool" where
  "submits f vs \<longleftrightarrow> \<not> cf_disabled f \<and>
     list_all2 (\<lambda>i v. fi_min i \<le> length v \<and> (case fi_max i of None \<Rightarrow> True | Some n \<Rightarrow> length v \<le> n)) (cf_inputs f) vs"

lemma submits_login: "submits (login_form st) [u, p] \<longleftrightarrow> form_enabled st \<and> login_inputs_valid u p"
  by (auto simp: submits_def login_form_def form_enabled_def login_inputs_valid_def Suc_le_eq)

lemma submits_setup: "submits (setup_form st) [u, p, c] \<longleftrightarrow> form_enabled st \<and> setup_inputs_valid u p c"
  by (auto simp: submits_def setup_form_def form_enabled_def setup_inputs_valid_def Suc_le_eq)

end
