(* ===== verification/WebShell.thy ===== *)
theory WebShell imports WebAuth begin

text \<open>
  The frame around the pages, \<^verbatim>\<open>web/src/app/AppShell.tsx\<close>: the page chosen from the path, the
  navigation buttons, \<^verbatim>\<open>popstate\<close>; and the browser history it works on, with the path that
  \<^verbatim>\<open>history.pushState\<close> of a path gives (the URL standard removes dot segments).
\<close>

section \<open>Location and history\<close>

definition single_dot :: "string \<Rightarrow> bool" where
  "single_dot s \<longleftrightarrow> js_lower s \<in> set [''.'', ''%2e'']"

definition double_dot :: "string \<Rightarrow> bool" where
  "double_dot s \<longleftrightarrow> js_lower s \<in> set [''..'', ''.%2e'', ''%2e.'', ''%2e%2e'']"

fun remove_dots :: "string list \<Rightarrow> string list \<Rightarrow> string list" where
  "remove_dots acc [] = rev acc"
| "remove_dots acc [s] =
     (if double_dot s then rev ([] # tl acc) else if single_dot s then rev ([] # acc) else rev (s # acc))"
| "remove_dots acc (s # t # ss) =
     (if double_dot s then remove_dots (tl acc) (t # ss)
      else if single_dot s then remove_dots acc (t # ss) else remove_dots (s # acc) (t # ss))"

definition location_of :: "string \<Rightarrow> string" where
  "location_of path = CHR ''/'' # join_with (CHR ''/'') (remove_dots [] (tl (split_on (CHR ''/'') path)))"

record history =
  back_paths :: "string list"
  pathname :: string
  forward_paths :: "string list"

definition push_state :: "string \<Rightarrow> history \<Rightarrow> history" where
  "push_state path h = \<lparr>back_paths = pathname h # back_paths h, pathname = location_of path, forward_paths = []\<rparr>"

definition go_back :: "history \<Rightarrow> history" where
  "go_back h = (case back_paths h of [] \<Rightarrow> h
     | p # ps \<Rightarrow> \<lparr>back_paths = ps, pathname = p, forward_paths = pathname h # forward_paths h\<rparr>)"

definition go_forward :: "history \<Rightarrow> history" where
  "go_forward h = (case forward_paths h of [] \<Rightarrow> h
     | p # ps \<Rightarrow> \<lparr>back_paths = pathname h # back_paths h, pathname = p, forward_paths = ps\<rparr>)"

section \<open>The shell\<close>

datatype page = Dashboard | ServersPage | ConnectionsPage | OperationsPage | SettingsPage

datatype nav_label = LabelOverview | LabelServers | LabelProviders | LabelHistory | LabelBackups

datatype title_text = TitleDashboard | TitleServers | TitleConnections | TitleOperations | TitleSettings

record nav_item =
  nav_label :: nav_label
  nav_page :: page
  nav_path :: string

definition navigation :: "nav_item list" where
  "navigation =
    [\<lparr>nav_label = LabelOverview, nav_page = Dashboard, nav_path = ''/''\<rparr>,
     \<lparr>nav_label = LabelServers, nav_page = ServersPage, nav_path = ''/servers''\<rparr>,
     \<lparr>nav_label = LabelProviders, nav_page = ConnectionsPage, nav_path = ''/connections''\<rparr>,
     \<lparr>nav_label = LabelHistory, nav_page = OperationsPage, nav_path = ''/operations''\<rparr>,
     \<lparr>nav_label = LabelBackups, nav_page = SettingsPage, nav_path = ''/settings''\<rparr>]"

fun page_title :: "page \<Rightarrow> title_text" where
  "page_title Dashboard = TitleDashboard"
| "page_title ServersPage = TitleServers"
| "page_title ConnectionsPage = TitleConnections"
| "page_title OperationsPage = TitleOperations"
| "page_title SettingsPage = TitleSettings"

definition pageFromPath :: "string \<Rightarrow> page" where
  "pageFromPath path =
     (if starts_with path ''/servers'' then ServersPage
      else if starts_with path ''/connections'' then ConnectionsPage
      else if starts_with path ''/operations'' then OperationsPage
      else if starts_with path ''/settings'' then SettingsPage
      else Dashboard)"

record shell =
  sh_open :: bool
  sh_page :: page
  sh_history :: history

definition mount_shell :: "history \<Rightarrow> shell" where
  "mount_shell h = \<lparr>sh_open = False, sh_page = pageFromPath (pathname h), sh_history = h\<rparr>"

definition on_pop_state :: "history \<Rightarrow> shell \<Rightarrow> shell" where
  "on_pop_state h sh = sh\<lparr>sh_history := h, sh_page := pageFromPath (pathname h)\<rparr>"

definition navigate :: "page \<Rightarrow> string \<Rightarrow> shell \<Rightarrow> shell" where
  "navigate next path sh =
     sh\<lparr>sh_history := (if pathname (sh_history sh) \<noteq> path then push_state path (sh_history sh) else sh_history sh),
        sh_page := next, sh_open := False\<rparr>"

definition toggle_menu :: "shell \<Rightarrow> shell" where
  "toggle_menu sh = sh\<lparr>sh_open := \<not> sh_open sh\<rparr>"

text \<open>What the frame shows: the active buttons, the breadcrumb, the title, the user's initial.\<close>

record shell_view =
  view_sidebar_open :: bool
  view_items :: "(nav_label \<times> bool) list"
  view_breadcrumb :: "nav_label option"
  view_title :: title_text
  view_initial :: string
  view_content :: page

definition shell_view :: "string \<Rightarrow> shell \<Rightarrow> shell_view" where
  "shell_view username sh =
     \<lparr>view_sidebar_open = sh_open sh,
      view_items = map (\<lambda>i. (nav_label i, nav_page i = sh_page sh)) navigation,
      view_breadcrumb = map_option nav_label (List.find (\<lambda>i. nav_page i = sh_page sh) navigation),
      view_title = page_title (sh_page sh),
      view_initial = js_upper (take 1 username),
      view_content = sh_page sh\<rparr>"

section \<open>Runs\<close>

text \<open>
  The servers page inside the shell pushes the path of a server it shows and \<^verbatim>\<open>/servers\<close> when it
  closes it; it is mounted only while the shell shows it.
\<close>

definition detail_path :: "string \<Rightarrow> string" where
  "detail_path server = ''/servers/'' @ encodeURIComponent server"

datatype shell_event = ClickNav nat | ToggleMenu | Back | Forward | PushDetail string | PushServers

fun shell_step :: "shell_event \<Rightarrow> shell \<Rightarrow> shell" where
  "shell_step (ClickNav i) sh =
     (if i < length navigation then navigate (nav_page (navigation ! i)) (nav_path (navigation ! i)) sh else sh)"
| "shell_step ToggleMenu sh = toggle_menu sh"
| "shell_step Back sh = (if back_paths (sh_history sh) = [] then sh else on_pop_state (go_back (sh_history sh)) sh)"
| "shell_step Forward sh = (if forward_paths (sh_history sh) = [] then sh else on_pop_state (go_forward (sh_history sh)) sh)"
| "shell_step (PushDetail server) sh =
     (if sh_page sh = ServersPage then sh\<lparr>sh_history := push_state (detail_path server) (sh_history sh)\<rparr> else sh)"
| "shell_step PushServers sh =
     (if sh_page sh = ServersPage then sh\<lparr>sh_history := push_state ''/servers'' (sh_history sh)\<rparr> else sh)"

section \<open>Lemmas\<close>

lemma lower_unit_eq:
  assumes "lower_unit c = d"
  shows "c = d \<or> 97 \<le> (of_char d :: nat) \<and> c = char_of (of_char d - 32 :: nat)"
proof (cases "lower_unit c = c")
  case False
  let ?n = "of_char c :: nat"
  have n: "65 \<le> ?n" "?n \<le> 222" "d = char_of (?n + 32)"
    using False assms by (auto simp: lower_unit_def Let_def split: if_splits)
  then have "of_char d = ?n + 32" by simp
  then show ?thesis using n by simp
qed (use assms in simp)

lemma dots_decode:
  assumes "single_dot (encodeURIComponent s) \<or> double_dot (encodeURIComponent s)"
  shows "s = ''.'' \<or> s = ''..''"
proof -
  let ?e = "encodeURIComponent s"
  have "?e \<in> set [''.'', ''..'', ''%2e'', ''%2E'', ''.%2e'', ''.%2E'', ''%2e.'', ''%2E.'', ''%2e%2e'', ''%2E%2e'', ''%2e%2E'', ''%2E%2E'']"
    if "js_lower ?e \<in> set [''.'', ''%2e'', ''..'', ''.%2e'', ''%2e.'', ''%2e%2e'']"
  proof -
    have low: "lower_unit c = CHR ''.'' \<longleftrightarrow> c = CHR ''.''" "lower_unit c = CHR ''%'' \<longleftrightarrow> c = CHR ''%''"
      "lower_unit c = CHR ''2'' \<longleftrightarrow> c = CHR ''2''" "lower_unit c = CHR ''e'' \<longleftrightarrow> c = CHR ''e'' \<or> c = CHR ''E''" for c
    proof -
      have letters: "char_of (69 :: nat) = CHR ''E''" "char_of (101 :: nat) = CHR ''e''" by code_simp+
      show "lower_unit c = CHR ''.'' \<longleftrightarrow> c = CHR ''.''" "lower_unit c = CHR ''%'' \<longleftrightarrow> c = CHR ''%''"
        "lower_unit c = CHR ''2'' \<longleftrightarrow> c = CHR ''2''" "lower_unit c = CHR ''e'' \<longleftrightarrow> c = CHR ''e'' \<or> c = CHR ''E''"
        using lower_unit_eq [of c] by (auto simp: lower_unit_def letters)
    qed
    show ?thesis using that low by (auto simp: js_lower_def map_eq_Cons_conv)
  qed
  then have e: "?e \<in> set [''.'', ''..'', ''%2e'', ''%2E'', ''.%2e'', ''.%2E'', ''%2e.'', ''%2E.'', ''%2e%2e'', ''%2E%2e'', ''%2e%2E'', ''%2E%2E'']"
    using assms by (auto simp: single_dot_def double_dot_def)
  have "\<forall>x \<in> set [''.'', ''..'', ''%2e'', ''%2E'', ''.%2e'', ''.%2E'', ''%2e.'', ''%2E.'', ''%2e%2e'', ''%2E%2e'', ''%2e%2E'', ''%2E%2E''].
    decodeURIComponent x = Some (points ''.'') \<or> decodeURIComponent x = Some (points ''..'')" by code_simp
  then show ?thesis using e decode_encode [of s] by (metis option.inject points_inject)
qed

lemma location_of_servers [simp]: "location_of ''/servers'' = ''/servers''"
  by code_simp

lemma location_of_detail:
  assumes "server \<notin> {''.'', ''..''}" shows "location_of (detail_path server) = detail_path server"
proof -
  have no: "\<not> single_dot (encodeURIComponent server)" "\<not> double_dot (encodeURIComponent server)"
    using dots_decode [of server] assms by auto
  have srv: "\<not> single_dot ''servers''" "\<not> double_dot ''servers''" by code_simp+
  have "split_on (CHR ''/'') (detail_path server) = [[], ''servers'', encodeURIComponent server]"
    using split_on_none [OF encode_no_slash [of server]] by (simp add: detail_path_def)
  then show ?thesis using no srv by (simp add: location_of_def detail_path_def)
qed

lemma location_of_navigation: "i < length navigation \<Longrightarrow> location_of (nav_path (navigation ! i)) = nav_path (navigation ! i)"
proof -
  have "\<forall>x \<in> set navigation. location_of (nav_path x) = nav_path x" by code_simp
  then show "i < length navigation \<Longrightarrow> ?thesis" by simp
qed

lemma page_of_navigation: "i < length navigation \<Longrightarrow> pageFromPath (nav_path (navigation ! i)) = nav_page (navigation ! i)"
proof -
  have "\<forall>x \<in> set navigation. pageFromPath (nav_path x) = nav_page x" by code_simp
  then show "i < length navigation \<Longrightarrow> ?thesis" by simp
qed

lemma page_of_servers [simp]: "pageFromPath ''/servers'' = ServersPage"
  by code_simp

lemma page_of_detail [simp]: "pageFromPath (detail_path server) = ServersPage"
  by (simp add: pageFromPath_def detail_path_def starts_with_def)

definition shell_inv :: "shell \<Rightarrow> bool" where
  "shell_inv sh \<longleftrightarrow> sh_page sh = pageFromPath (pathname (sh_history sh))"

definition plain_event :: "shell_event \<Rightarrow> bool" where
  "plain_event ev \<longleftrightarrow> (case ev of PushDetail server \<Rightarrow> server \<notin> {''.'', ''..''} | _ \<Rightarrow> True)"

lemma shell_step_inv: "shell_inv sh \<Longrightarrow> plain_event ev \<Longrightarrow> shell_inv (shell_step ev sh)"
proof (cases ev)
  case (ClickNav i)
  assume "shell_inv sh"
  then show ?thesis
    using ClickNav page_of_navigation [of i] location_of_navigation [of i]
    by (auto simp: shell_inv_def navigate_def push_state_def)
next
  case (PushDetail server)
  assume "shell_inv sh" "plain_event ev"
  then show ?thesis
    using PushDetail location_of_detail [of server] by (simp add: shell_inv_def push_state_def plain_event_def)
qed (auto simp: shell_inv_def toggle_menu_def on_pop_state_def push_state_def)

section \<open>Properties\<close>

text \<open>
  The shell always shows the page its address stands for: after any clicks in the navigation,
  moves in the browser history and server details opened and closed in between, the page shown is
  the page of the current path, so reloading the address shows the same page, and exactly one
  navigation button is active. (A server whose id is a dot segment is excluded: its path would
  be resolved away.)
\<close>

lemma shell_page_follows_path:
  assumes "fold shell_step evs (mount_shell h) = sh" and "\<forall>ev \<in> set evs. plain_event ev"
  shows "view_content (shell_view u sh) = pageFromPath (pathname (sh_history sh)) \<and>
    sh_page (mount_shell (sh_history sh)) = sh_page sh \<and>
    length (filter snd (view_items (shell_view u sh))) = 1 \<and> view_breadcrumb (shell_view u sh) \<noteq> None"
proof -
  have "shell_inv (fold shell_step evs sh0)" if "shell_inv sh0" "\<forall>ev \<in> set evs. plain_event ev" for sh0
    using that by (induction evs arbitrary: sh0) (simp_all add: shell_step_inv)
  then have "shell_inv sh" using assms by (auto simp: shell_inv_def mount_shell_def)
  then show ?thesis
    by (cases "sh_page sh") (simp_all add: shell_inv_def shell_view_def mount_shell_def navigation_def)
qed

theorem shell_page_follows_path_witness:
  "view_content (shell_view ''admin'' (fold shell_step [ClickNav 1, PushDetail ''a b'', ClickNav 4, Back]
      (mount_shell \<lparr>back_paths = [], pathname = ''/'', forward_paths = []\<rparr>))) = ServersPage"
proof -
  have path: "pathname (sh_history (fold shell_step [ClickNav 1, PushDetail ''a b'', ClickNav 4, Back]
      (mount_shell \<lparr>back_paths = [], pathname = ''/'', forward_paths = []\<rparr>))) = ''/servers/a%20b''" by code_simp
  show ?thesis
    using shell_page_follows_path [OF refl, of "[ClickNav 1, PushDetail ''a b'', ClickNav 4, Back]" "''admin''"
        "\<lparr>back_paths = [], pathname = ''/'', forward_paths = []\<rparr>"] path
    by (simp add: plain_event_def pageFromPath_def starts_with_def)
qed

end
