(* ===== verification/WebConsole.thy ===== *)
theory WebConsole imports WebShell begin

text \<open>
  The consoles of the web client: \<^verbatim>\<open>web/src/console/api.ts\<close> (opening a session in the page, in a
  window of the provider or in a popup of this site), \<^verbatim>\<open>ConsolePopout.tsx\<close> (the popup's side) and
  \<^verbatim>\<open>ConsoleDialog.tsx\<close> (the VNC and terminal clients as state machines). Windows, message
  delivery, the noVNC client and the web socket are the environment; message data are JSON values
  (\<open>None\<close> is \<^verbatim>\<open>undefined\<close>).
\<close>

section \<open>The opener's side\<close>

definition ready_type :: string where "ready_type = ''server-control:console-ready''"

definition session_type :: string where "session_type = ''server-control:console-session''"

definition ready_message :: json where
  "ready_message = JObj [(''type'', JStr ready_type)]"

definition session_message :: "string \<Rightarrow> json option \<Rightarrow> json" where
  "session_message server_name session =
     JObj ([(''type'', JStr session_type), (''serverName'', JStr server_name)] @
       (case session of None \<Rightarrow> [] | Some s \<Rightarrow> [(''session'', s)]))"

definition member_is :: "string \<Rightarrow> string \<Rightarrow> json option \<Rightarrow> bool" where
  "member_is name value data = (case data of None \<Rightarrow> False | Some d \<Rightarrow> json_member name d = Some (JStr value))"

datatype window = OpenerWindow | PopupWindow | OtherWindow nat

record window_message =
  msg_origin :: string
  msg_source :: window
  msg_data :: "json option"

datatype open_outcome = Pending | Opened | OpenFailed

text \<open>
  A call of \<^verbatim>\<open>openEmbeddedConsoleWindow\<close> whose popup was not blocked: whether the popup has
  reported, whether its timer still runs, the session once the request is answered, what
  was posted to the popup (with the target origin) and whether the popup was closed.
\<close>

record opener =
  or_origin :: string
  or_server_name :: string
  or_listening :: bool
  or_ready :: bool
  or_session :: "json option option"
  or_outcome :: open_outcome
  or_posted :: "(json \<times> string) list"
  or_closed :: bool

definition start_popup :: "string \<Rightarrow> string \<Rightarrow> opener" where
  "start_popup origin server_name =
     \<lparr>or_origin = origin, or_server_name = server_name, or_listening = True, or_ready = False,
      or_session = None, or_outcome = Pending, or_posted = [], or_closed = False\<rparr>"

text \<open>\<^verbatim>\<open>Promise.all\<close>: once both have come, the session is posted to the popup, once.\<close>

definition when_both :: "opener \<Rightarrow> opener" where
  "when_both o1 =
     (case or_session o1 of
        None \<Rightarrow> o1
      | Some session \<Rightarrow>
          (if or_outcome o1 = Pending \<and> or_ready o1
           then o1\<lparr>or_posted := or_posted o1 @ [(session_message (or_server_name o1) session, or_origin o1)],
                   or_outcome := Opened\<rparr>
           else o1))"

definition fail_open :: "opener \<Rightarrow> opener" where
  "fail_open o1 = (if or_outcome o1 = Pending then o1\<lparr>or_outcome := OpenFailed, or_closed := True\<rparr> else o1)"

definition receiveReady :: "window_message \<Rightarrow> opener \<Rightarrow> opener" where
  "receiveReady m o1 =
     (if \<not> or_listening o1 then o1
      else if msg_origin m \<noteq> or_origin o1 \<or> msg_source m \<noteq> PopupWindow \<or> \<not> member_is ''type'' ready_type (msg_data m) then o1
      else when_both (o1\<lparr>or_listening := False, or_ready := True\<rparr>))"

text \<open>The timer is cleared exactly when the listener is removed.\<close>

definition ready_timeout :: "opener \<Rightarrow> opener" where
  "ready_timeout o1 = (if or_listening o1 then fail_open (o1\<lparr>or_listening := False\<rparr>) else o1)"

definition session_answered :: "json option promise \<Rightarrow> opener \<Rightarrow> opener" where
  "session_answered answer o1 =
     (if or_session o1 \<noteq> None then o1
      else (case answer of
              Fulfilled session \<Rightarrow> when_both (o1\<lparr>or_session := Some session\<rparr>)
            | _ \<Rightarrow> fail_open o1))"

datatype opener_event = WindowMessage window_message | TimerFires | SessionAnswer "json option promise"

fun opener_step :: "opener_event \<Rightarrow> opener \<Rightarrow> opener" where
  "opener_step (WindowMessage m) = receiveReady m"
| "opener_step TimerFires = ready_timeout"
| "opener_step (SessionAnswer a) = session_answered a"

text \<open>
  The other two ways open the URL the server answers with, in a window without opener; the result
  tells whether a window came. \<open>window_open\<close> is the browser: \<open>False\<close> when it blocks the window; \<open>to_text\<close> is the
  conversion of a value that is not a string (the declared type says it is one).
\<close>

definition open_external :: "(json \<Rightarrow> string) \<Rightarrow> (string \<Rightarrow> string \<Rightarrow> bool) \<Rightarrow> json option promise \<Rightarrow> bool promise" where
  "open_external to_text window_open answer =
     (case answer of
        Fulfilled (Some target) \<Rightarrow>
          (if target = JNull then RejectedOther
           else (case json_member ''url'' target of
                   Some (JStr url) \<Rightarrow> Fulfilled (window_open url ''noopener,noreferrer'')
                 | Some v \<Rightarrow> Fulfilled (window_open (to_text v) ''noopener,noreferrer'')
                 | None \<Rightarrow> Fulfilled (window_open [] ''noopener,noreferrer'')))
      | Fulfilled None \<Rightarrow> RejectedOther
      | RejectedRequest d \<Rightarrow> RejectedRequest d
      | RejectedOther \<Rightarrow> RejectedOther)"

section \<open>The popup's side\<close>

definition isPayload :: "json option \<Rightarrow> bool" where
  "isPayload data =
     (case data of
        Some (JObj ms) \<Rightarrow>
          member_is ''type'' session_type data \<and>
          (\<exists>n \<in> set_option (json_member ''serverName'' (JObj ms)). case n of JStr _ \<Rightarrow> True | _ \<Rightarrow> False) \<and>
          (case json_member ''session'' (JObj ms) of
             Some s \<Rightarrow> (case json_member ''ticket'' s of Some (JStr _) \<Rightarrow> True | _ \<Rightarrow> False) \<and>
                       json_member ''protocol'' s = Some (JStr ''rfb'')
           | None \<Rightarrow> False)
      | _ \<Rightarrow> False)"

record popout =
  po_origin :: string
  po_opener :: "window option"
  po_listening :: bool
  po_payload :: "json option"
  po_sent :: "(json \<times> string) list"

definition mount_popout :: "string \<Rightarrow> window option \<Rightarrow> popout" where
  "mount_popout origin op =
     \<lparr>po_origin = origin, po_opener = op, po_listening = (op \<noteq> None), po_payload = None,
      po_sent = (if op = None then [] else [(ready_message, origin)])\<rparr>"

definition receiveSession :: "window_message \<Rightarrow> popout \<Rightarrow> popout" where
  "receiveSession m p =
     (if \<not> po_listening p \<or> msg_origin m \<noteq> po_origin p \<or> Some (msg_source m) \<noteq> po_opener p \<or> \<not> isPayload (msg_data m)
      then p else p\<lparr>po_payload := msg_data m\<rparr>)"

definition unmount_popout :: "popout \<Rightarrow> popout" where
  "unmount_popout p = p\<lparr>po_listening := False\<rparr>"

datatype popout_view = OpenFromDetailNotice | WaitingForSession | ConsoleView json

definition popout_view :: "popout \<Rightarrow> popout_view" where
  "popout_view p =
     (if po_opener p = None then OpenFromDetailNotice
      else (case po_payload p of None \<Rightarrow> WaitingForSession | Some d \<Rightarrow> ConsoleView d))"

section \<open>The two windows among others\<close>

text \<open>
  The site's page and its popup share a browser with other windows. A message in transit has the
  window and target origin it was posted to and what the receiver will see; it is delivered only
  if the receiving document has the target origin at that moment. The popup's document may be
  replaced by a page of any origin; then it is not this site's code any more, but it is still
  the window the opener holds. \<open>cs_leaked\<close> collects what documents of other origins received.
\<close>

record in_transit =
  tr_to :: window
  tr_target :: string
  tr_msg :: window_message

record console_system =
  cs_site :: string
  cs_opener :: opener
  cs_popup_origin :: string
  cs_popup :: "popout option"
  cs_net :: "in_transit list"
  cs_leaked :: "window_message list"

definition post :: "window \<Rightarrow> window \<Rightarrow> string \<Rightarrow> json \<times> string \<Rightarrow> in_transit" where
  "post src dst origin p =
     \<lparr>tr_to = dst, tr_target = snd p, tr_msg = \<lparr>msg_origin = origin, msg_source = src, msg_data = Some (fst p)\<rparr>\<rparr>"

text \<open>What a step of the opener adds to the network: the messages it posted in it.\<close>

definition opener_moves :: "opener_event \<Rightarrow> console_system \<Rightarrow> console_system" where
  "opener_moves ev s =
     (let o2 = opener_step ev (cs_opener s);
          new = drop (length (or_posted (cs_opener s))) (or_posted o2)
      in s\<lparr>cs_opener := o2, cs_net := cs_net s @ map (post OpenerWindow PopupWindow (cs_site s)) new\<rparr>)"

definition start_system :: "string \<Rightarrow> string \<Rightarrow> console_system" where
  "start_system site server_name =
     \<lparr>cs_site = site, cs_opener = start_popup site server_name, cs_popup_origin = site, cs_popup = None,
      cs_net = [], cs_leaked = []\<rparr>"

inductive console_step :: "console_system \<Rightarrow> console_system \<Rightarrow> bool" where
  popup_loads: "cs_popup_origin s = cs_site s \<Longrightarrow> p = mount_popout (cs_site s) (Some OpenerWindow) \<Longrightarrow>
    console_step s (s\<lparr>cs_popup := Some p, cs_net := cs_net s @ map (post PopupWindow OpenerWindow (cs_site s)) (po_sent p)\<rparr>)"
| popup_leaves: "console_step s (s\<lparr>cs_popup := None, cs_popup_origin := origin\<rparr>)"
| stranger_posts: "msg_source (tr_msg t) \<noteq> OpenerWindow \<Longrightarrow>
    (msg_source (tr_msg t) = PopupWindow \<longrightarrow> cs_popup_origin s \<noteq> cs_site s \<and> msg_origin (tr_msg t) = cs_popup_origin s) \<Longrightarrow>
    console_step s (s\<lparr>cs_net := cs_net s @ [t]\<rparr>)"
| to_opener: "t \<in> set (cs_net s) \<Longrightarrow> tr_to t = OpenerWindow \<Longrightarrow> tr_target t = cs_site s \<Longrightarrow>
    console_step s (opener_moves (WindowMessage (tr_msg t)) s)"
| to_popout: "t \<in> set (cs_net s) \<Longrightarrow> tr_to t = PopupWindow \<Longrightarrow> tr_target t = cs_popup_origin s \<Longrightarrow>
    cs_popup_origin s = cs_site s \<Longrightarrow> cs_popup s = Some p \<Longrightarrow>
    console_step s (s\<lparr>cs_popup := Some (receiveSession (tr_msg t) p)\<rparr>)"
| to_stranger: "t \<in> set (cs_net s) \<Longrightarrow> tr_to t \<noteq> OpenerWindow \<Longrightarrow>
    (tr_to t = PopupWindow \<longrightarrow> tr_target t = cs_popup_origin s \<and> cs_popup_origin s \<noteq> cs_site s) \<Longrightarrow>
    console_step s (s\<lparr>cs_leaked := tr_msg t # cs_leaked s\<rparr>)"
| timer: "console_step s (opener_moves TimerFires s)"
| answer: "console_step s (opener_moves (SessionAnswer a) s)"

section \<open>Lemmas on the opener\<close>

definition opener_inv :: "string \<Rightarrow> opener \<Rightarrow> bool" where
  "opener_inv site o1 \<longleftrightarrow> or_origin o1 = site \<and> (or_closed o1 \<longleftrightarrow> or_outcome o1 = OpenFailed) \<and>
     (if or_outcome o1 = Opened
      then or_ready o1 \<and> (\<exists>session. or_session o1 = Some session \<and> or_posted o1 = [(session_message (or_server_name o1) session, site)])
      else or_posted o1 = [])"

lemma opener_step_inv: "opener_inv site o1 \<Longrightarrow> opener_inv site (opener_step ev o1)"
  by (cases ev)
     (auto simp: opener_inv_def receiveReady_def ready_timeout_def session_answered_def when_both_def fail_open_def
        split: option.splits promise.splits if_splits)

lemma posted_grows: "opener_inv site o1 \<Longrightarrow> \<exists>more. or_posted (opener_step ev o1) = or_posted o1 @ more"
  by (cases ev)
     (auto simp: opener_inv_def receiveReady_def ready_timeout_def session_answered_def when_both_def fail_open_def
        split: option.splits promise.splits if_splits)

lemma ready_only_by_message:
  "or_ready (opener_step ev o1) \<Longrightarrow> \<not> or_ready o1 \<Longrightarrow>
    \<exists>m. ev = WindowMessage m \<and> msg_origin m = or_origin o1 \<and> msg_source m = PopupWindow \<and> member_is ''type'' ready_type (msg_data m)"
  by (cases ev)
     (auto simp: receiveReady_def ready_timeout_def session_answered_def when_both_def fail_open_def
        split: option.splits promise.splits if_splits)

lemma start_popup_inv: "opener_inv site (start_popup site name)"
  by (simp add: opener_inv_def start_popup_def)

section \<open>Invariant of the two windows\<close>

definition net_ok :: "console_system \<Rightarrow> bool" where
  "net_ok s \<longleftrightarrow> (\<forall>t \<in> set (cs_net s).
     (msg_source (tr_msg t) = OpenerWindow \<longrightarrow> tr_to t = PopupWindow \<and> tr_target t = cs_site s \<and>
        (\<exists>p \<in> set (or_posted (cs_opener s)). msg_data (tr_msg t) = Some (fst p))) \<and>
     (msg_source (tr_msg t) = PopupWindow \<and> msg_origin (tr_msg t) = cs_site s \<longrightarrow> msg_data (tr_msg t) = Some ready_message))"

definition popup_ok :: "console_system \<Rightarrow> bool" where
  "popup_ok s \<longleftrightarrow> (\<forall>p. cs_popup s = Some p \<longrightarrow> po_origin p = cs_site s \<and> po_opener p = Some OpenerWindow \<and>
     (\<forall>d. po_payload p = Some d \<longrightarrow> (\<exists>q \<in> set (or_posted (cs_opener s)). fst q = d)))"

definition ready_ok :: "console_system \<Rightarrow> bool" where
  "ready_ok s \<longleftrightarrow> (or_ready (cs_opener s) \<longrightarrow>
     (\<exists>t \<in> set (cs_net s). msg_source (tr_msg t) = PopupWindow \<and> msg_origin (tr_msg t) = cs_site s))"

definition console_inv :: "console_system \<Rightarrow> bool" where
  "console_inv s \<longleftrightarrow> opener_inv (cs_site s) (cs_opener s) \<and> net_ok s \<and> popup_ok s \<and> ready_ok s \<and>
     (\<forall>m \<in> set (cs_leaked s). msg_source m \<noteq> OpenerWindow)"

lemma opener_moves_inv:
  assumes inv: "console_inv s"
    and ready: "\<And>m. ev = WindowMessage m \<Longrightarrow> \<exists>t \<in> set (cs_net s). tr_msg t = m"
  shows "console_inv (opener_moves ev s)"
proof -
  let ?o = "opener_step ev (cs_opener s)"
  have oi: "opener_inv (cs_site s) (cs_opener s)" using inv by (simp add: console_inv_def)
  obtain more where more: "or_posted ?o = or_posted (cs_opener s) @ more" using posted_grows [OF oi] by blast
  have oi': "opener_inv (cs_site s) ?o" by (rule opener_step_inv [OF oi])
  have target: "snd p = cs_site s" if "p \<in> set more" for p
    using oi' more that by (auto simp: opener_inv_def append_eq_Cons_conv split: if_splits)
  have eq: "opener_moves ev s = s\<lparr>cs_opener := ?o, cs_net := cs_net s @ map (post OpenerWindow PopupWindow (cs_site s)) more\<rparr>"
    by (simp add: opener_moves_def more Let_def)
  have "net_ok (opener_moves ev s)"
    unfolding net_ok_def
  proof
    fix t assume "t \<in> set (cs_net (opener_moves ev s))"
    then consider "t \<in> set (cs_net s)" | p where "p \<in> set more" "t = post OpenerWindow PopupWindow (cs_site s) p"
      unfolding eq by auto
    then show "(msg_source (tr_msg t) = OpenerWindow \<longrightarrow> tr_to t = PopupWindow \<and> tr_target t = cs_site (opener_moves ev s) \<and>
        (\<exists>p \<in> set (or_posted (cs_opener (opener_moves ev s))). msg_data (tr_msg t) = Some (fst p))) \<and>
      (msg_source (tr_msg t) = PopupWindow \<and> msg_origin (tr_msg t) = cs_site (opener_moves ev s) \<longrightarrow> msg_data (tr_msg t) = Some ready_message)"
    proof cases
      case 1
      then show ?thesis using inv unfolding eq by (auto simp: console_inv_def net_ok_def more)
    next
      case 2
      then show ?thesis using target [OF 2(1)] unfolding eq by (auto simp: post_def more)
    qed
  qed
  moreover have "popup_ok (opener_moves ev s)"
    using inv unfolding eq by (fastforce simp: console_inv_def popup_ok_def more)
  moreover have "ready_ok (opener_moves ev s)"
  proof (cases "or_ready (cs_opener s)")
    case True
    then show ?thesis using inv unfolding eq by (auto simp: console_inv_def ready_ok_def)
  next
    case False
    have "or_origin (cs_opener s) = cs_site s" using oi by (simp add: opener_inv_def)
    then show ?thesis
      using False ready ready_only_by_message [of ev "cs_opener s"] unfolding eq by (fastforce simp: ready_ok_def)
  qed
  ultimately show ?thesis using inv oi' unfolding eq by (simp add: console_inv_def)
qed

lemma console_step_inv: "console_step s s' \<Longrightarrow> console_inv s \<Longrightarrow> console_inv s'"
proof (induction rule: console_step.induct)
  case (popup_loads s p)
  then show ?case
    by (auto simp: console_inv_def net_ok_def popup_ok_def ready_ok_def mount_popout_def post_def)
next
  case (to_opener t s)
  then show ?case by (intro opener_moves_inv) auto
next
  case (to_popout t s p)
  have "\<exists>q \<in> set (or_posted (cs_opener s)). fst q = d" if "po_payload (receiveSession (tr_msg t) p) = Some d" for d
  proof (cases "receiveSession (tr_msg t) p = p")
    case True
    then show ?thesis using to_popout that by (auto simp: console_inv_def popup_ok_def)
  next
    case False
    then have src: "msg_source (tr_msg t) = OpenerWindow" "msg_data (tr_msg t) = Some d"
      using to_popout that by (auto simp: receiveSession_def console_inv_def popup_ok_def split: if_splits)
    then show ?thesis using to_popout by (force simp: console_inv_def net_ok_def)
  qed
  then show ?case using to_popout
    by (auto simp: console_inv_def net_ok_def popup_ok_def ready_ok_def receiveSession_def split: if_splits)
next
  case (to_stranger t s)
  then show ?case by (auto simp: console_inv_def net_ok_def popup_ok_def ready_ok_def)
next
  case (timer s)
  then show ?case by (intro opener_moves_inv) auto
next
  case (answer s a)
  then show ?case by (intro opener_moves_inv) auto
qed (auto simp: console_inv_def net_ok_def popup_ok_def ready_ok_def)

lemma start_system_inv: "console_inv (start_system site name)"
  using start_popup_inv [of site name]
  by (simp add: console_inv_def start_system_def net_ok_def popup_ok_def ready_ok_def) (simp add: start_popup_def)

lemma console_reachable_inv:
  "console_step\<^sup>*\<^sup>* s s' \<Longrightarrow> console_inv s \<Longrightarrow> console_inv s'"
  by (induction rule: rtranclp_induct) (auto intro: console_step_inv)

lemma console_site: "console_step\<^sup>*\<^sup>* s s' \<Longrightarrow> cs_site s' = cs_site s \<and> or_server_name (cs_opener s') = or_server_name (cs_opener s)"
proof (induction rule: rtranclp_induct)
  case (step y z)
  have name: "or_server_name (opener_step ev o1) = or_server_name o1" for ev o1
    by (cases ev) (auto simp: receiveReady_def ready_timeout_def session_answered_def when_both_def fail_open_def
        split: option.splits promise.splits)
  from step(2) have "cs_site z = cs_site y \<and> or_server_name (cs_opener z) = or_server_name (cs_opener y)"
    by cases (simp_all add: opener_moves_def Let_def name del: opener_step.simps)
  then show ?case using step.IH by simp
qed simp

section \<open>The console dialog\<close>

definition isVNC :: "json \<Rightarrow> bool" where
  "isVNC session \<longleftrightarrow> json_member ''protocol'' session = Some (JStr ''rfb'')"

definition localSocketURL :: "bool \<Rightarrow> string \<Rightarrow> string \<Rightarrow> string" where
  "localSocketURL https host ticket =
     (if https then ''wss:'' else ''ws:'') @ ''//'' @ host @ ''/ws/console/'' @ encodeURIComponent ticket"

datatype console_status = Connecting | ConnectedStatus | DisconnectedStatus | ConnectionError | VNCAuthFailed | VNCLoadFailed

text \<open>
  The VNC client: \<^verbatim>\<open>disposed\<close>, the client once the module is loaded and the element is there, and
  what the dialog told it (its URL and password, the passwords it sent, whether it was closed).
\<close>

record vnc =
  vnc_status :: console_status
  vnc_disposed :: bool
  vnc_client :: "(string \<times> string) option"
  vnc_sent_passwords :: "string list"
  vnc_disconnected :: bool

definition vnc_start :: vnc where
  "vnc_start = \<lparr>vnc_status = Connecting, vnc_disposed = False, vnc_client = None, vnc_sent_passwords = [], vnc_disconnected = False\<rparr>"

datatype vnc_event = ModuleLoaded bool bool | ModuleFailed | RFBConnect | RFBDisconnect bool
  | RFBSecurityFailure | RFBCredentialsRequired | VNCUnmount

definition unless_disposed :: "console_status \<Rightarrow> vnc \<Rightarrow> vnc" where
  "unless_disposed st v = (if vnc_disposed v then v else v\<lparr>vnc_status := st\<rparr>)"

text \<open>
  \<open>ModuleLoaded screen throws\<close>: the import has come, with the screen element there or not, and the
  constructor of the client throws or not. Events of a client only come once it exists.
\<close>

fun vnc_step :: "string \<Rightarrow> string \<Rightarrow> vnc_event \<Rightarrow> vnc \<Rightarrow> vnc" where
  "vnc_step url password (ModuleLoaded screen throws) v =
     (if vnc_disposed v \<or> \<not> screen \<or> vnc_client v \<noteq> None then v
      else if throws then unless_disposed VNCLoadFailed v
      else v\<lparr>vnc_client := Some (url, password)\<rparr>)"
| "vnc_step url password ModuleFailed v = (if vnc_client v = None then unless_disposed VNCLoadFailed v else v)"
| "vnc_step url password RFBConnect v = (if vnc_client v = None then v else unless_disposed ConnectedStatus v)"
| "vnc_step url password (RFBDisconnect clean) v =
     (if vnc_client v = None then v else unless_disposed (if clean then DisconnectedStatus else ConnectionError) v)"
| "vnc_step url password RFBSecurityFailure v = (if vnc_client v = None then v else unless_disposed VNCAuthFailed v)"
| "vnc_step url password RFBCredentialsRequired v =
     (if vnc_client v = None then v else v\<lparr>vnc_sent_passwords := vnc_sent_passwords v @ [password]\<rparr>)"
| "vnc_step url password VNCUnmount v =
     v\<lparr>vnc_disposed := True, vnc_disconnected := (vnc_disconnected v \<or> vnc_client v \<noteq> None)\<rparr>"

datatype ready_state = SocketConnecting | SocketOpen | SocketClosing | SocketClosed

datatype frame = TextFrame string | BinaryFrame

fun frame_text :: "frame \<Rightarrow> string" where
  "frame_text (TextFrame s) = s"
| "frame_text BinaryFrame = ''[binary frame]''"

record terminal_console =
  tm_status :: console_status
  tm_socket :: "ready_state option"
  tm_output :: string
  tm_input :: string
  tm_sent :: "string list"

definition terminal_start :: terminal_console where
  "terminal_start = \<lparr>tm_status = Connecting, tm_socket = Some SocketConnecting, tm_output = [], tm_input = [], tm_sent = []\<rparr>"

datatype terminal_event = SocketOpened | SocketFrame frame | SocketError | SocketClose | SocketClosingStarts
  | TypeInput string | SubmitInput | TerminalUnmount

definition send_input :: "terminal_console \<Rightarrow> terminal_console" where
  "send_input t =
     (if tm_input t = [] \<or> tm_socket t \<noteq> Some SocketOpen then t
      else t\<lparr>tm_sent := tm_sent t @ [tm_input t], tm_input := []\<rparr>)"

text \<open>Frames only come while the socket is open (or closing); after unmounting nothing is shown.\<close>

fun terminal_step :: "terminal_event \<Rightarrow> terminal_console \<Rightarrow> terminal_console" where
  "terminal_step SocketOpened t =
     (if tm_socket t = Some SocketConnecting then t\<lparr>tm_socket := Some SocketOpen, tm_status := ConnectedStatus\<rparr> else t)"
| "terminal_step (SocketFrame f) t =
     (if tm_socket t \<in> {Some SocketOpen, Some SocketClosing} then t\<lparr>tm_output := tm_output t @ frame_text f\<rparr> else t)"
| "terminal_step SocketError t = (if tm_socket t = None then t else t\<lparr>tm_status := ConnectionError\<rparr>)"
| "terminal_step SocketClosingStarts t = (if tm_socket t = Some SocketOpen then t\<lparr>tm_socket := Some SocketClosing\<rparr> else t)"
| "terminal_step SocketClose t =
     (if tm_socket t = None then t else t\<lparr>tm_socket := Some SocketClosed, tm_status := DisconnectedStatus\<rparr>)"
| "terminal_step (TypeInput s) t = (if tm_socket t = None then t else t\<lparr>tm_input := s\<rparr>)"
| "terminal_step SubmitInput t = send_input t"
| "terminal_step TerminalUnmount t = t\<lparr>tm_socket := None\<rparr>"

datatype output_view = WaitingForOutput | OutputText string

definition terminal_output_view :: "terminal_console \<Rightarrow> output_view" where
  "terminal_output_view t = (if tm_output t = [] then WaitingForOutput else OutputText (tm_output t))"

section \<open>Properties\<close>

text \<open>
  C19. However other windows post messages, whatever page the popup is sent to and in whatever order
  messages, timer and answer arrive: the one-time session is never delivered to a window or document
  of another site; it is posted at most once, only to the popup, only after a page of this site in the
  popup reported; and the popup is closed exactly when opening failed.
\<close>

theorem session_reaches_only_own_popup:
  assumes "console_step\<^sup>*\<^sup>* (start_system site name) s"
  shows "(\<forall>m \<in> set (cs_leaked s). msg_source m \<noteq> OpenerWindow) \<and>
    (\<forall>t \<in> set (cs_net s). msg_source (tr_msg t) = OpenerWindow \<longrightarrow> tr_to t = PopupWindow \<and> tr_target t = site) \<and>
    length (or_posted (cs_opener s)) \<le> 1 \<and>
    (or_posted (cs_opener s) \<noteq> [] \<longrightarrow>
       (\<exists>t \<in> set (cs_net s). msg_source (tr_msg t) = PopupWindow \<and> msg_origin (tr_msg t) = site \<and> msg_data (tr_msg t) = Some ready_message)) \<and>
    (or_closed (cs_opener s) \<longleftrightarrow> or_outcome (cs_opener s) = OpenFailed)"
proof -
  have inv: "console_inv s" by (rule console_reachable_inv [OF assms start_system_inv])
  have site: "cs_site s = site" using console_site [OF assms] by (simp add: start_system_def)
  have oi: "opener_inv site (cs_opener s)" using inv site by (simp add: console_inv_def)
  have "or_posted (cs_opener s) \<noteq> [] \<Longrightarrow> or_ready (cs_opener s)" using oi by (auto simp: opener_inv_def split: if_splits)
  then have "or_posted (cs_opener s) \<noteq> [] \<Longrightarrow>
      \<exists>t \<in> set (cs_net s). msg_source (tr_msg t) = PopupWindow \<and> msg_origin (tr_msg t) = site \<and> msg_data (tr_msg t) = Some ready_message"
    using inv site by (auto simp: console_inv_def ready_ok_def net_ok_def)
  moreover have "length (or_posted (cs_opener s)) \<le> 1" using oi by (auto simp: opener_inv_def split: if_splits)
  ultimately show ?thesis using inv oi site by (auto simp: console_inv_def net_ok_def opener_inv_def)
qed

definition sample_session :: json where
  "sample_session = JObj [(''session_id'', JStr ''s1''), (''ticket'', JStr ''t1''), (''protocol'', JStr ''rfb'')]"

definition sample_system :: console_system where
  "sample_system = opener_moves (SessionAnswer (Fulfilled (Some sample_session)))
     (opener_moves (WindowMessage \<lparr>msg_origin = ''https://a'', msg_source = PopupWindow, msg_data = Some ready_message\<rparr>)
       ((start_system ''https://a'' ''node'')\<lparr>cs_popup := Some (mount_popout ''https://a'' (Some OpenerWindow)),
          cs_net := map (post PopupWindow OpenerWindow ''https://a'') [(ready_message, ''https://a'')]\<rparr>))"

lemma sample_system_reachable: "console_step\<^sup>*\<^sup>* (start_system ''https://a'' ''node'') sample_system"
proof -
  let ?s0 = "start_system ''https://a'' ''node''"
  let ?s1 = "?s0\<lparr>cs_popup := Some (mount_popout ''https://a'' (Some OpenerWindow)),
          cs_net := map (post PopupWindow OpenerWindow ''https://a'') [(ready_message, ''https://a'')]\<rparr>"
  have "console_step ?s0 ?s1"
    using console_step.popup_loads [of ?s0 "mount_popout ''https://a'' (Some OpenerWindow)"]
    by (simp add: start_system_def mount_popout_def)
  moreover have "console_step ?s1 (opener_moves (WindowMessage \<lparr>msg_origin = ''https://a'', msg_source = PopupWindow, msg_data = Some ready_message\<rparr>) ?s1)"
    using console_step.to_opener [of "post PopupWindow OpenerWindow ''https://a'' (ready_message, ''https://a'')" ?s1]
    by (simp add: start_system_def post_def)
  ultimately show ?thesis
    unfolding sample_system_def by (meson console_step.answer converse_rtranclp_into_rtranclp r_into_rtranclp)
qed

lemma sample_posted: "or_posted (cs_opener sample_system) = [(session_message ''node'' (Some sample_session), ''https://a'')]"
  by code_simp

theorem session_reaches_only_own_popup_witness:
  "or_posted (cs_opener sample_system) = [(session_message ''node'' (Some sample_session), ''https://a'')] \<and>
   \<not> or_closed (cs_opener sample_system)"
proof -
  have "or_outcome (cs_opener sample_system) = Opened" by code_simp
  then show ?thesis
    using session_reaches_only_own_popup [OF sample_system_reachable] sample_posted by simp
qed

text \<open>
  The popup only ever shows a session that its opener posted for the server it was opened for:
  no other window, and no page shown in the popup before, can make it connect with a ticket or
  password of their own.
\<close>

lemma popup_shows_only_openers_session:
  assumes "console_step\<^sup>*\<^sup>* (start_system site name) s" and "cs_popup s = Some p" and "popout_view p = ConsoleView d"
  shows "\<exists>session. or_session (cs_opener s) = Some session \<and> d = session_message name session \<and>
    or_outcome (cs_opener s) = Opened"
proof -
  have inv: "console_inv s" by (rule console_reachable_inv [OF assms(1) start_system_inv])
  have same: "cs_site s = site" "or_server_name (cs_opener s) = name"
    using console_site [OF assms(1)] by (simp_all add: start_system_def start_popup_def)
  have "po_payload p = Some d" using assms(3) by (auto simp: popout_view_def split: if_splits option.splits)
  then obtain q where "q \<in> set (or_posted (cs_opener s))" "fst q = d"
    using inv assms(2) by (auto simp: console_inv_def popup_ok_def)
  then show ?thesis using inv same by (auto simp: console_inv_def opener_inv_def split: if_splits)
qed

definition sample_shown :: console_system where
  "sample_shown = sample_system\<lparr>cs_popup := Some (receiveSession (tr_msg (last (cs_net sample_system))) (the (cs_popup sample_system)))\<rparr>"

lemma sample_shown_reachable: "console_step\<^sup>*\<^sup>* (start_system ''https://a'' ''node'') sample_shown"
proof -
  have "cs_net sample_system \<noteq> []" "tr_to (last (cs_net sample_system)) = PopupWindow"
    "tr_target (last (cs_net sample_system)) = cs_popup_origin sample_system"
    "cs_popup_origin sample_system = cs_site sample_system" "cs_popup sample_system = Some (the (cs_popup sample_system))"
    by code_simp+
  then have "console_step sample_system sample_shown"
    unfolding sample_shown_def by (intro console_step.to_popout last_in_set)
  then show ?thesis using sample_system_reachable by (rule rtranclp.rtrancl_into_rtrancl [rotated])
qed

theorem popup_shows_only_openers_session_witness:
  "\<exists>session. or_session (cs_opener sample_shown) = Some session \<and>
    session_message ''node'' (Some sample_session) = session_message ''node'' session"
proof -
  have "popout_view (the (cs_popup sample_shown)) = ConsoleView (session_message ''node'' (Some sample_session))"
    "cs_popup sample_shown = Some (the (cs_popup sample_shown))" by code_simp+
  then show ?thesis using popup_shows_only_openers_session [OF sample_shown_reachable] by blast
qed

lemma vnc_disposed_step:
  "vnc_disposed v \<Longrightarrow> vnc_client v = None \<or> vnc_disconnected v \<Longrightarrow>
   vnc_disposed (vnc_step url pw ev v) \<and> vnc_status (vnc_step url pw ev v) = vnc_status v \<and>
   vnc_client (vnc_step url pw ev v) = vnc_client v \<and>
   (vnc_client (vnc_step url pw ev v) = None \<or> vnc_disconnected (vnc_step url pw ev v))"
  by (cases ev) (auto simp: unless_disposed_def)

text \<open>
  Once the VNC console is closed it stays silent: whatever happened before and whatever
  the loader or the client reports afterwards, the status is not touched again, no client is created
  any more, and a client that existed has been disconnected.
\<close>

lemma closed_vnc_console_stays_silent:
  "let v = fold (vnc_step url pw) before vnc_start;
       v' = fold (vnc_step url pw) after (vnc_step url pw VNCUnmount v)
   in vnc_status v' = vnc_status v \<and> vnc_client v' = vnc_client v \<and> (vnc_client v' = None \<or> vnc_disconnected v')"
proof -
  have run: "vnc_disposed w \<Longrightarrow> vnc_client w = None \<or> vnc_disconnected w \<Longrightarrow>
    vnc_status (fold (vnc_step url pw) after w) = vnc_status w \<and> vnc_client (fold (vnc_step url pw) after w) = vnc_client w \<and>
    (vnc_client (fold (vnc_step url pw) after w) = None \<or> vnc_disconnected (fold (vnc_step url pw) after w))" for w
  proof (induction after arbitrary: w)
    case (Cons ev evs)
    then have "vnc_disposed (vnc_step url pw ev w)" "vnc_status (vnc_step url pw ev w) = vnc_status w"
      "vnc_client (vnc_step url pw ev w) = vnc_client w"
      "vnc_client (vnc_step url pw ev w) = None \<or> vnc_disconnected (vnc_step url pw ev w)"
      using vnc_disposed_step [of w url pw ev] by blast+
    then show ?case using Cons.IH [of "vnc_step url pw ev w"] by (metis fold_simps(2))
  qed simp
  define v where "v = fold (vnc_step url pw) before vnc_start"
  have closed: "vnc_disposed (vnc_step url pw VNCUnmount v)" "vnc_status (vnc_step url pw VNCUnmount v) = vnc_status v"
    "vnc_client (vnc_step url pw VNCUnmount v) = vnc_client v"
    "vnc_client (vnc_step url pw VNCUnmount v) = None \<or> vnc_disconnected (vnc_step url pw VNCUnmount v)"
    by (cases "vnc_client v"; simp)+
  show ?thesis
    using run [OF closed(1,4)] unfolding closed(2,3) Let_def v_def [symmetric] .
qed

section \<open>The dialog\<close>

text \<open>
  \<^verbatim>\<open>ConsoleDialog\<close>: the client it mounts for a session, and its clicks. A click is handled by the element it hits
  and then by those around it, until a handler stops it; the close button is inside of the dialog, which
  stops every click, and the dialog inside of the backdrop, which closes.
\<close>

datatype console_client = VNCClient json | TerminalClient json

record console_dialog =
  cd_server_name :: string
  cd_status :: console_status
  cd_client :: console_client

definition open_console_dialog :: "string \<Rightarrow> json \<Rightarrow> console_dialog" where
  "open_console_dialog name session =
     \<lparr>cd_server_name = name, cd_status = Connecting, cd_client = (if isVNC session then VNCClient session else TerminalClient session)\<rparr>"

datatype dialog_element = CloseButton | DialogSection | DialogBackdrop

fun around :: "dialog_element \<Rightarrow> dialog_element list" where
  "around CloseButton = [CloseButton, DialogSection, DialogBackdrop]"
| "around DialogSection = [DialogSection, DialogBackdrop]"
| "around DialogBackdrop = [DialogBackdrop]"

text \<open>A handler: whether it calls \<open>onClose\<close> and whether it stops the click.\<close>

fun dialog_handler :: "dialog_element \<Rightarrow> bool \<times> bool" where
  "dialog_handler CloseButton = (True, False)"
| "dialog_handler DialogSection = (False, True)"
| "dialog_handler DialogBackdrop = (True, False)"

fun closings :: "dialog_element list \<Rightarrow> nat" where
  "closings [] = 0"
| "closings (e # es) = (let (closes, stops) = dialog_handler e in (if closes then 1 else 0) + (if stops then 0 else closings es))"

text \<open>The button and the backdrop close once, a click into the dialog does not.\<close>

lemma click_closes: "closings (around e) = (if e = DialogSection then 0 else 1)"
  by (cases e) simp_all

end
