(* ===== verification/WebConnections.thy ===== *)
theory WebConnections imports WebPage begin

text \<open>
  The providers page, \<^verbatim>\<open>web/src/connections/ConnectionsPage.tsx\<close>: the list with its two-second
  poll, the test, sync and delete buttons, and the form that creates a connection. Requests in
  flight are tasks; their answers may come in any order. Bodies are trusted to have their
  declared types, as the page trusts them. \<^verbatim>\<open>JSON.parse\<close> of the pasted service account is the
  parameter \<open>parse\<close>.
\<close>

section \<open>Data\<close>

record provider_type =
  pt_id :: string
  pt_name :: string

datatype health = HealthUnknown | Healthy | Degraded | Offline

record web_connection =
  wc_id :: string
  wc_name :: string
  wc_provider_type :: string
  wc_endpoint :: string
  wc_settings :: json
  wc_enabled :: bool
  wc_health :: health
  wc_last_tested_at :: "string option"
  wc_last_synced_at :: "string option"
  wc_last_error_code :: "string option"
  wc_last_error_message :: "string option"

section \<open>The form\<close>

datatype form_alert = NoFormAlert | InvalidServiceAccount | CannotSaveConnection

record connection_form =
  fm_instance :: nat
  fm_type :: string
  fm_name :: string
  fm_server_count :: string
  fm_token :: string
  fm_console_profile :: string
  fm_regions :: string
  fm_access_key_id :: string
  fm_secret_access_key :: string
  fm_session_token :: string
  fm_virtfusion_endpoint :: string
  fm_virtfusion_token :: string
  fm_gcp_project_id :: string
  fm_gcp_service_account :: string
  fm_virtualizor_endpoint :: string
  fm_virtualizor_api_key :: string
  fm_virtualizor_api_password :: string
  fm_solusvm2_endpoint :: string
  fm_solusvm2_api_token :: string
  fm_submitting :: bool
  fm_alert :: form_alert

definition initial_type :: "provider_type list \<Rightarrow> string" where
  "initial_type types =
     (case List.find (\<lambda>t. pt_id t = ''mock'') types of
        Some t \<Rightarrow> pt_id t
      | None \<Rightarrow> (case types of [] \<Rightarrow> ''mock'' | t # _ \<Rightarrow> pt_id t))"

definition open_form :: "nat \<Rightarrow> provider_type list \<Rightarrow> connection_form" where
  "open_form n types =
     \<lparr>fm_instance = n, fm_type = initial_type types, fm_name = [], fm_server_count = ''4'', fm_token = [],
      fm_console_profile = ''embedded'', fm_regions = [], fm_access_key_id = [], fm_secret_access_key = [],
      fm_session_token = [], fm_virtfusion_endpoint = [], fm_virtfusion_token = [], fm_gcp_project_id = [],
      fm_gcp_service_account = [], fm_virtualizor_endpoint = [], fm_virtualizor_api_key = [],
      fm_virtualizor_api_password = [], fm_solusvm2_endpoint = [], fm_solusvm2_api_token = [],
      fm_submitting = False, fm_alert = NoFormAlert\<rparr>"

text \<open>\<^verbatim>\<open>regions.split(',').map((region) => region.trim()).filter(Boolean)\<close>.\<close>

definition parse_regions :: "string \<Rightarrow> string list" where
  "parse_regions s = filter (\<lambda>r. r \<noteq> []) (map js_trim (split_on (CHR '','') s))"

text \<open>
  \<^verbatim>\<open>Number(serverCount)\<close> for the decimal numerals a number input yields, and \<^verbatim>\<open>JSON.stringify\<close>
  of the result: a text that is no numeral becomes \<^verbatim>\<open>null\<close>.
\<close>

definition digit_value :: "char \<Rightarrow> nat option" where
  "digit_value c = (let n = of_char c :: nat in if 48 \<le> n \<and> n \<le> 57 then Some (n - 48) else None)"

fun numeral_value :: "nat \<Rightarrow> string \<Rightarrow> nat option" where
  "numeral_value acc [] = Some acc"
| "numeral_value acc (c # s) =
     (case digit_value c of None \<Rightarrow> None | Some d \<Rightarrow> numeral_value (10 * acc + d) s)"

definition number_json :: "string \<Rightarrow> json" where
  "number_json s = (case numeral_value 0 (js_trim s) of None \<Rightarrow> JNull | Some n \<Rightarrow> JNum (int n))"

text \<open>The object a form sends; \<open>None\<close> when the service account is not a JSON object.\<close>

definition connection_input_of :: "(string \<Rightarrow> json option) \<Rightarrow> connection_form \<Rightarrow> connection_input option" where
  "connection_input_of parse f =
     (let input = (\<lambda>type endpoint settings credentials.
            \<lparr>ci_name = fm_name f, ci_provider_type = type, ci_endpoint = endpoint,
             ci_settings = JObj settings, ci_credentials = JObj credentials, ci_enabled = True\<rparr>)
      in if fm_type f = ''aws'' then
           Some (input ''aws'' [] [(''regions'', JArr (map JStr (parse_regions (fm_regions f))))]
             ([(''access_key_id'', JStr (fm_access_key_id f)), (''secret_access_key'', JStr (fm_secret_access_key f))] @
              (if js_trim (fm_session_token f) \<noteq> [] then [(''session_token'', JStr (fm_session_token f))] else [])))
         else if fm_type f = ''gcp'' then
           (case parse (fm_gcp_service_account f) of
              Some (JObj account) \<Rightarrow>
                Some (input ''gcp'' [] [(''project_id'', JStr (fm_gcp_project_id f))] [(''service_account_json'', JObj account)])
            | _ \<Rightarrow> None)
         else if fm_type f = ''virtfusion'' then
           Some (input ''virtfusion'' (js_trim (fm_virtfusion_endpoint f)) [] [(''token'', JStr (fm_virtfusion_token f))])
         else if fm_type f = ''virtualizor'' then
           Some (input ''virtualizor'' (js_trim (fm_virtualizor_endpoint f)) []
             [(''api_key'', JStr (fm_virtualizor_api_key f)), (''api_password'', JStr (fm_virtualizor_api_password f))])
         else if fm_type f = ''solusvm2'' then
           Some (input ''solusvm2'' (js_trim (fm_solusvm2_endpoint f)) [] [(''api_token'', JStr (fm_solusvm2_api_token f))])
         else
           Some (input ''mock'' [] [(''server_count'', number_json (fm_server_count f)), (''console_profile'', JStr (fm_console_profile f))]
             [(''token'', JStr (fm_token f))]))"

text \<open>The inputs that are shown for a type, all required but the session token.\<close>

datatype form_input = InputRegions | InputAccessKey | InputSecretKey | InputSessionToken | InputProject
  | InputServiceAccount | InputVFEndpoint | InputVFToken | InputVZEndpoint | InputVZKey | InputVZPassword
  | InputS2Endpoint | InputS2Token | InputServerCount | InputConsoleProfile | InputMockToken

definition shown_inputs :: "string \<Rightarrow> form_input list" where
  "shown_inputs type =
     (if type = ''aws'' then [InputRegions, InputAccessKey, InputSecretKey, InputSessionToken]
      else if type = ''gcp'' then [InputProject, InputServiceAccount]
      else if type = ''virtfusion'' then [InputVFEndpoint, InputVFToken]
      else if type = ''virtualizor'' then [InputVZEndpoint, InputVZKey, InputVZPassword]
      else if type = ''solusvm2'' then [InputS2Endpoint, InputS2Token]
      else [InputServerCount, InputConsoleProfile, InputMockToken])"

section \<open>The page\<close>

datatype connection_notice = NoConnectionNotice | ConnectionSaved | TestSucceeded | TestFailedWith string | TestFailed
  | SyncQueued | SyncFailed | ConnectionDeleted | DeleteFailed

datatype connection_task = CreateTask nat | TestTask string | SyncTask string | DeleteTask string | PollTask

record connection_page =
  cp_connections :: "web_connection list"
  cp_provider_types :: "provider_type list"
  cp_loading :: bool
  cp_error :: bool
  cp_form :: "connection_form option"
  cp_forms_opened :: nat
  cp_notice :: connection_notice
  cp_active :: bool
  cp_tasks :: "connection_task list"
  cp_sent :: "api_call list"

definition connections_mounted :: connection_page where
  "connections_mounted =
     \<lparr>cp_connections = [], cp_provider_types = [], cp_loading = True, cp_error = False, cp_form = None,
      cp_forms_opened = 0, cp_notice = NoConnectionNotice, cp_active = True, cp_tasks = [],
      cp_sent = [listProviderTypes, listConnections]\<rparr>"

text \<open>The first load: both lists, or the error banner; nothing once the page is gone.\<close>

definition connections_loaded :: "provider_type list \<Rightarrow> web_connection list \<Rightarrow> connection_page \<Rightarrow> connection_page" where
  "connections_loaded types items p =
     (if cp_active p then p\<lparr>cp_provider_types := types, cp_connections := items, cp_loading := False\<rparr> else p)"

definition connections_load_failed :: "connection_page \<Rightarrow> connection_page" where
  "connections_load_failed p = (if cp_active p then p\<lparr>cp_error := True, cp_loading := False\<rparr> else p)"

definition start_connection_task :: "connection_task \<Rightarrow> api_call \<Rightarrow> connection_page \<Rightarrow> connection_page" where
  "start_connection_task t call p = p\<lparr>cp_tasks := cp_tasks p @ [t], cp_sent := cp_sent p @ [call]\<rparr>"

definition poll_connections :: "connection_page \<Rightarrow> connection_page" where
  "poll_connections p = (if cp_active p then start_connection_task PollTask listConnections p else p)"

text \<open>\<^verbatim>\<open>submit\<close> of the form up to the request it awaits.\<close>

definition submit_connection :: "(string \<Rightarrow> json option) \<Rightarrow> connection_form \<Rightarrow> connection_page \<Rightarrow> connection_page" where
  "submit_connection parse f p =
     (case connection_input_of parse f of
        None \<Rightarrow> p\<lparr>cp_form := Some (f\<lparr>fm_submitting := False, fm_alert := InvalidServiceAccount\<rparr>)\<rparr>
      | Some input \<Rightarrow>
          start_connection_task (CreateTask (fm_instance f)) (createConnection input)
            (p\<lparr>cp_form := Some (f\<lparr>fm_submitting := True, fm_alert := NoFormAlert\<rparr>)\<rparr>))"

text \<open>\<^verbatim>\<open>handleCreate\<close> after its request, and the \<^verbatim>\<open>catch\<close> and \<^verbatim>\<open>finally\<close> of the form that awaits it.\<close>

definition connection_created :: "web_connection \<Rightarrow> connection_page \<Rightarrow> connection_page" where
  "connection_created c p = p\<lparr>cp_connections := cp_connections p @ [c], cp_form := None, cp_notice := ConnectionSaved\<rparr>"

definition create_rejected :: "nat \<Rightarrow> connection_page \<Rightarrow> connection_page" where
  "create_rejected n p =
     (case cp_form p of
        Some f \<Rightarrow> (if fm_instance f = n
                    then p\<lparr>cp_form := Some (f\<lparr>fm_alert := CannotSaveConnection, fm_submitting := False\<rparr>)\<rparr> else p)
      | None \<Rightarrow> p)"

definition tested_connection :: "bool \<Rightarrow> web_connection \<Rightarrow> web_connection" where
  "tested_connection healthy c =
     (if healthy then c\<lparr>wc_health := Healthy, wc_last_error_code := None, wc_last_error_message := None\<rparr>
      else c\<lparr>wc_health := Degraded\<rparr>)"

definition connection_tested :: "string \<Rightarrow> bool \<Rightarrow> string \<Rightarrow> connection_page \<Rightarrow> connection_page" where
  "connection_tested i healthy message p =
     p\<lparr>cp_notice := (if healthy then TestSucceeded else TestFailedWith message),
       cp_connections := map (\<lambda>c. if wc_id c = i then tested_connection healthy c else c) (cp_connections p)\<rparr>"

definition handleTest :: "web_connection \<Rightarrow> connection_page \<Rightarrow> connection_page" where
  "handleTest c p = start_connection_task (TestTask (wc_id c)) (testConnection (wc_id c)) (p\<lparr>cp_notice := NoConnectionNotice\<rparr>)"

definition handleSync :: "web_connection \<Rightarrow> connection_page \<Rightarrow> connection_page" where
  "handleSync c p = start_connection_task (SyncTask (wc_id c)) (syncConnection (wc_id c)) (p\<lparr>cp_notice := NoConnectionNotice\<rparr>)"

definition handleDelete :: "bool \<Rightarrow> web_connection \<Rightarrow> connection_page \<Rightarrow> connection_page" where
  "handleDelete confirmed c p =
     (if \<not> confirmed then p
      else start_connection_task (DeleteTask (wc_id c)) (deleteConnection (wc_id c)) (p\<lparr>cp_notice := NoConnectionNotice\<rparr>))"

definition connection_deleted :: "string \<Rightarrow> connection_page \<Rightarrow> connection_page" where
  "connection_deleted i p =
     p\<lparr>cp_connections := filter (\<lambda>c. wc_id c \<noteq> i) (cp_connections p), cp_notice := ConnectionDeleted\<rparr>"

datatype connection_answer = AnswerConnection web_connection | AnswerTest bool string | AnswerDone
  | AnswerConnections "web_connection list" | AnswerRejected

fun resume_connection :: "connection_task \<Rightarrow> connection_answer \<Rightarrow> connection_page \<Rightarrow> connection_page" where
  "resume_connection (CreateTask n) (AnswerConnection c) p = connection_created c p"
| "resume_connection (CreateTask n) AnswerRejected p = create_rejected n p"
| "resume_connection (TestTask i) (AnswerTest healthy message) p = connection_tested i healthy message p"
| "resume_connection (TestTask i) AnswerRejected p = p\<lparr>cp_notice := TestFailed\<rparr>"
| "resume_connection (SyncTask i) AnswerDone p = p\<lparr>cp_notice := SyncQueued\<rparr>"
| "resume_connection (SyncTask i) AnswerRejected p = p\<lparr>cp_notice := SyncFailed\<rparr>"
| "resume_connection (DeleteTask i) AnswerDone p = connection_deleted i p"
| "resume_connection (DeleteTask i) AnswerRejected p = p\<lparr>cp_notice := DeleteFailed\<rparr>"
| "resume_connection PollTask (AnswerConnections cs) p = p\<lparr>cp_connections := cs\<rparr>"
| "resume_connection _ _ p = p"

text \<open>An answer settles a task of its own kind.\<close>

fun answer_fits :: "connection_task \<Rightarrow> connection_answer \<Rightarrow> bool" where
  "answer_fits (CreateTask _) (AnswerConnection _) = True"
| "answer_fits (TestTask _) (AnswerTest _ _) = True"
| "answer_fits (SyncTask _) AnswerDone = True"
| "answer_fits (DeleteTask _) AnswerDone = True"
| "answer_fits PollTask (AnswerConnections _) = True"
| "answer_fits _ AnswerRejected = True"
| "answer_fits _ _ = False"

section \<open>What is shown\<close>

record connection_card =
  cd_id :: string
  cd_badge :: string
  cd_name :: string
  cd_health :: health
  cd_enabled :: bool
  cd_last_synced :: "string option"
  cd_failure :: "(string \<times> string option) option"
  cd_sync_enabled :: bool

definition nonempty :: "string option \<Rightarrow> string option" where
  "nonempty s = (case s of Some t \<Rightarrow> (if t = [] then None else Some t) | None \<Rightarrow> None)"

definition connection_card :: "web_connection \<Rightarrow> connection_card" where
  "connection_card c =
     \<lparr>cd_id = wc_id c, cd_badge = wc_provider_type c, cd_name = wc_name c, cd_health = wc_health c,
      cd_enabled = wc_enabled c, cd_last_synced = nonempty (wc_last_synced_at c),
      cd_failure = map_option (\<lambda>m. (m, nonempty (wc_last_error_code c))) (nonempty (wc_last_error_message c)),
      cd_sync_enabled = wc_enabled c\<rparr>"

text \<open>The form: the types to choose from, the inputs of the chosen one, its message and its button.\<close>

record form_view =
  fv_types :: "(string \<times> string) list"
  fv_type :: string
  fv_name :: string
  fv_inputs :: "form_input list"
  fv_alert :: form_alert
  fv_enabled :: bool

definition form_view :: "provider_type list \<Rightarrow> connection_form \<Rightarrow> form_view" where
  "form_view types f =
     \<lparr>fv_types = map (\<lambda>t. (pt_id t, pt_name t)) types, fv_type = fm_type f, fv_name = fm_name f,
      fv_inputs = shown_inputs (fm_type f), fv_alert = fm_alert f, fv_enabled = (\<not> fm_submitting f)\<rparr>"

record connections_view =
  vw_notice :: connection_notice
  vw_error :: bool
  vw_form :: "form_view option"
  vw_list :: "connection_card list_view"

definition connections_view :: "connection_page \<Rightarrow> connections_view" where
  "connections_view p =
     \<lparr>vw_notice = cp_notice p, vw_error = cp_error p,
      vw_form = map_option (form_view (cp_provider_types p)) (cp_form p),
      vw_list = list_view (cp_loading p) (map connection_card (cp_connections p))\<rparr>"

section \<open>Runs\<close>

datatype connection_event =
    LoadAnswered "(provider_type list \<times> web_connection list) option"
  | PollTick
  | ClickAdd
  | CancelForm
  | EditForm connection_form
  | SubmitForm
  | ClickTest web_connection
  | ClickSync web_connection
  | ClickDelete bool web_connection
  | ConnectionAnswer nat connection_answer
  | ConnectionsUnmount

text \<open>
  A form that is edited keeps its identity and its request; its button, and the sync button of
  a card, are events only while they are enabled.
\<close>

fun connection_step :: "(string \<Rightarrow> json option) \<Rightarrow> connection_event \<Rightarrow> connection_page \<Rightarrow> connection_page" where
  "connection_step parse (LoadAnswered None) p = connections_load_failed p"
| "connection_step parse (LoadAnswered (Some (types, items))) p = connections_loaded types items p"
| "connection_step parse PollTick p = poll_connections p"
| "connection_step parse ClickAdd p =
     (case cp_form p of
        None \<Rightarrow> p\<lparr>cp_form := Some (open_form (cp_forms_opened p) (cp_provider_types p)), cp_forms_opened := Suc (cp_forms_opened p)\<rparr>
      | Some _ \<Rightarrow> p)"
| "connection_step parse CancelForm p = p\<lparr>cp_form := None\<rparr>"
| "connection_step parse (EditForm g) p =
     (case cp_form p of
        None \<Rightarrow> p
      | Some f \<Rightarrow> p\<lparr>cp_form := Some (g\<lparr>fm_instance := fm_instance f, fm_submitting := fm_submitting f, fm_alert := fm_alert f\<rparr>)\<rparr>)"
| "connection_step parse SubmitForm p =
     (case cp_form p of None \<Rightarrow> p | Some f \<Rightarrow> (if fm_submitting f then p else submit_connection parse f p))"
| "connection_step parse (ClickTest c) p = (if c \<in> set (cp_connections p) then handleTest c p else p)"
| "connection_step parse (ClickSync c) p = (if c \<in> set (cp_connections p) \<and> wc_enabled c then handleSync c p else p)"
| "connection_step parse (ClickDelete yes c) p = (if c \<in> set (cp_connections p) then handleDelete yes c p else p)"
| "connection_step parse (ConnectionAnswer i a) p =
     (if i < length (cp_tasks p) \<and> answer_fits (cp_tasks p ! i) a
      then resume_connection (cp_tasks p ! i) a (p\<lparr>cp_tasks := take i (cp_tasks p) @ drop (Suc i) (cp_tasks p)\<rparr>)
      else p)"
| "connection_step parse ConnectionsUnmount p = p\<lparr>cp_active := False\<rparr>"

section \<open>The list\<close>

interpretation connections: sticky_page cp_active cp_loading "\<lambda>p. (cp_provider_types p, cp_connections p)" cp_error
  "\<lambda>(types, items). connections_loaded types items" connections_load_failed
  by unfold_locales (auto simp: connections_loaded_def connections_load_failed_def)

lemma resume_connection_error [simp]: "cp_error (resume_connection t a p) = cp_error p"
  by (cases "(t, a, p)" rule: resume_connection.cases)
     (simp_all add: connection_created_def create_rejected_def connection_tested_def connection_deleted_def split: option.split)

lemma connection_step_error: "cp_error p \<Longrightarrow> cp_error (connection_step parse ev p)"
  by (cases "(parse, ev, p)" rule: connection_step.cases)
     (auto simp: connections_load_failed_def connections_loaded_def poll_connections_def start_connection_task_def
        submit_connection_def handleTest_def handleSync_def handleDelete_def split: option.split)

section \<open>Region lists\<close>

definition region_name :: "string \<Rightarrow> bool" where
  "region_name r \<longleftrightarrow> r \<noteq> [] \<and> trimmed_by js_space r \<and> CHR '','' \<notin> set r"

lemma parse_regions_names: "r \<in> set (parse_regions s) \<Longrightarrow> region_name r"
  using split_on_no_sep [of _ "CHR '',''" s] set_trim_by
  by (fastforce simp: parse_regions_def region_name_def text_simps)

section \<open>Forms and their requests\<close>

definition input_value :: "form_input \<Rightarrow> connection_form \<Rightarrow> string" where
  "input_value x f =
     (case x of InputRegions \<Rightarrow> fm_regions f | InputAccessKey \<Rightarrow> fm_access_key_id f
      | InputSecretKey \<Rightarrow> fm_secret_access_key f | InputSessionToken \<Rightarrow> fm_session_token f
      | InputProject \<Rightarrow> fm_gcp_project_id f | InputServiceAccount \<Rightarrow> fm_gcp_service_account f
      | InputVFEndpoint \<Rightarrow> fm_virtfusion_endpoint f | InputVFToken \<Rightarrow> fm_virtfusion_token f
      | InputVZEndpoint \<Rightarrow> fm_virtualizor_endpoint f | InputVZKey \<Rightarrow> fm_virtualizor_api_key f
      | InputVZPassword \<Rightarrow> fm_virtualizor_api_password f | InputS2Endpoint \<Rightarrow> fm_solusvm2_endpoint f
      | InputS2Token \<Rightarrow> fm_solusvm2_api_token f | InputServerCount \<Rightarrow> fm_server_count f
      | InputConsoleProfile \<Rightarrow> fm_console_profile f | InputMockToken \<Rightarrow> fm_token f)"

definition creates_for :: "nat \<Rightarrow> connection_page \<Rightarrow> nat" where
  "creates_for n p = length (filter (\<lambda>t. t = CreateTask n) (cp_tasks p))"

definition connection_inv :: "connection_page \<Rightarrow> bool" where
  "connection_inv p \<longleftrightarrow>
     (\<forall>n. creates_for n p \<noteq> 0 \<longrightarrow> n < cp_forms_opened p) \<and> (\<forall>n. creates_for n p \<le> 1) \<and>
     (\<forall>f. cp_form p = Some f \<longrightarrow> fm_instance f < cp_forms_opened p \<and>
        creates_for (fm_instance f) p = (if fm_submitting f then 1 else 0))"

lemma creates_start [simp]:
  "creates_for n (start_connection_task t call p) = creates_for n p + (if t = CreateTask n then 1 else 0)"
  by (simp add: creates_for_def start_connection_task_def)

lemma start_connection_fields [simp]:
  "cp_form (start_connection_task t call p) = cp_form p"
  "cp_forms_opened (start_connection_task t call p) = cp_forms_opened p"
  by (simp_all add: start_connection_task_def)

lemma creates_update [simp]:
  "creates_for n (p\<lparr>cp_form := x\<rparr>) = creates_for n p" "creates_for n (p\<lparr>cp_notice := x2\<rparr>) = creates_for n p"
  "creates_for n (p\<lparr>cp_connections := x3\<rparr>) = creates_for n p" "creates_for n (p\<lparr>cp_active := x4\<rparr>) = creates_for n p"
  "creates_for n (p\<lparr>cp_error := x5\<rparr>) = creates_for n p" "creates_for n (p\<lparr>cp_loading := x6\<rparr>) = creates_for n p"
  "creates_for n (p\<lparr>cp_provider_types := x7\<rparr>) = creates_for n p" "creates_for n (p\<lparr>cp_forms_opened := x8\<rparr>) = creates_for n p"
  by (simp_all add: creates_for_def)

lemma creates_remove:
  assumes "i < length (cp_tasks p)"
  shows "creates_for n p = creates_for n (p\<lparr>cp_tasks := take i (cp_tasks p) @ drop (Suc i) (cp_tasks p)\<rparr>)
    + (if cp_tasks p ! i = CreateTask n then 1 else 0)"
proof -
  have "cp_tasks p = take i (cp_tasks p) @ cp_tasks p ! i # drop (Suc i) (cp_tasks p)" by (rule id_take_nth_drop [OF assms])
  then have "filter P (cp_tasks p) = filter P (take i (cp_tasks p)) @ filter P (cp_tasks p ! i # drop (Suc i) (cp_tasks p))" for P
    by (metis filter_append)
  then show ?thesis by (simp add: creates_for_def)
qed

lemma no_form_inv: "connection_inv p \<Longrightarrow> connection_inv (p\<lparr>cp_form := None\<rparr>)"
  by (simp add: connection_inv_def)

lemma create_rejected_inv:
  assumes "\<forall>m. creates_for m p \<noteq> 0 \<longrightarrow> m < cp_forms_opened p" "\<forall>m. creates_for m p \<le> 1" "creates_for n p = 0"
    "\<forall>f. cp_form p = Some f \<longrightarrow> fm_instance f < cp_forms_opened p \<and>
       (fm_instance f = n \<or> creates_for (fm_instance f) p = (if fm_submitting f then 1 else 0))"
  shows "connection_inv (create_rejected n p)"
  using assms by (cases "cp_form p") (auto simp: connection_inv_def create_rejected_def)

lemma answer_inv:
  assumes inv: "connection_inv p" and i: "i < length (cp_tasks p)" and fits: "answer_fits (cp_tasks p ! i) a"
  shows "connection_inv (resume_connection (cp_tasks p ! i) a (p\<lparr>cp_tasks := take i (cp_tasks p) @ drop (Suc i) (cp_tasks p)\<rparr>))"
proof -
  let ?q = "p\<lparr>cp_tasks := take i (cp_tasks p) @ drop (Suc i) (cp_tasks p)\<rparr>"
  have count: "creates_for n p = creates_for n ?q + (if cp_tasks p ! i = CreateTask n then 1 else 0)" for n
    by (rule creates_remove [OF i])
  show ?thesis
  proof (cases "\<exists>n. cp_tasks p ! i = CreateTask n")
    case False
    then have "connection_inv ?q" using inv count by (simp add: connection_inv_def)
    then show ?thesis
      using False
      by (cases "(cp_tasks p ! i, a, ?q)" rule: resume_connection.cases)
         (simp_all add: connection_inv_def connection_tested_def connection_deleted_def)
  next
    case True
    then obtain n where n: "cp_tasks p ! i = CreateTask n" by blast
    have le: "creates_for m ?q \<le> creates_for m p" for m using count [of m] by simp
    have others: "creates_for m ?q = creates_for m p" if "m \<noteq> n" for m using count [of m] n that by simp
    have "creates_for n p \<le> 1" using inv by (simp add: connection_inv_def)
    then have q: "creates_for n ?q = 0" using count [of n] n by simp
    have small: "\<forall>m. creates_for m ?q \<le> 1" using inv le by (meson connection_inv_def order_trans)
    have known: "\<forall>m. creates_for m ?q \<noteq> 0 \<longrightarrow> m < cp_forms_opened ?q"
    proof (intro allI impI)
      fix m assume nz: "creates_for m ?q \<noteq> 0"
      then have "creates_for m p \<noteq> 0" using le [of m] by simp
      then show "m < cp_forms_opened ?q" using inv by (simp add: connection_inv_def)
    qed
    have "connection_inv (create_rejected n ?q)"
    proof (rule create_rejected_inv [OF known small q], intro allI impI)
      fix f assume f: "cp_form ?q = Some f"
      show "fm_instance f < cp_forms_opened ?q \<and>
        (fm_instance f = n \<or> creates_for (fm_instance f) ?q = (if fm_submitting f then 1 else 0))"
        using inv f others [of "fm_instance f"] by (cases "fm_instance f = n") (simp_all add: connection_inv_def)
    qed
    moreover have "connection_inv (connection_created c ?q)" for c
      using known small by (simp add: connection_inv_def connection_created_def)
    ultimately show ?thesis using n fits by (cases a) auto
  qed
qed

lemma load_inv [simp]:
  "connection_inv (connections_load_failed p) = connection_inv p"
  "connection_inv (connections_loaded types cs p) = connection_inv p"
  by (simp_all add: connection_inv_def connections_load_failed_def connections_loaded_def)

lemma start_other_inv: "connection_inv p \<Longrightarrow> (\<And>n. t \<noteq> CreateTask n) \<Longrightarrow> connection_inv (start_connection_task t call p)"
  by (simp add: connection_inv_def)

lemma notice_inv: "connection_inv p \<Longrightarrow> connection_inv (p\<lparr>cp_notice := n\<rparr>)"
  by (simp add: connection_inv_def)

lemma submit_connection_inv:
  assumes "connection_inv p" "cp_form p = Some f" "\<not> fm_submitting f" shows "connection_inv (submit_connection parse f p)"
proof (cases "connection_input_of parse f")
  case None
  then show ?thesis using assms by (simp add: connection_inv_def submit_connection_def)
next
  case (Some input)
  have "creates_for (fm_instance f) p = 0" "fm_instance f < cp_forms_opened p" using assms by (auto simp: connection_inv_def)
  then show ?thesis using assms Some by (simp add: connection_inv_def submit_connection_def)
qed

lemma connection_step_inv: "connection_inv p \<Longrightarrow> connection_inv (connection_step parse ev p)"
proof (cases ev)
  case (LoadAnswered r)
  assume "connection_inv p"
  then show ?thesis using LoadAnswered by (cases r) auto
next
  case ClickAdd
  assume inv: "connection_inv p"
  show ?thesis
  proof (cases "cp_form p")
    case None
    have "creates_for (cp_forms_opened p) p = 0" using inv by (auto simp: connection_inv_def)
    moreover have "\<forall>n. creates_for n p \<noteq> 0 \<longrightarrow> n < Suc (cp_forms_opened p)" using inv by (simp add: connection_inv_def less_SucI)
    ultimately show ?thesis using ClickAdd None inv by (simp add: connection_inv_def open_form_def)
  qed (use ClickAdd inv in simp)
next
  case (EditForm g)
  assume "connection_inv p"
  then show ?thesis using EditForm by (cases "cp_form p") (simp_all add: connection_inv_def)
next
  case SubmitForm
  assume "connection_inv p"
  then show ?thesis using SubmitForm submit_connection_inv by (cases "cp_form p") simp_all
next
  case (ConnectionAnswer i a)
  assume "connection_inv p"
  then show ?thesis using ConnectionAnswer answer_inv [of p i a] by simp
qed (simp_all add: poll_connections_def handleTest_def handleSync_def handleDelete_def start_other_inv notice_inv no_form_inv
      | simp add: connection_inv_def)+

lemma connections_mounted_inv: "connection_inv connections_mounted"
  by (simp add: connection_inv_def connections_mounted_def creates_for_def)

lemma connection_run_inv: "connection_inv p \<Longrightarrow> connection_inv (fold (connection_step parse) evs p)"
  by (induction evs arbitrary: p) (simp_all add: connection_step_inv)

section \<open>Properties\<close>

text \<open>
  A form only ever sends what its shown inputs hold: two forms of the same type and name that
  agree on the inputs shown for the type send the same request, so a secret typed for another
  provider before the type was changed never leaves the browser.
\<close>

lemma hidden_inputs_are_not_sent:
  assumes "fm_type f = fm_type g" and "fm_name f = fm_name g"
    and "\<forall>x \<in> set (shown_inputs (fm_type f)). input_value x f = input_value x g"
  shows "connection_input_of parse f = connection_input_of parse g"
proof (cases "fm_type g = ''gcp''")
  case True
  then have "fm_gcp_project_id f = fm_gcp_project_id g" "fm_gcp_service_account f = fm_gcp_service_account g"
    using assms by (simp_all add: shown_inputs_def input_value_def)
  then show ?thesis using True assms(1,2) by (simp add: connection_input_of_def split: option.split json.split)
next
  case False
  then show ?thesis using assms by (auto simp: connection_input_of_def shown_inputs_def input_value_def Let_def split: if_splits)
qed

definition sample_form :: connection_form where
  "sample_form = (open_form 0 [])\<lparr>fm_type := ''solusvm2'', fm_name := ''n'', fm_solusvm2_endpoint := ''https://p'',
     fm_solusvm2_api_token := ''t'', fm_secret_access_key := ''secret''\<rparr>"

theorem hidden_inputs_are_not_sent_witness:
  "connection_input_of (\<lambda>_. None) sample_form = connection_input_of (\<lambda>_. None) (sample_form\<lparr>fm_secret_access_key := [], fm_token := ''x''\<rparr>)"
  by (rule hidden_inputs_are_not_sent) (simp_all add: sample_form_def shown_inputs_def input_value_def)

text \<open>
  A form sends the provider type that was selected when it is one the form knows, and "mock"
  for every other type; and it sends nothing only for a service account that is not a JSON object.
\<close>

lemma form_sends_selected_type_or_mock:
  "case connection_input_of parse f of
     None \<Rightarrow> fm_type f = ''gcp'' \<and> (\<forall>ms. parse (fm_gcp_service_account f) \<noteq> Some (JObj ms))
   | Some i \<Rightarrow> ci_name i = fm_name f \<and> ci_enabled i \<and>
       ci_provider_type i = (if fm_type f \<in> set [''aws'', ''gcp'', ''virtfusion'', ''virtualizor'', ''solusvm2''] then fm_type f else ''mock'')"
  by (auto simp: connection_input_of_def Let_def split: option.splits json.splits)

text \<open>
  Region lists: from any text the form sends only non-empty, trimmed names without commas, and
  a list of such names joined by commas is read back as it is.
\<close>

lemma regions_round_trip:
  assumes "\<forall>r \<in> set rs. r \<noteq> [] \<and> trimmed_by js_space r \<and> CHR '','' \<notin> set r"
  shows "parse_regions (join_with (CHR '','') rs) = rs \<and>
    (\<forall>r \<in> set (parse_regions s). r \<noteq> [] \<and> trimmed_by js_space r \<and> CHR '','' \<notin> set r)"
proof (cases "rs = []")
  case True
  then show ?thesis using parse_regions_names [of _ s] by (simp add: parse_regions_def trim_by_def region_name_def)
next
  case False
  then have "split_on (CHR '','') (join_with (CHR '','') rs) = rs" using assms by (intro split_join) auto
  moreover have "map js_trim rs = rs" "filter (\<lambda>r. r \<noteq> []) rs = rs"
    using assms by (auto simp: text_simps intro: map_idI)
  ultimately show ?thesis using parse_regions_names [of _ s] by (simp add: parse_regions_def region_name_def)
qed

theorem regions_round_trip_witness:
  "parse_regions (join_with (CHR '','') [''us-east-1'', ''eu-west-1'']) = [''us-east-1'', ''eu-west-1'']"
  using regions_round_trip [of "[''us-east-1'', ''eu-west-1'']"] by (simp add: trimmed_by_def js_space_def)

text \<open>
  Whatever the user clicks and however answers come in, the form that is open has exactly one
  creating request in flight while its button is disabled and none while it is enabled, and no
  form ever has two: one submission never creates two connections.
\<close>

lemma one_create_request_per_form:
  assumes "fold (connection_step parse) evs connections_mounted = p"
  shows "(\<forall>n. length (filter (\<lambda>t. t = CreateTask n) (cp_tasks p)) \<le> 1) \<and>
    (\<forall>f \<in> set_option (cp_form p).
       length (filter (\<lambda>t. t = CreateTask (fm_instance f)) (cp_tasks p)) = (if fm_submitting f then 1 else 0)) \<and>
    (case vw_form (connections_view p) of None \<Rightarrow> cp_form p = None | Some v \<Rightarrow>
       (\<exists>f. cp_form p = Some f \<and> fv_enabled v = (\<not> fm_submitting f)))"
proof -
  have "connection_inv p" using connection_run_inv [OF connections_mounted_inv] assms by blast
  then show ?thesis by (cases "cp_form p") (auto simp: connection_inv_def creates_for_def connections_view_def form_view_def)
qed

theorem one_create_request_per_form_witness:
  "length (filter (\<lambda>t. t = CreateTask 0)
     (cp_tasks (fold (connection_step (\<lambda>_. None)) [ClickAdd, SubmitForm, SubmitForm, PollTick] connections_mounted))) = 1"
proof -
  have "cp_form (fold (connection_step (\<lambda>_. None)) [ClickAdd, SubmitForm, SubmitForm, PollTick] connections_mounted)
      = Some ((open_form 0 [])\<lparr>fm_submitting := True\<rparr>)"
    by (simp add: connections_mounted_def open_form_def initial_type_def submit_connection_def connection_input_of_def
        poll_connections_def start_connection_task_def Let_def)
  then show ?thesis
    using one_create_request_per_form [OF refl, of "\<lambda>_. None" "[ClickAdd, SubmitForm, SubmitForm, PollTick]"]
    by (simp add: open_form_def del: fold_simps)
qed

text \<open>
  The error banner of a failed first load is never taken down: after any later events, polls that
  show the connections again included, the page still says that they could not be loaded.
\<close>

lemma load_error_outlives_recovery:
  assumes "cp_active p"
  shows "vw_error (connections_view (fold (connection_step parse) evs (connection_step parse (LoadAnswered None) p))) \<and>
    (connection_step parse (LoadAnswered None) p = q \<and> cp_tasks q = [] \<longrightarrow>
       vw_list (connections_view (fold (connection_step parse) [PollTick, ConnectionAnswer 0 (AnswerConnections [c])] q))
         = ShowItems [connection_card c])"
proof -
  have "cp_error p' \<Longrightarrow> cp_error (fold (connection_step parse) evs p')" for p'
    by (induction evs arbitrary: p') (simp_all add: connection_step_error)
  then show ?thesis
    using assms by (auto simp: connections_view_def connections_load_failed_def poll_connections_def
        start_connection_task_def list_view_def)
qed

theorem load_error_outlives_recovery_witness:
  "vw_error (connections_view (fold (connection_step (\<lambda>_. None)) [PollTick, ConnectionAnswer 0 (AnswerConnections [])]
     (connection_step (\<lambda>_. None) (LoadAnswered None) connections_mounted)))"
proof -
  have "cp_active connections_mounted" by (simp add: connections_mounted_def)
  then show ?thesis by (rule load_error_outlives_recovery [THEN conjunct1])
qed

end
