(* ===== verification/WebBackups.thy ===== *)
theory WebBackups imports WebPage GoTime begin

text \<open>
  The backups page, \<^verbatim>\<open>web/src/backups/BackupsPage.tsx\<close>: creating an archive, validating or restoring one
  from a dialog, downloading, and the display of sizes. Requests in flight are tasks whose answers
  come in any order with the user's actions.
\<close>

section \<open>Data\<close>

datatype backup_kind = ManualBackup | SafetyBackup

record web_backup =
  bk_id :: string
  bk_filename :: string
  bk_size_bytes :: nat
  bk_kind :: backup_kind
  bk_created_at :: string

datatype dialog_mode = ValidateMode | RestoreMode

datatype backup_error = ListFailed | PassphraseInvalid | CreateFailed | PassphraseTooShort
  | ValidationFailed | RestoreFailed | DownloadFailed

datatype backup_notice = BackupCreated | BackupValid string | RestoreDone

text \<open>What a handler still has to do: the tasks that await an answer.\<close>

datatype backup_task = LoadTask | CreateBackupTask | ReloadAfterCreate | DialogTask dialog_mode web_backup | DownloadTask

record backups_page =
  bp_backups :: "web_backup list"
  bp_loading :: bool
  bp_error :: "backup_error option"
  bp_notice :: "backup_notice option"
  bp_passphrase :: string
  bp_confirmation :: string
  bp_submitting :: bool
  bp_dialog :: "(dialog_mode \<times> web_backup) option"
  bp_dialog_passphrase :: string
  bp_tasks :: "backup_task list"
  bp_sent :: "api_call list"

definition start_backup_task :: "backup_task \<Rightarrow> api_call \<Rightarrow> backups_page \<Rightarrow> backups_page" where
  "start_backup_task t call p = p\<lparr>bp_tasks := bp_tasks p @ [t], bp_sent := bp_sent p @ [call]\<rparr>"

definition backups_mounted :: backups_page where
  "backups_mounted = start_backup_task LoadTask listBackups
     \<lparr>bp_backups = [], bp_loading = True, bp_error = None, bp_notice = None, bp_passphrase = [], bp_confirmation = [],
      bp_submitting = False, bp_dialog = None, bp_dialog_passphrase = [], bp_tasks = [], bp_sent = []\<rparr>"

section \<open>Handlers\<close>

definition backups_loaded :: "web_backup list \<Rightarrow> backups_page \<Rightarrow> backups_page" where
  "backups_loaded bs p = p\<lparr>bp_backups := bs, bp_error := None, bp_loading := False\<rparr>"

definition backups_load_failed :: "backups_page \<Rightarrow> backups_page" where
  "backups_load_failed p = p\<lparr>bp_error := Some ListFailed, bp_loading := False\<rparr>"

text \<open>\<^verbatim>\<open>create\<close>: up to its request, after it, and its \<^verbatim>\<open>finally\<close>.\<close>

definition create_backup :: "backups_page \<Rightarrow> backups_page" where
  "create_backup p =
     (if length (bp_passphrase p) < 12 \<or> bp_passphrase p \<noteq> bp_confirmation p then p\<lparr>bp_error := Some PassphraseInvalid\<rparr>
      else start_backup_task CreateBackupTask (createBackup (bp_passphrase p))
             (p\<lparr>bp_submitting := True, bp_error := None, bp_notice := None\<rparr>))"

definition create_finally :: "backups_page \<Rightarrow> backups_page" where
  "create_finally p = p\<lparr>bp_passphrase := [], bp_confirmation := [], bp_submitting := False\<rparr>"

definition backup_created :: "backups_page \<Rightarrow> backups_page" where
  "backup_created p = start_backup_task ReloadAfterCreate listBackups (p\<lparr>bp_notice := Some BackupCreated\<rparr>)"

definition create_failed :: "backups_page \<Rightarrow> backups_page" where
  "create_failed p = create_finally (p\<lparr>bp_error := Some CreateFailed\<rparr>)"

definition open_dialog :: "dialog_mode \<Rightarrow> web_backup \<Rightarrow> backups_page \<Rightarrow> backups_page" where
  "open_dialog mode b p = p\<lparr>bp_dialog := Some (mode, b), bp_dialog_passphrase := [], bp_error := None\<rparr>"

text \<open>\<^verbatim>\<open>submitDialog\<close>: up to its request, after it, and its \<^verbatim>\<open>finally\<close>.\<close>

definition dialog_call :: "dialog_mode \<Rightarrow> web_backup \<Rightarrow> string \<Rightarrow> api_call" where
  "dialog_call mode b passphrase =
     (case mode of ValidateMode \<Rightarrow> validateBackup (bk_id b) passphrase | RestoreMode \<Rightarrow> restoreBackup (bk_id b) passphrase)"

definition submit_dialog :: "backups_page \<Rightarrow> backups_page" where
  "submit_dialog p =
     (case bp_dialog p of
        None \<Rightarrow> p\<lparr>bp_error := Some PassphraseTooShort\<rparr>
      | Some (mode, b) \<Rightarrow>
          (if length (bp_dialog_passphrase p) < 12 then p\<lparr>bp_error := Some PassphraseTooShort\<rparr>
           else start_backup_task (DialogTask mode b) (dialog_call mode b (bp_dialog_passphrase p))
                  (p\<lparr>bp_submitting := True, bp_error := None, bp_notice := None\<rparr>)))"

definition dialog_finally :: "backups_page \<Rightarrow> backups_page" where
  "dialog_finally p = p\<lparr>bp_dialog_passphrase := [], bp_submitting := False\<rparr>"

text \<open>\<open>version\<close> is the format version of a validation as it is printed.\<close>

definition dialog_succeeded :: "dialog_mode \<Rightarrow> string \<Rightarrow> backups_page \<Rightarrow> backups_page" where
  "dialog_succeeded mode version p = dialog_finally
     (p\<lparr>bp_notice := Some (case mode of ValidateMode \<Rightarrow> BackupValid version | RestoreMode \<Rightarrow> RestoreDone),
        bp_dialog := None\<rparr>)"

definition dialog_failed :: "dialog_mode \<Rightarrow> backups_page \<Rightarrow> backups_page" where
  "dialog_failed mode p = dialog_finally
     (p\<lparr>bp_error := Some (case mode of ValidateMode \<Rightarrow> ValidationFailed | RestoreMode \<Rightarrow> RestoreFailed)\<rparr>)"

definition download_backup :: "backups_page \<Rightarrow> backups_page" where
  "download_backup p = p\<lparr>bp_error := None, bp_tasks := bp_tasks p @ [DownloadTask]\<rparr>"

definition download_failed :: "backups_page \<Rightarrow> backups_page" where
  "download_failed p = p\<lparr>bp_error := Some DownloadFailed\<rparr>"

datatype backup_answer = BackupList "web_backup list" | BackupOK string | BackupRejected

fun resume_backup :: "backup_task \<Rightarrow> backup_answer \<Rightarrow> backups_page \<Rightarrow> backups_page" where
  "resume_backup LoadTask (BackupList bs) p = backups_loaded bs p"
| "resume_backup LoadTask _ p = backups_load_failed p"
| "resume_backup ReloadAfterCreate (BackupList bs) p = create_finally (backups_loaded bs p)"
| "resume_backup ReloadAfterCreate _ p = create_finally (backups_load_failed p)"
| "resume_backup CreateBackupTask (BackupOK _) p = backup_created p"
| "resume_backup CreateBackupTask _ p = create_failed p"
| "resume_backup (DialogTask mode b) (BackupOK version) p = dialog_succeeded mode version p"
| "resume_backup (DialogTask mode b) _ p = dialog_failed mode p"
| "resume_backup DownloadTask (BackupOK _) p = p"
| "resume_backup DownloadTask _ p = download_failed p"

section \<open>Sizes\<close>

text \<open>
  \<^verbatim>\<open>(bytes / unit).toFixed(1)\<close>: the quotient by a power of two is exact, and the tenth is rounded
  to the nearest, a tie upwards.
\<close>

definition tenths :: "nat \<Rightarrow> nat \<Rightarrow> nat" where
  "tenths bytes unit = (bytes * 10 + unit div 2) div unit"

definition fixed1 :: "nat \<Rightarrow> nat \<Rightarrow> string" where
  "fixed1 bytes unit = digits_of (tenths bytes unit div 10) @ ''.'' @ [digit (tenths bytes unit mod 10)]"

definition formatBytes :: "nat \<Rightarrow> string" where
  "formatBytes bytes =
     (if bytes < 1024 then digits_of bytes @ '' B''
      else if bytes < 1024 * 1024 then fixed1 bytes 1024 @ '' KiB''
      else fixed1 bytes (1024 * 1024) @ '' MiB'')"

section \<open>What is shown\<close>

record backup_card =
  bc_filename :: string
  bc_safety :: bool
  bc_size :: string
  bc_created_at :: string

record dialog_view =
  dv_mode :: dialog_mode
  dv_filename :: string
  dv_passphrase :: string
  dv_enabled :: bool

record backups_view =
  bv_count :: nat
  bv_error :: "backup_error option"
  bv_notice :: "backup_notice option"
  bv_create_enabled :: bool
  bv_list :: "backup_card list_view"
  bv_dialog :: "dialog_view option"

definition backup_card :: "web_backup \<Rightarrow> backup_card" where
  "backup_card b = \<lparr>bc_filename = bk_filename b, bc_safety = (bk_kind b = SafetyBackup),
     bc_size = formatBytes (bk_size_bytes b), bc_created_at = bk_created_at b\<rparr>"

definition backups_view :: "backups_page \<Rightarrow> backups_view" where
  "backups_view p =
     \<lparr>bv_count = length (bp_backups p), bv_error = bp_error p, bv_notice = bp_notice p,
      bv_create_enabled = (\<not> bp_submitting p),
      bv_list = list_view (bp_loading p) (map backup_card (bp_backups p)),
      bv_dialog = map_option (\<lambda>(mode, b). \<lparr>dv_mode = mode, dv_filename = bk_filename b,
        dv_passphrase = bp_dialog_passphrase p, dv_enabled = (\<not> bp_submitting p)\<rparr>) (bp_dialog p)\<rparr>"

section \<open>Runs\<close>

datatype backup_event =
    TypePassphrase string | TypeConfirmation string | SubmitCreate
  | ClickValidate web_backup | ClickRestore web_backup | TypeDialogPassphrase string
  | SubmitDialog | CancelDialog | ClickBackdrop | ClickDownload web_backup
  | BackupAnswer nat backup_answer

text \<open>
  The two submit buttons and the cancel button are disabled while a request is pending; a click
  beside the dialog always closes it.
\<close>

fun backup_step :: "backup_event \<Rightarrow> backups_page \<Rightarrow> backups_page" where
  "backup_step (TypePassphrase s) p = p\<lparr>bp_passphrase := s\<rparr>"
| "backup_step (TypeConfirmation s) p = p\<lparr>bp_confirmation := s\<rparr>"
| "backup_step SubmitCreate p = (if bp_submitting p then p else create_backup p)"
| "backup_step (ClickValidate b) p = open_dialog ValidateMode b p"
| "backup_step (ClickRestore b) p = open_dialog RestoreMode b p"
| "backup_step (TypeDialogPassphrase s) p = (if bp_dialog p = None then p else p\<lparr>bp_dialog_passphrase := s\<rparr>)"
| "backup_step SubmitDialog p = (if bp_dialog p = None \<or> bp_submitting p then p else submit_dialog p)"
| "backup_step CancelDialog p = (if bp_submitting p then p else p\<lparr>bp_dialog := None\<rparr>)"
| "backup_step ClickBackdrop p = p\<lparr>bp_dialog := None\<rparr>"
| "backup_step (ClickDownload b) p = download_backup p"
| "backup_step (BackupAnswer i a) p =
     (if i < length (bp_tasks p)
      then resume_backup (bp_tasks p ! i) a (p\<lparr>bp_tasks := take i (bp_tasks p) @ drop (Suc i) (bp_tasks p)\<rparr>)
      else p)"

section \<open>Lemmas\<close>

interpretation backups: recovering_page "\<lambda>_. True" bp_loading bp_backups "\<lambda>p. bp_error p \<noteq> None" backups_loaded backups_load_failed
  by unfold_locales (simp_all add: backups_loaded_def backups_load_failed_def)

definition blocking :: "backup_task \<Rightarrow> bool" where
  "blocking t \<longleftrightarrow> (case t of CreateBackupTask \<Rightarrow> True | ReloadAfterCreate \<Rightarrow> True | DialogTask _ _ \<Rightarrow> True | _ \<Rightarrow> False)"

definition blocking_tasks :: "backups_page \<Rightarrow> nat" where
  "blocking_tasks p = length (filter blocking (bp_tasks p))"

definition backup_inv :: "backups_page \<Rightarrow> bool" where
  "backup_inv p \<longleftrightarrow> blocking_tasks p = (if bp_submitting p then 1 else 0)"

lemma blocking_start [simp]: "blocking_tasks (start_backup_task t c p) = blocking_tasks p + (if blocking t then 1 else 0)"
  by (simp add: blocking_tasks_def start_backup_task_def)

lemma submitting_start [simp]: "bp_submitting (start_backup_task t c p) = bp_submitting p"
  by (simp add: start_backup_task_def)

lemma blocking_update [simp]:
  "blocking_tasks (p\<lparr>bp_submitting := a\<rparr>) = blocking_tasks p" "blocking_tasks (p\<lparr>bp_error := b\<rparr>) = blocking_tasks p"
  "blocking_tasks (p\<lparr>bp_notice := c\<rparr>) = blocking_tasks p" "blocking_tasks (p\<lparr>bp_dialog := d\<rparr>) = blocking_tasks p"
  "blocking_tasks (p\<lparr>bp_dialog_passphrase := e\<rparr>) = blocking_tasks p" "blocking_tasks (p\<lparr>bp_passphrase := e\<rparr>) = blocking_tasks p"
  "blocking_tasks (p\<lparr>bp_confirmation := e\<rparr>) = blocking_tasks p" "blocking_tasks (p\<lparr>bp_backups := f\<rparr>) = blocking_tasks p"
  "blocking_tasks (p\<lparr>bp_loading := a\<rparr>) = blocking_tasks p"
  by (simp_all add: blocking_tasks_def)

lemma blocking_remove:
  assumes "i < length (bp_tasks p)"
  shows "blocking_tasks p = blocking_tasks (p\<lparr>bp_tasks := take i (bp_tasks p) @ drop (Suc i) (bp_tasks p)\<rparr>)
    + (if blocking (bp_tasks p ! i) then 1 else 0)"
proof -
  have "bp_tasks p = take i (bp_tasks p) @ bp_tasks p ! i # drop (Suc i) (bp_tasks p)" by (rule id_take_nth_drop [OF assms])
  then have "filter blocking (bp_tasks p) = filter blocking (take i (bp_tasks p)) @ filter blocking (bp_tasks p ! i # drop (Suc i) (bp_tasks p))"
    by (metis filter_append)
  then show ?thesis by (simp add: blocking_tasks_def)
qed

lemma resume_backup_inv:
  assumes "blocking_tasks p + (if blocking t then 1 else 0) = (if bp_submitting p then 1 else 0)"
  shows "backup_inv (resume_backup t a p)"
  using assms
  by (cases "(t, a, p)" rule: resume_backup.cases)
     (simp_all add: backup_inv_def blocking_def backups_loaded_def backups_load_failed_def create_finally_def
        backup_created_def create_failed_def dialog_finally_def dialog_succeeded_def dialog_failed_def download_failed_def split: if_splits)

lemma backup_step_inv: "backup_inv p \<Longrightarrow> backup_inv (backup_step ev p)"
proof (cases ev)
  case (BackupAnswer i a)
  assume "backup_inv p"
  then show ?thesis
    using BackupAnswer blocking_remove [of i p]
    by (cases "i < length (bp_tasks p)") (auto simp: backup_inv_def [of p] intro!: resume_backup_inv)
qed (auto simp: backup_inv_def create_backup_def open_dialog_def submit_dialog_def download_backup_def blocking_def
      blocking_tasks_def [of "bp_tasks_update _ _"] blocking_tasks_def [of p] split: option.split if_splits)

lemma backups_mounted_inv: "backup_inv backups_mounted"
  by (simp add: backup_inv_def backups_mounted_def blocking_def) (simp add: blocking_tasks_def)

lemma backup_run_inv: "backup_inv p \<Longrightarrow> backup_inv (fold backup_step evs p)"
  by (induction evs arbitrary: p) (simp_all add: backup_step_inv)

section \<open>Properties\<close>

text \<open>
  C36. Creating, validating and restoring exclude each other: whatever is clicked and in whatever order
  answers come, at most one of these requests (with the reload that follows a creation) is in flight,
  and both submit buttons are disabled exactly while one is.
\<close>

theorem one_backup_request_at_a_time:
  assumes "fold backup_step evs backups_mounted = p"
  shows "length (filter (\<lambda>t. case t of LoadTask \<Rightarrow> False | DownloadTask \<Rightarrow> False | _ \<Rightarrow> True) (bp_tasks p))
      = (if bv_create_enabled (backups_view p) then 0 else 1) \<and>
    (case bv_dialog (backups_view p) of None \<Rightarrow> bp_dialog p = None
       | Some d \<Rightarrow> dv_enabled d = bv_create_enabled (backups_view p))"
proof -
  have "backup_inv p" using backup_run_inv [OF backups_mounted_inv] assms by blast
  moreover have "(\<lambda>t. case t of LoadTask \<Rightarrow> False | DownloadTask \<Rightarrow> False | _ \<Rightarrow> True) = blocking"
    by (rule ext) (simp add: blocking_def split: backup_task.split)
  ultimately show ?thesis
    by (auto simp: backup_inv_def blocking_tasks_def backups_view_def split: option.split)
qed

definition sample_backup :: web_backup where
  "sample_backup = \<lparr>bk_id = ''b1'', bk_filename = ''b1.bak'', bk_size_bytes = 2048, bk_kind = ManualBackup, bk_created_at = ''t''\<rparr>"

definition sample_restore :: "backup_event list" where
  "sample_restore = [ClickRestore sample_backup, TypeDialogPassphrase ''long passphrase'', SubmitDialog, SubmitDialog, SubmitCreate]"

theorem one_backup_request_at_a_time_witness:
  "length (filter (\<lambda>t. case t of LoadTask \<Rightarrow> False | DownloadTask \<Rightarrow> False | _ \<Rightarrow> True)
     (bp_tasks (fold backup_step sample_restore backups_mounted))) = 1"
proof -
  have "\<not> bv_create_enabled (backups_view (fold backup_step sample_restore backups_mounted))" by code_simp
  then show ?thesis using one_backup_request_at_a_time [OF refl, of sample_restore] by simp
qed

lemma restore_calls:
  "restoreBackup i pw \<noteq> listBackups" "restoreBackup i pw \<noteq> createBackup pw2" "restoreBackup i pw \<noteq> validateBackup j pw2"
  "restoreBackup i pw = restoreBackup j pw2 \<longleftrightarrow> i = j \<and> pw = pw2"
proof -
  have enc: "encodeURIComponent i @ ''/restore'' \<noteq> ''validate''"
  proof
    assume "encodeURIComponent i @ ''/restore'' = ''validate''"
    then have "CHR ''/'' \<in> set ''validate''" by (metis Un_iff list.set_intros(1) set_append)
    then show False by simp
  qed
  show "restoreBackup i pw \<noteq> listBackups" "restoreBackup i pw \<noteq> createBackup pw2" "restoreBackup i pw \<noteq> validateBackup j pw2"
    "restoreBackup i pw = restoreBackup j pw2 \<longleftrightarrow> i = j \<and> pw = pw2"
    using enc by (auto simp: restoreBackup_def listBackups_def createBackup_def validateBackup_def post_call_def get_call_def no_init_def)
qed

lemma resume_backup_sent: "bp_sent (resume_backup t a p) = bp_sent p \<or> bp_sent (resume_backup t a p) = bp_sent p @ [listBackups]"
  by (cases "(t, a, p)" rule: resume_backup.cases)
     (simp_all add: backups_loaded_def backups_load_failed_def create_finally_def backup_created_def start_backup_task_def
        create_failed_def dialog_finally_def dialog_succeeded_def dialog_failed_def download_failed_def)

text \<open>
  A restore is only ever requested by submitting the restore dialog of that very archive, with the
  passphrase typed into it, of at least 12 characters, and while no other request is pending.
\<close>

lemma restore_needs_its_dialog:
  assumes "bp_sent (backup_step ev p) = bp_sent p @ [restoreBackup i pw]"
  shows "ev = SubmitDialog \<and> (\<exists>b. bp_dialog p = Some (RestoreMode, b) \<and> bk_id b = i) \<and>
    pw = bp_dialog_passphrase p \<and> 12 \<le> length pw \<and> \<not> bp_submitting p"
proof (cases ev)
  case (BackupAnswer j a)
  then show ?thesis
    using assms resume_backup_sent [of "bp_tasks p ! j" a "p\<lparr>bp_tasks := take j (bp_tasks p) @ drop (Suc j) (bp_tasks p)\<rparr>"]
      restore_calls(1) [of i pw] by (auto split: if_splits)
qed (use assms restore_calls restore_calls(1-3) [symmetric] in \<open>auto simp: create_backup_def open_dialog_def submit_dialog_def download_backup_def
      start_backup_task_def dialog_call_def split: if_splits option.splits dialog_mode.splits\<close>)

definition sample_before_restore :: backups_page where
  "sample_before_restore = fold backup_step [ClickRestore sample_backup, TypeDialogPassphrase ''long passphrase''] backups_mounted"

theorem restore_needs_its_dialog_witness:
  "12 \<le> length (bp_dialog_passphrase sample_before_restore) \<and>
   bp_sent (backup_step SubmitDialog sample_before_restore) = bp_sent sample_before_restore @ [restoreBackup ''b1'' ''long passphrase'']"
proof -
  have sent: "bp_sent (backup_step SubmitDialog sample_before_restore) = bp_sent sample_before_restore @ [restoreBackup ''b1'' ''long passphrase'']"
    by (simp add: sample_before_restore_def open_dialog_def submit_dialog_def dialog_call_def sample_backup_def
        backups_mounted_def start_backup_task_def)
  have "''long passphrase'' = bp_dialog_passphrase sample_before_restore \<and> 12 \<le> length ''long passphrase''"
    using restore_needs_its_dialog [OF sent] by blast
  then show ?thesis using sent by metis
qed

lemma nearest_tenth:
  fixes a b h u x :: int
  shows "a \<le> 10 * b + h \<Longrightarrow> 10 * b + h < a + u \<Longrightarrow> u = 2 * h \<Longrightarrow> x = a \<Longrightarrow> \<bar>x - 10 * b\<bar> * 2 \<le> u"
  by (cases "x \<le> 10 * b") simp_all

text \<open>
  A size from one KiB to below one MiB is shown in KiB with one decimal that differs from the exact
  quotient by at most half a tenth, and from one MiB on likewise in MiB.
\<close>

lemma sizes_rounded_to_tenth:
  assumes "1024 \<le> bytes" and "unit = (if bytes < 1024 * 1024 then 1024 else 1024 * 1024)"
  shows "\<exists>n. formatBytes bytes = digits_of (n div 10) @ ''.'' @ [digit (n mod 10)] @ (if bytes < 1024 * 1024 then '' KiB'' else '' MiB'') \<and>
    \<bar>int n * int unit - 10 * int bytes\<bar> * 2 \<le> int unit"
proof (intro exI conjI)
  let ?n = "(bytes * 10 + unit div 2) div unit"
  show "formatBytes bytes = digits_of (?n div 10) @ ''.'' @ [digit (?n mod 10)] @ (if bytes < 1024 * 1024 then '' KiB'' else '' MiB'')"
    using assms by (simp add: formatBytes_def fixed1_def tenths_def)
  have half: "unit = 2 * (unit div 2)" "0 < unit" using assms(2) by simp_all
  have "?n * unit \<le> bytes * 10 + unit div 2" "bytes * 10 + unit div 2 < ?n * unit + unit"
    using half(2) div_mult_mod_eq [of "bytes * 10 + unit div 2" unit] mod_less_divisor [of unit "bytes * 10 + unit div 2"]
    by linarith+
  then have "int (?n * unit) \<le> 10 * int bytes + int (unit div 2)" "10 * int bytes + int (unit div 2) < int (?n * unit) + int unit"
    by linarith+
  moreover have "int unit = 2 * int (unit div 2)" using half(1) by linarith
  moreover have "int ?n * int unit = int (?n * unit)" by simp
  ultimately show "\<bar>int ?n * int unit - 10 * int bytes\<bar> * 2 \<le> int unit" by (rule nearest_tenth)
qed

theorem sizes_rounded_to_tenth_witness:
  "\<exists>n. formatBytes 1536 = digits_of (n div 10) @ ''.'' @ [digit (n mod 10)] @ '' KiB'' \<and> \<bar>int n * 1024 - 15360\<bar> * 2 \<le> 1024"
  using sizes_rounded_to_tenth [of 1536 1024] by simp

end
