(* ===== verification/WebServers.thy ===== *)
theory WebServers imports WebConnections WebConsole "HOL-Library.List_Lexorder" "HOL-Library.Char_ord" begin

text \<open>
  The servers page, \<^verbatim>\<open>web/src/servers/ServersPage.tsx\<close>: the list with its filters, the detail
  panel with its address, power actions behind a confirmation, consoles, and the refresh on server
  events. The page shares the browser history with the shell. Requests in flight are tasks that
  keep what their handler captured; answers come in any order with the user's actions.
\<close>

section \<open>Data\<close>

record web_capability =
  cap_offered :: "bool option"
  cap_explanation :: "string option"

record web_server =
  sv_id :: string
  sv_connection_id :: string
  sv_external_id :: string
  sv_scope :: string
  sv_name :: string
  sv_state :: string
  sv_cpu :: "nat option"
  sv_memory_mb :: "nat option"
  sv_addresses :: "(string option \<times> string) list"
  sv_can_start :: "web_capability option"
  sv_can_stop :: "web_capability option"
  sv_can_reboot :: "web_capability option"
  sv_can_embed :: "web_capability option"
  sv_can_window :: "web_capability option"
  sv_has_portal :: "web_capability option"
  sv_updated_at :: string

definition available :: "web_capability option \<Rightarrow> bool" where
  "available c = (case c of None \<Rightarrow> False | Some cap \<Rightarrow> cap_offered cap = Some True)"

fun power_capability :: "power_action \<Rightarrow> web_server \<Rightarrow> web_capability option" where
  "power_capability PowerStart s = sv_can_start s"
| "power_capability PowerStop s = sv_can_stop s"
| "power_capability PowerReboot s = sv_can_reboot s"

datatype console_mode = ConsoleEmbedded | ConsoleWindow | ConsolePortal

fun console_capability :: "console_mode \<Rightarrow> web_server \<Rightarrow> web_capability option" where
  "console_capability ConsoleEmbedded s = sv_can_embed s"
| "console_capability ConsoleWindow s = sv_can_window s"
| "console_capability ConsolePortal s = sv_has_portal s"

definition usesLocalVNCWindow :: "string option \<Rightarrow> bool" where
  "usesLocalVNCWindow type \<longleftrightarrow> type \<in> {Some ''virtfusion'', Some ''virtualizor'', Some ''solusvm2''}"

datatype page_alert = NoAlert | CannotLoadServers | CannotRefreshServers

datatype server_notice = NoServerNotice | ActionQueued power_action | AllowPopups

datatype action_alert = NoActionAlert | ActionRejected power_action | ConsoleUnavailable

datatype server_task = EventRefresh | PowerTask power_action | RefreshAfterPower power_action
  | EmbedTask string | OpenWindowTask

record filters =
  fl_state :: string
  fl_provider_type :: string
  fl_connection :: string
  fl_query :: string

record servers_page =
  sp_servers :: "web_server list"
  sp_connections :: "web_connection list"
  sp_loading :: bool
  sp_error :: page_alert
  sp_filters :: filters
  sp_selected :: "string option"
  sp_confirmation :: "power_action option"
  sp_submitting :: bool
  sp_notice :: server_notice
  sp_action_error :: action_alert
  sp_console :: "(string \<times> json option) option"
  sp_active :: bool
  sp_hook :: "unit event_hook"
  sp_history :: history
  sp_tasks :: "server_task list"
  sp_sent :: "api_call list"

definition servers_mounted :: "bool \<Rightarrow> history \<Rightarrow> servers_page" where
  "servers_mounted supported h =
     \<lparr>sp_servers = [], sp_connections = [], sp_loading = True, sp_error = NoAlert,
      sp_filters = \<lparr>fl_state = ''all'', fl_provider_type = ''all'', fl_connection = ''all'', fl_query = []\<rparr>,
      sp_selected = None, sp_confirmation = None, sp_submitting = False, sp_notice = NoServerNotice,
      sp_action_error = NoActionAlert, sp_console = None, sp_active = True, sp_hook = mount_hook supported (),
      sp_history = h, sp_tasks = [], sp_sent = [listServers, listConnections]\<rparr>"

section \<open>Derived values\<close>

text \<open>The map from connection ids keeps the last of several entries, as \<^verbatim>\<open>new Map\<close> does.\<close>

definition connection_by_id :: "web_connection list \<Rightarrow> string \<Rightarrow> web_connection option" where
  "connection_by_id cs = map_of (rev (map (\<lambda>c. (wc_id c, c)) cs))"

definition provider_types :: "web_connection list \<Rightarrow> string list" where
  "provider_types cs = sort (remdups (map wc_provider_type cs))"

definition selected_server :: "servers_page \<Rightarrow> web_server option" where
  "selected_server p = (case sp_selected p of None \<Rightarrow> None | Some i \<Rightarrow> find_by sv_id i (sp_servers p))"

definition server_visible :: "web_connection list \<Rightarrow> filters \<Rightarrow> web_server \<Rightarrow> bool" where
  "server_visible cs f s \<longleftrightarrow>
     (fl_state f = ''all'' \<or> sv_state s = fl_state f) \<and>
     (fl_provider_type f = ''all'' \<or> map_option wc_provider_type (connection_by_id cs (sv_connection_id s)) = Some (fl_provider_type f)) \<and>
     (fl_connection f = ''all'' \<or> sv_connection_id s = fl_connection f) \<and>
     js_includes (js_lower (sv_name s)) (js_lower (js_trim (fl_query f)))"

definition visible_servers :: "servers_page \<Rightarrow> web_server list" where
  "visible_servers p = filter (server_visible (sp_connections p) (sp_filters p)) (sp_servers p)"

definition connection_options :: "servers_page \<Rightarrow> web_connection list" where
  "connection_options p = filter (\<lambda>c. fl_provider_type (sp_filters p) = ''all'' \<or>
     wc_provider_type c = fl_provider_type (sp_filters p)) (sp_connections p)"

section \<open>Loading\<close>

text \<open>\<^verbatim>\<open>pathname.match(/^\/servers\/([^/]+)$/)?.[1]\<close>.\<close>

definition direct_id :: "string \<Rightarrow> string option" where
  "direct_id path =
     (let r = drop (length ''/servers/'') path
      in if starts_with path ''/servers/'' \<and> r \<noteq> [] \<and> CHR ''/'' \<notin> set r then Some r else None)"

text \<open>
  Selecting the server the address names: nothing when no item has that id; \<open>None\<close> when decoding
  throws, which it only does when there is an item to compare with.
\<close>

definition select_direct :: "string \<Rightarrow> web_server list \<Rightarrow> string option \<Rightarrow> string option option" where
  "select_direct path items current =
     (case direct_id path of
        None \<Rightarrow> Some current
      | Some d \<Rightarrow>
          (if items = [] then Some current
           else (case decodeURIComponent d of
                   None \<Rightarrow> None
                 | Some ps \<Rightarrow> (case List.find (\<lambda>s. points (sv_id s) = ps) items of
                                None \<Rightarrow> Some current
                              | Some s \<Rightarrow> Some (Some (sv_id s))))))"

definition servers_loaded :: "web_server list \<Rightarrow> web_connection list \<Rightarrow> servers_page \<Rightarrow> servers_page" where
  "servers_loaded items cs p =
     (if \<not> sp_active p then p
      else (let q = p\<lparr>sp_servers := items, sp_connections := cs, sp_loading := False\<rparr>
            in (case select_direct (pathname (sp_history p)) items (sp_selected p) of
                  None \<Rightarrow> q\<lparr>sp_error := CannotLoadServers\<rparr>
                | Some sel \<Rightarrow> q\<lparr>sp_selected := sel\<rparr>)))"

definition servers_load_failed :: "servers_page \<Rightarrow> servers_page" where
  "servers_load_failed p = (if sp_active p then p\<lparr>sp_error := CannotLoadServers, sp_loading := False\<rparr> else p)"

section \<open>Handlers\<close>

definition start_server_task :: "server_task \<Rightarrow> api_call \<Rightarrow> servers_page \<Rightarrow> servers_page" where
  "start_server_task t call p = p\<lparr>sp_tasks := sp_tasks p @ [t], sp_sent := sp_sent p @ [call]\<rparr>"

definition server_event :: "string \<Rightarrow> servers_page \<Rightarrow> servers_page" where
  "server_event name p =
     (case hook_event name (sp_hook p) of None \<Rightarrow> p | Some _ \<Rightarrow> start_server_task EventRefresh listServers p)"

definition openDetail :: "web_server \<Rightarrow> servers_page \<Rightarrow> servers_page" where
  "openDetail s p = p\<lparr>sp_history := push_state (detail_path (sv_id s)) (sp_history p), sp_selected := Some (sv_id s),
     sp_notice := NoServerNotice, sp_action_error := NoActionAlert\<rparr>"

definition closeDetail :: "servers_page \<Rightarrow> servers_page" where
  "closeDetail p = p\<lparr>sp_history := push_state ''/servers'' (sp_history p), sp_selected := None, sp_confirmation := None\<rparr>"

text \<open>\<^verbatim>\<open>confirmAction\<close> in its three parts: up to the request, up to the refresh, and the end.\<close>

definition confirmAction :: "string \<Rightarrow> servers_page \<Rightarrow> servers_page" where
  "confirmAction uuid p =
     (case (selected_server p, sp_confirmation p) of
        (Some s, Some a) \<Rightarrow>
          start_server_task (PowerTask a) (requestPowerAction (sv_id s) a uuid)
            (p\<lparr>sp_submitting := True, sp_action_error := NoActionAlert\<rparr>)
      | _ \<Rightarrow> p)"

definition action_accepted :: "power_action \<Rightarrow> servers_page \<Rightarrow> servers_page" where
  "action_accepted a p = start_server_task (RefreshAfterPower a) listServers
     (p\<lparr>sp_confirmation := None, sp_notice := ActionQueued a\<rparr>)"

definition action_failed :: "power_action \<Rightarrow> servers_page \<Rightarrow> servers_page" where
  "action_failed a p = p\<lparr>sp_action_error := ActionRejected a, sp_submitting := False\<rparr>"

text \<open>The popup of a local VNC window is opened before its session is requested; \<open>blocked\<close> is the browser's answer.\<close>

definition handleConsole :: "bool \<Rightarrow> console_mode \<Rightarrow> servers_page \<Rightarrow> servers_page" where
  "handleConsole blocked mode p =
     (case selected_server p of
        None \<Rightarrow> p
      | Some s \<Rightarrow>
          (let q = p\<lparr>sp_action_error := NoActionAlert\<rparr>;
               type = map_option wc_provider_type (connection_by_id (sp_connections p) (sv_connection_id s))
           in (case mode of
                 ConsoleEmbedded \<Rightarrow> start_server_task (EmbedTask (sv_name s)) (createEmbeddedConsole (sv_id s)) q
               | ConsoleWindow \<Rightarrow>
                   (if usesLocalVNCWindow type
                    then if blocked then q\<lparr>sp_notice := AllowPopups\<rparr>
                         else start_server_task OpenWindowTask (createEmbeddedConsole (sv_id s)) q
                    else start_server_task OpenWindowTask (console_window_call (sv_id s)) q)
               | ConsolePortal \<Rightarrow> start_server_task OpenWindowTask (provider_portal_call (sv_id s)) q)))"

datatype server_answer = ServerList "web_server list" | ServerOK | SessionAnswered "json option" | WindowOpened bool | ServerRejected

fun resume_server :: "server_task \<Rightarrow> server_answer \<Rightarrow> servers_page \<Rightarrow> servers_page" where
  "resume_server EventRefresh (ServerList items) p = p\<lparr>sp_servers := items\<rparr>"
| "resume_server EventRefresh _ p = p\<lparr>sp_error := CannotRefreshServers\<rparr>"
| "resume_server (PowerTask a) ServerOK p = action_accepted a p"
| "resume_server (PowerTask a) _ p = action_failed a p"
| "resume_server (RefreshAfterPower a) (ServerList items) p = p\<lparr>sp_servers := items, sp_submitting := False\<rparr>"
| "resume_server (RefreshAfterPower a) _ p = action_failed a p"
| "resume_server (EmbedTask name) (SessionAnswered session) p = p\<lparr>sp_console := Some (name, session)\<rparr>"
| "resume_server (EmbedTask name) _ p = p\<lparr>sp_action_error := ConsoleUnavailable\<rparr>"
| "resume_server OpenWindowTask (WindowOpened opened) p = (if opened then p else p\<lparr>sp_notice := AllowPopups\<rparr>)"
| "resume_server OpenWindowTask _ p = p\<lparr>sp_action_error := ConsoleUnavailable\<rparr>"

section \<open>What is shown\<close>

datatype state_label = LabelStateRunning | LabelStateStopped | LabelStatePending | LabelStateStopping
  | LabelStateRebooting | LabelStateError | LabelStateUnknown | RawState string

definition state_word :: "string \<Rightarrow> state_label" where
  "state_word s =
     (if s = ''running'' then LabelStateRunning else if s = ''stopped'' then LabelStateStopped
      else if s = ''pending'' then LabelStatePending else if s = ''stopping'' then LabelStateStopping
      else if s = ''rebooting'' then LabelStateRebooting else if s = ''error'' then LabelStateError
      else if s = ''unknown'' then LabelStateUnknown else RawState s)"

record server_row =
  sr_name :: string
  sr_subtitle :: string
  sr_state :: state_label
  sr_scope :: "string option"
  sr_address :: "string option"

definition server_row :: "web_connection list \<Rightarrow> web_server \<Rightarrow> server_row" where
  "server_row cs s =
     \<lparr>sr_name = sv_name s,
      sr_subtitle = (case connection_by_id cs (sv_connection_id s) of None \<Rightarrow> sv_external_id s | Some c \<Rightarrow> wc_name c),
      sr_state = state_word (sv_state s),
      sr_scope = (if sv_scope s = [] then None else Some (sv_scope s)),
      sr_address = (case sv_addresses s of [] \<Rightarrow> None | (_, a) # _ \<Rightarrow> Some a)\<rparr>"

datatype server_list_view = LoadingServers | NoServers | NoMatchingServers | ServerRows "server_row list"

definition server_list_view :: "servers_page \<Rightarrow> server_list_view" where
  "server_list_view p =
     (if sp_loading p then LoadingServers
      else if sp_servers p = [] then NoServers
      else if visible_servers p = [] then NoMatchingServers
      else ServerRows (map (server_row (sp_connections p)) (visible_servers p)))"

datatype capability_chip = ChipStart | ChipStop | ChipReboot | ChipEmbed | ChipWindow | ChipPortal

definition capability_chips :: "web_server \<Rightarrow> capability_chip list" where
  "capability_chips s =
     map fst (filter snd [(ChipStart, available (sv_can_start s)), (ChipStop, available (sv_can_stop s)),
       (ChipReboot, available (sv_can_reboot s)), (ChipEmbed, available (sv_can_embed s)),
       (ChipWindow, available (sv_can_window s)), (ChipPortal, available (sv_has_portal s))])"

record detail_view =
  dt_name :: string
  dt_external_id :: string
  dt_state :: state_label
  dt_cpu :: "nat option"
  dt_memory_mb :: "nat option"
  dt_connection :: "string option"
  dt_provider_type :: "string option"
  dt_chips :: "capability_chip list"
  dt_addresses :: "(string \<times> string) list"
  dt_updated_at :: string
  dt_power :: "(power_action \<times> bool \<times> string option) list"
  dt_console :: "(console_mode \<times> bool \<times> string option) list"

text \<open>A button of the detail: enabled when the capability is available, with its reason as title.\<close>

definition capability_button :: "'b \<Rightarrow> web_capability option \<Rightarrow> 'b \<times> bool \<times> string option" where
  "capability_button b c = (b, available c, Option.bind c cap_explanation)"

definition detail_view :: "web_connection option \<Rightarrow> web_server \<Rightarrow> detail_view" where
  "detail_view c s =
     \<lparr>dt_name = sv_name s, dt_external_id = sv_external_id s, dt_state = state_word (sv_state s),
      dt_cpu = sv_cpu s, dt_memory_mb = (if sv_memory_mb s = Some 0 then None else sv_memory_mb s),
      dt_connection = map_option wc_name c, dt_provider_type = map_option wc_provider_type c,
      dt_chips = capability_chips s,
      dt_addresses = map (\<lambda>(t, a). (a, case t of None \<Rightarrow> ''address'' | Some k \<Rightarrow> k)) (sv_addresses s),
      dt_updated_at = sv_updated_at s,
      dt_power = map (\<lambda>a. capability_button a (power_capability a s)) [PowerStart, PowerStop, PowerReboot],
      dt_console = map (\<lambda>m. capability_button m (console_capability m s)) [ConsoleEmbedded, ConsoleWindow, ConsolePortal]\<rparr>"

record confirmation_view =
  cf_action :: power_action
  cf_server :: string
  cf_hard_reset_note :: bool
  cf_enabled :: bool

record servers_view =
  sw_count :: nat
  sw_filters :: filters
  sw_provider_types :: "string list"
  sw_connections :: "(string \<times> string) list"
  sw_error :: page_alert
  sw_notice :: server_notice
  sw_action_error :: action_alert
  sw_list :: server_list_view
  sw_detail :: "detail_view option"
  sw_confirmation :: "confirmation_view option"
  sw_console :: "(string \<times> json option) option"

definition servers_view :: "servers_page \<Rightarrow> servers_view" where
  "servers_view p =
     (let connection = (\<lambda>s. connection_by_id (sp_connections p) (sv_connection_id s))
      in \<lparr>sw_count = length (visible_servers p), sw_filters = sp_filters p,
          sw_provider_types = provider_types (sp_connections p),
          sw_connections = map (\<lambda>c. (wc_id c, wc_name c)) (connection_options p),
          sw_error = sp_error p, sw_notice = sp_notice p, sw_action_error = sp_action_error p,
          sw_list = server_list_view p,
          sw_detail = map_option (\<lambda>s. detail_view (connection s) s) (selected_server p),
          sw_confirmation =
            (case (selected_server p, sp_confirmation p) of
               (Some s, Some a) \<Rightarrow> Some \<lparr>cf_action = a, cf_server = sv_name s,
                  cf_hard_reset_note = (a = PowerReboot \<and> map_option wc_provider_type (connection s) = Some ''gcp''),
                  cf_enabled = (\<not> sp_submitting p)\<rparr>
             | _ \<Rightarrow> None),
          sw_console = sp_console p\<rparr>)"

section \<open>Runs\<close>

datatype server_page_event =
    ServersAnswered "(web_server list \<times> web_connection list) option"
  | EventReceived string
  | TypeQuery string | ChooseState string | ChooseProviderType string | ChooseConnection string
  | ClickDetail web_server | CloseClicked
  | ClickPower power_action | CancelConfirmation | ClickConfirm string
  | ClickConsole bool console_mode | CloseConsole
  | HistoryMoved history
  | ServerAnswer nat server_answer
  | ServersUnmount

text \<open>
  Buttons are events only while they are shown and enabled. \<open>HistoryMoved\<close> is the browser's Back or
  Forward: the page does not listen to it.
\<close>

fun servers_step :: "server_page_event \<Rightarrow> servers_page \<Rightarrow> servers_page" where
  "servers_step (ServersAnswered None) p = servers_load_failed p"
| "servers_step (ServersAnswered (Some (items, cs))) p = servers_loaded items cs p"
| "servers_step (EventReceived name) p = server_event name p"
| "servers_step (TypeQuery s) p = p\<lparr>sp_filters := (sp_filters p)\<lparr>fl_query := s\<rparr>\<rparr>"
| "servers_step (ChooseState s) p = p\<lparr>sp_filters := (sp_filters p)\<lparr>fl_state := s\<rparr>\<rparr>"
| "servers_step (ChooseProviderType s) p =
     p\<lparr>sp_filters := (sp_filters p)\<lparr>fl_provider_type := s, fl_connection := ''all''\<rparr>\<rparr>"
| "servers_step (ChooseConnection s) p = p\<lparr>sp_filters := (sp_filters p)\<lparr>fl_connection := s\<rparr>\<rparr>"
| "servers_step (ClickDetail s) p = (if s \<in> set (visible_servers p) then openDetail s p else p)"
| "servers_step CloseClicked p = (if selected_server p = None then p else closeDetail p)"
| "servers_step (ClickPower a) p =
     (case selected_server p of
        None \<Rightarrow> p
      | Some s \<Rightarrow> (if available (power_capability a s) then p\<lparr>sp_confirmation := Some a\<rparr> else p))"
| "servers_step CancelConfirmation p = p\<lparr>sp_confirmation := None\<rparr>"
| "servers_step (ClickConfirm uuid) p = (if sp_submitting p then p else confirmAction uuid p)"
| "servers_step (ClickConsole blocked mode) p =
     (case selected_server p of
        None \<Rightarrow> p
      | Some s \<Rightarrow> (if available (console_capability mode s) then handleConsole blocked mode p else p))"
| "servers_step CloseConsole p = p\<lparr>sp_console := None\<rparr>"
| "servers_step (HistoryMoved h) p = p\<lparr>sp_history := h\<rparr>"
| "servers_step (ServerAnswer i a) p =
     (if i < length (sp_tasks p)
      then resume_server (sp_tasks p ! i) a (p\<lparr>sp_tasks := take i (sp_tasks p) @ drop (Suc i) (sp_tasks p)\<rparr>)
      else p)"
| "servers_step ServersUnmount p = p\<lparr>sp_active := False, sp_hook := unmount_hook (sp_hook p)\<rparr>"

section \<open>Lemmas\<close>

text \<open>The address of a mounted page can be read: then a first load only fails when a request does.\<close>

definition readable_address :: "servers_page \<Rightarrow> bool" where
  "readable_address p \<longleftrightarrow> sp_active p \<and>
     (case direct_id (pathname (sp_history p)) of None \<Rightarrow> True | Some d \<Rightarrow> decodeURIComponent d \<noteq> None)"

lemma select_direct_readable:
  "readable_address p \<Longrightarrow> select_direct (pathname (sp_history p)) items current \<noteq> None"
  by (auto simp: readable_address_def select_direct_def split: option.splits)

lemma servers_loaded_readable:
  assumes "readable_address p"
  obtains sel where "servers_loaded items cs p =
    p\<lparr>sp_servers := items, sp_connections := cs, sp_loading := False, sp_selected := sel\<rparr>"
  using select_direct_readable [OF assms, of items "sp_selected p"] assms
  by (auto simp: servers_loaded_def readable_address_def Let_def)

lemma servers_loaded_fields [simp]:
  "sp_tasks (servers_loaded items cs p) = sp_tasks p" "sp_submitting (servers_loaded items cs p) = sp_submitting p"
  "sp_sent (servers_loaded items cs p) = sp_sent p"
  by (simp_all add: servers_loaded_def Let_def split: option.split)

interpretation servers: sticky_page readable_address sp_loading "\<lambda>p. (sp_servers p, sp_connections p)"
  "\<lambda>p. sp_error p \<noteq> NoAlert" "\<lambda>(items, cs). servers_loaded items cs" servers_load_failed
proof (unfold_locales, goal_cases)
  case (1 p xs)
  obtain items cs where xs: "xs = (items, cs)" by fastforce
  obtain sel where "servers_loaded items cs p =
    p\<lparr>sp_servers := items, sp_connections := cs, sp_loading := False, sp_selected := sel\<rparr>"
    by (rule servers_loaded_readable [OF 1])
  then show ?case using 1 by (simp add: xs readable_address_def)
next
  case (2 p)
  then show ?case by (simp add: readable_address_def servers_load_failed_def)
next
  case (3 p xs)
  obtain items cs where xs: "xs = (items, cs)" by fastforce
  obtain sel where "servers_loaded items cs p =
    p\<lparr>sp_servers := items, sp_connections := cs, sp_loading := False, sp_selected := sel\<rparr>"
    by (rule servers_loaded_readable [OF 3])
  then show ?case by (simp add: xs)
qed

definition power_task :: "server_task \<Rightarrow> bool" where
  "power_task t \<longleftrightarrow> (case t of PowerTask _ \<Rightarrow> True | RefreshAfterPower _ \<Rightarrow> True | _ \<Rightarrow> False)"

definition power_tasks :: "servers_page \<Rightarrow> nat" where
  "power_tasks p = length (filter power_task (sp_tasks p))"

definition servers_inv :: "servers_page \<Rightarrow> bool" where
  "servers_inv p \<longleftrightarrow> power_tasks p = (if sp_submitting p then 1 else 0)"

lemma start_server_fields [simp]:
  "power_tasks (start_server_task t c p) = power_tasks p + (if power_task t then 1 else 0)"
  "sp_submitting (start_server_task t c p) = sp_submitting p"
  "sp_sent (start_server_task t c p) = sp_sent p @ [c]"
  by (simp_all add: power_tasks_def start_server_task_def)

lemma power_update [simp]:
  "power_tasks (p\<lparr>sp_servers := a\<rparr>) = power_tasks p" "power_tasks (p\<lparr>sp_error := b\<rparr>) = power_tasks p"
  "power_tasks (p\<lparr>sp_submitting := c\<rparr>) = power_tasks p" "power_tasks (p\<lparr>sp_confirmation := d\<rparr>) = power_tasks p"
  "power_tasks (p\<lparr>sp_notice := e\<rparr>) = power_tasks p" "power_tasks (p\<lparr>sp_action_error := f\<rparr>) = power_tasks p"
  "power_tasks (p\<lparr>sp_console := g\<rparr>) = power_tasks p"
  by (simp_all add: power_tasks_def)

lemma power_remove:
  assumes "i < length (sp_tasks p)"
  shows "power_tasks p = power_tasks (p\<lparr>sp_tasks := take i (sp_tasks p) @ drop (Suc i) (sp_tasks p)\<rparr>)
    + (if power_task (sp_tasks p ! i) then 1 else 0)"
proof -
  have "sp_tasks p = take i (sp_tasks p) @ sp_tasks p ! i # drop (Suc i) (sp_tasks p)" by (rule id_take_nth_drop [OF assms])
  then have "filter power_task (sp_tasks p) = filter power_task (take i (sp_tasks p)) @ filter power_task (sp_tasks p ! i # drop (Suc i) (sp_tasks p))"
    by (metis filter_append)
  then show ?thesis by (simp add: power_tasks_def)
qed

lemma resume_server_inv:
  assumes "power_tasks p + (if power_task t then 1 else 0) = (if sp_submitting p then 1 else 0)"
  shows "servers_inv (resume_server t a p)"
  using assms
  by (cases "(t, a, p)" rule: resume_server.cases)
     (simp_all add: servers_inv_def power_task_def action_accepted_def action_failed_def split: if_splits)

lemma same_tasks_inv: "servers_inv p \<Longrightarrow> sp_tasks q = sp_tasks p \<Longrightarrow> sp_submitting q = sp_submitting p \<Longrightarrow> servers_inv q"
  by (simp add: servers_inv_def power_tasks_def)

lemma start_other_task_inv: "servers_inv p \<Longrightarrow> \<not> power_task t \<Longrightarrow> servers_inv (start_server_task t c p)"
  by (simp add: servers_inv_def)

lemma handleConsole_cases:
  obtains (same) "sp_tasks (handleConsole b m p) = sp_tasks p" "sp_submitting (handleConsole b m p) = sp_submitting p"
      "sp_sent (handleConsole b m p) = sp_sent p"
  | (started) t c where "handleConsole b m p = start_server_task t c (p\<lparr>sp_action_error := NoActionAlert\<rparr>)" "\<not> power_task t"
      "call_field c \<noteq> Some ''operation''"
proof (cases "selected_server p")
  case (Some s)
  let ?vnc = "usesLocalVNCWindow (map_option wc_provider_type (connection_by_id (sp_connections p) (sv_connection_id s)))"
  have fields: "call_field (createEmbeddedConsole i) \<noteq> Some ''operation''" "call_field (console_window_call i) \<noteq> Some ''operation''"
    "call_field (provider_portal_call i) \<noteq> Some ''operation''" for i
    by (simp_all add: createEmbeddedConsole_def console_window_call_def provider_portal_call_def post_call_def get_call_def)
  note eqs = handleConsole_def Some Let_def
  show ?thesis
  proof (cases m)
    case ConsoleEmbedded
    show ?thesis by (rule started [of "EmbedTask (sv_name s)" "createEmbeddedConsole (sv_id s)"])
      (simp_all add: eqs ConsoleEmbedded power_task_def fields)
  next
    case ConsoleWindow
    consider "?vnc" "b" | "?vnc" "\<not> b" | "\<not> ?vnc" by blast
    then show ?thesis
    proof cases
      case 1
      then show ?thesis by (intro same) (simp_all add: eqs ConsoleWindow)
    next
      case 2
      then show ?thesis by (intro started [of OpenWindowTask "createEmbeddedConsole (sv_id s)"])
        (simp_all add: eqs ConsoleWindow power_task_def fields)
    next
      case 3
      then show ?thesis by (intro started [of OpenWindowTask "console_window_call (sv_id s)"])
        (simp_all add: eqs ConsoleWindow power_task_def fields)
    qed
  next
    case ConsolePortal
    show ?thesis by (rule started [of OpenWindowTask "provider_portal_call (sv_id s)"])
      (simp_all add: eqs ConsolePortal power_task_def fields)
  qed
qed (use same in \<open>simp add: handleConsole_def\<close>)

lemma handleConsole_inv: "servers_inv p \<Longrightarrow> servers_inv (handleConsole b m p)"
proof (cases rule: handleConsole_cases [of b m p])
  case same
  assume "servers_inv p"
  then show ?thesis using same(1,2) by (rule same_tasks_inv)
next
  case (started t c)
  assume "servers_inv p"
  then have "servers_inv (p\<lparr>sp_action_error := NoActionAlert\<rparr>)" by (rule same_tasks_inv) simp_all
  then show ?thesis using started start_other_task_inv by simp
qed

lemma confirm_inv: "servers_inv p \<Longrightarrow> \<not> sp_submitting p \<Longrightarrow> servers_inv (confirmAction uuid p)"
proof (cases "selected_server p"; cases "sp_confirmation p")
  fix s a
  assume "servers_inv p" "\<not> sp_submitting p" "selected_server p = Some s" "sp_confirmation p = Some a"
  then show "servers_inv (confirmAction uuid p)"
    by (simp add: confirmAction_def servers_inv_def power_task_def)
qed (simp_all add: confirmAction_def)

lemma servers_step_inv:
  assumes inv: "servers_inv p" shows "servers_inv (servers_step ev p)"
proof (cases ev)
  case (ServersAnswered r)
  show ?thesis
    by (rule same_tasks_inv [OF inv]; cases r) (auto simp: ServersAnswered servers_load_failed_def)
next
  case (EventReceived name)
  then show ?thesis using inv start_other_task_inv [OF inv, of EventRefresh]
    by (simp add: server_event_def power_task_def split: option.split)
next
  case (ClickDetail s)
  show ?thesis by (rule same_tasks_inv [OF inv]) (auto simp: ClickDetail openDetail_def)
next
  case CloseClicked
  show ?thesis by (rule same_tasks_inv [OF inv]) (auto simp: CloseClicked closeDetail_def)
next
  case (ClickPower a)
  show ?thesis by (rule same_tasks_inv [OF inv]) (auto simp: ClickPower split: option.split)
next
  case (ClickConfirm uuid)
  then show ?thesis using confirm_inv [OF inv] inv by simp
next
  case (ClickConsole b m)
  then show ?thesis using handleConsole_inv [OF inv] inv by (simp split: option.split)
next
  case (ServerAnswer i a)
  show ?thesis
  proof (cases "i < length (sp_tasks p)")
    case True
    let ?q = "p\<lparr>sp_tasks := take i (sp_tasks p) @ drop (Suc i) (sp_tasks p)\<rparr>"
    have "power_tasks ?q + (if power_task (sp_tasks p ! i) then 1 else 0) = (if sp_submitting ?q then 1 else 0)"
      using power_remove [OF True] inv by (simp add: servers_inv_def)
    from resume_server_inv [OF this, of a] show ?thesis using ServerAnswer True by simp
  qed (use ServerAnswer inv in simp)
qed (use same_tasks_inv [OF inv] in simp_all)

lemma servers_mounted_inv: "servers_inv (servers_mounted supported h)"
  by (simp add: servers_inv_def servers_mounted_def power_tasks_def)

lemma servers_run_inv: "servers_inv p \<Longrightarrow> servers_inv (fold servers_step evs p)"
  by (induction evs arbitrary: p) (simp_all add: servers_step_inv)

lemma resume_server_sent: "sp_sent (resume_server t a p) = sp_sent p \<or> sp_sent (resume_server t a p) = sp_sent p @ [listServers]"
  by (cases "(t, a, p)" rule: resume_server.cases) (simp_all add: action_accepted_def action_failed_def)

section \<open>Properties\<close>

text \<open>
  A power request is only ever sent by confirming the dialog that is shown: for the server and
  action the dialog names, with the key made for this confirmation, and never while another power
  request of the page is in flight.
\<close>

lemma power_request_needs_confirmation:
  assumes "sp_sent (servers_step ev p) = sp_sent p @ [requestPowerAction i a k]"
  shows "ev = ClickConfirm k \<and>
    (\<exists>c s. sw_confirmation (servers_view p) = Some c \<and> cf_action c = a \<and> cf_enabled c \<and>
       selected_server p = Some s \<and> sv_id s = i \<and> cf_server c = sv_name s)"
proof -
  have list: "requestPowerAction i a k \<noteq> listServers"
    by (simp add: requestPowerAction_def listServers_def get_call_def)
  show ?thesis
  proof (cases ev)
    case (ServersAnswered r)
    then show ?thesis using assms by (cases r) (auto simp: servers_load_failed_def split: if_splits)
  next
    case (EventReceived name)
    then show ?thesis using assms list by (auto simp: server_event_def split: option.splits)
  next
    case (ClickPower b)
    then show ?thesis using assms by (auto split: option.splits if_splits)
  next
    case (ClickConfirm uuid)
    then show ?thesis
      using assms by (auto simp: confirmAction_def servers_view_def Let_def split: if_splits option.splits)
  next
    case (ClickConsole b m)
    have "call_field (requestPowerAction i a k) = Some ''operation''" by (simp add: requestPowerAction_def)
    then show ?thesis
      using assms ClickConsole by (cases rule: handleConsole_cases [of b m p]) (auto split: option.splits if_splits)
  next
    case (ServerAnswer j b)
    then show ?thesis
      using assms list resume_server_sent [of "sp_tasks p ! j" b "p\<lparr>sp_tasks := take j (sp_tasks p) @ drop (Suc j) (sp_tasks p)\<rparr>"]
      by (auto split: if_splits)
  qed (use assms in \<open>auto simp: openDetail_def closeDetail_def split: if_splits\<close>)
qed

definition sample_server :: web_server where
  "sample_server = \<lparr>sv_id = ''s 1'', sv_connection_id = ''c1'', sv_external_id = ''x1'', sv_scope = [], sv_name = ''web'',
     sv_state = ''running'', sv_cpu = None, sv_memory_mb = None, sv_addresses = [],
     sv_can_start = None, sv_can_stop = Some \<lparr>cap_offered = Some True, cap_explanation = None\<rparr>, sv_can_reboot = None,
     sv_can_embed = None, sv_can_window = None, sv_has_portal = None, sv_updated_at = ''t''\<rparr>"

definition sample_page :: servers_page where
  "sample_page = fold servers_step [ServersAnswered (Some ([sample_server], [])), ClickDetail sample_server, ClickPower PowerStop]
     (servers_mounted True \<lparr>back_paths = [], pathname = ''/servers'', forward_paths = []\<rparr>)"

theorem power_request_needs_confirmation_witness:
  "sp_sent (servers_step (ClickConfirm ''k1'') sample_page) = sp_sent sample_page @ [requestPowerAction ''s 1'' PowerStop ''k1''] \<and>
   (\<exists>c. sw_confirmation (servers_view sample_page) = Some c \<and> cf_action c = PowerStop)"
proof -
  have sent: "sp_sent (servers_step (ClickConfirm ''k1'') sample_page) = sp_sent sample_page @ [requestPowerAction ''s 1'' PowerStop ''k1'']"
    by code_simp
  show ?thesis using sent power_request_needs_confirmation [OF sent] by blast
qed

text \<open>
  C16. Whatever is clicked and in whatever order answers come, at most one power request (with the
  refresh that follows it) is in flight, and the button of a confirmation is disabled exactly while one is,
  so a confirmation that is clicked twice sends one request.
\<close>

theorem one_power_request_at_a_time:
  assumes "fold servers_step evs (servers_mounted supported h) = p"
  shows "length (filter (\<lambda>t. case t of PowerTask _ \<Rightarrow> True | RefreshAfterPower _ \<Rightarrow> True | _ \<Rightarrow> False) (sp_tasks p))
      = (if sp_submitting p then 1 else 0) \<and>
    (case sw_confirmation (servers_view p) of None \<Rightarrow> selected_server p = None \<or> sp_confirmation p = None
       | Some c \<Rightarrow> cf_enabled c = (\<not> sp_submitting p))"
proof -
  have "servers_inv p" using servers_run_inv [OF servers_mounted_inv] assms by blast
  moreover have "(\<lambda>t. case t of PowerTask _ \<Rightarrow> True | RefreshAfterPower _ \<Rightarrow> True | _ \<Rightarrow> False) = power_task"
    by (rule ext) (simp add: power_task_def split: server_task.split)
  ultimately show ?thesis
    by (auto simp: servers_inv_def power_tasks_def servers_view_def Let_def split: option.split)
qed

definition sample_clicks :: "server_page_event list" where
  "sample_clicks = [ServersAnswered (Some ([sample_server], [])), ClickDetail sample_server, ClickPower PowerStop,
     ClickConfirm ''k1'', ClickConfirm ''k2'']"

definition sample_clicked :: servers_page where
  "sample_clicked = fold servers_step sample_clicks (servers_mounted True \<lparr>back_paths = [], pathname = ''/servers'', forward_paths = []\<rparr>)"

theorem one_power_request_at_a_time_witness:
  "length (filter (\<lambda>t. case t of PowerTask _ \<Rightarrow> True | RefreshAfterPower _ \<Rightarrow> True | _ \<Rightarrow> False) (sp_tasks sample_clicked)) = 1"
proof -
  have "sp_submitting sample_clicked" by code_simp
  then show ?thesis using one_power_request_at_a_time [OF sample_clicked_def [symmetric]] by simp
qed

text \<open>
  The address of a server's detail is a link to it: whatever characters the id has, opening the detail
  sets an address from which a newly loaded page, once its inventory has that server, shows its detail
  again. (The empty id and the dot segments, which no path can carry, are excluded.)
\<close>

lemma detail_address_reopens_server:
  assumes "s \<in> set items" and "sv_id s \<notin> {[], ''.'', ''..''}" and "s \<in> set (visible_servers p)"
    and "sp_history (servers_step (ClickDetail s) p) = h"
  shows "sp_selected (servers_step (ServersAnswered (Some (items, cs))) (servers_mounted supported h)) = Some (sv_id s) \<and>
    sp_error (servers_step (ServersAnswered (Some (items, cs))) (servers_mounted supported h)) = NoAlert \<and>
    pathname h = ''/servers/'' @ encodeURIComponent (sv_id s)"
proof -
  have path: "pathname h = detail_path (sv_id s)"
    using assms location_of_detail [of "sv_id s"] by (auto simp: openDetail_def push_state_def)
  have direct: "direct_id (detail_path (sv_id s)) = Some (encodeURIComponent (sv_id s))"
    using encode_no_slash assms(2) by (simp add: direct_id_def detail_path_def starts_with_def)
  obtain t where t: "List.find (\<lambda>x. points (sv_id x) = points (sv_id s)) items = Some t" "sv_id t = sv_id s"
    using assms(1) by (cases "List.find (\<lambda>x. points (sv_id x) = points (sv_id s)) items")
      (auto simp: find_None_iff find_Some_iff)
  have "items \<noteq> []" using assms(1) by auto
  then have "select_direct (pathname h) items None = Some (Some (sv_id s))"
    using t by (simp add: select_direct_def path direct decode_encode del: points_inject)
  then show ?thesis using path by (simp add: servers_loaded_def servers_mounted_def detail_path_def)
qed

theorem detail_address_reopens_server_witness:
  "sp_selected (servers_step (ServersAnswered (Some ([sample_server], []))) (servers_mounted True
     (sp_history (servers_step (ClickDetail sample_server)
        (servers_step (ServersAnswered (Some ([sample_server], []))) (servers_mounted True \<lparr>back_paths = [], pathname = ''/servers'', forward_paths = []\<rparr>))))))
   = Some ''s 1''"
proof -
  have vis: "sample_server \<in> set (visible_servers (servers_step (ServersAnswered (Some ([sample_server], [])))
      (servers_mounted True \<lparr>back_paths = [], pathname = ''/servers'', forward_paths = []\<rparr>)))"
    by (simp add: servers_loaded_def servers_mounted_def select_direct_def direct_id_def starts_with_def visible_servers_def
        server_visible_def trim_by_def js_lower_def)
  show ?thesis
    using detail_address_reopens_server [OF _ _ vis refl, of "[sample_server]" "[]" True] by (simp add: sample_server_def)
qed

text \<open>
  When the server accepts a power request but the refresh of the list after it fails, the page says
  that submitting the action failed, although the operation was created; a new confirmation would
  use a new key.
\<close>

lemma accepted_action_reported_as_failed:
  assumes "i < length (sp_tasks p)" and "sp_tasks p ! i = PowerTask a"
    and "servers_step (ServerAnswer i ServerOK) p = q"
  shows "sp_notice q = ActionQueued a \<and> last (sp_tasks q) = RefreshAfterPower a \<and>
    (let r = servers_step (ServerAnswer (length (sp_tasks q) - 1) ServerRejected) q
     in sp_action_error r = ActionRejected a \<and> sp_notice r = ActionQueued a \<and> \<not> sp_submitting r)"
proof -
  define ts where "ts = take i (sp_tasks p) @ drop (Suc i) (sp_tasks p)"
  have q: "sp_tasks q = ts @ [RefreshAfterPower a]" "sp_notice q = ActionQueued a"
    using assms by (auto simp: action_accepted_def start_server_task_def ts_def)
  then show ?thesis by (simp add: action_failed_def Let_def)
qed

theorem accepted_action_reported_as_failed_witness:
  "sp_notice (servers_step (ServerAnswer 0 ServerOK) (servers_step (ClickConfirm ''k1'') sample_page)) = ActionQueued PowerStop"
proof -
  have "sp_tasks (servers_step (ClickConfirm ''k1'') sample_page) = [PowerTask PowerStop]" by code_simp
  then show ?thesis using accepted_action_reported_as_failed [OF _ _ refl, of 0 "servers_step (ClickConfirm ''k1'') sample_page"] by simp
qed

text \<open>
  The browser's Back out of an opened detail leaves it open: the page keeps the selected server while
  the address is the one from before, which a newly loaded page would show without a detail.
\<close>

lemma back_leaves_detail_open:
  assumes "s \<in> set (visible_servers p)" and "pathname (sp_history p) = ''/servers''"
    and "servers_step (ClickDetail s) p = q" and "servers_step (HistoryMoved (go_back (sp_history q))) q = r"
  shows "pathname (sp_history r) = ''/servers'' \<and> selected_server r \<noteq> None \<and>
    sp_selected (servers_step (ServersAnswered (Some (items, cs))) (servers_mounted supported (sp_history r))) = None"
proof -
  have sel: "sp_selected r = Some (sv_id s)" "sp_servers r = sp_servers p" "pathname (sp_history r) = ''/servers''"
    using assms by (auto simp: openDetail_def go_back_def push_state_def)
  have "s \<in> set (sp_servers p)" using assms(1) by (simp add: visible_servers_def)
  then have "find_by sv_id (sv_id s) (sp_servers p) \<noteq> None" by (auto simp: table_simps simp del: not_None_eq)
  then show ?thesis
    using sel by (auto simp: selected_server_def servers_loaded_def servers_mounted_def select_direct_def direct_id_def
        starts_with_def Let_def)
qed

definition sample_list :: servers_page where
  "sample_list = servers_step (ServersAnswered (Some ([sample_server], [])))
     (servers_mounted True \<lparr>back_paths = [], pathname = ''/servers'', forward_paths = []\<rparr>)"

theorem back_leaves_detail_open_witness:
  "selected_server (servers_step (HistoryMoved (go_back (sp_history (servers_step (ClickDetail sample_server) sample_list))))
     (servers_step (ClickDetail sample_server) sample_list)) \<noteq> None"
proof -
  have "sample_server \<in> set (visible_servers sample_list)" "pathname (sp_history sample_list) = ''/servers''"
    by (simp_all add: sample_list_def servers_loaded_def servers_mounted_def select_direct_def direct_id_def starts_with_def
        visible_servers_def server_visible_def trim_by_def js_lower_def)
  then show ?thesis using back_leaves_detail_open [OF _ _ refl refl] by blast
qed

section \<open>Links that open in a new window\<close>

text \<open>What \<^verbatim>\<open>handleConsole\<close> does with the promise of the window.\<close>

definition window_answer :: "bool promise \<Rightarrow> server_answer" where
  "window_answer r = (case r of Fulfilled opened \<Rightarrow> WindowOpened opened | _ \<Rightarrow> ServerRejected)"

text \<open>
  A window that opened is reported as blocked. \<^verbatim>\<open>window.open\<close> gives \<^verbatim>\<open>null\<close> whenever its features ask for
  \<^verbatim>\<open>noopener\<close>, as the calls of the console and portal links do; so for every link the server
  answers with, whether or not the window came, the page ends with the notice that the popup may have
  been blocked, and never without one.
\<close>

lemma opened_window_is_reported_as_blocked:
  assumes "\<And>url features. js_includes features ''noopener'' \<Longrightarrow> \<not> window_open url features"
    and "i < length (sp_tasks p)" and "sp_tasks p ! i = OpenWindowTask" and "target \<noteq> JNull"
  shows "sp_notice (servers_step (ServerAnswer i (window_answer (open_external to_text window_open (Fulfilled (Some target))))) p) = AllowPopups"
proof -
  have "js_includes ''noopener,noreferrer'' ''noopener''" by code_simp
  then have "\<not> window_open url ''noopener,noreferrer''" for url by (rule assms(1))
  then have "open_external to_text window_open (Fulfilled (Some target)) = Fulfilled False"
    using assms(4) by (auto simp: open_external_def split: option.splits json.splits)
  then show ?thesis using assms(2,3) by (simp add: window_answer_def)
qed

theorem opened_window_is_reported_as_blocked_witness:
  "sp_notice (servers_step (ServerAnswer 0 (window_answer (open_external (\<lambda>_. []) (\<lambda>_ features. \<not> js_includes features ''noopener'')
     (Fulfilled (Some (JObj [(''url'', JStr ''https://portal.test'')])))))) (sample_page\<lparr>sp_tasks := [OpenWindowTask]\<rparr>)) = AllowPopups"
  by (rule opened_window_is_reported_as_blocked) simp_all

end
