(* ===== verification/Spec2Isabelle.thy ===== *)
theory Spec2Isabelle
  imports Prelude GoTime EventBroker JobQueue ProviderModel JobWorker InventoryModel OpStore OpService OpExecutor
    ConsolePolicy ConsoleSessions PasswordHash AuthService BrowserSession EventStream
    ConnectionService ProviderRegistry InventorySync WireTypes TimeText BackupArchive BackupService CredentialKeys
    WebText WebClient WebAuth WebShell WebConsole WebPage WebConnections WebOperations WebBackups WebServers
begin

text \<open>
  NodeAtlas is a self-hosted panel for servers of several providers: a web client (TypeScript and React, under
  \<^verbatim>\<open>src/web\<close>) and one Go process (\<^verbatim>\<open>src/internal\<close>) with an SQL database, a background worker and clients
  of the providers. The user signs in, sees the servers the inventory knows, asks for power
  operations, opens consoles, and follows what happens through a stream of events.

  \<^bold>\<open>The parts and how they interact.\<close>
  A page calls \<^verbatim>\<open>apiRequest\<close>, which adds the CSRF token of the cookie; the server authenticates the session, checks
  origin and token, and passes the request on. A power request creates a row of the operations table and a job in
  one call of the operations service; the worker leases the job, the executor drives the operation to a final status
  against the provider, and every change is published to the event broker, whose subscribers are the
  event streams of open pages, which then load their lists again. A console is a row with the hash of a one-time
  ticket and a target kept in memory; the page's socket presents the ticket and the gateway connects it to the target.
  A backup is the nine logical tables as text, sealed with a passphrase, in a file whose row holds its digest; a restore
  replaces those tables in one transaction, after a safety backup.

  \<^bold>\<open>Theories and sources.\<close>
  Prelude: tables as lists of rows, JSON values, the text functions shared by all. GoTime: times, the text SQLite
  stores them as, and the order each database compares them by.
  EventBroker: \<^verbatim>\<open>events/broker.go\<close>. EventStream: \<^verbatim>\<open>events/http.go\<close>, the stream parser of the browser, and the
  hook \<^verbatim>\<open>useServerEvents.ts\<close>.
  JobQueue, JobWorker: \<^verbatim>\<open>jobs\<close>. ProviderModel, InventoryModel: the data of \<^verbatim>\<open>providers/provider.go\<close> and the part of
  \<^verbatim>\<open>inventory\<close> that operations use. OpStore, OpService, OpExecutor: \<^verbatim>\<open>operations\<close> (repository; service and HTTP;
  executor, with the dispatch of \<^verbatim>\<open>app/app.go\<close>) and \<^verbatim>\<open>audit\<close>.
  ConsolePolicy, ConsoleSessions: \<^verbatim>\<open>console\<close> (address policy and dialling; sessions, service, gateway).
  ConnectionService, ProviderRegistry: \<^verbatim>\<open>connections\<close> and the registry of \<^verbatim>\<open>providers\<close>. InventorySync: the synchronisation, the list
  and the HTTP handlers of \<^verbatim>\<open>inventory\<close>. PasswordHash, AuthService: \<^verbatim>\<open>auth\<close>. BrowserSession: the cookies of a login, the client and the checks together.
  TimeText: the text of a stored time is read back. BackupArchive: \<^verbatim>\<open>backup/archive.go\<close> and \<^verbatim>\<open>snapshot.go\<close>, the export of all tables as text
  and their restoration. BackupService: envelope, service, table, activity check and HTTP handlers of \<^verbatim>\<open>backup\<close>.
  CredentialKeys: the credential keys of \<^verbatim>\<open>config/config.go\<close> and the cipher of \<^verbatim>\<open>secrets\<close>, put into the connections service.
  WebText, WebClient: JavaScript strings, \<^verbatim>\<open>api/client.ts\<close> and the request functions. WebAuth, WebShell:
  \<^verbatim>\<open>auth\<close> and \<^verbatim>\<open>app\<close> of the client. WebPage: what the list pages share. WebServers, WebConnections, WebOperations,
  WebBackups: the four pages. WebConsole: the console windows and clients of \<^verbatim>\<open>web/src/console\<close>. WireTypes: the
  types the client gives to the answers, and the documents the backend writes.

  \<^bold>\<open>How state and operations correspond.\<close>
  A table is the list of its rows; a repository method is a function on it that also gets whether the driver
  fails, and the constraints of the schema are conditions of the insertion. A struct is a record, an error a
  constructor of a sum. The environment of a call (clock, generated ids, random bytes, what a provider or resolver
  answers, which statement fails) is a record given to the function, so every branch can be reached. A component
  of the web client is a record of its state with one function per handler and effect; a promise
  is a task in a list and an event says which task is answered and how, so answers come in any order and after
  anything. Concurrent requests of the console, and the two halves of a login, are steps of an
  interleaved run.

  \<^bold>\<open>What the lemmas show.\<close>
  Storage: the rows stay well-formed under every sequence of calls, status changes follow the table of transitions, one
  operation in progress per server, idempotency keys replay. Execution: a job ends together with its operation, the command
  is sent at most once, polling is bounded. Queue: which job is leased and by whom it may be ended. Events: what is
  published reaches the page, and when it does not. Sign-in: expiry, single administrator, passwords, forged
  requests (of pages whose origin is not the panel's, as browsers send them), the life of the cookies. Inventory: stored connections stay usable while keys rotate and their credentials are bound to them, a deleted one stays deleted, a
  synchronisation shows exactly what the provider announced. Console: a ticket opens one connection to the checked target, only approved
  addresses are dialled. Backups: what was created opens and validates later, a restored database exports what was restored (on MySQL
  with times rounded to the microseconds its columns hold), a restore is all or nothing. Pages: flags such as loading and submitting track the requests under way, requests need
  their confirmation, the console session reaches only the window that was opened for it.
  Interfaces are locales interpreted on the model: \<open>event_sink\<close> (broker for its publishers), \<open>column_order\<close> (stored
  times for their readers), \<open>lease_end\<close>, \<open>job_handler\<close> (dispatch for the worker), \<open>operation_store\<close> (repository
  for service and executor), \<open>list_page\<close> with its two extensions, \<open>sort_order\<close> (lists sorted by insertion).

  \<^bold>\<open>Bounds and fuel.\<close>
  \<open>verify_loop\<close> runs until its deadline: its termination is proved, and \<open>verification_polls_bounded\<close> bounds the polls by the
  timeout over the interval. \<open>list_pages\<close> counts down the 1000 pages that are the limit of the code itself; running out
  is the error that the code reports. Nothing else needs fuel. Times are natural numbers of nanoseconds
  since an epoch before every stored time; ids of events are 64-bit words. IP addresses are lists of 8-bit words.

  \<^bold>\<open>Simplifications.\<close>
  A call of the connections or the operations service and a restore run as one step: other requests come before or after them, not
  between their statements (a restore has a place for writes before its lock). \<^verbatim>\<open>TrimSpace\<close>, \<^verbatim>\<open>ToLower\<close> and \<^verbatim>\<open>EqualFold\<close> are those of
  ASCII text. Job payloads and stored capabilities, which the program writes itself, are decoded by the exact names of
  their fields. The keys of a server are compared exactly, as SQLite does; the collation of MySQL ignores case. The states of a server are
  the eight words the providers use.

  \<^bold>\<open>Not modelled.\<close>
  Provider clients, cryptography (Argon2, scrypt, SHA-256, AES-GCM: parameters), the settings other than the credential keys,
  migrations, routing by chi and the wiring of the process: libraries, I/O or glue. The copying of bytes between
  console sockets. The scanning of database rows into structs: a value that cannot be parsed counts as a fault (how the text of a time is parsed is in TimeText).
  Of the client: styles, texts and markup beyond what the views here name, the noVNC and xterm packages, build options.
\<close>

end
